(* ===== verification/Prelude.thy ===== *)
theory Prelude
  imports
    Main
    "HOL-Library.Word"
    "HOL-Library.AList"
    "HOL-Library.Multiset"
    "HOL-Library.Char_ord"
    "HOL-Library.List_Lexorder"
begin

text \<open>
  The parts of Go and of its standard library that every component uses: instants and durations
  of package \<open>time\<close>, 64-bit integers, byte strings, maps keyed by strings, and
  \<open>slices.SortFunc\<close>. The collections declared here gather the facts the component proofs hand
  to the simplifier.
\<close>

named_theorems go_time
  \<comment> \<open>definitions of the operations of package time\<close>

named_theorems op_defs
  \<comment> \<open>definitions of the program's operations, unfolded by the functional lemmas\<close>

named_theorems keeps_inv
  \<comment> \<open>every operation keeps the invariant of its component\<close>

section \<open>Integers\<close>

text \<open>Go's \<open>int\<close> and \<open>int64\<close> are 64 bits wide and wrap around.\<close>

definition int64 :: "int \<Rightarrow> int" where
  "int64 x = sint (word_of_int x :: 64 word)"

lemma int64_id: "- (2 ^ 63) \<le> x \<Longrightarrow> x < 2 ^ 63 \<Longrightarrow> int64 x = x"
  by (simp add: int64_def sint_sbintrunc' signed_take_bit_int_eq_self)

lemma int64_range: "- (2 ^ 63) \<le> int64 x \<and> int64 x < 2 ^ 63"
  using sint_ge [of "word_of_int x :: 64 word"] sint_lt [of "word_of_int x :: 64 word"]
  by (simp add: int64_def)

section \<open>Instants and durations\<close>

text \<open>
  A \<open>time.Time\<close> is the number of nanoseconds since Go's zero time (1 January of year 1, UTC), so
  the zero value of the type is 0. A \<open>time.Duration\<close> is a number of nanoseconds, kept inside
  64 bits.
\<close>

type_synonym time = int
type_synonym duration = int

abbreviation (input) zero_time :: time where "zero_time \<equiv> 0"
abbreviation (input) Second :: duration where "Second \<equiv> 1000000000"
abbreviation (input) Minute :: duration where "Minute \<equiv> 60 * 1000000000"
abbreviation (input) Hour :: duration where "Hour \<equiv> 3600 * 1000000000"

definition IsZero :: "time \<Rightarrow> bool" where
  [go_time]: "IsZero t \<longleftrightarrow> t = zero_time"

definition Before :: "time \<Rightarrow> time \<Rightarrow> bool" where
  [go_time]: "Before t u \<longleftrightarrow> t < u"

definition After :: "time \<Rightarrow> time \<Rightarrow> bool" where
  [go_time]: "After t u \<longleftrightarrow> u < t"

definition time_Compare :: "time \<Rightarrow> time \<Rightarrow> int" where
  [go_time]: "time_Compare t u = (if t < u then -1 else if u < t then 1 else 0)"

definition time_Add :: "time \<Rightarrow> duration \<Rightarrow> time" where
  [go_time]: "time_Add t d = t + d"

text \<open>\<open>Sub\<close> saturates at the ends of the 64-bit range.\<close>

definition time_Sub :: "time \<Rightarrow> time \<Rightarrow> duration" where
  [go_time]: "time_Sub t u = max (- (2 ^ 63)) (min (2 ^ 63 - 1) (t - u))"

text \<open>\<open>Truncate(time.Second)\<close> rounds down to a whole second since the zero time.\<close>

definition Truncate_Second :: "time \<Rightarrow> time" where
  [go_time]: "Truncate_Second t = t - t mod Second"

lemma Truncate_Second_idem [simp]: "Truncate_Second (Truncate_Second t) = Truncate_Second t"
  by (simp add: Truncate_Second_def mod_diff_eq [symmetric])

lemma Truncate_Second_bounds: "Truncate_Second t \<le> t \<and> t < Truncate_Second t + Second"
  using pos_mod_sign [of Second t] pos_mod_bound [of Second t]
  by (simp add: Truncate_Second_def)

section \<open>Strings\<close>

text \<open>A Go string is a sequence of bytes: \<open>len\<close> counts bytes and \<open><\<close> compares bytewise.\<close>

definition strings_Compare :: "string \<Rightarrow> string \<Rightarrow> int" where
  "strings_Compare a b = (if a < b then -1 else if b < a then 1 else 0)"

lemma strings_Compare_le: "strings_Compare a b \<le> 0 \<longleftrightarrow> a \<le> b"
  by (auto simp: strings_Compare_def)

lemma strings_Compare_0 [simp]: "strings_Compare a b = 0 \<longleftrightarrow> a = b"
  by (auto simp: strings_Compare_def)

text \<open>\<open>strconv.Itoa\<close>, and the \<open>%d\<close> verb: the decimal digits, most significant first.\<close>

definition digit_char :: "nat \<Rightarrow> char" where
  "digit_char d = char_of (48 + d)"

fun nat_digits :: "nat \<Rightarrow> string" where
  "nat_digits n =
     (if n < 10 then [digit_char n] else nat_digits (n div 10) @ [digit_char (n mod 10)])"

declare nat_digits.simps [simp del]

definition Itoa :: "int \<Rightarrow> string" where
  "Itoa i = (if i < 0 then CHR ''-'' # nat_digits (nat (- i)) else nat_digits (nat i))"

definition is_digit :: "char \<Rightarrow> bool" where
  "is_digit c \<longleftrightarrow> 48 \<le> (of_char c :: nat) \<and> (of_char c :: nat) \<le> 57"

lemma of_char_digit_char [simp]: "d < 10 \<Longrightarrow> (of_char (digit_char d) :: nat) = 48 + d"
  by (simp add: digit_char_def)

lemma digit_char_numeral [simp]:
  "digit_char 0 = CHR ''0''" "digit_char 1 = CHR ''1''" "digit_char (Suc 0) = CHR ''1''"
  "digit_char 2 = CHR ''2''" "digit_char 3 = CHR ''3''" "digit_char 4 = CHR ''4''"
  "digit_char 5 = CHR ''5''" "digit_char 6 = CHR ''6''" "digit_char 7 = CHR ''7''"
  "digit_char 8 = CHR ''8''" "digit_char 9 = CHR ''9''"
  by (simp_all add: digit_char_def char_of_def bit_0)

lemma digit_char_inj: "d < 10 \<Longrightarrow> e < 10 \<Longrightarrow> digit_char d = digit_char e \<longleftrightarrow> d = e"
  by (metis add_left_cancel of_char_digit_char)

lemma nat_digits_all_digits: "c \<in> set (nat_digits n) \<Longrightarrow> is_digit c"
proof (induction n rule: nat_digits.induct)
  case (1 n)
  then show ?case
    by (subst (asm) nat_digits.simps [of n]) (auto simp: is_digit_def split: if_splits)
qed

lemma nat_digits_not_Nil [simp]: "nat_digits n \<noteq> []"
  by (subst nat_digits.simps) simp

lemma nat_digits_inj: "nat_digits m = nat_digits n \<Longrightarrow> m = n"
proof (induction m arbitrary: n rule: nat_digits.induct)
  case (1 m)
  have eq: "nat_digits m = nat_digits n" by (rule "1.prems")
  show ?case
  proof (cases "m < 10"; cases "n < 10")
    assume "m < 10" "n < 10"
    with eq show ?thesis
      by (simp add: nat_digits.simps [of m] nat_digits.simps [of n] digit_char_inj)
  next
    assume "m < 10" "\<not> n < 10"
    with eq have "nat_digits (n div 10) = []"
      by (simp add: nat_digits.simps [of m] nat_digits.simps [of n])
    then show ?thesis by simp
  next
    assume "\<not> m < 10" "n < 10"
    with eq show ?thesis by (simp add: nat_digits.simps [of m] nat_digits.simps [of n])
  next
    assume *: "\<not> m < 10" "\<not> n < 10"
    with eq have "nat_digits (m div 10) = nat_digits (n div 10)"
      and d: "digit_char (m mod 10) = digit_char (n mod 10)"
      by (simp_all add: nat_digits.simps [of m] nat_digits.simps [of n])
    then have "m div 10 = n div 10" using "1.IH" * by blast
    moreover have "m mod 10 = n mod 10" using d by (simp add: digit_char_inj)
    ultimately show ?thesis by (metis div_mult_mod_eq)
  qed
qed

section \<open>Maps keyed by strings\<close>

text \<open>
  A Go \<open>map[string]V\<close> is an association list with distinct keys. The order of the list stands for
  the order in which \<open>range\<close> visits the map, which Go leaves open; what must not depend on it is
  proved not to. \<open>m[k]\<close> is \<open>map_of m k\<close>, \<open>m[k] = v\<close> is \<open>AList.update k v m\<close> and
  \<open>delete(m, k)\<close> is \<open>AList.delete k m\<close>.
\<close>

type_synonym 'v gomap = "(string \<times> 'v) list"

abbreviation keys :: "'v gomap \<Rightarrow> string list" where "keys m \<equiv> map fst m"
abbreviation vals :: "'v gomap \<Rightarrow> 'v list" where "vals m \<equiv> map snd m"

abbreviation gomap_ok :: "'v gomap \<Rightarrow> bool" where "gomap_ok m \<equiv> distinct (keys m)"

lemma map_of_gomap_update [simp]: "map_of (AList.update k v m) k' = (if k' = k then Some v else map_of m k')"
  by (simp add: update_conv')

lemma map_of_gomap_delete [simp]: "map_of (AList.delete k m) k' = (if k' = k then None else map_of m k')"
  by (simp add: delete_conv')

lemma gomap_ok_update [simp, intro]: "gomap_ok m \<Longrightarrow> gomap_ok (AList.update k v m)"
  by (rule distinct_update)

lemma gomap_ok_delete [simp, intro]: "gomap_ok m \<Longrightarrow> gomap_ok (AList.delete k m)"
  by (rule distinct_delete)

lemma in_gomap_iff: "gomap_ok m \<Longrightarrow> (k, v) \<in> set m \<longleftrightarrow> map_of m k = Some v"
  by auto

lemma in_update_iff:
  "gomap_ok m \<Longrightarrow>
   (k', v') \<in> set (AList.update k v m) \<longleftrightarrow> (if k' = k then v' = v else (k', v') \<in> set m)"
  using in_gomap_iff [of "AList.update k v m" k' v'] in_gomap_iff [of m k' v']
  by (simp del: map_of_eq_Some_iff) auto

lemma in_delete_iff:
  "gomap_ok m \<Longrightarrow> (k', v') \<in> set (AList.delete k m) \<longleftrightarrow> k' \<noteq> k \<and> (k', v') \<in> set m"
  using in_gomap_iff [of "AList.delete k m" k' v'] in_gomap_iff [of m k' v']
  by (simp del: map_of_eq_Some_iff)

lemma vals_conv: "gomap_ok m \<Longrightarrow> v \<in> set (vals m) \<longleftrightarrow> (\<exists>k. map_of m k = Some v)"
  by (force simp: in_gomap_iff [symmetric])

lemma find_known: "x \<in> set xs \<Longrightarrow> P x \<Longrightarrow> find P xs \<noteq> None"
  by (auto simp: find_None_iff)

lemma length_update_new [simp]: "map_of r k = None \<Longrightarrow> length (AList.update k v r) = Suc (length r)"
  by (induction r) auto

section \<open>slices.SortFunc\<close>

text \<open>
  Go sorts with an unspecified algorithm; the model inserts one element after the other. The
  comparator locale shows that this is no choice at all: wherever the comparator orders the elements
  totally, every sorted rearrangement of them is the same list.
\<close>

fun insert_by :: "('a \<Rightarrow> 'a \<Rightarrow> int) \<Rightarrow> 'a \<Rightarrow> 'a list \<Rightarrow> 'a list" where
  "insert_by cmp x [] = [x]"
| "insert_by cmp x (y # ys) = (if cmp x y \<le> 0 then x # y # ys else y # insert_by cmp x ys)"

definition SortFunc :: "('a \<Rightarrow> 'a \<Rightarrow> int) \<Rightarrow> 'a list \<Rightarrow> 'a list" where
  "SortFunc cmp xs = foldr (insert_by cmp) xs []"

lemma mset_insert_by [simp]: "mset (insert_by cmp x ys) = add_mset x (mset ys)"
  by (induction ys) auto

lemma SortFunc_simps [simp]:
  "SortFunc cmp [] = []"
  "SortFunc cmp (x # xs) = insert_by cmp x (SortFunc cmp xs)"
  by (simp_all add: SortFunc_def)

lemma mset_SortFunc [simp]: "mset (SortFunc cmp xs) = mset xs"
  by (induction xs) auto

lemma set_SortFunc [simp]: "set (SortFunc cmp xs) = set xs"
  by (metis mset_SortFunc set_mset_mset)

lemma length_SortFunc [simp]: "length (SortFunc cmp xs) = length xs"
  by (metis mset_SortFunc size_mset)

locale comparator =
  fixes cmp :: "'a \<Rightarrow> 'a \<Rightarrow> int" and A :: "'a set"
  assumes cmp_total: "x \<in> A \<Longrightarrow> y \<in> A \<Longrightarrow> cmp x y \<le> 0 \<or> cmp y x \<le> 0"
    and cmp_trans: "x \<in> A \<Longrightarrow> y \<in> A \<Longrightarrow> z \<in> A \<Longrightarrow> cmp x y \<le> 0 \<Longrightarrow> cmp y z \<le> 0 \<Longrightarrow> cmp x z \<le> 0"
begin

abbreviation cmp_sorted :: "'a list \<Rightarrow> bool" where
  "cmp_sorted \<equiv> sorted_wrt (\<lambda>x y. cmp x y \<le> 0)"

lemma insert_by_sorted:
  "x \<in> A \<Longrightarrow> set ys \<subseteq> A \<Longrightarrow> cmp_sorted ys \<Longrightarrow> cmp_sorted (insert_by cmp x ys)"
proof (induction ys)
  case Nil
  then show ?case by simp
next
  case (Cons y ys)
  have sub: "set (insert_by cmp x ys) = insert x (set ys)"
    by (metis mset_insert_by set_mset_add_mset_insert set_mset_mset)
  show ?case
  proof (cases "cmp x y \<le> 0")
    case True
    with Cons.prems show ?thesis by (auto intro: cmp_trans [of x y])
  next
    case False
    then have "cmp y x \<le> 0" using Cons.prems(1,2) cmp_total by auto
    with False Cons show ?thesis by (auto simp: sub)
  qed
qed

lemma SortFunc_sorted: "set xs \<subseteq> A \<Longrightarrow> cmp_sorted (SortFunc cmp xs)"
  by (induction xs) (auto intro!: insert_by_sorted)

end

locale total_comparator = comparator +
  assumes cmp_antisym: "x \<in> A \<Longrightarrow> y \<in> A \<Longrightarrow> cmp x y \<le> 0 \<Longrightarrow> cmp y x \<le> 0 \<Longrightarrow> x = y"
begin

lemma sorted_unique:
  "set xs \<subseteq> A \<Longrightarrow> cmp_sorted xs \<Longrightarrow> cmp_sorted ys \<Longrightarrow> mset xs = mset ys \<Longrightarrow> xs = ys"
proof (induction xs arbitrary: ys)
  case Nil
  then show ?case by simp
next
  case (Cons x xs)
  then obtain y ys' where ys: "ys = y # ys'"
    by (metis list.exhaust mset.simps(1) mset_zero_iff)
  have set_eq: "set (x # xs) = set (y # ys')"
    using Cons.prems(4) ys by (metis mset_eq_setD)
  have "cmp x y \<le> 0 \<or> x = y" using Cons.prems set_eq ys by auto
  moreover have "cmp y x \<le> 0 \<or> x = y" using Cons.prems set_eq ys by auto
  moreover have "x \<in> A" "y \<in> A" using Cons.prems(1) set_eq by auto
  ultimately have "x = y" using cmp_antisym by blast
  moreover have "xs = ys'"
    using Cons.prems ys \<open>x = y\<close> by (intro Cons.IH) auto
  ultimately show ?case using ys by simp
qed

text \<open>Whatever order the elements are met in, sorting them gives the same list.\<close>

lemma SortFunc_order_free: "set xs \<subseteq> A \<Longrightarrow> mset xs = mset ys \<Longrightarrow> SortFunc cmp xs = SortFunc cmp ys"
  by (rule sorted_unique) (auto intro!: SortFunc_sorted dest: mset_eq_setD)

end

interpretation string_order: total_comparator strings_Compare UNIV
  by unfold_locales (auto simp: strings_Compare_le)

end
