(* ===== verification/Errors.thy ===== *)
theory Errors
  imports Prelude
begin

text \<open>
  The sentinel errors of the packages \<open>domain\<close>, \<open>repository\<close>, \<open>service\<close>, \<open>auth\<close> and
  \<open>handler\<close>, and the way they are wrapped and recognised. A value \<open>fmt.Errorf("%w: text", err)\<close>
  is \<open>Wrapf ''text'' [err]\<close>: the fixed words of the message and the errors it wraps, in order; the
  values formatted into the message are left out, since nothing in the program branches on them. An
  error that code outside the repository produced is \<open>Opaque\<close>.
\<close>

datatype domain_error =
    ErrSeatNotAvailable | ErrSeatNotHeld | ErrHoldExpired | ErrNotHoldOwner | ErrEmptyUserID
  | ErrEmptyHoldID | ErrEmptyTicketCode | ErrEmptyEventID | ErrEmptyEntryID
  | ErrInvalidHoldDuration | ErrUnknownSeatStatus | ErrUnknownRole | ErrUnknownCategory
  | ErrUnknownNotificationKind | ErrUnknownDeliveryChannel | ErrEmptySubscriptionID
  | ErrEmptyVerificationToken | ErrVerificationNotUsable | ErrEmailNotVerified
  | ErrInvalidPushSubscription | ErrEmptyNotificationID | ErrNotPermitted | ErrInvalidEvent
  | ErrEventCancelled | ErrEventAlreadyCancelled | ErrInvalidSeatMap | ErrInvalidEmail
  | ErrWeakPassword

datatype repository_error =
    ErrEventNotFound | ErrEventExists | ErrEventInUse | ErrSeatNotFound | ErrHoldNotFound
  | ErrConcurrentUpdate | ErrIdempotencyKeyNotFound | ErrUserNotFound | ErrEmailTaken
  | ErrWaitingListEmpty | ErrNotWaiting | ErrDeliveryNotFound | ErrNotificationNotFound

datatype service_error =
    ErrInvalidCredentials | ErrLogoutUnavailable | ErrAlreadyVerified | ErrNotYourSubscription
  | errPushNotConfigured | errAddressNotVerified

datatype auth_error =
    ErrMalformedToken | ErrInvalidSignature | ErrTokenExpired | ErrWeakSecret | ErrInvalidUserID
  | ErrPasswordMismatch | ErrMalformedHash

datatype handler_error =
    errUnauthenticated | errInvalidToken | errInvalidRequestBody | errRequestBodyTooLarge
  | errTooManyRequests | errStreamUnavailable | errTicketNotFound | errIdempotencyKeyReused
  | errIdempotencyInProgress

datatype goerror =
    Domain domain_error
  | Repository repository_error
  | Service service_error
  | Auth auth_error
  | Handler handler_error
  | ErrMailNotConfigured
  | ErrInvalidConfig
  | ContextCanceled
  | Opaque string
  | Wrapf string "goerror list"

text \<open>\<open>errors.Is\<close>: the error itself, or any error it wraps, is the target.\<close>

fun errors_Is :: "goerror \<Rightarrow> goerror \<Rightarrow> bool" where
  "errors_Is (Wrapf m es) t = (Wrapf m es = t \<or> list_ex (\<lambda>e. errors_Is e t) es)"
| "errors_Is e t = (e = t)"

lemma errors_Is_refl [simp]: "errors_Is e e"
  by (cases e) auto

text \<open>
  A call either fails with an error or gives a value. A method that changes its receiver gives the
  new receiver as the value; the calls below keep the old one when they fail.
\<close>

type_synonym 'a result = "goerror + 'a"

text \<open>The next call is made with the value, and only when there is no error.\<close>

definition result_then :: "'a result \<Rightarrow> ('a \<Rightarrow> 'b result) \<Rightarrow> 'b result" where
  "result_then r f = (case r of Inl err \<Rightarrow> Inl err | Inr x \<Rightarrow> f x)"

lemma result_then_simps [simp]: "result_then (Inl err) f = Inl err" "result_then (Inr x) f = f x"
  by (simp_all add: result_then_def)

lemma result_then_Inr: "result_then r f = Inr y \<longleftrightarrow> (\<exists>x. r = Inr x \<and> f x = Inr y)"
  by (cases r) simp_all

abbreviation failed :: "'a result \<Rightarrow> bool" where
  "failed r \<equiv> (\<exists>e. r = Inl e)"

end
