(* ===== verification/Seat_Domain.thy ===== *)
theory Seat_Domain
  imports Errors
begin

text \<open>
  Seats and holds: \<open>internal/domain/seat.go\<close>, \<open>seat_status.go\<close>, \<open>hold.go\<close> and \<open>expiry.go\<close>. A
  seat carries its current hold inline, so one record holds the whole invariant, and the rules for
  holding, confirming, releasing and expiring it are the operations below.
\<close>

section \<open>The model\<close>

subsection \<open>Deadlines\<close>

definition reached :: "time \<Rightarrow> time \<Rightarrow> bool" where
  "reached instant now \<longleftrightarrow> \<not> Before now instant"

subsection \<open>Seat status\<close>

text \<open>
  The type is an \<open>int\<close> in the source; the values the source does not name are \<open>StatusOther\<close>.
\<close>

datatype SeatStatus = StatusAvailable | StatusHeld | StatusReserved | StatusOther int

fun SeatStatus_String :: "SeatStatus \<Rightarrow> string" where
  "SeatStatus_String StatusAvailable = ''available''"
| "SeatStatus_String StatusHeld = ''held''"
| "SeatStatus_String StatusReserved = ''reserved''"
| "SeatStatus_String (StatusOther i) = ''SeatStatus('' @ Itoa i @ '')''"

fun parse_status_loop :: "SeatStatus list \<Rightarrow> string \<Rightarrow> SeatStatus result" where
  "parse_status_loop [] value = Inl (Wrapf ''unknown seat status'' [Domain ErrUnknownSeatStatus])"
| "parse_status_loop (s # ss) value =
     (if SeatStatus_String s = value then Inr s else parse_status_loop ss value)"

definition ParseSeatStatus :: "string \<Rightarrow> SeatStatus result" where
  "ParseSeatStatus value =
     parse_status_loop [StatusAvailable, StatusHeld, StatusReserved] value"

subsection \<open>Seats and holds\<close>

record Seat =
  Seat_ID :: string
  Seat_EventID :: string
  Seat_Row :: string
  Seat_Number :: int
  Seat_Status :: SeatStatus
  HoldID :: string
  HeldBy :: string
  HoldCreatedAt :: time
  HoldExpiresAt :: time
  ReservedBy :: string
  TicketCode :: string

record SeatRef =
  Ref_EventID :: string
  Ref_SeatID :: string

record Hold =
  Hold_ID :: string
  Hold_EventID :: string
  Hold_SeatID :: string
  Hold_UserID :: string
  Hold_CreatedAt :: time
  Hold_ExpiresAt :: time

definition Hold_IsExpired :: "Hold \<Rightarrow> time \<Rightarrow> bool" where
  "Hold_IsExpired h now = reached (Hold_ExpiresAt h) now"

definition RemainingTime :: "Hold \<Rightarrow> time \<Rightarrow> duration" where
  "RemainingTime h now = (if Hold_IsExpired h now then 0 else time_Sub (Hold_ExpiresAt h) now)"

definition Seat_Ref :: "Seat \<Rightarrow> SeatRef" where
  "Seat_Ref s = \<lparr>Ref_EventID = Seat_EventID s, Ref_SeatID = Seat_ID s\<rparr>"

definition NewSeat :: "string \<Rightarrow> string \<Rightarrow> string \<Rightarrow> int \<Rightarrow> Seat" where
  "NewSeat eventID seatID row number =
     \<lparr>Seat_ID = seatID, Seat_EventID = eventID, Seat_Row = row, Seat_Number = number,
      Seat_Status = StatusAvailable, HoldID = '''', HeldBy = '''', HoldCreatedAt = zero_time,
      HoldExpiresAt = zero_time, ReservedBy = '''', TicketCode = ''''\<rparr>"

definition IsHoldExpired :: "Seat \<Rightarrow> time \<Rightarrow> bool" where
  "IsHoldExpired s now \<longleftrightarrow> Seat_Status s = StatusHeld \<and> reached (HoldExpiresAt s) now"

definition CanHold :: "Seat \<Rightarrow> time \<Rightarrow> bool" where
  "CanHold s now =
     (case Seat_Status s of
        StatusAvailable \<Rightarrow> True
      | StatusHeld \<Rightarrow> IsHoldExpired s now
      | StatusReserved \<Rightarrow> False
      | StatusOther _ \<Rightarrow> False)"

definition clearHold :: "Seat \<Rightarrow> Seat" where
  "clearHold s =
     s\<lparr>HoldID := '''', HeldBy := '''', HoldCreatedAt := zero_time, HoldExpiresAt := zero_time\<rparr>"

definition Seat_Hold :: "string \<Rightarrow> string \<Rightarrow> duration \<Rightarrow> time \<Rightarrow> Seat \<Rightarrow> Seat result" where
  "Seat_Hold holdID userID duration now s =
     (if holdID = '''' then Inl (Domain ErrEmptyHoldID)
      else if userID = '''' then Inl (Domain ErrEmptyUserID)
      else if duration \<le> 0 then Inl (Domain ErrInvalidHoldDuration)
      else if \<not> CanHold s now then Inl (Domain ErrSeatNotAvailable)
      else Inr (s\<lparr>Seat_Status := StatusHeld, HoldID := holdID, HeldBy := userID,
                  HoldCreatedAt := now, HoldExpiresAt := time_Add now duration,
                  ReservedBy := ''''\<rparr>))"

definition Seat_Confirm :: "string \<Rightarrow> string \<Rightarrow> time \<Rightarrow> Seat \<Rightarrow> Seat result" where
  "Seat_Confirm userID ticketCode now s =
     (if userID = '''' then Inl (Domain ErrEmptyUserID)
      else if Seat_Status s \<noteq> StatusHeld then Inl (Domain ErrSeatNotHeld)
      else if HeldBy s \<noteq> userID then Inl (Domain ErrNotHoldOwner)
      else if IsHoldExpired s now then Inl (Domain ErrHoldExpired)
      else if ticketCode = '''' then Inl (Domain ErrEmptyTicketCode)
      else Inr (clearHold (s\<lparr>Seat_Status := StatusReserved, ReservedBy := userID,
                             TicketCode := ticketCode\<rparr>)))"

definition Seat_Release :: "string \<Rightarrow> Seat \<Rightarrow> Seat result" where
  "Seat_Release userID s =
     (if userID = '''' then Inl (Domain ErrEmptyUserID)
      else if Seat_Status s \<noteq> StatusHeld then Inl (Domain ErrSeatNotHeld)
      else if HeldBy s \<noteq> userID then Inl (Domain ErrNotHoldOwner)
      else Inr (clearHold (s\<lparr>Seat_Status := StatusAvailable\<rparr>)))"

text \<open>\<open>ExpireHold\<close> gives the seat and whether it changed anything.\<close>

definition ExpireHold :: "time \<Rightarrow> Seat \<Rightarrow> Seat \<times> bool" where
  "ExpireHold now s =
     (if \<not> IsHoldExpired s now then (s, False)
      else (clearHold (s\<lparr>Seat_Status := StatusAvailable\<rparr>), True))"

definition CurrentHold :: "time \<Rightarrow> Seat \<Rightarrow> Hold option" where
  "CurrentHold now s =
     (if Seat_Status s \<noteq> StatusHeld \<or> IsHoldExpired s now then None
      else Some \<lparr>Hold_ID = HoldID s, Hold_EventID = Seat_EventID s, Hold_SeatID = Seat_ID s,
                 Hold_UserID = HeldBy s, Hold_CreatedAt = HoldCreatedAt s,
                 Hold_ExpiresAt = HoldExpiresAt s\<rparr>)"

subsection \<open>Ticket codes\<close>

text \<open>The loop of \<open>FormatTicketCode\<close> over what is left of the raw code.\<close>

function ticket_groups :: "string \<Rightarrow> string" where
  "ticket_groups raw =
     (if raw = [] then [] else ''-'' @ take 4 raw @ ticket_groups (drop 4 raw))"
  by pat_completeness auto
termination
  by (relation "measure length") auto

declare ticket_groups.simps [simp del]

lemma ticket_groups_Nil [simp]: "ticket_groups [] = []"
  by (simp add: ticket_groups.simps [of "[]"])

lemma ticket_groups_step:
  "raw \<noteq> [] \<Longrightarrow> ticket_groups raw = CHR ''-'' # take 4 raw @ ticket_groups (drop 4 raw)"
  by (subst ticket_groups.simps) simp

definition FormatTicketCode :: "string \<Rightarrow> string" where
  "FormatTicketCode raw = ''SH'' @ ticket_groups raw"

section \<open>The invariant of a seat\<close>

text \<open>
  What a seat's fields say together: hold data exists exactly while the seat is held, and the owner
  and the ticket code exist exactly once it is reserved.
\<close>

definition no_hold :: "Seat \<Rightarrow> bool" where
  "no_hold s \<longleftrightarrow> HoldID s = '''' \<and> HeldBy s = '''' \<and> HoldCreatedAt s = zero_time \<and>
     HoldExpiresAt s = zero_time"

definition seat_wf :: "Seat \<Rightarrow> bool" where
  "seat_wf s =
     (case Seat_Status s of
        StatusAvailable \<Rightarrow> no_hold s \<and> ReservedBy s = '''' \<and> TicketCode s = ''''
      | StatusHeld \<Rightarrow> HoldID s \<noteq> '''' \<and> HeldBy s \<noteq> '''' \<and> HoldCreatedAt s < HoldExpiresAt s \<and>
          ReservedBy s = '''' \<and> TicketCode s = ''''
      | StatusReserved \<Rightarrow> no_hold s \<and> ReservedBy s \<noteq> '''' \<and> TicketCode s \<noteq> ''''
      | StatusOther _ \<Rightarrow> False)"

lemmas seat_ops = Seat_Hold_def Seat_Confirm_def Seat_Release_def ExpireHold_def clearHold_def
  CanHold_def IsHoldExpired_def CurrentHold_def reached_def time_Add_def Before_def

lemma NewSeat_wf [simp, keeps_inv]: "seat_wf (NewSeat e i r n)"
  by (simp add: NewSeat_def seat_wf_def no_hold_def)

lemma Seat_Hold_wf [keeps_inv]: "seat_wf s \<Longrightarrow> Seat_Hold h u d now s = Inr s' \<Longrightarrow> seat_wf s'"
  by (auto simp: seat_ops seat_wf_def no_hold_def split: if_splits SeatStatus.splits)

lemma Seat_Confirm_wf [keeps_inv]: "seat_wf s \<Longrightarrow> Seat_Confirm u c now s = Inr s' \<Longrightarrow> seat_wf s'"
  by (auto simp: seat_ops seat_wf_def no_hold_def split: if_splits SeatStatus.splits)

lemma Seat_Release_wf [keeps_inv]: "seat_wf s \<Longrightarrow> Seat_Release u s = Inr s' \<Longrightarrow> seat_wf s'"
  by (auto simp: seat_ops seat_wf_def no_hold_def split: if_splits SeatStatus.splits)

lemma ExpireHold_wf [keeps_inv]: "seat_wf s \<Longrightarrow> seat_wf (fst (ExpireHold now s))"
  by (auto simp: seat_ops seat_wf_def no_hold_def split: if_splits SeatStatus.splits)

text \<open>No operation changes which seat it is.\<close>

definition same_seat :: "Seat \<Rightarrow> Seat \<Rightarrow> bool" where
  "same_seat s t \<longleftrightarrow> Seat_ID t = Seat_ID s \<and> Seat_EventID t = Seat_EventID s \<and>
     Seat_Row t = Seat_Row s \<and> Seat_Number t = Seat_Number s"

lemma Seat_Hold_same: "Seat_Hold h u d now s = Inr s' \<Longrightarrow> same_seat s s'"
  by (auto simp: seat_ops same_seat_def split: if_splits)

lemma Seat_Confirm_same: "Seat_Confirm u c now s = Inr s' \<Longrightarrow> same_seat s s'"
  by (auto simp: seat_ops same_seat_def split: if_splits)

lemma Seat_Release_same: "Seat_Release u s = Inr s' \<Longrightarrow> same_seat s s'"
  by (auto simp: seat_ops same_seat_def split: if_splits)

lemma ExpireHold_same: "same_seat s (fst (ExpireHold now s))"
  by (auto simp: seat_ops same_seat_def)

lemmas same_seat_ops = Seat_Hold_same Seat_Confirm_same Seat_Release_same ExpireHold_same

lemma confirm_release_not_held:
  "Seat_Confirm u c now s = Inr s' \<Longrightarrow> Seat_Status s' \<noteq> StatusHeld" "Seat_Release u s = Inr s' \<Longrightarrow> Seat_Status s' \<noteq> StatusHeld"
  by (auto simp: seat_ops split: if_splits)

section \<open>Expiry and ownership\<close>

text \<open>The invariant of a seat (hold data exactly while held, owner and ticket code exactly once
  reserved, no unnamed status) is kept by every operation of the domain, whatever its arguments and
  whatever the clock says.\<close>

theorem seat_ops_keep_wf:
  assumes "seat_wf s"
  shows "(\<forall>s'. Seat_Hold holdID userID d now s = Inr s' \<longrightarrow> seat_wf s') \<and>
    (\<forall>s'. Seat_Confirm userID code now s = Inr s' \<longrightarrow> seat_wf s') \<and>
    (\<forall>s'. Seat_Release userID s = Inr s' \<longrightarrow> seat_wf s') \<and>
    seat_wf (fst (ExpireHold now s))"
  using assms Seat_Hold_wf Seat_Confirm_wf Seat_Release_wf ExpireHold_wf by blast

definition seat_A1 :: Seat where
  "seat_A1 = NewSeat ''event-1'' ''A1'' ''A'' 1"

definition held_A1 :: Seat where
  "held_A1 = seat_A1\<lparr>Seat_Status := StatusHeld, HoldID := ''h1'', HeldBy := ''alice'',
     HoldCreatedAt := 100, HoldExpiresAt := 400\<rparr>"

lemmas sample_seats = held_A1_def seat_A1_def NewSeat_def seat_wf_def no_hold_def

lemma held_A1_is: "Seat_Hold ''h1'' ''alice'' 300 100 seat_A1 = Inr held_A1"
  by (simp add: seat_ops sample_seats)

theorem seat_ops_keep_wf_witness:
  "seat_wf seat_A1 \<and> seat_wf held_A1 \<and> seat_wf (fst (ExpireHold 400 held_A1))"
proof -
  have a: "seat_wf seat_A1" by (simp add: seat_A1_def)
  have b: "seat_wf held_A1"
    using seat_ops_keep_wf [OF a, of "''h1''" "''alice''" 300 100] held_A1_is by blast
  show ?thesis using a b seat_ops_keep_wf [OF b, of "''h1''" "''alice''" 300 400] by blast
qed

text \<open>C25. The race between an owner confirming and a stranger taking the seat resolves one way at
  every instant, the instant of expiry included: the owner can still confirm exactly when nobody
  else can hold the seat. There is no moment at which both succeed, and none at which both are
  refused.\<close>

theorem confirm_xor_hold:
  assumes "Seat_Status s = StatusHeld" and "HeldBy s \<noteq> ''''"
    and "code \<noteq> ''''" and "holdID \<noteq> ''''" and "userID \<noteq> ''''" and "0 < d"
  shows "(\<exists>t. Seat_Confirm (HeldBy s) code now s = Inr t) \<longleftrightarrow>
    \<not> (\<exists>t. Seat_Hold holdID userID d now s = Inr t)"
  using assms by (simp add: seat_ops)

theorem confirm_xor_hold_witness:
  "(\<exists>t. Seat_Confirm ''alice'' ''SH-1'' 399 held_A1 = Inr t) \<and>
   \<not> (\<exists>t. Seat_Hold ''h2'' ''bob'' 300 399 held_A1 = Inr t) \<and>
   \<not> (\<exists>t. Seat_Confirm ''alice'' ''SH-1'' 400 held_A1 = Inr t) \<and>
   (\<exists>t. Seat_Hold ''h2'' ''bob'' 300 400 held_A1 = Inr t)"
proof -
  have held: "Seat_Status held_A1 = StatusHeld" "HeldBy held_A1 = ''alice''"
    by (simp_all add: sample_seats)
  have before: "\<exists>t. Seat_Confirm ''alice'' ''SH-1'' 399 held_A1 = Inr t"
    by (simp add: seat_ops sample_seats)
  have after: "\<exists>t. Seat_Hold ''h2'' ''bob'' 300 400 held_A1 = Inr t"
    by (simp add: seat_ops sample_seats)
  show ?thesis
    using before after held
      confirm_xor_hold [of held_A1 "''SH-1''" "''h2''" "''bob''" 300 399]
      confirm_xor_hold [of held_A1 "''SH-1''" "''h2''" "''bob''" 300 400] by simp
qed

text \<open>A hold made at \<open>now\<close> for a positive duration is the seat's current hold, for its maker, from
  then until just before \<open>now + d\<close>, with the remaining time counting down to the deadline; from the
  deadline on there is no current hold, the seat may be held again and its owner is told that the
  hold has expired.\<close>

theorem hold_lives_until_deadline:
  assumes "Seat_Hold holdID userID d now s = Inr s'" and "d < 2 ^ 63" and "now \<le> t"
  shows "if t < now + d
    then (\<exists>h. CurrentHold t s' = Some h \<and> Hold_ID h = holdID \<and> Hold_UserID h = userID \<and>
           Hold_SeatID h = Seat_ID s \<and> RemainingTime h t = now + d - t) \<and> \<not> CanHold s' t
    else CurrentHold t s' = None \<and> CanHold s' t \<and>
      Seat_Confirm userID code t s' = Inl (Domain ErrHoldExpired)"
  using assms
  by (auto simp: seat_ops RemainingTime_def Hold_IsExpired_def time_Sub_def split: if_splits)

theorem hold_lives_until_deadline_witness:
  "(\<exists>h. CurrentHold 399 held_A1 = Some h \<and> Hold_UserID h = ''alice'' \<and> RemainingTime h 399 = 1) \<and>
   CurrentHold 400 held_A1 = None \<and> CanHold held_A1 400"
  using hold_lives_until_deadline [OF held_A1_is, of 399 "''SH-1''"]
    hold_lives_until_deadline [OF held_A1_is, of 400 "''SH-1''"] by auto

text \<open>A reservation is final: no operation of the domain changes a reserved seat. Holding it is
  refused as not available, confirming and releasing it as not held, and expiry passes it by.\<close>

theorem reserved_is_final:
  assumes "Seat_Status s = StatusReserved"
  shows "failed (Seat_Hold holdID userID d now s) \<and> failed (Seat_Confirm userID code now s) \<and>
    failed (Seat_Release userID s) \<and> ExpireHold now s = (s, False) \<and>
    (holdID \<noteq> '''' \<and> userID \<noteq> '''' \<and> 0 < d \<longrightarrow>
      Seat_Hold holdID userID d now s = Inl (Domain ErrSeatNotAvailable))"
  using assms by (simp add: seat_ops)

definition sold_A1 :: Seat where
  "sold_A1 = seat_A1\<lparr>Seat_Status := StatusReserved, ReservedBy := ''alice'', TicketCode := ''SH-1''\<rparr>"

theorem reserved_is_final_witness:
  "Seat_Status sold_A1 = StatusReserved \<and>
   Seat_Hold ''h2'' ''bob'' 300 999 sold_A1 = Inl (Domain ErrSeatNotAvailable) \<and>
   ExpireHold 999 sold_A1 = (sold_A1, False)"
  using reserved_is_final [of sold_A1 "''h2''" "''bob''" 300 999 "''SH-2''"]
  by (simp add: sold_A1_def seat_A1_def)

text \<open>What a stranger is told never depends on the state of somebody else's hold: confirming or
  releasing with any id other than the holder's answers "not the owner" whether the hold is live or
  has run out, at any instant and with any ticket code.\<close>

theorem stranger_learns_nothing:
  assumes "Seat_Status s = StatusHeld" and "Seat_Status t = StatusHeld"
    and "HeldBy s \<noteq> u" and "HeldBy t \<noteq> u"
  shows "Seat_Confirm u c now s = Seat_Confirm u c' now' t \<and> Seat_Release u s = Seat_Release u t \<and>
    (u \<noteq> '''' \<longrightarrow> Seat_Confirm u c now s = Inl (Domain ErrNotHoldOwner))"
  using assms by (simp add: Seat_Confirm_def Seat_Release_def)

theorem stranger_learns_nothing_witness:
  "Seat_Confirm ''bob'' ''x'' 399 held_A1 = Seat_Confirm ''bob'' ''y'' 500 held_A1 \<and>
   Seat_Confirm ''bob'' ''x'' 399 held_A1 = Inl (Domain ErrNotHoldOwner)"
proof -
  have "Seat_Status held_A1 = StatusHeld" "HeldBy held_A1 \<noteq> ''bob''"
    by (simp_all add: sample_seats)
  then show ?thesis
    using stranger_learns_nothing [of held_A1 held_A1 "''bob''" "''x''" 399 "''y''" 500] by blast
qed

section \<open>Statuses as text\<close>

text \<open>The stored form of a status reads back as that status, and nothing else is accepted: parsing
  succeeds exactly on the three words the source prints for its named statuses.\<close>

theorem seat_status_roundtrip:
  "ParseSeatStatus value = Inr st \<longleftrightarrow>
     (\<forall>i. st \<noteq> StatusOther i) \<and> SeatStatus_String st = value"
  by (cases st) (auto simp: ParseSeatStatus_def)

section \<open>Ticket codes as text\<close>

lemma filter_ticket_groups:
  "CHR ''-'' \<notin> set raw \<Longrightarrow> filter (\<lambda>c. c \<noteq> CHR ''-'') (ticket_groups raw) = raw"
proof (induction raw rule: ticket_groups.induct)
  case (1 raw)
  show ?case
  proof (cases "raw = []")
    case True
    then show ?thesis by simp
  next
    case False
    have "CHR ''-'' \<notin> set (drop 4 raw)" using "1.prems" by (meson in_set_dropD)
    moreover have "filter (\<lambda>c. c \<noteq> CHR ''-'') (take 4 raw) = take 4 raw"
      using "1.prems" by (auto simp: filter_id_conv dest: in_set_takeD)
    ultimately show ?thesis
      using False "1.IH" [OF False] by (simp add: ticket_groups_step [of raw])
  qed
qed

lemma length_ticket_groups: "length (ticket_groups raw) = length raw + (length raw + 3) div 4"
proof (induction raw rule: ticket_groups.induct)
  case (1 raw)
  show ?case
  proof (cases "raw = []")
    case True
    then show ?thesis by simp
  next
    case False
    let ?n = "length raw"
    have pos: "1 \<le> ?n" using False by (cases raw) simp_all
    have "length (ticket_groups raw) = 1 + min 4 ?n + ((?n - 4) + (?n - 4 + 3) div 4)"
      using "1.IH" [OF False] False by (simp add: ticket_groups_step [of raw] min.commute)
    also have "\<dots> = ?n + (?n + 3) div 4"
    proof (cases "?n \<le> 4")
      case True
      then have "(?n + 3) div 4 = 1" using pos by (intro div_nat_eqI) simp_all
      with True show ?thesis by simp
    next
      case False
      then obtain m where m: "?n = 4 + m" using le_Suc_ex [of 4 ?n] by auto
      show ?thesis by (simp add: m)
    qed
    finally show ?thesis .
  qed
qed

text \<open>A formatted ticket code loses nothing: dropping the prefix and the dashes gives back the
  raw code, so two different raw codes are never printed as the same ticket; the printed form is
  the prefix, the raw characters and one dash per started group of four.\<close>

theorem ticket_code_roundtrip:
  assumes "CHR ''-'' \<notin> set raw"
  shows "filter (\<lambda>c. c \<noteq> CHR ''-'') (drop 2 (FormatTicketCode raw)) = raw \<and>
    take 2 (FormatTicketCode raw) = ''SH'' \<and>
    length (FormatTicketCode raw) = 2 + length raw + (length raw + 3) div 4"
  using filter_ticket_groups [OF assms] length_ticket_groups [of raw]
  by (simp add: FormatTicketCode_def)

lemma ticket_code_sample: "FormatTicketCode ''ABCDEFGH'' = ''SH-ABCD-EFGH''"
  by (simp add: FormatTicketCode_def ticket_groups_step)

theorem ticket_code_roundtrip_witness:
  "filter (\<lambda>c. c \<noteq> CHR ''-'') (drop 2 ''SH-ABCD-EFGH'') = ''ABCDEFGH''"
  using ticket_code_roundtrip [of "''ABCDEFGH''"] ticket_code_sample by simp

lemma FormatTicketCode_not_empty [simp]: "FormatTicketCode raw \<noteq> ''''"
  by (simp add: FormatTicketCode_def)

end
