(* ===== verification/Seat_Store.thy ===== *)
theory Seat_Store
  imports Seat_Domain
begin

text \<open>
  The contract of \<open>repository.SeatRepository\<close> and the in-memory store that meets it:
  \<open>internal/repository/seat_repository.go\<close> and \<open>memory_seat_repository.go\<close>. Every operation runs
  under the store's mutex, so each definition is one atomic step. The closure an update is given
  changes a copy of the seat and may fail; what it captures for its caller is the seat as it left it,
  so an update gives that seat back.
\<close>

section \<open>The model\<close>

type_synonym SeatStore = "Seat gomap"

definition seatKey :: "string \<Rightarrow> string \<Rightarrow> string" where
  "seatKey eventID seatID = eventID @ ''/'' @ seatID"

fun NewMemorySeatRepository :: "Seat list \<Rightarrow> SeatStore \<Rightarrow> SeatStore" where
  "NewMemorySeatRepository [] r = r"
| "NewMemorySeatRepository (seat # seats) r =
     NewMemorySeatRepository seats
       (AList.update (seatKey (Seat_EventID seat) (Seat_ID seat)) seat r)"

definition GetSeat :: "string \<Rightarrow> string \<Rightarrow> SeatStore \<Rightarrow> Seat result" where
  "GetSeat eventID seatID r =
     (case map_of r (seatKey eventID seatID) of
        None \<Rightarrow> Inl (Repository ErrSeatNotFound)
      | Some stored \<Rightarrow> Inr stored)"

definition UpdateSeat ::
  "string \<Rightarrow> string \<Rightarrow> (Seat \<Rightarrow> Seat result) \<Rightarrow> SeatStore \<Rightarrow> SeatStore \<times> Seat result" where
  "UpdateSeat eventID seatID mutate r =
     (let key = seatKey eventID seatID in
      case map_of r key of
        None \<Rightarrow> (r, Inl (Repository ErrSeatNotFound))
      | Some stored \<Rightarrow>
          (case mutate stored of
             Inl err \<Rightarrow> (r, Inl err)
           | Inr seat \<Rightarrow> (AList.update key seat r, Inr seat)))"

text \<open>The scan of \<open>UpdateSeatByHoldID\<close>: the first entry, in iteration order, that carries the id.\<close>

fun find_hold :: "string \<Rightarrow> SeatStore \<Rightarrow> (string \<times> Seat) option" where
  "find_hold holdID [] = None"
| "find_hold holdID ((key, stored) # r) =
     (if HoldID stored \<noteq> holdID then find_hold holdID r else Some (key, stored))"

definition UpdateSeatByHoldID ::
  "string \<Rightarrow> (Seat \<Rightarrow> Seat result) \<Rightarrow> SeatStore \<Rightarrow> SeatStore \<times> Seat result" where
  "UpdateSeatByHoldID holdID mutate r =
     (case find_hold holdID r of
        None \<Rightarrow> (r, Inl (Repository ErrHoldNotFound))
      | Some (key, stored) \<Rightarrow>
          (case mutate stored of
             Inl err \<Rightarrow> (r, Inl err)
           | Inr seat \<Rightarrow> (AList.update key seat r, Inr seat)))"

text \<open>\<open>Number\<close> is an \<open>int\<close>, so the difference of two of them wraps at 64 bits.\<close>

definition seat_cmp :: "Seat \<Rightarrow> Seat \<Rightarrow> int" where
  "seat_cmp a b =
     (let event = strings_Compare (Seat_EventID a) (Seat_EventID b) in
      if event \<noteq> 0 then event
      else let row = strings_Compare (Seat_Row a) (Seat_Row b) in
        if row \<noteq> 0 then row
        else int64 (Seat_Number a - Seat_Number b))"

definition sortSeats :: "Seat list \<Rightarrow> Seat list" where
  "sortSeats seats = SortFunc seat_cmp seats"

definition ListSeatsForUser :: "string \<Rightarrow> SeatStore \<Rightarrow> Seat list" where
  "ListSeatsForUser userID r =
     sortSeats (filter (\<lambda>s. \<not> (HeldBy s \<noteq> userID \<and> ReservedBy s \<noteq> userID)) (vals r))"

definition ListSeats :: "string \<Rightarrow> SeatStore \<Rightarrow> Seat list" where
  "ListSeats eventID r = sortSeats (filter (\<lambda>s. Seat_EventID s = eventID) (vals r))"

definition ref_cmp :: "SeatRef \<Rightarrow> SeatRef \<Rightarrow> int" where
  "ref_cmp a b =
     (let event = strings_Compare (Ref_EventID a) (Ref_EventID b) in
      if event \<noteq> 0 then event else strings_Compare (Ref_SeatID a) (Ref_SeatID b))"

fun expire_loop :: "time \<Rightarrow> SeatStore \<Rightarrow> SeatStore \<times> SeatRef list" where
  "expire_loop now [] = ([], [])"
| "expire_loop now ((key, stored) # r) =
     (let (seat, changed) = ExpireHold now stored; (r', freed) = expire_loop now r
      in if \<not> changed then ((key, stored) # r', freed)
         else ((key, seat) # r', Seat_Ref seat # freed))"

definition ExpireHolds :: "time \<Rightarrow> SeatStore \<Rightarrow> SeatStore \<times> SeatRef list" where
  "ExpireHolds now r = (let (r', freed) = expire_loop now r in (r', SortFunc ref_cmp freed))"

fun create_loop :: "Seat list \<Rightarrow> int \<Rightarrow> SeatStore \<Rightarrow> SeatStore \<times> int" where
  "create_loop [] created r = (r, created)"
| "create_loop (seat # seats) created r =
     (let key = seatKey (Seat_EventID seat) (Seat_ID seat) in
      if map_of r key \<noteq> None then create_loop seats created r
      else create_loop seats (created + 1) (AList.update key seat r))"

definition CreateSeats :: "Seat list \<Rightarrow> SeatStore \<Rightarrow> SeatStore \<times> int" where
  "CreateSeats seats r = create_loop seats 0 r"

section \<open>The contract of a seat repository\<close>

text \<open>
  \<open>seat_at\<close> is what the store holds for a seat of an event; \<open>event_ok\<close> says which event ids the store
  can tell apart and \<open>accepts\<close> which seats it agrees to write. The client lemmas below are about any
  store that keeps this contract.
\<close>

definition keeps_seat :: "(Seat \<Rightarrow> Seat result) \<Rightarrow> bool" where
  "keeps_seat f \<longleftrightarrow> (\<forall>s s'. f s = Inr s' \<longrightarrow> same_seat s s')"

definition refuses_sold :: "(Seat \<Rightarrow> Seat result) \<Rightarrow> bool" where
  "refuses_sold f \<longleftrightarrow> (\<forall>s. Seat_Status s = StatusReserved \<longrightarrow> failed (f s))"

lemma domain_ops_keep_seat [simp]:
  "keeps_seat (Seat_Hold h u d now)" "keeps_seat (Seat_Confirm u c now)" "keeps_seat (Seat_Release u)"
  by (auto simp: keeps_seat_def same_seat_ops)

lemma domain_ops_refuse_sold [simp]:
  "refuses_sold (Seat_Hold h u d now)" "refuses_sold (Seat_Confirm u c now)" "refuses_sold (Seat_Release u)"
  by (auto simp: refuses_sold_def seat_ops)

locale seat_repository =
  fixes invar :: "'st \<Rightarrow> bool"
    and event_ok :: "string \<Rightarrow> bool"
    and seat_at :: "'st \<Rightarrow> string \<Rightarrow> string \<Rightarrow> Seat option"
    and accepts :: "'st \<Rightarrow> Seat \<Rightarrow> bool"
    and update_seat :: "string \<Rightarrow> string \<Rightarrow> (Seat \<Rightarrow> Seat result) \<Rightarrow> 'st \<Rightarrow> 'st \<times> Seat result"
    and update_by_hold :: "string \<Rightarrow> (Seat \<Rightarrow> Seat result) \<Rightarrow> 'st \<Rightarrow> 'st \<times> Seat result"
    and expire_holds :: "time \<Rightarrow> 'st \<Rightarrow> 'st \<times> SeatRef list"
  assumes update_missing: "invar st \<Longrightarrow> event_ok e \<Longrightarrow> seat_at st e i = None \<Longrightarrow>
      update_seat e i f st = (st, Inl (Repository ErrSeatNotFound))"
    and update_refused: "invar st \<Longrightarrow> event_ok e \<Longrightarrow> seat_at st e i = Some s \<Longrightarrow> f s = Inl err \<Longrightarrow>
      update_seat e i f st = (st, Inl err)"
    and update_rejected: "invar st \<Longrightarrow> event_ok e \<Longrightarrow> seat_at st e i = Some s \<Longrightarrow> f s = Inr s' \<Longrightarrow>
      same_seat s s' \<Longrightarrow> \<not> accepts st s' \<Longrightarrow> \<exists>err. update_seat e i f st = (st, Inl err)"
    and update_result: "invar st \<Longrightarrow> event_ok e \<Longrightarrow> seat_at st e i = Some s \<Longrightarrow> f s = Inr s' \<Longrightarrow>
      same_seat s s' \<Longrightarrow> accepts st s' \<Longrightarrow> snd (update_seat e i f st) = Inr s'"
    and update_stores: "invar st \<Longrightarrow> event_ok e \<Longrightarrow> seat_at st e i = Some s \<Longrightarrow> f s = Inr s' \<Longrightarrow>
      same_seat s s' \<Longrightarrow> accepts st s' \<Longrightarrow> event_ok e' \<Longrightarrow>
      seat_at (fst (update_seat e i f st)) e' i' = (if e' = e \<and> i' = i then Some s' else seat_at st e' i')"
    and hold_missing: "invar st \<Longrightarrow> (\<And>e i s. event_ok e \<Longrightarrow> seat_at st e i = Some s \<Longrightarrow> HoldID s \<noteq> h) \<Longrightarrow>
      update_by_hold h f st = (st, Inl (Repository ErrHoldNotFound))"
    and hold_is_update: "invar st \<Longrightarrow> event_ok e \<Longrightarrow> seat_at st e i = Some s \<Longrightarrow> HoldID s = h \<Longrightarrow>
      h \<noteq> '''' \<Longrightarrow> update_by_hold h f st = update_seat e i f st"
    and expire_each: "invar st \<Longrightarrow> event_ok e \<Longrightarrow>
      seat_at (fst (expire_holds now st)) e i = map_option (\<lambda>s. fst (ExpireHold now s)) (seat_at st e i)"
begin

text \<open>The ways an update can end.\<close>

lemma update_cases:
  assumes "invar st" "event_ok e" "keeps_seat f"
  obtains (missing) "seat_at st e i = None" "update_seat e i f st = (st, Inl (Repository ErrSeatNotFound))"
  | (failed) s err where "seat_at st e i = Some s" "update_seat e i f st = (st, Inl err)"
      "f s = Inl err \<or> (\<exists>s'. f s = Inr s' \<and> \<not> accepts st s')"
  | (stored) s s' where "seat_at st e i = Some s" "f s = Inr s'" "same_seat s s'" "accepts st s'"
      "snd (update_seat e i f st) = Inr s'"
proof (cases "seat_at st e i")
  case None
  with assms show thesis by (intro missing update_missing)
next
  case (Some s)
  show thesis
  proof (cases "f s")
    case (Inl err)
    with Some assms show thesis by (intro failed [of s err]) (auto simp: update_refused)
  next
    case (Inr s')
    then have same: "same_seat s s'" using assms(3) by (simp add: keeps_seat_def)
    show thesis
    proof (cases "accepts st s'")
      case True
      with Some Inr same assms show thesis by (intro stored [of s s']) (auto simp: update_result)
    next
      case False
      from update_rejected [of st e i s f s', OF assms(1,2) Some Inr same False] obtain err where "update_seat e i f st = (st, Inl err)" ..
      with Some Inr False show thesis by (intro failed [of s err]) auto
    qed
  qed
qed

text \<open>A refused update leaves the store as it was.\<close>

lemma update_failed_unchanged:
  assumes "invar st" "event_ok e" "keeps_seat f" "snd (update_seat e i f st) = Inl err"
  shows "fst (update_seat e i f st) = st"
  by (rule update_cases [OF assms(1-3), of i]) (use assms(4) in auto)

text \<open>An update that refuses sold seats never touches one, whichever seat it is aimed at.\<close>

lemma sold_kept_update:
  assumes "invar st" "event_ok e" "seat_at st e i = Some s" "Seat_Status s = StatusReserved"
    and "event_ok e'" "refuses_sold f" "keeps_seat f"
  shows "seat_at (fst (update_seat e' i' f st)) e i = Some s"
proof (rule update_cases [OF assms(1,5,7), of i'])
  fix t t'
  assume t: "seat_at st e' i' = Some t" "f t = Inr t'" "same_seat t t'" "accepts st t'"
  then have "\<not> (e = e' \<and> i = i')" using assms by (auto simp: refuses_sold_def)
  then show ?thesis using update_stores [of st e' i' t f t' e i, OF assms(1,5) t assms(2)] assms(3) by auto
qed (use assms(3) in simp_all)

lemma sold_kept_by_hold:
  assumes "invar st" "event_ok e" "seat_at st e i = Some s" "Seat_Status s = StatusReserved"
    and "refuses_sold f" "h \<noteq> ''''" "keeps_seat f"
  shows "seat_at (fst (update_by_hold h f st)) e i = Some s"
proof (cases "\<exists>e' i' t. event_ok e' \<and> seat_at st e' i' = Some t \<and> HoldID t = h")
  case True
  then obtain e' i' t where t: "event_ok e'" "seat_at st e' i' = Some t" "HoldID t = h" by blast
  have "update_by_hold h f st = update_seat e' i' f st"
    by (rule hold_is_update [OF assms(1) t assms(6)])
  then show ?thesis using sold_kept_update [OF assms(1-4) t(1) assms(5,7)] by simp
next
  case False
  then show ?thesis using hold_missing [OF assms(1)] assms(3) by auto
qed

lemma sold_kept_expire:
  "invar st \<Longrightarrow> event_ok e \<Longrightarrow> seat_at st e i = Some s \<Longrightarrow> Seat_Status s = StatusReserved \<Longrightarrow>
     seat_at (fst (expire_holds now st)) e i = Some s"
  by (simp add: expire_each seat_ops)

text \<open>Of two callers taking the same seat one after the other, the second is refused.\<close>

lemma second_hold_refused:
  assumes "invar st" "event_ok e" "invar (fst (update_seat e i (Seat_Hold h u d now) st))"
    and "snd (update_seat e i (Seat_Hold h u d now) st) = Inr s'"
    and "h' \<noteq> ''''" "u' \<noteq> ''''" "0 < d'" "now' < now + d"
  shows "snd (update_seat e i (Seat_Hold h' u' d' now') (fst (update_seat e i (Seat_Hold h u d now) st)))
    = Inl (Domain ErrSeatNotAvailable)"
proof -
  let ?st = "fst (update_seat e i (Seat_Hold h u d now) st)"
  have k: "keeps_seat (Seat_Hold h u d now)" by simp
  obtain s where s: "seat_at st e i = Some s" and hs: "Seat_Hold h u d now s = Inr s'" and st: "same_seat s s'" "accepts st s'"
    by (rule update_cases [OF assms(1,2) k, of i]) (use assms(4) in auto)
  have at: "seat_at ?st e i = Some s'" using update_stores [of st e i s "Seat_Hold h u d now" s' e i, OF assms(1,2) s hs st assms(2)] by simp
  have "Seat_Hold h' u' d' now' s' = Inl (Domain ErrSeatNotAvailable)"
    using hs assms(5-8) by (auto simp: seat_ops split: if_splits)
  from update_refused [OF assms(3,2) at, of "Seat_Hold h' u' d' now'", OF this] show ?thesis by simp
qed

end

section \<open>The invariant of the memory store\<close>

definition hold_is_new :: "SeatStore \<Rightarrow> string \<Rightarrow> bool" where
  "hold_is_new r holdID \<longleftrightarrow> (\<forall>k s. map_of r k = Some s \<longrightarrow> HoldID s \<noteq> holdID)"

definition seat_filed :: "string \<Rightarrow> Seat \<Rightarrow> bool" where
  "seat_filed k s \<longleftrightarrow> k = seatKey (Seat_EventID s) (Seat_ID s) \<and> CHR ''/'' \<notin> set (Seat_EventID s) \<and>
     seat_wf s"

text \<open>
  Every seat is well formed and filed under its own key, event ids carry no slash, and no two seats
  carry the same hold id.
\<close>

definition seats_inv :: "SeatStore \<Rightarrow> bool" where
  "seats_inv r \<longleftrightarrow> gomap_ok r \<and> (\<forall>k s. map_of r k = Some s \<longrightarrow> seat_filed k s) \<and>
     (\<forall>k s k' s'. map_of r k = Some s \<longrightarrow> map_of r k' = Some s' \<longrightarrow> HoldID s = HoldID s' \<longrightarrow>
        HoldID s \<noteq> '''' \<longrightarrow> k = k')"

definition slash_free :: "string \<Rightarrow> bool" where
  "slash_free e \<longleftrightarrow> CHR ''/'' \<notin> set e"

lemma seatKey_inj:
  "slash_free e \<Longrightarrow> slash_free e' \<Longrightarrow> seatKey e i = seatKey e' i' \<longleftrightarrow> e = e' \<and> i = i'"
proof -
  assume *: "slash_free e" "slash_free e'"
  have "takeWhile (\<lambda>c. c \<noteq> CHR ''/'') (a @ ''/'' @ b) = a" if "slash_free a" for a b
    using that by (auto simp: slash_free_def takeWhile_append takeWhile_eq_all_conv)
  then have "e = e'" if "seatKey e i = seatKey e' i'"
    using that * unfolding seatKey_def by metis
  then show ?thesis by (auto simp: seatKey_def)
qed

text \<open>Without that condition two seats of two events can share a key.\<close>

lemma seatKey_collides: "seatKey ''a/b'' ''c'' = seatKey ''a'' ''b/c''"
  by (simp add: seatKey_def)

lemma seats_invD:
  assumes "seats_inv r"
  shows "gomap_ok r" "map_of r k = Some s \<Longrightarrow> seat_filed k s"
    "map_of r k = Some s \<Longrightarrow> map_of r k' = Some s' \<Longrightarrow> HoldID s = HoldID s' \<Longrightarrow> HoldID s \<noteq> '''' \<Longrightarrow> k = k'"
  using assms unfolding seats_inv_def by blast+

lemma seats_inv_Nil [simp]: "seats_inv []"
  by (simp add: seats_inv_def)

lemma seat_filed_same: "seat_filed k s \<Longrightarrow> same_seat s s' \<Longrightarrow> seat_wf s' \<Longrightarrow> seat_filed k s'"
  by (simp add: seat_filed_def same_seat_def)

text \<open>Filing one seat keeps the invariant when its hold id is its own or nobody's.\<close>

lemma seats_inv_update:
  assumes "seats_inv r" "seat_filed k s"
    and "HoldID s = '''' \<or> hold_is_new r (HoldID s) \<or> (\<exists>t. map_of r k = Some t \<and> HoldID t = HoldID s)"
  shows "seats_inv (AList.update k s r)"
proof -
  have own: "k' = k" if "map_of r k' = Some t" "HoldID t = HoldID s" "HoldID s \<noteq> ''''" for k' t
    using assms(3) that seats_invD(3) [OF assms(1), of k' t k] by (auto simp: hold_is_new_def)
  show ?thesis
    using assms(2) seats_invD [OF assms(1)] own unfolding seats_inv_def
    by (auto simp del: map_of_eq_Some_iff split: if_splits)
qed

definition update_ok :: "SeatStore \<Rightarrow> (Seat \<Rightarrow> Seat result) \<Rightarrow> bool" where
  "update_ok r f \<longleftrightarrow> (\<forall>s s'. seat_wf s \<longrightarrow> f s = Inr s' \<longrightarrow> same_seat s s' \<and> seat_wf s' \<and>
     (HoldID s' = '''' \<or> HoldID s' = HoldID s \<or> hold_is_new r (HoldID s')))"

lemma update_ok_filed:
  assumes "seats_inv r" "update_ok r f" "map_of r k = Some s" "f s = Inr s'"
  shows "seats_inv (AList.update k s' r)"
proof (rule seats_inv_update [OF assms(1)])
  have s: "seat_filed k s" by (rule seats_invD(2) [OF assms(1,3)])
  then have *: "same_seat s s' \<and> seat_wf s' \<and>
      (HoldID s' = '''' \<or> HoldID s' = HoldID s \<or> hold_is_new r (HoldID s'))"
    using assms(2,4) by (auto simp: update_ok_def seat_filed_def)
  show "seat_filed k s'" using seat_filed_same [OF s] * by blast
  show "HoldID s' = '''' \<or> hold_is_new r (HoldID s') \<or> (\<exists>t. map_of r k = Some t \<and> HoldID t = HoldID s')"
    using * assms(3) by auto
qed

lemma UpdateSeat_inv [keeps_inv]:
  "seats_inv r \<Longrightarrow> update_ok r f \<Longrightarrow> seats_inv (fst (UpdateSeat e i f r))"
  by (auto simp: UpdateSeat_def Let_def update_ok_filed split: option.splits sum.splits)

lemma find_hold_Some: "gomap_ok r \<Longrightarrow> find_hold h r = Some (k, s) \<Longrightarrow> map_of r k = Some s \<and> HoldID s = h"
  by (induction h r rule: find_hold.induct) (auto split: if_splits simp: rev_image_eqI)

lemma find_hold_None_set: "find_hold h r = None \<longleftrightarrow> (\<forall>s \<in> set (vals r). HoldID s \<noteq> h)"
  by (induction h r rule: find_hold.induct) auto

lemma find_hold_None: "gomap_ok r \<Longrightarrow> find_hold h r = None \<longleftrightarrow> hold_is_new r h"
  unfolding find_hold_None_set hold_is_new_def using vals_conv [of r] by blast

lemma UpdateSeatByHoldID_inv [keeps_inv]:
  "seats_inv r \<Longrightarrow> update_ok r f \<Longrightarrow> seats_inv (fst (UpdateSeatByHoldID h f r))"
  by (auto simp: UpdateSeatByHoldID_def dest!: find_hold_Some [rotated]
      intro: update_ok_filed seats_invD(1) split: option.splits sum.splits)

lemma domain_ops_update_ok:
  "hold_is_new r h \<Longrightarrow> update_ok r (Seat_Hold h u d now)"
  "update_ok r (Seat_Confirm u c now)" "update_ok r (Seat_Release u)"
proof -
  show "update_ok r (Seat_Hold h u d now)" if "hold_is_new r h"
    using that by (auto simp: update_ok_def Seat_Hold_wf Seat_Hold_same) (auto simp: seat_ops split: if_splits)
  show "update_ok r (Seat_Confirm u c now)"
    by (auto simp: update_ok_def Seat_Confirm_wf Seat_Confirm_same) (auto simp: seat_ops split: if_splits)
  show "update_ok r (Seat_Release u)"
    by (auto simp: update_ok_def Seat_Release_wf Seat_Release_same) (auto simp: seat_ops split: if_splits)
qed

section \<open>Sweeping\<close>

lemma Seat_Ref_expired [simp]: "Seat_Ref (fst (ExpireHold now s)) = Seat_Ref s"
  by (simp add: Seat_Ref_def seat_ops)

lemma expire_loop_map:
  "expire_loop now r = (map (\<lambda>(k, s). (k, fst (ExpireHold now s))) r,
     map Seat_Ref (filter (\<lambda>s. IsHoldExpired s now) (vals r)))"
proof (induction r)
  case Nil
  then show ?case by simp
next
  case (Cons p r)
  obtain k s where p: "p = (k, s)" by force
  have "ExpireHold now s = (s, False) \<and> \<not> IsHoldExpired s now \<or>
      (\<exists>t. ExpireHold now s = (t, True) \<and> IsHoldExpired s now \<and> Seat_Ref t = Seat_Ref s)"
    using Seat_Ref_expired [of now s] by (auto simp: ExpireHold_def split: if_splits)
  then show ?case using Cons p by auto
qed

lemma ExpireHolds_store:
  "fst (ExpireHolds now r) = map (\<lambda>(k, s). (k, fst (ExpireHold now s))) r"
  "snd (ExpireHolds now r) = SortFunc ref_cmp (map Seat_Ref (filter (\<lambda>s. IsHoldExpired s now) (vals r)))"
  by (simp_all add: ExpireHolds_def expire_loop_map)

lemma map_of_ExpireHolds:
  "map_of (fst (ExpireHolds now r)) k = map_option (\<lambda>s. fst (ExpireHold now s)) (map_of r k)"
  by (simp add: ExpireHolds_store map_of_map)

lemma ExpireHold_HoldID: "HoldID (fst (ExpireHold now s)) = '''' \<or> HoldID (fst (ExpireHold now s)) = HoldID s"
  by (simp add: seat_ops)

lemma ExpireHolds_inv [keeps_inv]: "seats_inv r \<Longrightarrow> seats_inv (fst (ExpireHolds now r))"
proof -
  assume inv: "seats_inv r"
  let ?r = "fst (ExpireHolds now r)"
  have ok: "gomap_ok ?r"
    using seats_invD(1) [OF inv] by (simp add: ExpireHolds_store comp_def case_prod_unfold)
  have filed: "seat_filed k t" if "map_of ?r k = Some t" for k t
  proof -
    obtain s where s: "map_of r k = Some s" "t = fst (ExpireHold now s)"
      using \<open>map_of ?r k = Some t\<close> by (auto simp: map_of_ExpireHolds simp del: map_of_eq_Some_iff)
    have "seat_filed k s" by (rule seats_invD(2) [OF inv s(1)])
    then show ?thesis
      using ExpireHold_same [of s now] ExpireHold_wf [of s now] s(2)
      by (auto simp: seat_filed_def same_seat_def)
  qed
  have one: "k = k'"
    if "map_of ?r k = Some t" "map_of ?r k' = Some t'" "HoldID t = HoldID t'" "HoldID t \<noteq> ''''" for k t k' t'
  proof -
    note prems = that
    obtain s s' where s: "map_of r k = Some s" "t = fst (ExpireHold now s)"
      "map_of r k' = Some s'" "t' = fst (ExpireHold now s')"
      using prems(1,2) by (auto simp: map_of_ExpireHolds simp del: map_of_eq_Some_iff)
    have "HoldID t = HoldID s" "HoldID t' = HoldID s'"
      using ExpireHold_HoldID [of now s] ExpireHold_HoldID [of now s'] prems(3,4) s by auto
    then show ?thesis using seats_invD(3) [OF inv s(1,3)] prems(3,4) by simp
  qed
  show ?thesis unfolding seats_inv_def using ok filed one by blast
qed

interpretation ref_order: total_comparator ref_cmp UNIV
proof (unfold_locales, goal_cases)
  case (3 x y)
  then show ?case by (cases x; cases y) (auto simp: ref_cmp_def strings_Compare_def split: if_splits)
qed (auto simp: ref_cmp_def strings_Compare_def split: if_splits)

lemma ExpireHold_twice: "ExpireHold now (fst (ExpireHold now s)) = (fst (ExpireHold now s), False)"
  by (simp add: seat_ops)

lemma not_expired_after: "\<not> IsHoldExpired (fst (ExpireHold now s)) now"
  by (simp add: seat_ops)

section \<open>The store meets the contract\<close>

lemma hold_is_new_iff:
  "seats_inv r \<Longrightarrow>
     hold_is_new r h \<longleftrightarrow> (\<forall>e i s. slash_free e \<longrightarrow> map_of r (seatKey e i) = Some s \<longrightarrow> HoldID s \<noteq> h)"
  (is "_ \<Longrightarrow> _ \<longleftrightarrow> ?r")
proof
  assume inv: "seats_inv r" and new: ?r
  show "hold_is_new r h"
    unfolding hold_is_new_def
  proof (intro allI impI)
    fix k s assume k: "map_of r k = Some s"
    then have "k = seatKey (Seat_EventID s) (Seat_ID s)" "slash_free (Seat_EventID s)"
      using seats_invD(2) [OF inv k] by (simp_all add: seat_filed_def slash_free_def)
    then show "HoldID s \<noteq> h" using new k by metis
  qed
qed (auto simp: hold_is_new_def simp del: map_of_eq_Some_iff)

lemma find_hold_unique:
  assumes "seats_inv r" "map_of r k = Some s" "HoldID s = h" "h \<noteq> ''''"
  shows "find_hold h r = Some (k, s)"
proof -
  have ok: "gomap_ok r" by (rule seats_invD(1) [OF assms(1)])
  have "find_hold h r \<noteq> None"
    unfolding find_hold_None [OF ok] hold_is_new_def using assms(2,3) by blast
  then obtain k' s' where f: "find_hold h r = Some (k', s')" by auto
  have r: "map_of r k' = Some s'" "HoldID s' = h" using find_hold_Some [OF ok f] by auto
  have "k' = k" using seats_invD(3) [OF assms(1) r(1) assms(2)] r(2) assms(3,4) by simp
  then show ?thesis using f r(1) assms(2) by (simp del: map_of_eq_Some_iff)
qed

interpretation memory_seats: seat_repository seats_inv slash_free
  "\<lambda>st e i. map_of st (seatKey e i)" "\<lambda>st s. True" UpdateSeat UpdateSeatByHoldID ExpireHolds
proof unfold_locales
  fix st h f
  assume "seats_inv st"
    and "\<And>e i s. slash_free e \<Longrightarrow> map_of st (seatKey e i) = Some s \<Longrightarrow> HoldID s \<noteq> h"
  then show "UpdateSeatByHoldID h f st = (st, Inl (Repository ErrHoldNotFound))"
    using hold_is_new_iff [of st h] find_hold_None [of st h] seats_invD(1) [of st]
    by (simp add: UpdateSeatByHoldID_def del: map_of_eq_Some_iff)
next
  fix st e i s h f
  assume "seats_inv st" "slash_free e" "map_of st (seatKey e i) = Some s" "HoldID s = h" "h \<noteq> ''''"
  then show "UpdateSeatByHoldID h f st = UpdateSeat e i f st"
    using find_hold_unique [of st "seatKey e i" s h]
    by (simp add: UpdateSeatByHoldID_def UpdateSeat_def Let_def del: map_of_eq_Some_iff)
qed (auto simp: UpdateSeat_def Let_def seatKey_inj map_of_ExpireHolds simp del: map_of_eq_Some_iff)

section \<open>Adding seats\<close>

abbreviation key_of :: "Seat \<Rightarrow> string" where
  "key_of s \<equiv> seatKey (Seat_EventID s) (Seat_ID s)"

lemma map_of_create_loop:
  "map_of (fst (create_loop seats n r)) k =
     (case map_of r k of Some s \<Rightarrow> Some s | None \<Rightarrow> find (\<lambda>s. key_of s = k) seats)"
  by (induction seats n r rule: create_loop.induct) (auto simp: Let_def split: option.splits)

lemma create_loop_count:
  "snd (create_loop seats n r) = n + int (length (fst (create_loop seats n r))) - int (length r) \<and>
   length r \<le> length (fst (create_loop seats n r))"
  by (induction seats n r rule: create_loop.induct) (auto simp: Let_def)

lemma create_loop_inv:
  "seats_inv r \<Longrightarrow> (\<And>s. s \<in> set seats \<Longrightarrow> seat_filed (key_of s) s \<and> HoldID s = '''') \<Longrightarrow>
     seats_inv (fst (create_loop seats n r))"
  by (induction seats n r rule: create_loop.induct) (auto simp: Let_def seats_inv_update)

lemma create_loop_known:
  "(\<And>s. s \<in> set seats \<Longrightarrow> map_of r (key_of s) \<noteq> None) \<Longrightarrow> create_loop seats n r = (r, n)"
  by (induction seats n r rule: create_loop.induct) (auto simp: Let_def)

text \<open>Adding seats never overwrites a seat that is already there, held and sold ones included, and
  loses none of the new ones: afterwards every listed seat is on file, the count it reports is the
  number of seats the store grew by, and asking for the same seats again adds nothing.\<close>

theorem create_seats_adds_only:
  assumes "CreateSeats seats r = (r', n)"
  shows "(\<forall>k s. map_of r k = Some s \<longrightarrow> map_of r' k = Some s) \<and>
    (\<forall>s \<in> set seats. map_of r' (key_of s) \<noteq> None) \<and>
    (\<forall>k s. map_of r k = None \<longrightarrow> map_of r' k = Some s \<longrightarrow> s \<in> set seats \<and> key_of s = k) \<and>
    n = int (length r') - int (length r) \<and> 0 \<le> n \<and> CreateSeats seats r' = (r', 0)"
proof -
  have r': "r' = fst (create_loop seats 0 r)" using assms by (simp add: CreateSeats_def)
  have there: "map_of r' (key_of s) \<noteq> None" if "s \<in> set seats" for s
    unfolding r' map_of_create_loop
    using that find_known [of s seats "\<lambda>t. key_of t = key_of s"] by (auto split: option.split)
  have "map_of r k = None \<Longrightarrow> map_of r' k = Some s \<Longrightarrow> s \<in> set seats \<and> key_of s = k" for k s
    unfolding r' map_of_create_loop by (auto simp: find_Some_iff)
  moreover have "n = int (length r') - int (length r) \<and> 0 \<le> n"
    using create_loop_count [of seats 0 r] arg_cong [OF assms, of snd] by (simp add: CreateSeats_def r')
  moreover have "CreateSeats seats r' = (r', 0)"
    unfolding CreateSeats_def by (rule create_loop_known) (rule there)
  moreover have "map_of r k = Some s \<Longrightarrow> map_of r' k = Some s" for k s
    unfolding r' map_of_create_loop by (simp del: map_of_eq_Some_iff)
  ultimately show ?thesis using there by blast
qed

definition store_A1 :: SeatStore where
  "store_A1 = [(seatKey ''event-1'' ''A1'', held_A1)]"

definition seat_A2 :: Seat where
  "seat_A2 = NewSeat ''event-1'' ''A2'' ''A'' 2"

lemma store_A1_grows:
  "CreateSeats [seat_A1, seat_A2] store_A1 = (store_A1 @ [(seatKey ''event-1'' ''A2'', seat_A2)], 1)"
  by (simp add: CreateSeats_def store_A1_def seat_A2_def sample_seats seatKey_def)

theorem create_seats_adds_only_witness:
  "map_of (fst (CreateSeats [seat_A1, seat_A2] store_A1)) (seatKey ''event-1'' ''A1'') = Some held_A1"
proof -
  have "map_of store_A1 (seatKey ''event-1'' ''A1'') = Some held_A1" by (simp add: store_A1_def)
  with create_seats_adds_only [OF store_A1_grows] show ?thesis by (simp add: store_A1_grows)
qed

section \<open>Sweeping and listing\<close>

text \<open>A sweep frees exactly the seats whose hold has run out and touches no other: it reports each
  of them once, in event and seat order whatever order the map was walked in, no expired hold is left
  behind, a second sweep at the same instant finds nothing, and the invariant of the store is kept.\<close>

theorem expire_holds_exact:
  assumes "seats_inv r" and "ExpireHolds now r = (r', freed)"
  shows "(\<forall>k. map_of r' k = (case map_of r k of None \<Rightarrow> None
            | Some s \<Rightarrow> Some (if IsHoldExpired s now then clearHold (s\<lparr>Seat_Status := StatusAvailable\<rparr>) else s))) \<and>
    mset freed = mset (map Seat_Ref (filter (\<lambda>s. IsHoldExpired s now) (vals r))) \<and>
    sorted_wrt (\<lambda>a b. ref_cmp a b \<le> 0) freed \<and>
    (\<forall>r2. mset r2 = mset r \<longrightarrow> snd (ExpireHolds now r2) = freed) \<and>
    ExpireHolds now r' = (r', []) \<and> seats_inv r'"
proof -
  have r': "r' = map (\<lambda>(k, s). (k, fst (ExpireHold now s))) r"
    and freed: "freed = SortFunc ref_cmp (map Seat_Ref (filter (\<lambda>s. IsHoldExpired s now) (vals r)))"
    using assms(2) ExpireHolds_store [of now r] by simp_all
  have each: "map_of r' k = (case map_of r k of None \<Rightarrow> None
      | Some s \<Rightarrow> Some (if IsHoldExpired s now then clearHold (s\<lparr>Seat_Status := StatusAvailable\<rparr>) else s))" for k
    using map_of_ExpireHolds [of now r k] assms(2)
    by (auto simp: ExpireHold_def simp del: map_of_eq_Some_iff split: option.splits)
  have order: "snd (ExpireHolds now r2) = freed" if "mset r2 = mset r" for r2
    unfolding ExpireHolds_store freed
    by (rule ref_order.SortFunc_order_free)
      (simp_all add: that)
  have "map (\<lambda>(k, s). (k, fst (ExpireHold now s))) r' = r'"
    by (simp add: r' case_prod_unfold ExpireHold_twice)
  moreover have "filter (\<lambda>s. IsHoldExpired s now) (vals r') = []"
    by (auto simp: r' filter_empty_conv not_expired_after)
  ultimately have "ExpireHolds now r' = (r', [])"
    using ExpireHolds_store [of now r'] by (metis SortFunc_simps(1) list.map(1) prod.collapse)
  then show ?thesis
    using each order freed ExpireHolds_inv [OF assms(1), of now] assms(2)
      ref_order.SortFunc_sorted [of "map Seat_Ref (filter (\<lambda>s. IsHoldExpired s now) (vals r))"]
    by simp
qed

lemma store_A1_inv: "seats_inv store_A1"
  by (auto simp: store_A1_def seats_inv_def seat_filed_def sample_seats)

theorem expire_holds_exact_witness:
  "seats_inv (fst (ExpireHolds 400 store_A1)) \<and>
   snd (ExpireHolds 400 store_A1) = [\<lparr>Ref_EventID = ''event-1'', Ref_SeatID = ''A1''\<rparr>] \<and>
   snd (ExpireHolds 400 (fst (ExpireHolds 400 store_A1))) = []"
proof -
  have "snd (ExpireHolds 400 store_A1) = [\<lparr>Ref_EventID = ''event-1'', Ref_SeatID = ''A1''\<rparr>]"
    by (simp add: ExpireHolds_store store_A1_def sample_seats Seat_Ref_def seat_ops)
  moreover note e = expire_holds_exact [OF store_A1_inv surjective_pairing, of 400]
  have "seats_inv (fst (ExpireHolds 400 store_A1))" using e by blast
  moreover have "ExpireHolds 400 (fst (ExpireHolds 400 store_A1)) = (fst (ExpireHolds 400 store_A1), [])"
    using e by blast
  ultimately show ?thesis by simp
qed

interpretation seat_order: comparator seat_cmp "{s. 0 \<le> Seat_Number s \<and> Seat_Number s < 2 ^ 63}"
proof (unfold_locales, goal_cases)
  case (1 x y)
  then have "int64 (Seat_Number x - Seat_Number y) = Seat_Number x - Seat_Number y"
    "int64 (Seat_Number y - Seat_Number x) = Seat_Number y - Seat_Number x"
    by (auto intro!: int64_id)
  then show ?case by (auto simp: seat_cmp_def Let_def strings_Compare_def split: if_splits)
next
  case (2 x y z)
  then have "int64 (Seat_Number x - Seat_Number y) = Seat_Number x - Seat_Number y"
    "int64 (Seat_Number y - Seat_Number z) = Seat_Number y - Seat_Number z"
    "int64 (Seat_Number x - Seat_Number z) = Seat_Number x - Seat_Number z"
    by (auto intro!: int64_id)
  with 2(4,5) show ?case by (auto simp: seat_cmp_def Let_def strings_Compare_def split: if_splits)
qed

definition seat_place :: "Seat \<Rightarrow> string \<times> string \<times> int" where
  "seat_place s = (Seat_EventID s, Seat_Row s, Seat_Number s)"

text \<open>A listing holds exactly the seats asked for, each once, by row and then by number: the seats
  of the event for the event's page, the seats a user holds or owns for the user's page. The order is
  the numeric one (seat 10 after seat 9) for all seat numbers a seat map can have.\<close>

theorem listing_exact_and_sorted:
  assumes "\<forall>s \<in> set (vals r). 0 \<le> Seat_Number s \<and> Seat_Number s < 2 ^ 63"
  shows "mset (ListSeats eventID r) = filter_mset (\<lambda>s. Seat_EventID s = eventID) (mset (vals r)) \<and>
    mset (ListSeatsForUser userID r) =
      filter_mset (\<lambda>s. HeldBy s = userID \<or> ReservedBy s = userID) (mset (vals r)) \<and>
    sorted_wrt (\<lambda>a b. Seat_Row a < Seat_Row b \<or> Seat_Row a = Seat_Row b \<and> Seat_Number a \<le> Seat_Number b)
      (ListSeats eventID r)"
proof -
  let ?xs = "filter (\<lambda>s. Seat_EventID s = eventID) (vals r)"
  have "sorted_wrt (\<lambda>a b. seat_cmp a b \<le> 0) (ListSeats eventID r)"
    unfolding ListSeats_def sortSeats_def by (rule seat_order.SortFunc_sorted) (use assms in auto)
  moreover have "Seat_Row a < Seat_Row b \<or> Seat_Row a = Seat_Row b \<and> Seat_Number a \<le> Seat_Number b"
    if "a \<in> set (ListSeats eventID r)" "b \<in> set (ListSeats eventID r)" "seat_cmp a b \<le> 0" for a b
  proof -
    have ab: "a \<in> set ?xs" "b \<in> set ?xs" using that by (simp_all add: ListSeats_def sortSeats_def)
    have "\<forall>s \<in> set ?xs. 0 \<le> Seat_Number s \<and> Seat_Number s < 2 ^ 63" using assms by auto
    with ab have "0 \<le> Seat_Number a \<and> Seat_Number a < 2 ^ 63" "0 \<le> Seat_Number b \<and> Seat_Number b < 2 ^ 63"
      by blast+
    then have "int64 (Seat_Number a - Seat_Number b) = Seat_Number a - Seat_Number b"
      by (intro int64_id) simp_all
    with that(3) ab show ?thesis by (auto simp: seat_cmp_def Let_def strings_Compare_def split: if_splits)
  qed
  ultimately have "sorted_wrt (\<lambda>a b. Seat_Row a < Seat_Row b \<or>
      Seat_Row a = Seat_Row b \<and> Seat_Number a \<le> Seat_Number b) (ListSeats eventID r)"
    by (rule sorted_wrt_mono_rel [rotated])
  then show ?thesis by (simp add: ListSeats_def ListSeatsForUser_def sortSeats_def)
qed

theorem listing_exact_and_sorted_witness:
  "mset (ListSeats ''event-1'' store_A1) = {#held_A1#}"
  using listing_exact_and_sorted [of store_A1 "''event-1''" "''alice''"]
  by (simp add: store_A1_def sample_seats)

text \<open>A hold id leads to one seat: when a seat of the store carries the hold, an update by hold id
  is the update of that seat by its key, whatever order the map is walked in, and when no seat
  carries it the caller is told so and nothing changes.\<close>

theorem update_by_hold_is_update_of_its_seat:
  assumes "seats_inv r" and "holdID \<noteq> ''''" and "mset r2 = mset r"
  shows "(\<forall>k s. map_of r k = Some s \<longrightarrow> HoldID s = holdID \<longrightarrow>
      UpdateSeatByHoldID holdID f r = UpdateSeat (Seat_EventID s) (Seat_ID s) f r \<and>
      snd (UpdateSeatByHoldID holdID f r2) = snd (UpdateSeatByHoldID holdID f r) \<and>
      map_of (fst (UpdateSeatByHoldID holdID f r2)) = map_of (fst (UpdateSeatByHoldID holdID f r))) \<and>
    (hold_is_new r holdID \<longrightarrow>
      UpdateSeatByHoldID holdID f r = (r, Inl (Repository ErrHoldNotFound)))"
proof -
  have ok: "gomap_ok r" by (rule seats_invD(1) [OF assms(1)])
  have "mset (keys r2) = mset (keys r)" using assms(3) by simp
  then have ok2: "gomap_ok r2" using ok mset_eq_imp_distinct_iff by blast
  have "set r2 = set r" using assms(3) mset_eq_setD by blast
  then have same: "map_of r2 = map_of r" using ok ok2 map_of_inject_set by blast
  have inv2: "seats_inv r2" using assms(1) ok2 unfolding seats_inv_def same by blast
  have "UpdateSeatByHoldID holdID f r = UpdateSeat (Seat_EventID s) (Seat_ID s) f r \<and>
      snd (UpdateSeatByHoldID holdID f r2) = snd (UpdateSeatByHoldID holdID f r) \<and>
      map_of (fst (UpdateSeatByHoldID holdID f r2)) = map_of (fst (UpdateSeatByHoldID holdID f r))"
    if "map_of r k = Some s" "HoldID s = holdID" for k s
  proof -
    have k: "k = key_of s" using seats_invD(2) [OF assms(1) that(1)] by (simp add: seat_filed_def)
    have "find_hold holdID r = Some (k, s)" by (rule find_hold_unique [OF assms(1) that assms(2)])
    moreover have "find_hold holdID r2 = Some (k, s)"
      by (rule find_hold_unique [OF inv2 _ that(2) assms(2)]) (simp only: same that(1))
    ultimately show ?thesis
      using that(1) by (auto simp: UpdateSeatByHoldID_def UpdateSeat_def k fun_eq_iff same
          simp del: map_of_eq_Some_iff split: sum.split)
  qed
  then show ?thesis using find_hold_None [OF ok, of holdID] by (auto simp: UpdateSeatByHoldID_def)
qed

theorem update_by_hold_is_update_of_its_seat_witness:
  "UpdateSeatByHoldID ''h1'' (Seat_Release ''alice'') store_A1
     = UpdateSeat ''event-1'' ''A1'' (Seat_Release ''alice'') store_A1"
proof -
  have "map_of store_A1 (seatKey ''event-1'' ''A1'') = Some held_A1" "HoldID held_A1 = ''h1''"
    "Seat_EventID held_A1 = ''event-1''" "Seat_ID held_A1 = ''A1''"
    by (simp_all add: store_A1_def sample_seats)
  then show ?thesis
    using update_by_hold_is_update_of_its_seat [OF store_A1_inv, of "''h1''" store_A1 "Seat_Release ''alice''"]
    by (simp del: map_of_eq_Some_iff)
qed

end
