(* ===== verification/Seat_Machine.thy ===== *)
theory Seat_Machine
  imports Seat_Store
begin

text \<open>
  The seats as a state machine. Whatever requests, workers and sweeps run at once, the seat store sees
  one mutex-guarded call after another, so every interleaving of the program is a sequence of the steps
  below. The abstract machine is a ledger that says of every place whether it is free, taken or sold,
  and each step of the store is shown to move every place along the ledger's rules.
\<close>

section \<open>Steps of the seat store\<close>

definition new_stock :: "Seat list \<Rightarrow> bool" where
  "new_stock seats \<longleftrightarrow>
     (\<forall>s \<in> set seats. seat_wf s \<and> Seat_Status s = StatusAvailable \<and> slash_free (Seat_EventID s))"

inductive seat_step :: "SeatStore \<Rightarrow> SeatStore \<Rightarrow> bool" where
  step_hold: "hold_is_new r holdID \<Longrightarrow>
    seat_step r (fst (UpdateSeat eventID seatID (Seat_Hold holdID userID d now) r))"
| step_confirm: "seat_step r (fst (UpdateSeatByHoldID holdID (Seat_Confirm userID code now) r))"
| step_release: "seat_step r (fst (UpdateSeatByHoldID holdID (Seat_Release userID) r))"
| step_expire: "seat_step r (fst (ExpireHolds now r))"
| step_create: "new_stock seats \<Longrightarrow> seat_step r (fst (CreateSeats seats r))"

inductive_cases seat_stepE: "seat_step r r'"

abbreviation seat_steps :: "SeatStore \<Rightarrow> SeatStore \<Rightarrow> bool" where
  "seat_steps \<equiv> seat_step\<^sup>*\<^sup>*"

lemma new_stock_filed: "new_stock seats \<Longrightarrow> s \<in> set seats \<Longrightarrow> seat_filed (key_of s) s \<and> HoldID s = ''''"
  by (auto simp: new_stock_def seat_filed_def slash_free_def seat_wf_def no_hold_def)

lemma seat_step_inv [keeps_inv]: "seat_step r r' \<Longrightarrow> seats_inv r \<Longrightarrow> seats_inv r'"
proof (induction rule: seat_step.induct)
  case (step_create seats r)
  then show ?case unfolding CreateSeats_def by (intro create_loop_inv) (auto dest: new_stock_filed)
qed (simp_all add: UpdateSeat_inv UpdateSeatByHoldID_inv ExpireHolds_inv domain_ops_update_ok)

lemma seat_steps_inv: "seat_steps r r' \<Longrightarrow> seats_inv r \<Longrightarrow> seats_inv r'"
  by (induction rule: rtranclp_induct) (auto intro: seat_step_inv)

section \<open>The ledger\<close>

datatype place = Free | Taken (place_user: string) (place_hold: string) | Sold (place_user: string) (place_ticket: string)

fun place_of :: "Seat \<Rightarrow> place" where
  "place_of s =
     (case Seat_Status s of
        StatusHeld \<Rightarrow> Taken (HeldBy s) (HoldID s)
      | StatusReserved \<Rightarrow> Sold (ReservedBy s) (TicketCode s)
      | _ \<Rightarrow> Free)"

definition ledger :: "SeatStore \<Rightarrow> string \<Rightarrow> place option" where
  "ledger r k = map_option place_of (map_of r k)"

text \<open>A place appears free, is taken by somebody, changes hands or falls free, and is sold only to whoever
  had taken it. A sold place never moves.\<close>

inductive place_step :: "place option \<Rightarrow> place option \<Rightarrow> bool" where
  place_same: "place_step p p"
| place_new: "place_step None (Some Free)"
| place_take: "u \<noteq> '''' \<Longrightarrow> place_step (Some Free) (Some (Taken u h))"
| place_retake: "u \<noteq> '''' \<Longrightarrow> place_step (Some (Taken u' h')) (Some (Taken u h))"
| place_free: "place_step (Some (Taken u h)) (Some Free)"
| place_sell: "c \<noteq> '''' \<Longrightarrow> place_step (Some (Taken u h)) (Some (Sold u c))"

inductive_cases place_step_SoldE: "place_step (Some (Sold u c)) q"
inductive_simps place_step_to_Sold: "place_step p (Some (Sold u c))"

definition ledger_step :: "(string \<Rightarrow> place option) \<Rightarrow> (string \<Rightarrow> place option) \<Rightarrow> bool" where
  "ledger_step l l' \<longleftrightarrow> (\<forall>k. place_step (l k) (l' k))"

lemmas place_intros = place_same place_new place_take place_retake place_free place_sell

lemma hold_place:
  "seat_wf s \<Longrightarrow> Seat_Hold h u d now s = Inr s' \<Longrightarrow> place_step (Some (place_of s)) (Some (place_of s'))"
  by (auto simp: seat_ops seat_wf_def split: if_splits SeatStatus.splits intro: place_intros)

lemma confirm_place:
  "Seat_Confirm u c now s = Inr s' \<Longrightarrow> place_step (Some (place_of s)) (Some (place_of s'))"
  by (auto simp: seat_ops split: if_splits intro: place_intros)

lemma release_place:
  "Seat_Release u s = Inr s' \<Longrightarrow> place_step (Some (place_of s)) (Some (place_of s'))"
  by (auto simp: seat_ops split: if_splits intro: place_intros)

lemma expire_place: "place_step (Some (place_of s)) (Some (place_of (fst (ExpireHold now s))))"
  by (auto simp: seat_ops split: SeatStatus.splits intro: place_intros)

lemma ledger_update_step:
  assumes "map_of r k = Some s" "place_step (Some (place_of s)) (Some (place_of s'))"
  shows "ledger_step (ledger r) (ledger (AList.update k s' r))"
  using assms by (auto simp: ledger_step_def ledger_def intro: place_same simp del: place_of.simps map_of_eq_Some_iff)

lemma ledger_same: "ledger_step l l"
  by (simp add: ledger_step_def place_same)

lemma UpdateSeat_ledger:
  assumes "\<And>s s'. seat_wf s \<Longrightarrow> f s = Inr s' \<Longrightarrow> place_step (Some (place_of s)) (Some (place_of s'))" "seats_inv r"
  shows "ledger_step (ledger r) (ledger (fst (UpdateSeat e i f r)))"
  using assms(1) seats_invD(2) [OF assms(2)] unfolding UpdateSeat_def Let_def
  by (auto simp: ledger_same seat_filed_def simp del: place_of.simps map_of_eq_Some_iff intro!: ledger_update_step
      split: option.split sum.split)

lemma UpdateSeatByHoldID_ledger:
  assumes "\<And>s s'. seat_wf s \<Longrightarrow> f s = Inr s' \<Longrightarrow> place_step (Some (place_of s)) (Some (place_of s'))" "seats_inv r"
  shows "ledger_step (ledger r) (ledger (fst (UpdateSeatByHoldID h f r)))"
proof (cases "find_hold h r")
  case None
  then show ?thesis by (simp add: UpdateSeatByHoldID_def ledger_same)
next
  case (Some p)
  obtain k s where p: "p = (k, s)" by force
  have "map_of r k = Some s" using find_hold_Some [OF seats_invD(1) [OF assms(2)]] Some p by blast
  moreover have "seat_wf s" using seats_invD(2) [OF assms(2) calculation] by (simp add: seat_filed_def)
  ultimately show ?thesis
    using Some p assms(1) by (auto simp: UpdateSeatByHoldID_def ledger_same simp del: place_of.simps map_of_eq_Some_iff
        intro!: ledger_update_step split: sum.split)
qed

lemma place_of_stock: "new_stock seats \<Longrightarrow> s \<in> set seats \<Longrightarrow> place_of s = Free"
  by (auto simp: new_stock_def)

lemma CreateSeats_ledger:
  assumes "new_stock seats"
  shows "ledger_step (ledger r) (ledger (fst (CreateSeats seats r)))"
  unfolding ledger_step_def
proof
  fix k
  have "find (\<lambda>s. key_of s = k) seats = Some s \<Longrightarrow> place_of s = Free" for s
    using place_of_stock [OF assms] by (auto simp: find_Some_iff)
  then show "place_step (ledger r k) (ledger (fst (CreateSeats seats r)) k)"
    by (cases "map_of r k"; cases "find (\<lambda>s. key_of s = k) seats")
      (auto simp: ledger_def CreateSeats_def map_of_create_loop place_same place_new
        simp del: place_of.simps map_of_eq_Some_iff)
qed

lemma seat_step_ledger: "seat_step r r' \<Longrightarrow> seats_inv r \<Longrightarrow> ledger_step (ledger r) (ledger r')"
proof (induction rule: seat_step.induct)
  case (step_expire r now)
  have "place_step (ledger r k) (ledger (fst (ExpireHolds now r)) k)" for k
    by (cases "map_of r k") (simp_all add: ledger_def map_of_ExpireHolds place_same expire_place
        del: place_of.simps map_of_eq_Some_iff)
  then show ?case by (simp add: ledger_step_def)
qed (auto intro!: UpdateSeat_ledger UpdateSeatByHoldID_ledger CreateSeats_ledger
    intro: hold_place confirm_place release_place)

text \<open>C3. Every step of the store is a step of the ledger: whichever call runs next, each place either
  stays as it was or moves along the rules (appears free, is taken, changes hands, falls free, is sold
  to whoever had taken it), and the store's invariant holds again.\<close>

theorem seat_store_refines_ledger:
  assumes "seats_inv r" and "seat_step r r'"
  shows "ledger_step (ledger r) (ledger r') \<and> seats_inv r'"
  using seat_step_ledger [OF assms(2,1)] seat_step_inv [OF assms(2,1)] by blast

definition sold_run :: SeatStore where
  "sold_run = fst (UpdateSeatByHoldID ''h1'' (Seat_Confirm ''alice'' ''SH-1'' 399) store_A1)"

lemma sold_run_is: "sold_run = [(seatKey ''event-1'' ''A1'', sold_A1)]"
  by (simp add: sold_run_def store_A1_def UpdateSeatByHoldID_def seat_ops sample_seats sold_A1_def)

lemma sold_run_step: "seat_step store_A1 sold_run"
  unfolding sold_run_def by (rule step_confirm)

theorem seat_store_refines_ledger_witness:
  "ledger store_A1 (seatKey ''event-1'' ''A1'') = Some (Taken ''alice'' ''h1'') \<and>
   ledger sold_run (seatKey ''event-1'' ''A1'') = Some (Sold ''alice'' ''SH-1'') \<and>
   ledger_step (ledger store_A1) (ledger sold_run)"
  using seat_store_refines_ledger [OF store_A1_inv sold_run_step]
  by (simp add: ledger_def store_A1_def sold_run_is sold_A1_def sample_seats)

section \<open>No double sale\<close>

lemma UpdateSeat_sold:
  "refuses_sold f \<Longrightarrow> map_of r k = Some s \<Longrightarrow> Seat_Status s = StatusReserved \<Longrightarrow>
     map_of (fst (UpdateSeat e i f r)) k = Some s"
  by (auto simp: UpdateSeat_def Let_def refuses_sold_def simp del: map_of_eq_Some_iff split: option.split sum.split)

lemma UpdateSeatByHoldID_sold:
  assumes "refuses_sold f" "map_of r k = Some s" "Seat_Status s = StatusReserved" "gomap_ok r"
  shows "map_of (fst (UpdateSeatByHoldID h f r)) k = Some s"
proof (cases "find_hold h r")
  case None
  then show ?thesis using assms(2) by (simp add: UpdateSeatByHoldID_def)
next
  case (Some p)
  obtain k' t where p: "p = (k', t)" by force
  have "map_of r k' = Some t" using find_hold_Some [OF assms(4)] Some p by blast
  then show ?thesis
    using assms(1-3) Some p
    by (auto simp: UpdateSeatByHoldID_def refuses_sold_def simp del: map_of_eq_Some_iff split: sum.split)
qed

lemma sold_stays:
  assumes "seat_step r r'" "seats_inv r" "map_of r k = Some s" "Seat_Status s = StatusReserved"
  shows "map_of r' k = Some s"
  using assms(1)
proof (cases rule: seat_step.cases)
  case (step_expire now)
  have k: "k = key_of s" "slash_free (Seat_EventID s)"
    using seats_invD(2) [OF assms(2,3)] by (simp_all add: seat_filed_def slash_free_def)
  show ?thesis
    using memory_seats.sold_kept_expire [OF assms(2) k(2), of "Seat_ID s" s now] assms(3,4) k(1) step_expire by simp
next
  case (step_create seats)
  then show ?thesis using assms(3) by (simp add: CreateSeats_def map_of_create_loop del: map_of_eq_Some_iff)
qed (simp_all add: UpdateSeat_sold UpdateSeatByHoldID_sold assms(3,4) seats_invD(1) [OF assms(2)])

lemma sold_stays_forever:
  "seat_steps r r' \<Longrightarrow> seats_inv r \<Longrightarrow> map_of r k = Some s \<Longrightarrow> Seat_Status s = StatusReserved \<Longrightarrow>
     map_of r' k = Some s"
proof (induction rule: rtranclp_induct)
  case (step r1 r2)
  then show ?case using sold_stays [OF step.hyps(2) seat_steps_inv [OF step.hyps(1)]] by blast
qed simp

lemma sold_only_to_taker:
  assumes "seats_inv r" "seat_step r r'" "ledger r' k = Some (Sold u c)"
  shows "ledger r k = Some (Sold u c) \<or> (\<exists>h. ledger r k = Some (Taken u h))"
proof -
  have "place_step (ledger r k) (ledger r' k)"
    using seat_step_ledger [OF assms(2,1)] by (simp add: ledger_step_def)
  then show ?thesis using assms(3) by (auto simp: place_step_to_Sold)
qed

lemma taken_before_sold:
  "seat_steps r r' \<Longrightarrow> seats_inv r \<Longrightarrow> ledger r' k = Some (Sold u c) \<Longrightarrow>
     ledger r k = Some (Sold u c) \<or> (\<exists>r1 h. seat_steps r r1 \<and> seat_steps r1 r' \<and> ledger r1 k = Some (Taken u h))"
proof (induction rule: rtranclp_induct)
  case base
  then show ?case by blast
next
  case (step r1 r2)
  from sold_only_to_taker [OF seat_steps_inv [OF step.hyps(1) step.prems(1)] step.hyps(2) step.prems(2)]
  show ?case
  proof
    assume "ledger r1 k = Some (Sold u c)"
    with step.IH [OF step.prems(1)] step.hyps(2) show ?thesis
      by (meson rtranclp.rtrancl_into_rtrancl)
  next
    assume "\<exists>h. ledger r1 k = Some (Taken u h)"
    with step.hyps show ?thesis by blast
  qed
qed

lemma ledger_Sold: "ledger r k = Some (Sold u c) \<longleftrightarrow>
  (\<exists>s. map_of r k = Some s \<and> Seat_Status s = StatusReserved \<and> ReservedBy s = u \<and> TicketCode s = c)"
proof (cases "map_of r k")
  case (Some s)
  then show ?thesis by (cases "Seat_Status s") (simp_all add: ledger_def del: map_of_eq_Some_iff)
qed (simp add: ledger_def)

text \<open>C2. No seat is ever sold twice. Along every sequence of calls on the seat store, however the
  requests, the handoff workers and the sweeper interleave, a seat that is sold keeps its owner and its
  ticket for good, and every sale was made to somebody who held the seat before.\<close>

theorem no_double_sale:
  assumes "seats_inv r0" and "seat_steps r0 r1" and "seat_steps r1 r2"
    and "ledger r1 k = Some (Sold u c)"
  shows "ledger r2 k = Some (Sold u c) \<and>
    (ledger r2 k = Some (Sold u' c') \<longrightarrow> u' = u \<and> c' = c) \<and>
    (ledger r0 k = Some (Sold u c) \<or>
      (\<exists>r h. seat_steps r0 r \<and> seat_steps r r1 \<and> ledger r k = Some (Taken u h)))"
proof -
  have inv: "seats_inv r1" by (rule seat_steps_inv [OF assms(2,1)])
  have "ledger r2 k = Some (Sold u c)"
    using assms(4) sold_stays_forever [OF assms(3) inv] unfolding ledger_Sold by blast
  then show ?thesis using taken_before_sold [OF assms(2,1,4)] by auto
qed

theorem no_double_sale_witness:
  "ledger (fst (ExpireHolds 500 sold_run)) (seatKey ''event-1'' ''A1'') = Some (Sold ''alice'' ''SH-1'')"
proof -
  have "ledger sold_run (seatKey ''event-1'' ''A1'') = Some (Sold ''alice'' ''SH-1'')"
    by (simp add: ledger_def sold_run_is sold_A1_def)
  moreover have "seat_steps store_A1 sold_run" using sold_run_step by (rule r_into_rtranclp)
  moreover have "seat_steps sold_run (fst (ExpireHolds 500 sold_run))"
    by (rule r_into_rtranclp) (rule step_expire)
  ultimately show ?thesis using no_double_sale [OF store_A1_inv] by blast
qed

end
