(* ===== verification/Event_Domain.thy ===== *)
theory Event_Domain
  imports Seat_Domain
begin

text \<open>
  Events and the seat blocks they are stocked with: \<open>internal/domain/category.go\<close>, \<open>event.go\<close> and
  \<open>inventory.go\<close>. The result of the standard library's \<open>url.Parse\<close> (the scheme and the host, or
  nothing when the text is not a URL) is an argument of the validation, since the rules hold for any
  parser.
\<close>

section \<open>The model\<close>

subsection \<open>Categories\<close>

type_synonym Category = string

abbreviation CategoryOther :: Category where "CategoryOther \<equiv> ''other''"

definition DefaultCategory :: Category where
  "DefaultCategory = CategoryOther"

definition Categories :: "Category list" where
  "Categories = [''concert'', ''theatre'', ''comedy'', ''festival'', ''sport'', ''family'',
     CategoryOther]"

fun parse_category_loop :: "Category list \<Rightarrow> string \<Rightarrow> Category result" where
  "parse_category_loop [] value = Inl (Wrapf ''unknown category'' [Domain ErrUnknownCategory])"
| "parse_category_loop (c # cs) value = (if value = c then Inr c else parse_category_loop cs value)"

definition ParseCategory :: "string \<Rightarrow> Category result" where
  "ParseCategory value = parse_category_loop Categories value"

subsection \<open>Events\<close>

record EventDetails =
  City :: string
  Details_Category :: Category
  ImageURL :: string
  Description :: string
  Rules :: string

record Event =
  Event_ID :: string
  Event_Name :: string
  Event_Venue :: string
  Event_StartsAt :: time
  Event_Details :: EventDetails
  Event_CancelledAt :: time

definition MaxEventTextLength :: nat where "MaxEventTextLength = 4000"
definition MaxImageURLLength :: nat where "MaxImageURLLength = 600"

definition WithDefaults :: "EventDetails \<Rightarrow> EventDetails" where
  "WithDefaults d =
     (if Details_Category d = '''' then d\<lparr>Details_Category := DefaultCategory\<rparr> else d)"

type_synonym url_parser = "string \<Rightarrow> (string \<times> string) option"

definition validateImage :: "url_parser \<Rightarrow> EventDetails \<Rightarrow> unit result" where
  "validateImage url_Parse d =
     (if ImageURL d = '''' then Inr ()
      else if MaxImageURLLength < length (ImageURL d)
        then Inl (Wrapf ''the image address is too long'' [Domain ErrInvalidEvent])
      else case url_Parse (ImageURL d) of
        None \<Rightarrow> Inl (Wrapf ''the image address is not a URL'' [Domain ErrInvalidEvent])
      | Some (scheme, host) \<Rightarrow>
          if scheme \<noteq> ''http'' \<and> scheme \<noteq> ''https''
            then Inl (Wrapf ''the image address must be http or https'' [Domain ErrInvalidEvent])
          else if host = ''''
            then Inl (Wrapf ''the image address has no host'' [Domain ErrInvalidEvent])
          else Inr ())"

fun validate_texts :: "string list \<Rightarrow> unit result" where
  "validate_texts [] = Inr ()"
| "validate_texts (text # texts) =
     (if MaxEventTextLength < length text
        then Inl (Wrapf ''the text is too long'' [Domain ErrInvalidEvent])
      else validate_texts texts)"

definition EventDetails_Validate :: "url_parser \<Rightarrow> EventDetails \<Rightarrow> unit result" where
  "EventDetails_Validate url_Parse d =
     (if City d = '''' then Inl (Wrapf ''the city is empty'' [Domain ErrInvalidEvent])
      else case ParseCategory (Details_Category d) of
        Inl err \<Rightarrow> Inl (Wrapf '''' [Domain ErrInvalidEvent, err])
      | Inr _ \<Rightarrow>
          (case validate_texts [Description d, Rules d] of
             Inl err \<Rightarrow> Inl err
           | Inr _ \<Rightarrow> validateImage url_Parse d))"

definition IsCancelled :: "Event \<Rightarrow> bool" where
  "IsCancelled e \<longleftrightarrow> \<not> IsZero (Event_CancelledAt e)"

definition Event_Cancel :: "time \<Rightarrow> Event \<Rightarrow> Event result" where
  "Event_Cancel now e =
     (if IsCancelled e then Inl (Domain ErrEventAlreadyCancelled)
      else Inr (e\<lparr>Event_CancelledAt := Truncate_Second now\<rparr>))"

definition Event_Update ::
  "url_parser \<Rightarrow> string \<Rightarrow> string \<Rightarrow> time \<Rightarrow> EventDetails \<Rightarrow> Event \<Rightarrow> Event result" where
  "Event_Update url_Parse name venue startsAt details e =
     (if IsCancelled e then Inl (Domain ErrEventAlreadyCancelled)
      else let d = WithDefaults details in
        case EventDetails_Validate url_Parse d of
          Inl err \<Rightarrow> Inl err
        | Inr _ \<Rightarrow>
            let e1 = (if name \<noteq> '''' then e\<lparr>Event_Name := name\<rparr> else e);
                e2 = (if venue \<noteq> '''' then e1\<lparr>Event_Venue := venue\<rparr> else e1);
                e3 = (if \<not> IsZero startsAt
                      then e2\<lparr>Event_StartsAt := Truncate_Second startsAt\<rparr> else e2)
            in Inr (e3\<lparr>Event_Details := d\<rparr>))"

definition HasStarted :: "Event \<Rightarrow> time \<Rightarrow> bool" where
  "HasStarted e now = reached (Event_StartsAt e) now"

definition NewEvent ::
  "url_parser \<Rightarrow> string \<Rightarrow> string \<Rightarrow> string \<Rightarrow> time \<Rightarrow> EventDetails \<Rightarrow> Event result" where
  "NewEvent url_Parse eventID name venue startsAt details =
     (if eventID = '''' then Inl (Domain ErrEmptyEventID)
      else if name = '''' then Inl (Wrapf ''the name is empty'' [Domain ErrInvalidEvent])
      else if venue = '''' then Inl (Wrapf ''the venue is empty'' [Domain ErrInvalidEvent])
      else if IsZero startsAt then Inl (Wrapf ''it has no start time'' [Domain ErrInvalidEvent])
      else let d = WithDefaults details in
        case EventDetails_Validate url_Parse d of
          Inl err \<Rightarrow> Inl err
        | Inr _ \<Rightarrow>
            Inr \<lparr>Event_ID = eventID, Event_Name = name, Event_Venue = venue,
                 Event_StartsAt = Truncate_Second startsAt, Event_Details = d,
                 Event_CancelledAt = zero_time\<rparr>)"

subsection \<open>Seat blocks\<close>

definition MaxSeatsPerRequest :: int where "MaxSeatsPerRequest = 2000"

definition row_seats :: "string \<Rightarrow> string \<Rightarrow> int \<Rightarrow> Seat list" where
  "row_seats eventID row perRow =
     map (\<lambda>number. NewSeat eventID (row @ Itoa number) row number) [1..perRow]"

fun seat_block_loop ::
  "string \<Rightarrow> int \<Rightarrow> string list \<Rightarrow> Seat list \<Rightarrow> string list \<Rightarrow> Seat list result" where
  "seat_block_loop eventID perRow seen seats [] = Inr seats"
| "seat_block_loop eventID perRow seen seats (row # rows) =
     (if row = '''' then Inl (Wrapf ''a row label is empty'' [Domain ErrInvalidSeatMap])
      else if row \<in> set seen then Inl (Wrapf ''a row is listed twice'' [Domain ErrInvalidSeatMap])
      else seat_block_loop eventID perRow (row # seen) (seats @ row_seats eventID row perRow) rows)"

definition NewSeatBlock :: "string \<Rightarrow> string list \<Rightarrow> int \<Rightarrow> Seat list result" where
  "NewSeatBlock eventID rows perRow =
     (if eventID = '''' then Inl (Domain ErrEmptyEventID)
      else if rows = [] then Inl (Wrapf ''no rows were given'' [Domain ErrInvalidSeatMap])
      else if perRow < 1
        then Inl (Wrapf ''a row needs at least one seat'' [Domain ErrInvalidSeatMap])
      else if MaxSeatsPerRequest < perRow \<or> MaxSeatsPerRequest div perRow < int (length rows)
        then Inl (Wrapf ''more seats than allowed in one request'' [Domain ErrInvalidSeatMap])
      else seat_block_loop eventID perRow [] [] rows)"

section \<open>Categories\<close>

lemma parse_category_loop_iff: "parse_category_loop cs v = Inr c \<longleftrightarrow> c = v \<and> v \<in> set cs"
  by (induction cs) auto

lemma ParseCategory_iff [simp]: "ParseCategory v = Inr c \<longleftrightarrow> c = v \<and> v \<in> set Categories"
  by (simp add: ParseCategory_def parse_category_loop_iff)

lemma parse_category_loop_refused:
  "parse_category_loop cs v = Inl err \<longleftrightarrow>
     v \<notin> set cs \<and> err = Wrapf ''unknown category'' [Domain ErrUnknownCategory]"
  by (induction cs) auto

lemma ParseCategory_refused [simp]:
  "ParseCategory v = Inl err \<longleftrightarrow>
     v \<notin> set Categories \<and> err = Wrapf ''unknown category'' [Domain ErrUnknownCategory]"
  by (simp add: ParseCategory_def parse_category_loop_refused)

section \<open>What a stored event promises\<close>

definition details_ok :: "url_parser \<Rightarrow> EventDetails \<Rightarrow> bool" where
  "details_ok url_Parse d \<longleftrightarrow> City d \<noteq> '''' \<and> Details_Category d \<in> set Categories \<and>
     length (Description d) \<le> MaxEventTextLength \<and> length (Rules d) \<le> MaxEventTextLength \<and>
     (ImageURL d = '''' \<or> length (ImageURL d) \<le> MaxImageURLLength \<and>
       (\<exists>scheme host. url_Parse (ImageURL d) = Some (scheme, host) \<and>
          (scheme = ''http'' \<or> scheme = ''https'') \<and> host \<noteq> ''''))"

lemma EventDetails_Validate_iff: "EventDetails_Validate p d = Inr u \<longleftrightarrow> details_ok p d"
  by (auto simp: EventDetails_Validate_def validateImage_def details_ok_def not_less
      split: sum.splits if_splits option.splits prod.splits)

lemma EventDetails_Validate_err:
  "EventDetails_Validate p d = Inl err \<Longrightarrow> errors_Is err (Domain ErrInvalidEvent)"
  by (auto simp: EventDetails_Validate_def validateImage_def
      split: sum.splits if_splits option.splits prod.splits)

definition event_wf :: "url_parser \<Rightarrow> Event \<Rightarrow> bool" where
  "event_wf p e \<longleftrightarrow> Event_ID e \<noteq> '''' \<and> Event_Name e \<noteq> '''' \<and> Event_Venue e \<noteq> '''' \<and>
     Event_StartsAt e mod Second = 0 \<and> details_ok p (Event_Details e)"

lemma Truncate_Second_whole [simp]: "Truncate_Second t mod Second = 0"
  by (simp add: Truncate_Second_def mod_diff_left_eq [symmetric])

lemma WithDefaults_idem [simp]: "WithDefaults (WithDefaults d) = WithDefaults d"
  by (simp add: WithDefaults_def DefaultCategory_def)

lemma details_ok_defaults: "details_ok p d \<Longrightarrow> WithDefaults d = d"
  by (auto simp: details_ok_def WithDefaults_def Categories_def)

lemma NewEvent_wf [keeps_inv]: "NewEvent p i n v t d = Inr e \<Longrightarrow> event_wf p e \<and> \<not> IsCancelled e"
  by (auto simp: NewEvent_def event_wf_def Let_def EventDetails_Validate_iff IsCancelled_def go_time
      split: if_splits sum.splits)

lemma Event_Cancel_wf [keeps_inv]: "event_wf p e \<Longrightarrow> Event_Cancel now e = Inr e' \<Longrightarrow> event_wf p e'"
  by (auto simp: Event_Cancel_def event_wf_def split: if_splits)

lemma Event_Update_wf [keeps_inv]:
  "event_wf p e \<Longrightarrow> Event_Update p n v t d e = Inr e' \<Longrightarrow> event_wf p e'"
  by (auto simp: Event_Update_def event_wf_def Let_def EventDetails_Validate_iff
      split: if_splits sum.splits)

lemma Event_Update_keeps:
  "Event_Update p n v t d e = Inr e' \<Longrightarrow>
     Event_ID e' = Event_ID e \<and> Event_CancelledAt e' = Event_CancelledAt e"
  by (auto simp: Event_Update_def Let_def split: if_splits sum.splits)

lemma Event_Cancel_keeps:
  "Event_Cancel now e = Inr e' \<Longrightarrow> Event_ID e' = Event_ID e \<and> Event_Name e' = Event_Name e \<and>
     Event_Details e' = Event_Details e"
  by (auto simp: Event_Cancel_def split: if_splits)

lemma Truncate_Second_pos: "Second \<le> now \<Longrightarrow> 0 < Truncate_Second now"
  using Truncate_Second_bounds [of now] by simp

lemma Event_Cancel_cancels: "Second \<le> now \<Longrightarrow> Event_Cancel now e = Inr e' \<Longrightarrow> IsCancelled e'"
  using Truncate_Second_pos [of now]
  by (auto simp: Event_Cancel_def IsCancelled_def IsZero_def split: if_splits)

section \<open>Seat blocks\<close>

lemma row_seats_simps [simp]:
  "length (row_seats e r n) = nat n"
  "map Seat_ID (row_seats e r n) = map (\<lambda>k. r @ Itoa k) [1..n]"
  by (simp_all add: row_seats_def NewSeat_def comp_def)

lemma seat_block_loop_iff:
  "seat_block_loop e n seen acc rows = Inr seats \<longleftrightarrow>
     '''' \<notin> set rows \<and> distinct rows \<and> set rows \<inter> set seen = {} \<and>
     seats = acc @ concat (map (\<lambda>row. row_seats e row n) rows)"
  by (induction rows arbitrary: seen acc) auto

lemma seat_block_loop_err:
  "seat_block_loop e n seen acc rows = Inl err \<Longrightarrow> errors_Is err (Domain ErrInvalidSeatMap)"
  by (induction rows arbitrary: seen acc) (auto split: if_splits)

lemma division_guard:
  fixes n :: int
  assumes "1 \<le> n"
  shows "MaxSeatsPerRequest div n < int m \<longleftrightarrow> 2000 < int m * n"
proof -
  obtain k where k: "n = int k" "0 < k"
    using assms by (metis int_one_le_iff_zero_less nat_0_le pos_int_cases)
  have "int (2000 div k) < int m \<longleftrightarrow> int 2000 < int (m * k)"
    using k by (simp only: of_nat_less_iff div_less_iff_less_mult)
  then show ?thesis by (simp add: k MaxSeatsPerRequest_def zdiv_int)
qed

lemma length_block: "length (concat (map (\<lambda>row. row_seats e row n) rows)) = length rows * nat n"
  by (induction rows) auto

lemma NewSeatBlock_iff:
  "NewSeatBlock eventID rows perRow = Inr seats \<longleftrightarrow>
     eventID \<noteq> '''' \<and> rows \<noteq> [] \<and> 1 \<le> perRow \<and> int (length rows) * perRow \<le> 2000 \<and>
     '''' \<notin> set rows \<and> distinct rows \<and>
     seats = concat (map (\<lambda>row. row_seats eventID row perRow) rows)"
proof (cases "rows = [] \<or> perRow < 1")
  case True
  then show ?thesis by (auto simp: NewSeatBlock_def)
next
  case False
  then have n: "1 \<le> perRow" and rows: "rows \<noteq> []" by auto
  have "1 * perRow \<le> int (length rows) * perRow"
    using n rows by (intro mult_right_mono) (auto simp: Suc_le_eq)
  then have "(MaxSeatsPerRequest < perRow \<or> MaxSeatsPerRequest div perRow < int (length rows)) \<longleftrightarrow>
      2000 < int (length rows) * perRow"
    using division_guard [OF n, of "length rows"] by (auto simp: MaxSeatsPerRequest_def)
  with n rows show ?thesis by (auto simp: NewSeatBlock_def seat_block_loop_iff)
qed

text \<open>Exactly which seat maps are accepted: an event id, at least one row, no empty and no repeated
  row label, at least one seat per row and at most 2000 seats in all. The guard divides instead of
  multiplying, and refuses precisely the requests whose true product is too large, so no row count
  slips through by overflowing. An accepted request builds one fresh seat per place, in row order.\<close>

theorem seat_block_accepted_iff:
  "NewSeatBlock eventID rows perRow = Inr seats \<longleftrightarrow>
     eventID \<noteq> '''' \<and> rows \<noteq> [] \<and> 1 \<le> perRow \<and> int (length rows) * perRow \<le> 2000 \<and>
     '''' \<notin> set rows \<and> distinct rows \<and>
     seats = concat (map (\<lambda>row. map (\<lambda>k. NewSeat eventID (row @ Itoa k) row k) [1..perRow]) rows)"
  by (simp add: NewSeatBlock_iff row_seats_def)

text \<open>When no row label ends in a digit, a seat id determines its row and its number.\<close>

lemma takeWhile_digits: "r \<noteq> [] \<Longrightarrow> \<not> is_digit (last r) \<Longrightarrow>
  takeWhile is_digit (rev (r @ Itoa (int n))) = rev (nat_digits n)"
proof -
  assume r: "r \<noteq> []" "\<not> is_digit (last r)"
  then obtain r' c where rc: "r = r' @ [c]" by (metis append_butlast_last_id)
  have "\<forall>c \<in> set (rev (nat_digits n)). is_digit c" using nat_digits_all_digits by auto
  then show ?thesis using r by (simp add: rc Itoa_def takeWhile_append)
qed

lemma seat_id_inj:
  assumes "r \<noteq> []" "\<not> is_digit (last r)" "s \<noteq> []" "\<not> is_digit (last s)"
    and "1 \<le> i" "1 \<le> j" "r @ Itoa i = s @ Itoa j"
  shows "r = s \<and> i = j"
proof -
  obtain m n where mn: "i = int m" "j = int n" using assms(5,6) by (metis nat_0_le order_trans zero_le_one)
  have "rev (nat_digits m) = rev (nat_digits n)"
    using takeWhile_digits [OF assms(1,2), of m] takeWhile_digits [OF assms(3,4), of n] assms(7) mn
    by metis
  then have "m = n" using nat_digits_inj by simp
  with assms(7) mn show ?thesis by simp
qed

lemma block_ids_distinct:
  assumes "distinct rows" "'''' \<notin> set rows" "\<forall>row \<in> set rows. \<not> is_digit (last row)"
  shows "distinct (concat (map (\<lambda>row. map (\<lambda>k. row @ Itoa k) [1..n]) rows))"
  using assms
proof (induction rows)
  case Nil
  then show ?case by simp
next
  case (Cons r rows)
  have r: "r \<noteq> []" "\<not> is_digit (last r)" using Cons.prems by auto
  have "inj_on (\<lambda>k. r @ Itoa k) {1..n}"
    by (rule inj_onI) (use seat_id_inj [OF r r] in auto)
  moreover have "r @ Itoa i \<noteq> row @ Itoa j" if "row \<in> set rows" "1 \<le> i" "1 \<le> j" for row i j
  proof -
    have "row \<noteq> []" "\<not> is_digit (last row)" "row \<noteq> r" using that(1) Cons.prems by auto
    then show ?thesis using seat_id_inj [OF r] that(2,3) by metis
  qed
  ultimately show ?case using Cons by (fastforce simp: distinct_map)
qed

text \<open>Seat ids are unique within a block whenever no row label ends in a digit: every place of the
  request gets a seat of its own.\<close>

theorem seat_block_ids_distinct:
  assumes "NewSeatBlock eventID rows perRow = Inr seats"
    and "\<forall>row \<in> set rows. \<not> is_digit (last row)"
  shows "distinct (map Seat_ID seats) \<and> length seats = length rows * nat perRow \<and>
    length seats \<le> 2000"
proof -
  have seats: "seats = concat (map (\<lambda>row. row_seats eventID row perRow) rows)"
    and bound: "int (length rows) * perRow \<le> 2000" and n: "1 \<le> perRow"
    and rows: "distinct rows" "'''' \<notin> set rows"
    using assms(1) by (auto simp: NewSeatBlock_iff)
  have ids: "map Seat_ID seats = concat (map (\<lambda>row. map (\<lambda>k. row @ Itoa k) [1..perRow]) rows)"
    by (simp add: seats map_concat comp_def)
  have len: "length seats = length rows * nat perRow"
    by (simp add: seats length_block)
  have "int (length rows * nat perRow) \<le> int 2000" using bound n by simp
  then have "length rows * nat perRow \<le> 2000" by (simp only: of_nat_le_iff)
  with ids len show ?thesis using block_ids_distinct [OF rows assms(2)] by simp
qed

lemma block_AB: "NewSeatBlock ''event-1'' [''A'', ''B''] 2 = Inr (
    [NewSeat ''event-1'' ''A1'' ''A'' 1, NewSeat ''event-1'' ''A2'' ''A'' 2,
     NewSeat ''event-1'' ''B1'' ''B'' 1, NewSeat ''event-1'' ''B2'' ''B'' 2])"
  by (simp add: NewSeatBlock_iff row_seats_def upto.simps Itoa_def nat_digits.simps)

theorem seat_block_ids_distinct_witness:
  "distinct [''A1'', ''A2'', ''B1'', ''B2'']"
  using seat_block_ids_distinct [OF block_AB]
  by (simp add: is_digit_def NewSeat_def)

text \<open>Distinct row labels alone do not make distinct seat ids: with the rows A and A1 of eleven
  seats each, the eleventh seat of row A and the first of row A1 are both called A11, and the block is
  accepted with the two of them in it.\<close>

theorem seat_block_ids_can_collide:
  "\<exists>seats. NewSeatBlock ''event-1'' [''A'', ''A1''] 11 = Inr seats \<and> length seats = 22 \<and>
     Seat_ID (seats ! 10) = ''A11'' \<and> Seat_ID (seats ! 11) = ''A11''"
  by (simp add: NewSeatBlock_iff row_seats_def NewSeat_def upto.simps Itoa_def nat_digits.simps)

end
