(* ===== verification/Event_Store.thy ===== *)
theory Event_Store
  imports Event_Domain Seat_Store
begin

text \<open>
  The event store: the contract of \<open>repository.EventRepository\<close>
  (\<open>internal/repository/event_repository.go\<close>) and \<open>memory_event_repository.go\<close>. Every operation runs
  under the store's mutex. The seats a delete consults are the seat store the event store was wired
  to, or \<open>None\<close> when it was wired to none.
\<close>

section \<open>The model\<close>

type_synonym EventStore = "Event gomap"

definition storable :: "Event \<Rightarrow> Event" where
  "storable event = event\<lparr>Event_Details := WithDefaults (Event_Details event)\<rparr>"

fun NewMemoryEventRepository :: "Event list \<Rightarrow> EventStore \<Rightarrow> EventStore" where
  "NewMemoryEventRepository [] r = r"
| "NewMemoryEventRepository (event # events) r =
     NewMemoryEventRepository events (AList.update (Event_ID event) (storable event) r)"

definition CreateEvent :: "Event \<Rightarrow> EventStore \<Rightarrow> EventStore result" where
  "CreateEvent event r =
     (if map_of r (Event_ID event) \<noteq> None then Inl (Repository ErrEventExists)
      else Inr (AList.update (Event_ID event) (storable event) r))"

text \<open>The event the closure left behind is what its caller captures.\<close>

definition UpdateEvent ::
  "string \<Rightarrow> (Event \<Rightarrow> Event result) \<Rightarrow> EventStore \<Rightarrow> EventStore \<times> Event result" where
  "UpdateEvent eventID mutate r =
     (case map_of r eventID of
        None \<Rightarrow> (r, Inl (Repository ErrEventNotFound))
      | Some stored \<Rightarrow>
          (case mutate stored of
             Inl err \<Rightarrow> (r, Inl err)
           | Inr event \<Rightarrow> (AList.update eventID (storable event) r, Inr event)))"

fun all_available :: "Seat list \<Rightarrow> bool" where
  "all_available [] \<longleftrightarrow> True"
| "all_available (seat # seats) \<longleftrightarrow>
     (if Seat_Status seat \<noteq> StatusAvailable then False else all_available seats)"

definition DeleteEvent :: "string \<Rightarrow> SeatStore option \<Rightarrow> EventStore \<Rightarrow> EventStore result" where
  "DeleteEvent eventID seats r =
     (if map_of r eventID = None then Inl (Repository ErrEventNotFound)
      else case seats of
        Some store \<Rightarrow>
          if \<not> all_available (ListSeats eventID store) then Inl (Repository ErrEventInUse)
          else Inr (AList.delete eventID r)
      | None \<Rightarrow> Inr (AList.delete eventID r))"

definition GetEvent :: "string \<Rightarrow> EventStore \<Rightarrow> Event result" where
  "GetEvent eventID r =
     (case map_of r eventID of
        None \<Rightarrow> Inl (Repository ErrEventNotFound)
      | Some stored \<Rightarrow> Inr stored)"

definition event_cmp :: "Event \<Rightarrow> Event \<Rightarrow> int" where
  "event_cmp a b =
     (let when = time_Compare (Event_StartsAt a) (Event_StartsAt b) in
      if when \<noteq> 0 then when else strings_Compare (Event_ID a) (Event_ID b))"

definition ListEvents :: "EventStore \<Rightarrow> Event list" where
  "ListEvents r = SortFunc event_cmp (vals r)"

section \<open>The invariant of the store\<close>

text \<open>Events are filed under their id, with their defaults filled in.\<close>

definition events_inv :: "EventStore \<Rightarrow> bool" where
  "events_inv r \<longleftrightarrow> gomap_ok r \<and>
     (\<forall>k e. map_of r k = Some e \<longrightarrow> k = Event_ID e \<and> storable e = e)"

lemma storable_simps [simp]:
  "storable (storable e) = storable e" "Event_ID (storable e) = Event_ID e"
  "Event_CancelledAt (storable e) = Event_CancelledAt e" "IsCancelled (storable e) = IsCancelled e"
  "Event_Name (storable e) = Event_Name e" "Event_StartsAt (storable e) = Event_StartsAt e"
  by (simp_all add: storable_def IsCancelled_def)

lemma storable_wf: "event_wf p e \<Longrightarrow> storable e = e"
  by (cases e) (auto simp: storable_def event_wf_def intro: details_ok_defaults)

lemma events_inv_Nil [simp]: "events_inv []"
  by (simp add: events_inv_def)

lemma events_invD:
  "events_inv r \<Longrightarrow> gomap_ok r"
  "events_inv r \<Longrightarrow> map_of r k = Some e \<Longrightarrow> Event_ID e = k \<and> storable e = e"
  unfolding events_inv_def by blast+

lemma events_inv_update: "events_inv r \<Longrightarrow> Event_ID e = k \<Longrightarrow> events_inv (AList.update k (storable e) r)"
  by (auto simp: events_inv_def simp del: map_of_eq_Some_iff split: if_splits)

lemma CreateEvent_inv [keeps_inv]: "events_inv r \<Longrightarrow> CreateEvent e r = Inr r' \<Longrightarrow> events_inv r'"
  by (auto simp: CreateEvent_def events_inv_update simp del: map_of_eq_Some_iff split: if_splits)

lemma UpdateEvent_inv [keeps_inv]:
  assumes "events_inv r" "\<And>e e'. f e = Inr e' \<Longrightarrow> Event_ID e' = Event_ID e"
  shows "events_inv (fst (UpdateEvent k f r))"
  using assms(1) events_invD(2) [OF assms(1), of k] assms(2)
  by (auto simp: UpdateEvent_def events_inv_update simp del: map_of_eq_Some_iff split: option.split sum.split)

lemma DeleteEvent_inv [keeps_inv]: "events_inv r \<Longrightarrow> DeleteEvent k s r = Inr r' \<Longrightarrow> events_inv r'"
  by (auto simp: DeleteEvent_def events_inv_def simp del: map_of_eq_Some_iff split: if_splits option.splits)

lemma all_available_iff: "all_available seats \<longleftrightarrow> (\<forall>s \<in> set seats. Seat_Status s = StatusAvailable)"
  by (induction seats) auto

lemma set_ListSeats: "set (ListSeats e r) = {s \<in> set (vals r). Seat_EventID s = e}"
  by (auto simp: ListSeats_def sortSeats_def)

lemma UpdateEvent_Inr:
  "UpdateEvent k f r = (r', Inr e') \<Longrightarrow>
     \<exists>e. map_of r k = Some e \<and> f e = Inr e' \<and> r' = AList.update k (storable e') r"
  by (auto simp: UpdateEvent_def split: option.splits sum.splits)

lemma UpdateEvent_Inl: "UpdateEvent k f r = (r', Inl err) \<Longrightarrow> r' = r"
  by (auto simp: UpdateEvent_def split: option.splits sum.splits)

section \<open>The contract of an event repository\<close>

locale event_repository =
  fixes invar :: "'st \<Rightarrow> bool"
    and event_at :: "'st \<Rightarrow> string \<Rightarrow> Event option"
    and update_event :: "string \<Rightarrow> (Event \<Rightarrow> Event result) \<Rightarrow> 'st \<Rightarrow> 'st \<times> Event result"
  assumes update_unknown: "invar st \<Longrightarrow> event_at st e = None \<Longrightarrow>
      update_event e f st = (st, Inl (Repository ErrEventNotFound))"
    and update_refused: "invar st \<Longrightarrow> event_at st e = Some ev \<Longrightarrow> f ev = Inl err \<Longrightarrow>
      update_event e f st = (st, Inl err)"
    and update_accepted: "invar st \<Longrightarrow> event_at st e = Some ev \<Longrightarrow> f ev = Inr ev' \<Longrightarrow>
      snd (update_event e f st) = Inr ev' \<and>
      event_at (fst (update_event e f st)) = (event_at st)(e \<mapsto> storable ev')"
begin

text \<open>Withdrawing an event works once: afterwards both withdrawing and editing it are refused.\<close>

lemma cancelled_once:
  assumes "invar st" "Second \<le> now" "snd (update_event e (Event_Cancel now) st) = Inr ev'"
    and "invar (fst (update_event e (Event_Cancel now) st))"
  shows "snd (update_event e (Event_Cancel now') (fst (update_event e (Event_Cancel now) st)))
      = Inl (Domain ErrEventAlreadyCancelled)"
    and "snd (update_event e (Event_Update p n v t d) (fst (update_event e (Event_Cancel now) st)))
      = Inl (Domain ErrEventAlreadyCancelled)"
proof -
  let ?st = "fst (update_event e (Event_Cancel now) st)"
  obtain ev where ev: "event_at st e = Some ev"
    using update_unknown [OF assms(1), of e] assms(3) by (cases "event_at st e") auto
  obtain ev2 where ev2: "Event_Cancel now ev = Inr ev2"
    using update_refused [OF assms(1) ev] assms(3) by (cases "Event_Cancel now ev") auto
  have at: "event_at ?st e = Some (storable ev2)"
    using update_accepted [OF assms(1) ev, of "Event_Cancel now", OF ev2] by simp
  have c: "IsCancelled (storable ev2)" using Event_Cancel_cancels [OF assms(2) ev2] by simp
  show "snd (update_event e (Event_Cancel now') ?st) = Inl (Domain ErrEventAlreadyCancelled)"
    using update_refused [OF assms(4) at, of "Event_Cancel now'"] c by (simp add: Event_Cancel_def)
  show "snd (update_event e (Event_Update p n v t d) ?st) = Inl (Domain ErrEventAlreadyCancelled)"
    using update_refused [OF assms(4) at, of "Event_Update p n v t d"] c by (simp add: Event_Update_def)
qed

end

interpretation memory_events: event_repository events_inv map_of UpdateEvent
  by unfold_locales (auto simp: UpdateEvent_def simp del: map_of_eq_Some_iff)

section \<open>Deleting and listing\<close>

text \<open>An event with a held or sold seat is never deleted, and a delete that is allowed removes that
  event and no other: deleting succeeds exactly when the event exists and all its seats are free.\<close>

theorem delete_refused_while_in_use:
  "DeleteEvent eventID (Some seats) r =
     (if map_of r eventID = None then Inl (Repository ErrEventNotFound)
      else if \<exists>s \<in> set (vals seats). Seat_EventID s = eventID \<and> Seat_Status s \<noteq> StatusAvailable
        then Inl (Repository ErrEventInUse)
      else Inr (AList.delete eventID r)) \<and>
   map_of (AList.delete eventID r) = (map_of r)(eventID := None)"
  by (auto simp: DeleteEvent_def all_available_iff set_ListSeats delete_conv)

interpretation event_order: comparator event_cmp UNIV
  by unfold_locales (auto simp: event_cmp_def Let_def time_Compare_def strings_Compare_def split: if_splits)

text \<open>The listing holds every event once, by starting time and then by id.\<close>

definition starts_no_later :: "Event \<Rightarrow> Event \<Rightarrow> bool" where
  "starts_no_later a b \<longleftrightarrow> Event_StartsAt a < Event_StartsAt b \<or>
     Event_StartsAt a = Event_StartsAt b \<and> Event_ID a \<le> Event_ID b"

lemma ListEvents_sorted:
  "mset (ListEvents r) = mset (vals r) \<and>
   sorted_wrt starts_no_later (ListEvents r)"
proof -
  have "sorted_wrt (\<lambda>a b. event_cmp a b \<le> 0) (ListEvents r)"
    unfolding ListEvents_def by (rule event_order.SortFunc_sorted) simp
  then have "sorted_wrt starts_no_later (ListEvents r)"
    by (rule sorted_wrt_mono_rel [rotated])
      (auto simp: starts_no_later_def event_cmp_def Let_def time_Compare_def strings_Compare_def split: if_splits)
  then show ?thesis by (simp add: ListEvents_def)
qed

end
