(* ===== verification/Notice_Domain.thy ===== *)
theory Notice_Domain
  imports Errors
begin

text \<open>
  Waiting entries, notifications, deliveries and push subscriptions: \<open>internal/domain/waiting.go\<close>,
  \<open>notification.go\<close>, \<open>delivery.go\<close> and \<open>push.go\<close>.
\<close>

section \<open>The model\<close>

subsection \<open>Waiting entries\<close>

record WaitingEntry =
  Entry_ID :: string
  Entry_EventID :: string
  Entry_UserID :: string
  JoinedAt :: time

definition NewWaitingEntry :: "string \<Rightarrow> string \<Rightarrow> string \<Rightarrow> time \<Rightarrow> WaitingEntry result" where
  "NewWaitingEntry entryID eventID userID now =
     (if entryID = '''' then Inl (Domain ErrEmptyEntryID)
      else if eventID = '''' then Inl (Domain ErrEmptyEventID)
      else if userID = '''' then Inl (Domain ErrEmptyUserID)
      else Inr \<lparr>Entry_ID = entryID, Entry_EventID = eventID, Entry_UserID = userID, JoinedAt = now\<rparr>)"

definition Entry_Before :: "WaitingEntry \<Rightarrow> WaitingEntry \<Rightarrow> bool" where
  "Entry_Before e other =
     (if JoinedAt e = JoinedAt other then Entry_ID e < Entry_ID other
      else Before (JoinedAt e) (JoinedAt other))"

subsection \<open>Notifications\<close>

type_synonym NotificationKind = string

abbreviation NotifyEventCancelled :: NotificationKind where
  "NotifyEventCancelled \<equiv> ''event_cancelled''"

definition ParseNotificationKind :: "string \<Rightarrow> NotificationKind result" where
  "ParseNotificationKind value =
     (if value = NotifyEventCancelled then Inr value
      else Inl (Wrapf ''unknown notification kind'' [Domain ErrUnknownNotificationKind]))"

record Notification =
  Notification_ID :: string
  Notification_UserID :: string
  Notification_Kind :: NotificationKind
  Notification_EventID :: string
  Notification_EventName :: string
  Notification_SeatID :: string
  Notification_CreatedAt :: time
  ReadAt :: time

definition NewNotification ::
  "string \<Rightarrow> string \<Rightarrow> NotificationKind \<Rightarrow> string \<Rightarrow> string \<Rightarrow> string \<Rightarrow> time \<Rightarrow> Notification result"
where
  "NewNotification notificationID userID kind eventID eventName seatID now =
     (if notificationID = '''' then Inl (Domain ErrEmptyNotificationID)
      else if userID = '''' then Inl (Domain ErrEmptyUserID)
      else if eventID = '''' then Inl (Domain ErrEmptyEventID)
      else case ParseNotificationKind kind of
        Inl err \<Rightarrow> Inl err
      | Inr _ \<Rightarrow>
          Inr \<lparr>Notification_ID = notificationID, Notification_UserID = userID,
               Notification_Kind = kind, Notification_EventID = eventID,
               Notification_EventName = eventName, Notification_SeatID = seatID,
               Notification_CreatedAt = now, ReadAt = zero_time\<rparr>)"

definition IsRead :: "Notification \<Rightarrow> bool" where
  "IsRead n \<longleftrightarrow> \<not> IsZero (ReadAt n)"

subsection \<open>Deliveries\<close>

text \<open>\<open>LastError\<close> keeps the error whose text the source stores; the empty text is \<open>None\<close>.\<close>

type_synonym DeliveryChannel = string

abbreviation ChannelEmail :: DeliveryChannel where "ChannelEmail \<equiv> ''email''"
abbreviation ChannelPush :: DeliveryChannel where "ChannelPush \<equiv> ''push''"

definition ParseDeliveryChannel :: "string \<Rightarrow> DeliveryChannel result" where
  "ParseDeliveryChannel value =
     (if value = ChannelEmail \<or> value = ChannelPush then Inr value
      else Inl (Wrapf ''unknown delivery channel'' [Domain ErrUnknownDeliveryChannel]))"

definition MaxDeliveryAttempts :: int where "MaxDeliveryAttempts = 5"

record Delivery =
  Delivery_ID :: string
  Delivery_NotificationID :: string
  Delivery_UserID :: string
  Channel :: DeliveryChannel
  Attempts :: int
  LastError :: "goerror option"
  Delivery_CreatedAt :: time
  DueAt :: time
  SentAt :: time
  GaveUpAt :: time

definition NewDelivery ::
  "string \<Rightarrow> string \<Rightarrow> string \<Rightarrow> DeliveryChannel \<Rightarrow> time \<Rightarrow> Delivery result" where
  "NewDelivery deliveryID notificationID userID channel now =
     (if deliveryID = '''' \<or> notificationID = '''' then Inl (Domain ErrEmptyNotificationID)
      else if userID = '''' then Inl (Domain ErrEmptyUserID)
      else case ParseDeliveryChannel channel of
        Inl err \<Rightarrow> Inl err
      | Inr _ \<Rightarrow>
          Inr \<lparr>Delivery_ID = deliveryID, Delivery_NotificationID = notificationID,
               Delivery_UserID = userID, Channel = channel, Attempts = 0, LastError = None,
               Delivery_CreatedAt = now, DueAt = now, SentAt = zero_time, GaveUpAt = zero_time\<rparr>)"

definition IsDone :: "Delivery \<Rightarrow> bool" where
  "IsDone d \<longleftrightarrow> \<not> IsZero (SentAt d) \<or> \<not> IsZero (GaveUpAt d)"

definition BaseRetryDelay :: duration where "BaseRetryDelay = Minute"

text \<open>The loop runs \<open>attempts - 1\<close> times, not at all when that is negative, and doubles in 64 bits.\<close>

definition RetryBackoff :: "int \<Rightarrow> duration" where
  "RetryBackoff attempts = ((\<lambda>delay. int64 (delay * 2)) ^^ nat (attempts - 1)) BaseRetryDelay"

definition Delivery_Failed :: "goerror \<Rightarrow> time \<Rightarrow> Delivery \<Rightarrow> Delivery" where
  "Delivery_Failed reason now d =
     (let d1 = d\<lparr>Attempts := Attempts d + 1, LastError := Some reason\<rparr>
      in if MaxDeliveryAttempts \<le> Attempts d1 then d1\<lparr>GaveUpAt := now\<rparr>
         else d1\<lparr>DueAt := time_Add now (RetryBackoff (Attempts d1))\<rparr>)"

definition Delivery_GiveUp :: "goerror \<Rightarrow> time \<Rightarrow> Delivery \<Rightarrow> Delivery" where
  "Delivery_GiveUp reason now d =
     d\<lparr>Attempts := Attempts d + 1, LastError := Some reason, GaveUpAt := now\<rparr>"

definition Delivery_Sent :: "time \<Rightarrow> Delivery \<Rightarrow> Delivery" where
  "Delivery_Sent now d = d\<lparr>SentAt := now, LastError := None\<rparr>"

subsection \<open>Push subscriptions\<close>

record PushSubscription =
  Subscription_ID :: string
  Subscription_UserID :: string
  Endpoint :: string
  P256dh :: string
  Subscription_Auth :: string
  Subscription_CreatedAt :: time

definition NewPushSubscription ::
  "string \<Rightarrow> string \<Rightarrow> string \<Rightarrow> string \<Rightarrow> string \<Rightarrow> time \<Rightarrow> PushSubscription result" where
  "NewPushSubscription subscriptionID userID endpoint p256dh auth now =
     (if subscriptionID = '''' then Inl (Domain ErrEmptySubscriptionID)
      else if userID = '''' then Inl (Domain ErrEmptyUserID)
      else if endpoint = '''' \<or> p256dh = '''' \<or> auth = ''''
        then Inl (Domain ErrInvalidPushSubscription)
      else Inr \<lparr>Subscription_ID = subscriptionID, Subscription_UserID = userID,
                Endpoint = endpoint, P256dh = p256dh, Subscription_Auth = auth,
                Subscription_CreatedAt = now\<rparr>)"

section \<open>The order of a queue\<close>

text \<open>The queue's order compares the joining instant first and the entry id on a tie.\<close>

definition entry_key :: "WaitingEntry \<Rightarrow> int \<times> string" where
  "entry_key e = (JoinedAt e, Entry_ID e)"

lemma Entry_Before_iff:
  "Entry_Before e f \<longleftrightarrow> JoinedAt e < JoinedAt f \<or> JoinedAt e = JoinedAt f \<and> Entry_ID e < Entry_ID f"
  by (simp add: Entry_Before_def Before_def)

lemma Entry_Before_irrefl [simp]: "\<not> Entry_Before e e"
  by (simp add: Entry_Before_iff)

lemma Entry_Before_trans: "Entry_Before a b \<Longrightarrow> Entry_Before b c \<Longrightarrow> Entry_Before a c"
  by (auto simp: Entry_Before_iff)

lemma Entry_Before_total: "entry_key a \<noteq> entry_key b \<Longrightarrow> Entry_Before a b \<or> Entry_Before b a"
  by (auto simp: Entry_Before_iff entry_key_def)

lemma Entry_Before_asym: "Entry_Before a b \<Longrightarrow> \<not> Entry_Before b a"
  by (auto simp: Entry_Before_iff)

section \<open>Retries\<close>

lemma backoff_power:
  "k \<le> 27 \<Longrightarrow> ((\<lambda>delay. int64 (delay * 2)) ^^ k) BaseRetryDelay = BaseRetryDelay * 2 ^ k"
proof (induction k)
  case 0
  then show ?case by simp
next
  case (Suc k)
  have "(2::int) ^ Suc k \<le> 2 ^ 27" using Suc.prems by (intro power_increasing) auto
  then have "BaseRetryDelay * 2 ^ Suc k \<le> BaseRetryDelay * 2 ^ 27"
    by (simp only: BaseRetryDelay_def mult_le_cancel_left) simp
  moreover have "BaseRetryDelay * 2 ^ 27 < (2::int) ^ 63" by (simp add: BaseRetryDelay_def)
  moreover have "- (2 ^ 63) \<le> BaseRetryDelay * 2 ^ Suc k"
    by (rule order_trans [of _ 0]) (simp_all add: BaseRetryDelay_def)
  ultimately have "int64 (BaseRetryDelay * 2 ^ Suc k) = BaseRetryDelay * 2 ^ Suc k"
    by (intro int64_id) linarith+
  then show ?case using Suc by (simp add: mult.commute mult.left_commute)
qed

lemma RetryBackoff_eq: "1 \<le> n \<Longrightarrow> n \<le> 28 \<Longrightarrow> RetryBackoff n = Minute * 2 ^ nat (n - 1)"
  by (simp add: RetryBackoff_def backoff_power) (simp add: BaseRetryDelay_def)

text \<open>
  What a delivery's fields say together: at most five attempts, five exactly when it was given up or
  sent, and never both given up and sent.
\<close>

definition delivery_wf :: "Delivery \<Rightarrow> bool" where
  "delivery_wf d \<longleftrightarrow> 0 \<le> Attempts d \<and> Attempts d \<le> MaxDeliveryAttempts \<and>
     (\<not> IsDone d \<longrightarrow> Attempts d < MaxDeliveryAttempts) \<and>
     (IsZero (SentAt d) \<or> IsZero (GaveUpAt d))"

lemmas delivery_ops = Delivery_Failed_def Delivery_GiveUp_def Delivery_Sent_def IsDone_def
  delivery_wf_def MaxDeliveryAttempts_def Let_def

lemma NewDelivery_wf [keeps_inv]: "NewDelivery i n u c now = Inr d \<Longrightarrow> delivery_wf d \<and> \<not> IsDone d"
  by (auto simp: NewDelivery_def delivery_ops go_time split: if_splits sum.splits)

lemma Delivery_Failed_wf [keeps_inv]:
  "delivery_wf d \<Longrightarrow> \<not> IsDone d \<Longrightarrow> now \<noteq> zero_time \<Longrightarrow> delivery_wf (Delivery_Failed r now d)"
  by (auto simp: delivery_ops go_time)

lemma Delivery_GiveUp_wf [keeps_inv]:
  "delivery_wf d \<Longrightarrow> \<not> IsDone d \<Longrightarrow> now \<noteq> zero_time \<Longrightarrow>
     delivery_wf (Delivery_GiveUp r now d) \<and> IsDone (Delivery_GiveUp r now d)"
  by (auto simp: delivery_ops go_time)

lemma Delivery_Sent_wf [keeps_inv]:
  "delivery_wf d \<Longrightarrow> \<not> IsDone d \<Longrightarrow> now \<noteq> zero_time \<Longrightarrow>
     delivery_wf (Delivery_Sent now d) \<and> IsDone (Delivery_Sent now d)"
  by (auto simp: delivery_ops go_time)

text \<open>A failing delivery is retried with waits of one, two, four and eight minutes and is given up
  at the fifth failure: each failure either ends it or pushes its due time out by the doubled delay,
  and a delivery that has failed \<open>n\<close> times without being given up has fewer than five attempts. The
  doubling stays far inside 64 bits.\<close>

theorem failed_delivery_backs_off:
  assumes "delivery_wf d" and "\<not> IsDone d" and "now \<noteq> zero_time"
  shows "let d' = Delivery_Failed reason now d in
    Attempts d' = Attempts d + 1 \<and>
    (if Attempts d = 4 then IsDone d' \<and> DueAt d' = DueAt d
     else \<not> IsDone d' \<and> DueAt d' = now + Minute * 2 ^ nat (Attempts d) \<and> delivery_wf d')"
proof -
  have a: "0 \<le> Attempts d" "Attempts d < 5"
    using assms by (auto simp: delivery_wf_def MaxDeliveryAttempts_def)
  have "Attempts d \<noteq> 4 \<Longrightarrow> RetryBackoff (Attempts d + 1) = Minute * 2 ^ nat (Attempts d)"
    using RetryBackoff_eq [of "Attempts d + 1"] a by simp
  then show ?thesis using assms a by (auto simp: delivery_ops go_time)
qed

definition owed :: Delivery where
  "owed = \<lparr>Delivery_ID = ''d1'', Delivery_NotificationID = ''n1'', Delivery_UserID = ''alice'',
     Channel = ChannelEmail, Attempts = 3, LastError = None, Delivery_CreatedAt = 10, DueAt = 10,
     SentAt = zero_time, GaveUpAt = zero_time\<rparr>"

theorem failed_delivery_backs_off_witness:
  "DueAt (Delivery_Failed (Opaque ''refused'') 100 owed) = 100 + 8 * Minute"
proof -
  have "delivery_wf owed" "\<not> IsDone owed" "(100::int) \<noteq> zero_time"
    by (simp_all add: owed_def delivery_ops go_time)
  from failed_delivery_backs_off [OF this, of "Opaque ''refused''"]
  show ?thesis by (simp add: Let_def owed_def)
qed

end
