(* ===== verification/Waiting_Store.thy ===== *)
theory Waiting_Store
  imports Notice_Domain
begin

text \<open>
  The waiting lists: the contract of \<open>repository.WaitingListRepository\<close>
  (\<open>internal/repository/waiting_list_repository.go\<close>) and the in-memory store of
  \<open>memory_waiting_list_repository.go\<close>, one ordered queue per event. Every operation runs under the
  store's mutex, so each definition is one atomic step.
\<close>

section \<open>The model\<close>

type_synonym WaitingQueue = "WaitingEntry list"
type_synonym WaitingStore = "WaitingQueue gomap"

text \<open>Reading a key the map does not have gives the empty slice.\<close>

definition queue_of :: "WaitingStore \<Rightarrow> string \<Rightarrow> WaitingQueue" where
  "queue_of r eventID = (case map_of r eventID of None \<Rightarrow> [] | Some q \<Rightarrow> q)"

definition NewMemoryWaitingListRepository :: WaitingStore where
  "NewMemoryWaitingListRepository = []"

text \<open>\<open>slices.IndexFunc\<close>, with its -1 as \<open>None\<close>.\<close>

fun indexOfUser :: "WaitingQueue \<Rightarrow> string \<Rightarrow> nat option" where
  "indexOfUser [] userID = None"
| "indexOfUser (e # queue) userID =
     (if Entry_UserID e = userID then Some 0 else map_option Suc (indexOfUser queue userID))"

text \<open>The loop finds where to insert; the slice is split there.\<close>

fun insert_at :: "WaitingQueue \<Rightarrow> WaitingEntry \<Rightarrow> nat" where
  "insert_at [] entry = 0"
| "insert_at (other # queue) entry =
     (if Entry_Before entry other then 0 else Suc (insert_at queue entry))"

definition insertInOrder :: "WaitingQueue \<Rightarrow> WaitingEntry \<Rightarrow> WaitingQueue" where
  "insertInOrder queue entry =
     (let at = insert_at queue entry in take at queue @ [entry] @ drop at queue)"

definition slices_Delete1 :: "'a list \<Rightarrow> nat \<Rightarrow> 'a list" where
  "slices_Delete1 xs i = take i xs @ drop (Suc i) xs"

definition Waiting_Join :: "WaitingEntry \<Rightarrow> WaitingStore \<Rightarrow> WaitingStore \<times> WaitingEntry \<times> nat" where
  "Waiting_Join entry r =
     (let queue = queue_of r (Entry_EventID entry) in
      case indexOfUser queue (Entry_UserID entry) of
        Some index \<Rightarrow> (r, queue ! index, index + 1)
      | None \<Rightarrow>
          let queue' = insertInOrder queue entry in
          (AList.update (Entry_EventID entry) queue' r, entry,
           (case indexOfUser queue' (Entry_UserID entry) of None \<Rightarrow> 0 | Some index \<Rightarrow> index + 1)))"

definition Waiting_Leave :: "string \<Rightarrow> string \<Rightarrow> WaitingStore \<Rightarrow> WaitingStore" where
  "Waiting_Leave eventID userID r =
     (let queue = queue_of r eventID in
      case indexOfUser queue userID of
        None \<Rightarrow> r
      | Some index \<Rightarrow> AList.update eventID (slices_Delete1 queue index) r)"

definition TakeNext :: "string \<Rightarrow> WaitingStore \<Rightarrow> WaitingStore \<times> WaitingEntry result" where
  "TakeNext eventID r =
     (let queue = queue_of r eventID in
      if length queue = 0 then (r, Inl (Repository ErrWaitingListEmpty))
      else (AList.update eventID (slices_Delete1 queue 0) r, Inr (queue ! 0)))"

definition Rejoin :: "WaitingEntry \<Rightarrow> WaitingStore \<Rightarrow> WaitingStore" where
  "Rejoin entry r =
     (let queue = queue_of r (Entry_EventID entry) in
      if indexOfUser queue (Entry_UserID entry) \<noteq> None then r
      else AList.update (Entry_EventID entry) (insertInOrder queue entry) r)"

definition Drain :: "string \<Rightarrow> WaitingStore \<Rightarrow> WaitingStore \<times> WaitingEntry list" where
  "Drain eventID r = (AList.delete eventID r, queue_of r eventID)"

definition Position :: "string \<Rightarrow> string \<Rightarrow> WaitingStore \<Rightarrow> nat result" where
  "Position eventID userID r =
     (case indexOfUser (queue_of r eventID) userID of
        None \<Rightarrow> Inl (Repository ErrNotWaiting)
      | Some index \<Rightarrow> Inr (index + 1))"

section \<open>Queues as functions of the event\<close>

lemma queue_of_update [simp]: "queue_of (AList.update e q r) e' = (if e' = e then q else queue_of r e')"
  by (simp add: queue_of_def)

lemma queue_of_delete [simp]: "queue_of (AList.delete e r) e' = (if e' = e then [] else queue_of r e')"
  by (simp add: queue_of_def)

lemma slices_Delete1_0 [simp]: "slices_Delete1 xs 0 = tl xs"
  by (simp add: slices_Delete1_def drop_Suc)

lemma indexOfUser_None: "indexOfUser q u = None \<longleftrightarrow> u \<notin> Entry_UserID ` set q"
  by (induction q) auto

lemma indexOfUser_Some:
  "indexOfUser q u = Some i \<Longrightarrow> i < length q \<and> Entry_UserID (q ! i) = u \<and> (\<forall>j < i. Entry_UserID (q ! j) \<noteq> u)"
  by (induction q arbitrary: i) (auto split: if_splits simp: nth_Cons split: nat.splits)

lemma insertInOrder_simps [simp]:
  "insertInOrder [] x = [x]"
  "insertInOrder (y # q) x = (if Entry_Before x y then x # y # q else y # insertInOrder q x)"
  by (simp_all add: insertInOrder_def Let_def)

lemma set_insertInOrder [simp]: "set (insertInOrder q x) = insert x (set q)"
  by (induction q) auto

lemma length_insertInOrder [simp]: "length (insertInOrder q x) = Suc (length q)"
  by (induction q) auto

section \<open>The invariant of a queue\<close>

abbreviation queue_sorted :: "WaitingQueue \<Rightarrow> bool" where
  "queue_sorted \<equiv> sorted_wrt (\<lambda>a b. \<not> Entry_Before b a)"

text \<open>A queue stands in joining order, lists each user once, and belongs to its event.\<close>

definition queue_wf :: "string \<Rightarrow> WaitingQueue \<Rightarrow> bool" where
  "queue_wf eventID q \<longleftrightarrow> queue_sorted q \<and> distinct (map Entry_UserID q) \<and>
     (\<forall>x \<in> set q. Entry_EventID x = eventID)"

definition queues_inv :: "WaitingStore \<Rightarrow> bool" where
  "queues_inv r \<longleftrightarrow> (\<forall>eventID. queue_wf eventID (queue_of r eventID))"

lemma queue_wf_Nil [simp]: "queue_wf e []"
  by (simp add: queue_wf_def)

lemma queues_inv_new [simp, keeps_inv]: "queues_inv NewMemoryWaitingListRepository"
  by (simp add: queues_inv_def NewMemoryWaitingListRepository_def queue_of_def)

lemma not_Before_trans: "\<not> Entry_Before b a \<Longrightarrow> \<not> Entry_Before c b \<Longrightarrow> \<not> Entry_Before c a"
  by (auto simp: Entry_Before_iff)

lemma insertInOrder_sorted: "queue_sorted q \<Longrightarrow> queue_sorted (insertInOrder q x)"
  by (induction q) (auto dest: Entry_Before_asym Entry_Before_trans)

lemma insertInOrder_distinct:
  "distinct (map Entry_UserID q) \<Longrightarrow> Entry_UserID x \<notin> Entry_UserID ` set q \<Longrightarrow>
     distinct (map Entry_UserID (insertInOrder q x))"
  by (induction q) auto

lemma insertInOrder_wf:
  "queue_wf (Entry_EventID x) q \<Longrightarrow> indexOfUser q (Entry_UserID x) = None \<Longrightarrow>
     queue_wf (Entry_EventID x) (insertInOrder q x)"
  by (auto simp: queue_wf_def insertInOrder_sorted insertInOrder_distinct indexOfUser_None)

lemma queue_wf_Cons:
  "queue_wf e (x # q) \<longleftrightarrow> Entry_EventID x = e \<and> (\<forall>y \<in> set q. \<not> Entry_Before y x) \<and>
     Entry_UserID x \<notin> Entry_UserID ` set q \<and> queue_wf e q"
  by (auto simp: queue_wf_def)

lemma queue_wf_remove: "queue_wf e (a @ x # b) \<Longrightarrow> queue_wf e (a @ b)"
  by (auto simp: queue_wf_def sorted_wrt_append)

lemma Delete1_wf: "queue_wf e q \<Longrightarrow> queue_wf e (slices_Delete1 q i)"
proof (cases "i < length q")
  case True
  assume "queue_wf e q"
  then have "queue_wf e (take i q @ q ! i # drop (Suc i) q)" by (simp add: id_take_nth_drop [OF True, symmetric])
  then show ?thesis unfolding slices_Delete1_def by (rule queue_wf_remove)
qed (simp add: slices_Delete1_def)

lemma queues_inv_update:
  "queues_inv r \<Longrightarrow> queue_wf e q \<Longrightarrow> queues_inv (AList.update e q r)"
  by (simp add: queues_inv_def)

lemma Waiting_Join_inv [keeps_inv]: "queues_inv r \<Longrightarrow> queues_inv (fst (Waiting_Join x r))"
  unfolding Waiting_Join_def Let_def
  by (auto split: option.splits intro!: queues_inv_update insertInOrder_wf simp: queues_inv_def)

lemma Waiting_Leave_inv [keeps_inv]: "queues_inv r \<Longrightarrow> queues_inv (Waiting_Leave e u r)"
  unfolding Waiting_Leave_def Let_def
  by (auto split: option.splits intro!: queues_inv_update Delete1_wf simp: queues_inv_def)

lemma TakeNext_inv [keeps_inv]: "queues_inv r \<Longrightarrow> queues_inv (fst (TakeNext e r))"
  using Delete1_wf [of e "queue_of r e" 0]
  by (auto simp: TakeNext_def Let_def queues_inv_def)

lemma Rejoin_inv [keeps_inv]: "queues_inv r \<Longrightarrow> queues_inv (Rejoin x r)"
  unfolding Rejoin_def Let_def
  by (auto intro!: queues_inv_update insertInOrder_wf simp: queues_inv_def)

lemma Drain_inv [keeps_inv]: "queues_inv r \<Longrightarrow> queues_inv (fst (Drain e r))"
  by (simp add: Drain_def queues_inv_def)

section \<open>What the operations do to a queue\<close>

lemma Waiting_Join_new:
  "Entry_UserID x \<notin> Entry_UserID ` set (queue_of r (Entry_EventID x)) \<Longrightarrow>
     queue_of (fst (Waiting_Join x r)) e =
       (if e = Entry_EventID x then insertInOrder (queue_of r e) x else queue_of r e)"
  by (auto simp: Waiting_Join_def Let_def indexOfUser_None [symmetric])

lemma Waiting_Join_again:
  "Entry_UserID x \<in> Entry_UserID ` set (queue_of r (Entry_EventID x)) \<Longrightarrow> fst (Waiting_Join x r) = r"
  using indexOfUser_None [of "queue_of r (Entry_EventID x)" "Entry_UserID x"]
  by (auto simp: Waiting_Join_def Let_def split: option.split)

lemma TakeNext_empty: "queue_of r e = [] \<Longrightarrow> TakeNext e r = (r, Inl (Repository ErrWaitingListEmpty))"
  by (simp add: TakeNext_def)

lemma TakeNext_front:
  "queue_of r e = x # q \<Longrightarrow> snd (TakeNext e r) = Inr x \<and>
     queue_of (fst (TakeNext e r)) e' = (if e' = e then q else queue_of r e')"
  by (simp add: TakeNext_def Let_def)

lemma queue_of_Rejoin:
  "queue_of (Rejoin x r) e =
     (if e = Entry_EventID x \<and> Entry_UserID x \<notin> Entry_UserID ` set (queue_of r e)
      then insertInOrder (queue_of r e) x else queue_of r e)"
  by (auto simp: Rejoin_def Let_def indexOfUser_None [symmetric])

lemma Drain_simps [simp]:
  "snd (Drain e r) = queue_of r e"
  "queue_of (fst (Drain e r)) e' = (if e' = e then [] else queue_of r e')"
  by (simp_all add: Drain_def)

lemma insert_front:
  "(\<And>y. y \<in> set q \<Longrightarrow> Entry_Before x y) \<Longrightarrow> insertInOrder q x = x # q"
  by (cases q) auto

section \<open>The contract of a waiting list\<close>

text \<open>
  \<open>queue st e\<close> is who waits for event \<open>e\<close>, first in line first. The laws say what each call does to
  the lines; the lemmas of the context are what the handoff builds on.
\<close>

locale waiting_list =
  fixes invar :: "'st \<Rightarrow> bool"
    and queue :: "'st \<Rightarrow> string \<Rightarrow> WaitingEntry list"
    and join :: "WaitingEntry \<Rightarrow> 'st \<Rightarrow> 'st \<times> WaitingEntry \<times> nat"
    and take_next :: "string \<Rightarrow> 'st \<Rightarrow> 'st \<times> WaitingEntry result"
    and rejoin :: "WaitingEntry \<Rightarrow> 'st \<Rightarrow> 'st"
    and drain :: "string \<Rightarrow> 'st \<Rightarrow> 'st \<times> WaitingEntry list"
  assumes invar_queue: "invar st \<Longrightarrow> queue_wf e (queue st e)"
    and invar_join: "invar st \<Longrightarrow> invar (fst (join x st))"
    and invar_take: "invar st \<Longrightarrow> invar (fst (take_next e st))"
    and invar_rejoin: "invar st \<Longrightarrow> invar (rejoin x st)"
    and invar_drain: "invar st \<Longrightarrow> invar (fst (drain e st))"
    and join_new: "invar st \<Longrightarrow> Entry_UserID x \<notin> Entry_UserID ` set (queue st (Entry_EventID x)) \<Longrightarrow>
      queue (fst (join x st)) e =
        (if e = Entry_EventID x then insertInOrder (queue st e) x else queue st e)"
    and join_again: "invar st \<Longrightarrow> Entry_UserID x \<in> Entry_UserID ` set (queue st (Entry_EventID x)) \<Longrightarrow>
      queue (fst (join x st)) e = queue st e"
    and take_empty: "invar st \<Longrightarrow> queue st e = [] \<Longrightarrow>
      take_next e st = (st, Inl (Repository ErrWaitingListEmpty))"
    and take_front: "invar st \<Longrightarrow> queue st e = x # q \<Longrightarrow>
      snd (take_next e st) = Inr x \<and> queue (fst (take_next e st)) e' = (if e' = e then q else queue st e')"
    and rejoin_queue: "invar st \<Longrightarrow> queue (rejoin x st) e =
      (if e = Entry_EventID x \<and> Entry_UserID x \<notin> Entry_UserID ` set (queue st e)
       then insertInOrder (queue st e) x else queue st e)"
    and drain_all: "invar st \<Longrightarrow> snd (drain e st) = queue st e \<and>
      queue (fst (drain e st)) e' = (if e' = e then [] else queue st e')"
begin

lemma take_Inr:
  assumes "invar st" "snd (take_next e st) = Inr x"
  shows "queue st e = x # queue (fst (take_next e st)) e \<and>
     (\<forall>e'. e' \<noteq> e \<longrightarrow> queue (fst (take_next e st)) e' = queue st e')"
proof (cases "queue st e")
  case Nil
  then show ?thesis using take_empty [OF assms(1) Nil] assms(2) by simp
next
  case (Cons y q)
  have "snd (take_next e st) = Inr y" "\<And>e'. queue (fst (take_next e st)) e' = (if e' = e then q else queue st e')"
    using take_front [OF assms(1) Cons] by blast+
  then show ?thesis using assms(2) Cons by simp
qed

lemma take_Inl:
  assumes "invar st" "snd (take_next e st) = Inl err"
  shows "queue st e = [] \<and> err = Repository ErrWaitingListEmpty \<and> fst (take_next e st) = st"
proof (cases "queue st e")
  case Nil
  then show ?thesis using take_empty [OF assms(1) Nil] assms(2) by simp
next
  case (Cons y q)
  then show ?thesis using take_front [OF assms(1) Cons, of e] assms(2) by simp
qed

lemma taken_first_in_line:
  assumes "invar st" "snd (take_next e st) = Inr x" "y \<in> set (queue st e)"
  shows "\<not> Entry_Before y x"
proof -
  have q: "queue st e = x # queue (fst (take_next e st)) e" using take_Inr [OF assms(1,2)] by blast
  then have "\<forall>y \<in> set (queue (fst (take_next e st)) e). \<not> Entry_Before y x"
    using invar_queue [OF assms(1), of e] by (metis queue_wf_Cons)
  moreover have "y = x \<or> y \<in> set (queue (fst (take_next e st)) e)" using assms(3) q by (metis set_ConsD)
  ultimately show ?thesis using Entry_Before_irrefl by blast
qed

lemma taken_only_once:
  assumes "invar st" "snd (take_next e st) = Inr x" "snd (take_next e (fst (take_next e st))) = Inr y"
  shows "Entry_UserID x \<noteq> Entry_UserID y \<and> \<not> Entry_Before y x"
proof -
  let ?st = "fst (take_next e st)"
  have "queue st e = x # queue ?st e" using take_Inr [OF assms(1,2)] by blast
  moreover have "queue ?st e = y # queue (fst (take_next e ?st)) e"
    using take_Inr [OF invar_take [OF assms(1)] assms(3)] by blast
  ultimately show ?thesis using invar_queue [OF assms(1), of e] by (auto simp: queue_wf_def)
qed

lemma rejoin_restores:
  assumes "invar st" "snd (take_next e st) = Inr x" "distinct (map Entry_ID (queue st e))"
  shows "queue (rejoin x (fst (take_next e st))) e' = queue st e'"
proof -
  let ?st = "fst (take_next e st)"
  have q: "queue st e = x # queue ?st e" "\<And>e'. e' \<noteq> e \<Longrightarrow> queue ?st e' = queue st e'"
    using take_Inr [OF assms(1,2)] by blast+
  have wf: "queue_wf e (x # queue ?st e)" using invar_queue [OF assms(1), of e] q(1) by simp
  have "Entry_Before x y" if "y \<in> set (queue ?st e)" for y
  proof -
    have "\<not> Entry_Before y x" using wf that by (auto simp: queue_wf_def)
    moreover have "entry_key x \<noteq> entry_key y" using assms(3) q(1) that by (auto simp: entry_key_def)
    ultimately show ?thesis using Entry_Before_total [of x y] by blast
  qed
  then have "insertInOrder (queue ?st e) x = x # queue ?st e" by (rule insert_front)
  moreover have "Entry_EventID x = e" "Entry_UserID x \<notin> Entry_UserID ` set (queue ?st e)"
    using wf by (auto simp: queue_wf_def)
  ultimately show ?thesis using rejoin_queue [OF invar_take [OF assms(1)], of x e e'] q by auto
qed

lemma join_twice:
  assumes "invar st" "Entry_UserID y = Entry_UserID x" "Entry_EventID y = Entry_EventID x"
  shows "queue (fst (join y (fst (join x st)))) e = queue (fst (join x st)) e"
proof (rule join_again [OF invar_join [OF assms(1)]])
  show "Entry_UserID y \<in> Entry_UserID ` set (queue (fst (join x st)) (Entry_EventID y))"
    by (cases "Entry_UserID x \<in> Entry_UserID ` set (queue st (Entry_EventID x))")
      (simp_all add: join_new [OF assms(1)] join_again [OF assms(1)] assms(2,3))
qed

end

interpretation memory_waiting: waiting_list queues_inv queue_of Waiting_Join TakeNext Rejoin Drain
  by unfold_locales
    (auto simp: Waiting_Join_inv TakeNext_inv Rejoin_inv Drain_inv Waiting_Join_new Waiting_Join_again
      TakeNext_empty TakeNext_front queue_of_Rejoin queues_inv_def [THEN iffD1])

section \<open>Places in the line\<close>

lemma insert_at_count:
  "queue_sorted q \<Longrightarrow> insert_at q x = length (filter (\<lambda>z. \<not> Entry_Before x z) q)"
proof (induction q)
  case Nil
  then show ?case by simp
next
  case (Cons y q)
  have "Entry_Before x z" if "Entry_Before x y" "z \<in> set q" for z
    using that Cons.prems by (auto simp: Entry_Before_iff)
  then have "Entry_Before x y \<Longrightarrow> filter (\<lambda>z. \<not> Entry_Before x z) q = []"
    by (auto simp: filter_empty_conv)
  with Cons show ?case by simp
qed

lemma indexOfUser_insert:
  "Entry_UserID x \<notin> Entry_UserID ` set q \<Longrightarrow>
     indexOfUser (insertInOrder q x) (Entry_UserID x) = Some (insert_at q x) \<and>
     insertInOrder q x ! insert_at q x = x"
  by (induction q) auto

text \<open>Joining gives the place the caller then has: the position returned is the one \<open>Position\<close>
  reports afterwards and the entry returned stands there. A newcomer stands right behind everybody
  who joined before them; somebody already waiting keeps entry and place, and nothing changes.\<close>

lemma join_gives_place:
  assumes "queues_inv r" and "Waiting_Join x r = (r', y, p)"
  shows "Position (Entry_EventID x) (Entry_UserID x) r' = Inr p \<and>
    1 \<le> p \<and> p \<le> length (queue_of r' (Entry_EventID x)) \<and>
    queue_of r' (Entry_EventID x) ! (p - 1) = y \<and> Entry_UserID y = Entry_UserID x \<and>
    (if Entry_UserID x \<in> Entry_UserID ` set (queue_of r (Entry_EventID x)) then r' = r
     else y = x \<and> p = 1 + length (filter (\<lambda>z. \<not> Entry_Before x z) (queue_of r (Entry_EventID x))))"
proof (cases "indexOfUser (queue_of r (Entry_EventID x)) (Entry_UserID x)")
  case (Some i)
  then show ?thesis
    using assms(2) indexOfUser_Some [OF Some] indexOfUser_None [of "queue_of r (Entry_EventID x)" "Entry_UserID x"]
    by (auto simp: Waiting_Join_def Position_def)
next
  case None
  let ?q = "queue_of r (Entry_EventID x)"
  have new: "Entry_UserID x \<notin> Entry_UserID ` set ?q" using None indexOfUser_None by blast
  have "queue_sorted ?q" using assms(1) by (simp add: queues_inv_def queue_wf_def)
  with None new assms(2) show ?thesis
    using indexOfUser_insert [OF new] insert_at_count [of ?q x] indexOfUser_Some [of "insertInOrder ?q x"]
    by (auto simp: Waiting_Join_def Position_def Let_def)
qed

definition waiting_ann :: WaitingEntry where
  "waiting_ann = \<lparr>Entry_ID = ''w1'', Entry_EventID = ''event-1'', Entry_UserID = ''ann'', JoinedAt = 10\<rparr>"

definition waiting_bob :: WaitingEntry where
  "waiting_bob = \<lparr>Entry_ID = ''w2'', Entry_EventID = ''event-1'', Entry_UserID = ''bob'', JoinedAt = 20\<rparr>"

definition two_waiting :: WaitingStore where
  "two_waiting = [(''event-1'', [waiting_ann, waiting_bob])]"

lemmas sample_waiting = two_waiting_def waiting_ann_def waiting_bob_def queue_of_def

lemma two_waiting_inv: "queues_inv two_waiting"
  by (simp add: queues_inv_def queue_wf_def sample_waiting Entry_Before_iff)

theorem join_gives_place_witness:
  "Position ''event-1'' ''cid'' (fst (Waiting_Join (waiting_ann\<lparr>Entry_UserID := ''cid'', JoinedAt := 15\<rparr>)
     two_waiting)) = Inr 2"
proof -
  let ?x = "waiting_ann\<lparr>Entry_UserID := ''cid'', JoinedAt := 15\<rparr>"
  obtain r' y p where j: "Waiting_Join ?x two_waiting = (r', y, p)" by (metis prod_cases3)
  from join_gives_place [OF two_waiting_inv j] show ?thesis
    by (simp add: j) (simp add: sample_waiting Entry_Before_iff)
qed

text \<open>The line is served first come, first served, and nobody twice: whoever is taken had joined no
  later than anyone still waiting, leaves the line, and the next one taken is somebody else; the lines
  of other events are not touched. Only an empty line answers that there is nobody.\<close>

theorem take_next_first_come:
  assumes "queues_inv r" and "TakeNext e r = (r', res)"
  shows "case res of
      Inl err \<Rightarrow> err = Repository ErrWaitingListEmpty \<and> queue_of r e = [] \<and> r' = r
    | Inr x \<Rightarrow> queue_of r e = x # queue_of r' e \<and>
        (\<forall>y \<in> set (queue_of r e). \<not> Entry_Before y x) \<and>
        (\<forall>y \<in> set (queue_of r' e). Entry_UserID y \<noteq> Entry_UserID x) \<and>
        (\<forall>e'. e' \<noteq> e \<longrightarrow> queue_of r' e' = queue_of r e') \<and> queues_inv r'"
proof (cases res)
  case (Inl err)
  then show ?thesis using memory_waiting.take_Inl [of r e err] assms by auto
next
  case (Inr x)
  have t: "snd (TakeNext e r) = Inr x" "fst (TakeNext e r) = r'" using assms(2) Inr by simp_all
  have q: "queue_of r e = x # queue_of r' e" "\<forall>e'. e' \<noteq> e \<longrightarrow> queue_of r' e' = queue_of r e'"
    using memory_waiting.take_Inr [OF assms(1) t(1)] t(2) by simp_all
  have "queue_wf e (x # queue_of r' e)" using memory_waiting.invar_queue [OF assms(1), of e] q(1) by simp
  moreover have "\<forall>y \<in> set (queue_of r e). \<not> Entry_Before y x"
    using memory_waiting.taken_first_in_line [OF assms(1) t(1)] by blast
  moreover have "queues_inv r'" using TakeNext_inv [OF assms(1), of e] t(2) by simp
  ultimately show ?thesis using q Inr unfolding queue_wf_Cons by (auto intro: rev_image_eqI)
qed

theorem take_next_first_come_witness:
  "TakeNext ''event-1'' two_waiting = ([(''event-1'', [waiting_bob])], Inr waiting_ann) \<and>
   queues_inv [(''event-1'', [waiting_bob])]"
proof -
  have t: "TakeNext ''event-1'' two_waiting = ([(''event-1'', [waiting_bob])], Inr waiting_ann)"
    by (simp add: TakeNext_def sample_waiting)
  show ?thesis using take_next_first_come [OF two_waiting_inv t] t by simp
qed

text \<open>Putting back somebody who was just taken restores every line exactly as it stood: a failed
  handoff costs nobody their place.\<close>

theorem rejoin_undoes_take:
  assumes "queues_inv r" and "TakeNext e r = (r', Inr x)" and "distinct (map Entry_ID (queue_of r e))"
  shows "queue_of (Rejoin x r') = queue_of r \<and> queues_inv (Rejoin x r')"
  using memory_waiting.rejoin_restores [OF assms(1) _ assms(3), of x] assms(2)
    memory_waiting.invar_rejoin [OF TakeNext_inv [OF assms(1), of e], of x] by (auto simp: fun_eq_iff)

theorem rejoin_undoes_take_witness:
  "queue_of (Rejoin waiting_ann [(''event-1'', [waiting_bob])]) ''event-1'' = [waiting_ann, waiting_bob]"
proof -
  have "TakeNext ''event-1'' two_waiting = ([(''event-1'', [waiting_bob])], Inr waiting_ann)"
    by (simp add: TakeNext_def sample_waiting)
  from rejoin_undoes_take [OF two_waiting_inv this] show ?thesis
    by (simp add: sample_waiting)
qed

end
