(* ===== verification/Claim_Queue.thy ===== *)
theory Claim_Queue
  imports Prelude
begin

text \<open>
  Work queues kept in a map. Two stores of the program hand out work the same way
  (\<open>MemoryDeliveryRepository.TakeDue\<close> and \<open>MemoryVerificationRepository.ClaimUnsent\<close>): collect the keys
  that are ready, sort them by a time stamp with the key on a tie, cut the list at a limit, and mark
  every entry on it before giving copies away. The locale states what marking must achieve and
  derives that no two callers are given the same entry.
\<close>

definition cmpString :: "string \<Rightarrow> string \<Rightarrow> int" where
  "cmpString a b = (if a < b then -1 else if b < a then 1 else 0)"

lemma cmpString_eq: "cmpString = strings_Compare"
  by (simp add: fun_eq_iff cmpString_def strings_Compare_def)

definition cut_limit :: "int \<Rightarrow> 'a list \<Rightarrow> 'a list" where
  "cut_limit limit xs = (if 0 < limit \<and> limit < int (length xs) then take (nat limit) xs else xs)"

definition stamp_cmp :: "('v \<Rightarrow> time) \<Rightarrow> 'v gomap \<Rightarrow> string \<Rightarrow> string \<Rightarrow> int" where
  "stamp_cmp stamp r a b =
     (let c = time_Compare (stamp (the (map_of r a))) (stamp (the (map_of r b))) in
      if c \<noteq> 0 then c else cmpString a b)"

fun claim_each :: "('v \<Rightarrow> 'v) \<Rightarrow> string list \<Rightarrow> 'v gomap \<Rightarrow> 'v gomap \<times> 'v list" where
  "claim_each mark [] r = (r, [])"
| "claim_each mark (key # ks) r =
     (let v = mark (the (map_of r key)); (r', taken) = claim_each mark ks (AList.update key v r)
      in (r', v # taken))"

definition claim :: "('v \<Rightarrow> bool) \<Rightarrow> ('v \<Rightarrow> time) \<Rightarrow> ('v \<Rightarrow> 'v) \<Rightarrow> int \<Rightarrow> 'v gomap \<Rightarrow> 'v gomap \<times> 'v list" where
  "claim ready stamp mark limit r =
     claim_each mark
       (cut_limit limit (SortFunc (stamp_cmp stamp r) (map fst (filter (\<lambda>(k, v). ready v) r)))) r"

interpretation stamp_order: total_comparator "stamp_cmp stamp r" UNIV for stamp r
proof (unfold_locales, goal_cases)
  case (3 x y)
  then show ?case
    by (auto simp: stamp_cmp_def Let_def time_Compare_def cmpString_def split: if_splits)
qed (auto simp: stamp_cmp_def Let_def time_Compare_def cmpString_def split: if_splits)

lemma set_cut_limit: "set (cut_limit n xs) \<subseteq> set xs"
  by (auto simp: cut_limit_def dest: in_set_takeD)

lemma length_cut_limit: "0 < n \<Longrightarrow> int (length (cut_limit n xs)) \<le> n"
  by (simp add: cut_limit_def)

lemma distinct_cut_limit: "distinct xs \<Longrightarrow> distinct (cut_limit n xs)"
  by (simp add: cut_limit_def)

lemma sorted_cut_limit: "sorted_wrt R xs \<Longrightarrow> sorted_wrt R (cut_limit n xs)"
  by (simp add: cut_limit_def sorted_wrt_take)

lemma cut_limit_prefix: "\<exists>rest. xs = cut_limit n xs @ rest"
  by (metis append_Nil2 append_take_drop_id cut_limit_def)

lemma claim_each_Cons:
  "claim_each mark (key # ks) r =
     (let c = claim_each mark ks (AList.update key (mark (the (map_of r key))) r)
      in (fst c, mark (the (map_of r key)) # snd c))"
  by (simp add: Let_def case_prod_unfold)

lemma map_of_claim_each:
  assumes "distinct ks" "\<And>k. k \<in> set ks \<Longrightarrow> map_of r k \<noteq> None"
  shows "map_of (fst (claim_each mark ks r)) k =
       (if k \<in> set ks then map_option mark (map_of r k) else map_of r k) \<and>
     snd (claim_each mark ks r) = map (\<lambda>k. mark (the (map_of r k))) ks"
  using assms
proof (induction ks arbitrary: r)
  case Nil
  then show ?case by simp
next
  case (Cons key ks)
  obtain v where v: "map_of r key = Some v" using Cons.prems(2) [of key] by auto
  let ?r = "AList.update key (mark (the (map_of r key))) r"
  have "map_of ?r k \<noteq> None" if "k \<in> set ks" for k
    using Cons.prems(2) [of k] that by (simp del: map_of_eq_None_iff)
  then have IH: "map_of (fst (claim_each mark ks ?r)) k =
      (if k \<in> set ks then map_option mark (map_of ?r k) else map_of ?r k)"
    "snd (claim_each mark ks ?r) = map (\<lambda>k. mark (the (map_of ?r k))) ks"
    using Cons.IH [of ?r] Cons.prems(1) by simp_all
  have "map (\<lambda>k. mark (the (map_of ?r k))) ks = map (\<lambda>k. mark (the (map_of r k))) ks"
    using Cons.prems(1) by auto
  with IH Cons.prems(1) v show ?case
    unfolding claim_each_Cons Let_def by (simp del: map_of_eq_Some_iff)
qed

lemma gomap_ok_claim_each: "gomap_ok r \<Longrightarrow> gomap_ok (fst (claim_each mark ks r))"
  by (induction ks arbitrary: r) (auto simp: Let_def case_prod_unfold)

text \<open>
  \<open>ready now v\<close> says that \<open>v\<close> may be taken at \<open>now\<close>, \<open>stamp\<close> is what the queue is ordered by, and
  \<open>mark now\<close> is what taking does. A claim made at \<open>now\<close> is exclusive at \<open>now'\<close> when \<open>guards now now'\<close>.
\<close>

locale claim_queue =
  fixes ready :: "time \<Rightarrow> 'v \<Rightarrow> bool"
    and stamp :: "'v \<Rightarrow> time"
    and mark :: "time \<Rightarrow> 'v \<Rightarrow> 'v"
    and guards :: "time \<Rightarrow> time \<Rightarrow> bool"
  assumes marked_not_ready: "guards now now' \<Longrightarrow> ready now v \<Longrightarrow> \<not> ready now' (mark now v)"
begin

abbreviation claim_at :: "time \<Rightarrow> int \<Rightarrow> 'v gomap \<Rightarrow> 'v gomap \<times> 'v list" where
  "claim_at now limit r \<equiv> claim (ready now) stamp (mark now) limit r"

abbreviation ready_keys :: "time \<Rightarrow> 'v gomap \<Rightarrow> string list" where
  "ready_keys now r \<equiv> SortFunc (stamp_cmp stamp r) (map fst (filter (\<lambda>(k, v). ready now v) r))"

lemma in_ready_keys:
  assumes "gomap_ok r"
  shows "k \<in> set (ready_keys now r) \<longleftrightarrow> (\<exists>v. map_of r k = Some v \<and> ready now v)"
proof -
  have "k \<in> set (ready_keys now r) \<longleftrightarrow> (\<exists>v. (k, v) \<in> set r \<and> ready now v)" by force
  then show ?thesis by (simp add: in_gomap_iff [OF assms] del: map_of_eq_Some_iff)
qed

lemma distinct_ready_keys: "gomap_ok r \<Longrightarrow> distinct (ready_keys now r)"
  by (metis distinct_map_filter mset_SortFunc mset_eq_imp_distinct_iff)

text \<open>What a claim takes: a prefix of the ready entries in stamp order, each marked in the store.\<close>

lemma claim_takes:
  assumes "gomap_ok r" "claim_at now limit r = (r', taken)"
  obtains ks rest where "ready_keys now r = ks @ rest"
    and "taken = map (\<lambda>k. mark now (the (map_of r k))) ks"
    and "\<And>k. map_of r' k = (if k \<in> set ks then map_option (mark now) (map_of r k) else map_of r k)"
    and "ks = cut_limit limit (ready_keys now r)" and "gomap_ok r'"
proof -
  let ?ks = "cut_limit limit (ready_keys now r)"
  obtain rest where rest: "ready_keys now r = ?ks @ rest" using cut_limit_prefix by blast
  have d: "distinct ?ks" using distinct_ready_keys [OF assms(1)] by (rule distinct_cut_limit)
  have known: "map_of r k \<noteq> None" if "k \<in> set ?ks" for k
    using that set_cut_limit [of limit "ready_keys now r"] in_ready_keys [OF assms(1), of k now] by blast
  have c: "claim_each (mark now) ?ks r = (r', taken)" using assms(2) by (simp add: claim_def)
  show thesis
    using that [OF rest] map_of_claim_each [OF d known, where mark = "mark now"]
      gomap_ok_claim_each [OF assms(1), of "mark now" ?ks] c by simp
qed

text \<open>Two callers never get the same entry while the first claim guards it.\<close>

lemma claimed_once:
  assumes "gomap_ok r" "claim_at now limit r = (r', taken)" "guards now now'"
    and "map_of r k = Some v" "ready now v" "map_of r' k \<noteq> Some v"
  shows "k \<notin> set (ready_keys now' r')"
proof -
  obtain ks rest where ks: "\<And>k. map_of r' k = (if k \<in> set ks then map_option (mark now) (map_of r k) else map_of r k)"
    and ok: "gomap_ok r'"
    using claim_takes [OF assms(1,2)] by metis
  have "map_of r' k = Some (mark now v)" using ks [of k] assms(4,6) by (simp split: if_splits)
  then show ?thesis
    using in_ready_keys [OF ok, of k now'] marked_not_ready [OF assms(3,5)] by simp
qed

text \<open>Nothing older is left behind: an entry passed over is stamped no earlier than one taken.\<close>

lemma oldest_first:
  assumes "gomap_ok r" "claim_at now limit r = (r', taken)" "ready_keys now r = ks @ rest"
    and "k \<in> set ks" "k' \<in> set rest"
  shows "stamp (the (map_of r k)) \<le> stamp (the (map_of r k'))"
proof -
  have "sorted_wrt (\<lambda>a b. stamp_cmp stamp r a b \<le> 0) (ready_keys now r)"
    by (rule stamp_order.SortFunc_sorted) simp
  then have "stamp_cmp stamp r k k' \<le> 0" using assms(3-5) by (auto simp: sorted_wrt_append)
  then show ?thesis by (auto simp: stamp_cmp_def Let_def time_Compare_def split: if_splits)
qed

text \<open>The answer does not depend on the order in which the map is walked.\<close>

lemma claim_order_free:
  assumes "gomap_ok r" "mset r2 = mset r"
  shows "snd (claim_at now limit r2) = snd (claim_at now limit r)"
proof -
  have "mset (keys r2) = mset (keys r)" using assms(2) by simp
  then have ok2: "gomap_ok r2" using assms(1) mset_eq_imp_distinct_iff by blast
  have "set r2 = set r" using assms(2) mset_eq_setD by blast
  then have same: "map_of r2 = map_of r" using assms(1) ok2 map_of_inject_set by blast
  have cmp: "stamp_cmp stamp r2 = stamp_cmp stamp r" by (simp add: fun_eq_iff stamp_cmp_def same)
  have keys: "ready_keys now r2 = ready_keys now r"
    unfolding cmp by (rule stamp_order.SortFunc_order_free) (simp_all add: assms(2))
  obtain a b where a: "claim_at now limit r = (a, b)" by force
  obtain a2 b2 where a2: "claim_at now limit r2 = (a2, b2)" by force
  show ?thesis
    using claim_takes [OF assms(1) a] claim_takes [OF ok2 a2] keys a a2 same by (metis snd_conv)
qed

end

end
