(* ===== verification/Notice_Stores.thy ===== *)
theory Notice_Stores
  imports Notice_Domain Claim_Queue
begin

text \<open>
  The in-memory stores for what people are told: the outbox (\<open>memory_delivery_repository.go\<close>), the
  inbox (\<open>memory_notification_repository.go\<close>) and the browsers to push to
  (\<open>memory_push_repository.go\<close>). Each operation is one step under the store's mutex.
\<close>

section \<open>The outbox\<close>

type_synonym DeliveryStore = "Delivery gomap"

definition DeliveryLease :: duration where "DeliveryLease = Minute"

definition deliveryKey :: "string \<Rightarrow> DeliveryChannel \<Rightarrow> string" where
  "deliveryKey notificationID channel = notificationID @ ''/'' @ channel"

fun Enqueue :: "Delivery list \<Rightarrow> DeliveryStore \<Rightarrow> DeliveryStore" where
  "Enqueue [] r = r"
| "Enqueue (delivery # deliveries) r =
     (let key = deliveryKey (Delivery_NotificationID delivery) (Channel delivery) in
      if map_of r key \<noteq> None then Enqueue deliveries r
      else Enqueue deliveries (AList.update key delivery r))"

definition TakeDue :: "time \<Rightarrow> int \<Rightarrow> DeliveryStore \<Rightarrow> DeliveryStore \<times> Delivery list" where
  "TakeDue now limit r =
     (let ks = map fst (filter (\<lambda>(key, delivery). \<not> (IsDone delivery \<or> Before now (DueAt delivery))) r);
          ks = SortFunc (stamp_cmp DueAt r) ks;
          ks = cut_limit limit ks
      in claim_each (\<lambda>delivery. delivery\<lparr>DueAt := time_Add now DeliveryLease\<rparr>) ks r)"

definition Delivery_Save :: "Delivery \<Rightarrow> DeliveryStore \<Rightarrow> DeliveryStore result" where
  "Delivery_Save delivery r =
     (let key = deliveryKey (Delivery_NotificationID delivery) (Channel delivery) in
      if map_of r key = None then Inl (Repository ErrDeliveryNotFound)
      else Inr (AList.update key delivery r))"

definition Pending :: "DeliveryStore \<Rightarrow> nat" where
  "Pending r = length (filter (\<lambda>delivery. \<not> IsDone delivery) (vals r))"

subsection \<open>The outbox is a claim queue\<close>

interpretation outbox: claim_queue
  "\<lambda>now d. \<not> (IsDone d \<or> Before now (DueAt d))" DueAt
  "\<lambda>now d. d\<lparr>DueAt := time_Add now DeliveryLease\<rparr>"
  "\<lambda>now now'. now' < now + DeliveryLease"
  by unfold_locales (simp add: go_time)

lemma TakeDue_claim: "TakeDue now limit r = outbox.claim_at now limit r"
  by (simp add: TakeDue_def claim_def Let_def)

abbreviation delivery_key :: "Delivery \<Rightarrow> string" where
  "delivery_key d \<equiv> deliveryKey (Delivery_NotificationID d) (Channel d)"

text \<open>Every delivery is filed under its notice and channel, and is well formed.\<close>

definition outbox_inv :: "DeliveryStore \<Rightarrow> bool" where
  "outbox_inv r \<longleftrightarrow> gomap_ok r \<and> (\<forall>k d. map_of r k = Some d \<longrightarrow> k = delivery_key d \<and> delivery_wf d)"

lemma outbox_invD:
  "outbox_inv r \<Longrightarrow> gomap_ok r"
  "outbox_inv r \<Longrightarrow> map_of r k = Some d \<Longrightarrow> delivery_key d = k \<and> delivery_wf d"
  unfolding outbox_inv_def by blast+

lemma outbox_inv_Nil [simp]: "outbox_inv []"
  by (simp add: outbox_inv_def)

lemma outbox_inv_update:
  "outbox_inv r \<Longrightarrow> delivery_wf d \<Longrightarrow> outbox_inv (AList.update (delivery_key d) d r)"
  by (auto simp: outbox_inv_def simp del: map_of_eq_Some_iff split: if_splits)

lemma Enqueue_inv [keeps_inv]:
  "outbox_inv r \<Longrightarrow> \<forall>d \<in> set ds. delivery_wf d \<Longrightarrow> outbox_inv (Enqueue ds r)"
  by (induction ds r rule: Enqueue.induct) (auto simp: Let_def outbox_inv_update)

lemma Delivery_Save_inv [keeps_inv]:
  "outbox_inv r \<Longrightarrow> delivery_wf d \<Longrightarrow> Delivery_Save d r = Inr r' \<Longrightarrow> outbox_inv r'"
  by (auto simp: Delivery_Save_def Let_def outbox_inv_update split: if_splits)

lemma map_of_Enqueue:
  "map_of (Enqueue ds r) k = (case map_of r k of Some d \<Rightarrow> Some d | None \<Rightarrow> find (\<lambda>d. delivery_key d = k) ds)"
  by (induction ds r rule: Enqueue.induct) (auto simp: Let_def split: option.splits)

lemma Enqueue_known:
  "(\<And>d. d \<in> set ds \<Longrightarrow> map_of r (delivery_key d) \<noteq> None) \<Longrightarrow> Enqueue ds r = r"
  by (induction ds r rule: Enqueue.induct) (auto simp: Let_def)

lemma lease_keeps: "delivery_wf (d\<lparr>DueAt := t\<rparr>) = delivery_wf d" "IsDone (d\<lparr>DueAt := t\<rparr>) = IsDone d"
  by (simp_all add: delivery_wf_def IsDone_def)

lemma TakeDue_takes:
  assumes "gomap_ok r" "TakeDue now limit r = (r', taken)"
  obtains ks rest where "outbox.ready_keys now r = ks @ rest"
    and "taken = map (\<lambda>k. (the (map_of r k))\<lparr>DueAt := now + DeliveryLease\<rparr>) ks"
    and "\<And>k. map_of r' k = (if k \<in> set ks
           then map_option (\<lambda>d. d\<lparr>DueAt := now + DeliveryLease\<rparr>) (map_of r k) else map_of r k)"
    and "ks = cut_limit limit (outbox.ready_keys now r)" and "gomap_ok r'"
proof (rule outbox.claim_takes [OF assms(1) assms(2) [unfolded TakeDue_claim]])
  fix ks rest
  assume a: "outbox.ready_keys now r = ks @ rest"
    "taken = map (\<lambda>k. (the (map_of r k))\<lparr>DueAt := time_Add now DeliveryLease\<rparr>) ks"
    "\<And>k. map_of r' k = (if k \<in> set ks
       then map_option (\<lambda>d. d\<lparr>DueAt := time_Add now DeliveryLease\<rparr>) (map_of r k) else map_of r k)"
    "ks = cut_limit limit (outbox.ready_keys now r)" "gomap_ok r'"
  show thesis
    by (rule that [OF a(1) a(2) [unfolded time_Add_def] a(3) [unfolded time_Add_def] a(4,5)])
qed

lemma TakeDue_inv [keeps_inv]:
  assumes "outbox_inv r" "TakeDue now limit r = (r', taken)"
  shows "outbox_inv r'"
proof (rule TakeDue_takes [OF outbox_invD(1) [OF assms(1)] assms(2)])
  fix ks
  assume ks: "\<And>k. map_of r' k = (if k \<in> set ks
      then map_option (\<lambda>d. d\<lparr>DueAt := now + DeliveryLease\<rparr>) (map_of r k) else map_of r k)"
    and ok: "gomap_ok r'"
  have "k = delivery_key d \<and> delivery_wf d" if at: "map_of r' k = Some d" for k d
  proof -
    obtain old where "map_of r k = Some old" "d = old \<or> d = old\<lparr>DueAt := now + DeliveryLease\<rparr>"
      using at ks [of k] by (auto simp del: map_of_eq_Some_iff split: if_splits)
    then show ?thesis using outbox_invD(2) [OF assms(1), of k old] by (auto simp: lease_keeps)
  qed
  with ok show ?thesis unfolding outbox_inv_def by blast
qed

lemma ready_entry:
  assumes "outbox_inv r" "k \<in> set (outbox.ready_keys now r)"
  obtains d where "map_of r k = Some d" "delivery_key d = k" "\<not> IsDone d" "DueAt d \<le> now"
  using outbox.in_ready_keys [OF outbox_invD(1) [OF assms(1)], of k now] assms(2) outbox_invD(2) [OF assms(1), of k]
  by (auto simp: go_time simp del: map_of_eq_Some_iff)

text \<open>The copies given away are the entries the store now keeps, under the keys that were picked.\<close>

lemma TakeDue_keys:
  assumes "outbox_inv r" "TakeDue now limit r = (r', taken)"
  shows "map delivery_key taken = cut_limit limit (outbox.ready_keys now r)"
proof (rule TakeDue_takes [OF outbox_invD(1) [OF assms(1)] assms(2)])
  fix ks rest
  assume ks: "outbox.ready_keys now r = ks @ rest" "ks = cut_limit limit (outbox.ready_keys now r)"
    "taken = map (\<lambda>k. (the (map_of r k))\<lparr>DueAt := now + DeliveryLease\<rparr>) ks"
  have "delivery_key (the (map_of r k)) = k" if "k \<in> set ks" for k
    by (rule ready_entry [OF assms(1), of k now]) (use that ks(1) in auto)
  then have "map delivery_key taken = ks" unfolding ks(3) by (auto intro!: map_idI)
  with ks(2) show ?thesis by simp
qed

lemma TakeDue_entry:
  assumes "outbox_inv r" "TakeDue now limit r = (r', taken)" "d \<in> set taken"
  obtains old where "map_of r (delivery_key d) = Some old" "\<not> IsDone old" "DueAt old \<le> now"
    "d = old\<lparr>DueAt := now + DeliveryLease\<rparr>" "map_of r' (delivery_key d) = Some d"
proof (rule TakeDue_takes [OF outbox_invD(1) [OF assms(1)] assms(2)])
  fix ks rest
  assume ks: "outbox.ready_keys now r = ks @ rest"
    "taken = map (\<lambda>k. (the (map_of r k))\<lparr>DueAt := now + DeliveryLease\<rparr>) ks"
    "\<And>k. map_of r' k = (if k \<in> set ks
       then map_option (\<lambda>d. d\<lparr>DueAt := now + DeliveryLease\<rparr>) (map_of r k) else map_of r k)"
  obtain k where k: "k \<in> set ks" "d = (the (map_of r k))\<lparr>DueAt := now + DeliveryLease\<rparr>"
    using assms(3) ks(2) by auto
  have "k \<in> set (outbox.ready_keys now r)" using ks(1) k(1) by simp
  then obtain old where old: "map_of r k = Some old" "delivery_key old = k" "\<not> IsDone old" "DueAt old \<le> now"
    by (rule ready_entry [OF assms(1)])
  show thesis
    by (rule that [of old]) (use old k ks(3) [of k] in \<open>simp_all del: map_of_eq_Some_iff\<close>)
qed

lemma TakeDue_oldest:
  assumes "outbox_inv r" "TakeDue now limit r = (r', taken)" "d \<in> set taken"
    and "map_of r (delivery_key d) = Some old" "other \<in> set (vals r)" "\<not> IsDone other" "DueAt other < DueAt old"
  shows "delivery_key other \<in> delivery_key ` set taken"
proof (rule ccontr)
  let ?k = "delivery_key d" and ?k' = "delivery_key other"
  assume not: "?k' \<notin> delivery_key ` set taken"
  have ok: "gomap_ok r" by (rule outbox_invD(1) [OF assms(1)])
  obtain rest where rest: "outbox.ready_keys now r = map delivery_key taken @ rest"
    using TakeDue_keys [OF assms(1,2)] cut_limit_prefix [of "outbox.ready_keys now r" limit] by auto
  have at: "map_of r ?k' = Some other" using assms(5) vals_conv [OF ok] outbox_invD(2) [OF assms(1)] by metis
  have "DueAt old \<le> now" using TakeDue_entry [OF assms(1-3)] assms(4) by (metis option.inject)
  then have "?k' \<in> set (outbox.ready_keys now r)"
    using outbox.in_ready_keys [OF ok, of ?k' now] at assms(6,7) by (simp add: go_time del: map_of_eq_Some_iff)
  moreover have "set (outbox.ready_keys now r) = delivery_key ` set taken \<union> set rest"
    unfolding rest by (simp only: set_append list.set_map)
  ultimately have "?k' \<in> set rest" using not by blast
  moreover have "?k \<in> set (map delivery_key taken)" using assms(3) by simp
  ultimately have "DueAt (the (map_of r ?k)) \<le> DueAt (the (map_of r ?k'))"
    using outbox.oldest_first [OF ok assms(2) [unfolded TakeDue_claim] rest] by blast
  then show False using at assms(4,7) by simp
qed

text \<open>Two workers never hold the same message: what one worker takes from the outbox stays out of
  every other worker's hands until its lease of a minute has run out, at most \<open>limit\<close> messages are taken,
  each of them due and not done, and none is passed over for one that is due later.\<close>

theorem take_due_exclusive:
  assumes "outbox_inv r" and "TakeDue now limit r = (r', taken)"
    and "TakeDue now' limit' r' = (r'', taken')" and "now' < now + DeliveryLease"
  shows "delivery_key ` set taken \<inter> delivery_key ` set taken' = {} \<and>
    distinct (map delivery_key taken) \<and> (0 < limit \<longrightarrow> int (length taken) \<le> limit) \<and>
    (\<forall>d \<in> set taken. \<exists>old. map_of r (delivery_key d) = Some old \<and> \<not> IsDone old \<and> DueAt old \<le> now \<and>
       (\<forall>other \<in> set (vals r). \<not> IsDone other \<longrightarrow> DueAt other < DueAt old \<longrightarrow>
          delivery_key other \<in> delivery_key ` set taken))"
proof (intro conjI ballI)
  have inv': "outbox_inv r'" by (rule TakeDue_inv [OF assms(1,2)])
  have "False" if d: "d \<in> set taken" "d' \<in> set taken'" "delivery_key d = delivery_key d'" for d d'
  proof -
    obtain old where old: "d = old\<lparr>DueAt := now + DeliveryLease\<rparr>" "map_of r' (delivery_key d) = Some d"
      by (rule TakeDue_entry [OF assms(1,2) d(1)])
    obtain old' where old': "map_of r' (delivery_key d') = Some old'" "DueAt old' \<le> now'"
      by (rule TakeDue_entry [OF inv' assms(3) d(2)])
    from old(2) old'(1) have "old' = d" by (metis d(3) option.inject)
    with old(1) old'(2) assms(4) show False by simp
  qed
  then show "delivery_key ` set taken \<inter> delivery_key ` set taken' = {}" by blast
  have "distinct (outbox.ready_keys now r)" by (rule outbox.distinct_ready_keys [OF outbox_invD(1) [OF assms(1)]])
  then show "distinct (map delivery_key taken)"
    unfolding TakeDue_keys [OF assms(1,2)] by (rule distinct_cut_limit)
  show "0 < limit \<longrightarrow> int (length taken) \<le> limit"
    using length_cut_limit [of limit "outbox.ready_keys now r"] TakeDue_keys [OF assms(1,2)] by (metis length_map)
next
  fix d assume d: "d \<in> set taken"
  obtain old where old: "map_of r (delivery_key d) = Some old" "\<not> IsDone old" "DueAt old \<le> now"
    by (rule TakeDue_entry [OF assms(1,2) d])
  show "\<exists>old. map_of r (delivery_key d) = Some old \<and> \<not> IsDone old \<and> DueAt old \<le> now \<and>
       (\<forall>other \<in> set (vals r). \<not> IsDone other \<longrightarrow> DueAt other < DueAt old \<longrightarrow>
          delivery_key other \<in> delivery_key ` set taken)"
    using old TakeDue_oldest [OF assms(1,2) d old(1)] by blast
qed

definition outbox_one :: DeliveryStore where
  "outbox_one = [(''n1/email'', owed)]"

lemma outbox_one_inv: "outbox_inv outbox_one"
  by (simp add: outbox_inv_def outbox_one_def deliveryKey_def owed_def delivery_ops go_time)

theorem take_due_exclusive_witness:
  "delivery_key ` set (snd (TakeDue 10 5 outbox_one)) = {''n1/email''} \<and>
   delivery_key ` set (snd (TakeDue 100 5 (fst (TakeDue 10 5 outbox_one)))) \<inter> {''n1/email''} = {}"
proof -
  have "cut_limit 5 (outbox.ready_keys 10 outbox_one) = [''n1/email'']"
    by (simp add: outbox_one_def owed_def IsDone_def go_time cut_limit_def)
  with TakeDue_keys [OF outbox_one_inv surjective_pairing, of 10 5]
  have "set (map delivery_key (snd (TakeDue 10 5 outbox_one))) = set [''n1/email'']" by (simp only:)
  then have taken: "delivery_key ` set (snd (TakeDue 10 5 outbox_one)) = {''n1/email''}"
    by (simp only: list.set_map list.set)
  have "(100::int) < 10 + DeliveryLease" by (simp add: DeliveryLease_def)
  then have "delivery_key ` set (snd (TakeDue 10 5 outbox_one)) \<inter>
      delivery_key ` set (snd (TakeDue 100 5 (fst (TakeDue 10 5 outbox_one)))) = {}"
    by (rule take_due_exclusive [OF outbox_one_inv surjective_pairing surjective_pairing, THEN conjunct1])
  then show ?thesis unfolding taken by (simp only: Int_commute simp_thms)
qed

text \<open>Queueing a message twice sends it once: a delivery already queued for the same notice and
  channel is left as it is, with the attempts it has made, every new one is filed, and repeating the
  call changes nothing.\<close>

theorem enqueue_once:
  "(\<forall>k d. map_of r k = Some d \<longrightarrow> map_of (Enqueue ds r) k = Some d) \<and>
   (\<forall>d \<in> set ds. map_of (Enqueue ds r) (delivery_key d) \<noteq> None) \<and>
   Enqueue ds (Enqueue ds r) = Enqueue ds r"
proof -
  have there: "map_of (Enqueue ds r) (delivery_key d) \<noteq> None" if "d \<in> set ds" for d
    using find_known [of d ds "\<lambda>x. delivery_key x = delivery_key d"] that
    unfolding map_of_Enqueue by (auto split: option.split)
  have "Enqueue ds (Enqueue ds r) = Enqueue ds r" by (rule Enqueue_known) (rule there)
  moreover have "map_of r k = Some d \<Longrightarrow> map_of (Enqueue ds r) k = Some d" for k d
    unfolding map_of_Enqueue by (simp del: map_of_eq_Some_iff)
  ultimately show ?thesis using there by blast
qed

theorem enqueue_once_witness:
  "map_of (Enqueue [owed\<lparr>Attempts := 0\<rparr>] outbox_one) ''n1/email'' = Some owed"
  using enqueue_once [of outbox_one "[owed\<lparr>Attempts := 0\<rparr>]"] by (simp add: outbox_one_def)

section \<open>The inbox\<close>

type_synonym NotificationStore = "Notification list gomap"

definition notices_of :: "NotificationStore \<Rightarrow> string \<Rightarrow> Notification list" where
  "notices_of r userID = (case map_of r userID of None \<Rightarrow> [] | Some ns \<Rightarrow> ns)"

fun Notify :: "Notification list \<Rightarrow> NotificationStore \<Rightarrow> NotificationStore" where
  "Notify [] r = r"
| "Notify (n # ns) r =
     Notify ns (AList.update (Notification_UserID n) (notices_of r (Notification_UserID n) @ [n]) r)"

fun find_notice :: "string \<Rightarrow> Notification list \<Rightarrow> Notification option" where
  "find_notice notificationID [] = None"
| "find_notice notificationID (n # ns) =
     (if Notification_ID n = notificationID then Some n else find_notice notificationID ns)"

fun Notification_Get :: "string \<Rightarrow> NotificationStore \<Rightarrow> Notification result" where
  "Notification_Get notificationID [] = Inl (Repository ErrNotificationNotFound)"
| "Notification_Get notificationID ((_, notices) # r) =
     (case find_notice notificationID notices of
        Some found \<Rightarrow> Inr found
      | None \<Rightarrow> Notification_Get notificationID r)"

definition newest_first :: "Notification \<Rightarrow> Notification \<Rightarrow> int" where
  "newest_first a b =
     (if Notification_CreatedAt a = Notification_CreatedAt b
        then cmpString (Notification_ID a) (Notification_ID b)
      else if After (Notification_CreatedAt a) (Notification_CreatedAt b) then -1
      else 1)"

definition Notification_ListForUser :: "string \<Rightarrow> NotificationStore \<Rightarrow> Notification list" where
  "Notification_ListForUser userID r = SortFunc newest_first (notices_of r userID)"

definition mark_read :: "time \<Rightarrow> Notification \<Rightarrow> Notification" where
  "mark_read now n = (if IsRead n then n else n\<lparr>ReadAt := now\<rparr>)"

text \<open>The notices are marked in place; a user with no notices has no entry to write back.\<close>

definition MarkAllRead :: "string \<Rightarrow> time \<Rightarrow> NotificationStore \<Rightarrow> NotificationStore \<times> nat" where
  "MarkAllRead userID now r =
     (case map_of r userID of
        None \<Rightarrow> (r, 0)
      | Some ns \<Rightarrow> (AList.update userID (map (mark_read now) ns) r,
                    length (filter (\<lambda>n. \<not> IsRead n) ns)))"

interpretation notice_order: comparator newest_first UNIV
  by unfold_locales (auto simp: newest_first_def cmpString_def After_def split: if_splits)

lemma notices_of_update [simp]: "notices_of (AList.update u ns r) u' = (if u' = u then ns else notices_of r u')"
  by (simp add: notices_of_def)

lemma notices_of_Notify:
  "notices_of (Notify ns r) u = notices_of r u @ filter (\<lambda>n. Notification_UserID n = u) ns"
  by (induction ns r rule: Notify.induct) auto

lemma notices_of_MarkAllRead:
  "notices_of (fst (MarkAllRead u now r)) u' =
     (if u' = u then map (mark_read now) (notices_of r u) else notices_of r u')"
  by (auto simp: MarkAllRead_def notices_of_def split: option.split)

lemma MarkAllRead_count: "snd (MarkAllRead u now r) = length (filter (\<lambda>n. \<not> IsRead n) (notices_of r u))"
  by (auto simp: MarkAllRead_def notices_of_def split: option.split)

text \<open>Notices reach exactly the people they are for, newest first, and reading one's notices touches
  nobody else's: after \<open>Notify\<close> a user's list holds what it held and the new notices addressed to them;
  marking read counts the unread ones, leaves none of them unread and keeps when the others were
  read, and a second marking counts nothing.\<close>

theorem inbox_delivers:
  assumes "now \<noteq> zero_time"
  shows "mset (Notification_ListForUser u (Notify ns r)) =
      mset (Notification_ListForUser u r) + mset (filter (\<lambda>n. Notification_UserID n = u) ns) \<and>
    sorted_wrt (\<lambda>a b. Notification_CreatedAt b \<le> Notification_CreatedAt a) (Notification_ListForUser u r) \<and>
    snd (MarkAllRead u now r) = length (filter (\<lambda>n. \<not> IsRead n) (Notification_ListForUser u r)) \<and>
    (\<forall>n \<in> set (Notification_ListForUser u (fst (MarkAllRead u now r))). IsRead n) \<and>
    snd (MarkAllRead u now (fst (MarkAllRead u now r))) = 0 \<and>
    (u' \<noteq> u \<longrightarrow> Notification_ListForUser u' (fst (MarkAllRead u now r)) = Notification_ListForUser u' r)"
proof -
  have read: "IsRead (mark_read now n)" for n using assms by (simp add: mark_read_def IsRead_def IsZero_def)
  have "sorted_wrt (\<lambda>a b. newest_first a b \<le> 0) (Notification_ListForUser u r)"
    unfolding Notification_ListForUser_def by (rule notice_order.SortFunc_sorted) simp
  then have "sorted_wrt (\<lambda>a b. Notification_CreatedAt b \<le> Notification_CreatedAt a) (Notification_ListForUser u r)"
    by (rule sorted_wrt_mono_rel [rotated]) (auto simp: newest_first_def After_def split: if_splits)
  moreover have "size (filter_mset (\<lambda>n. \<not> IsRead n) (mset (Notification_ListForUser u r))) =
      size (filter_mset (\<lambda>n. \<not> IsRead n) (mset (notices_of r u)))"
    by (simp add: Notification_ListForUser_def)
  then have "length (filter (\<lambda>n. \<not> IsRead n) (Notification_ListForUser u r)) =
      length (filter (\<lambda>n. \<not> IsRead n) (notices_of r u))"
    by (metis mset_filter size_mset)
  ultimately show ?thesis
    using read by (simp add: Notification_ListForUser_def notices_of_Notify MarkAllRead_count notices_of_MarkAllRead)
qed

definition notice_1 :: Notification where
  "notice_1 = \<lparr>Notification_ID = ''n1'', Notification_UserID = ''alice'',
     Notification_Kind = NotifyEventCancelled, Notification_EventID = ''event-1'',
     Notification_EventName = ''Gala'', Notification_SeatID = ''A1'', Notification_CreatedAt = 50,
     ReadAt = zero_time\<rparr>"

theorem inbox_delivers_witness:
  "snd (MarkAllRead ''alice'' 60 (Notify [notice_1] [])) = 1 \<and>
   snd (MarkAllRead ''alice'' 60 (fst (MarkAllRead ''alice'' 60 (Notify [notice_1] [])))) = 0"
proof -
  have "snd (MarkAllRead ''alice'' 60 (Notify [notice_1] [])) = 1"
    by (simp add: MarkAllRead_count notices_of_def notice_1_def IsRead_def go_time)
  then show ?thesis
    using inbox_delivers [of 60 "''alice''" "[]" "Notify [notice_1] []" "''bob''"] by simp
qed

section \<open>Push subscriptions\<close>

type_synonym PushStore = "PushSubscription gomap"

definition Push_Subscribe :: "PushSubscription \<Rightarrow> PushStore \<Rightarrow> PushStore" where
  "Push_Subscribe subscription r = AList.update (Endpoint subscription) subscription r"

definition Push_ListForUser :: "string \<Rightarrow> PushStore \<Rightarrow> PushSubscription list" where
  "Push_ListForUser userID r =
     SortFunc (\<lambda>a b. cmpString (Endpoint a) (Endpoint b))
       (filter (\<lambda>s. \<not> (Subscription_UserID s \<noteq> userID)) (vals r))"

definition Push_Unsubscribe :: "string \<Rightarrow> PushStore \<Rightarrow> PushStore" where
  "Push_Unsubscribe endpoint r = AList.delete endpoint r"

definition push_inv :: "PushStore \<Rightarrow> bool" where
  "push_inv r \<longleftrightarrow> gomap_ok r \<and> (\<forall>k s. map_of r k = Some s \<longrightarrow> k = Endpoint s)"

lemma push_ops_inv [keeps_inv]:
  "push_inv []" "push_inv r \<Longrightarrow> push_inv (Push_Subscribe s r)" "push_inv r \<Longrightarrow> push_inv (Push_Unsubscribe e r)"
  by (auto simp: push_inv_def Push_Subscribe_def Push_Unsubscribe_def simp del: map_of_eq_Some_iff split: if_splits)

lemma set_Push_ListForUser:
  "gomap_ok r \<Longrightarrow> s \<in> set (Push_ListForUser u r) \<longleftrightarrow> Subscription_UserID s = u \<and> (\<exists>k. map_of r k = Some s)"
  using vals_conv [of r s] by (auto simp: Push_ListForUser_def simp del: map_of_eq_Some_iff)

end
