(* ===== verification/Go_Strings.thy ===== *)
theory Go_Strings
  imports Prelude "HOL-Library.Sublist"
begin

text \<open>
  What the program uses of the standard packages \<open>strings\<close> and \<open>unicode/utf8\<close>, on byte strings.
  White space is recognised by the UTF-8 encodings of the code points \<open>unicode.IsSpace\<close> accepts.
  Lower-casing is exact on ASCII text; for text with other bytes the Unicode case table is an
  argument.
\<close>

abbreviation byte :: "char \<Rightarrow> nat" where "byte c \<equiv> of_char c"

section \<open>strings\<close>

definition space_runes :: "string list" where
  "space_runes = map (map char_of)
     [[9], [10], [11], [12], [13], [32], [194, 133], [194, 160], [225, 154, 128 :: nat],
      [226, 128, 128], [226, 128, 129], [226, 128, 130], [226, 128, 131], [226, 128, 132],
      [226, 128, 133], [226, 128, 134], [226, 128, 135], [226, 128, 136], [226, 128, 137],
      [226, 128, 138], [226, 128, 168], [226, 128, 169], [226, 128, 175], [226, 129, 159],
      [227, 128, 128]]"

lemma space_runes_not_Nil: "r \<in> set space_runes \<Longrightarrow> r \<noteq> []"
  by (auto simp: space_runes_def)

function trim_left :: "string \<Rightarrow> string" where
  "trim_left s =
     (case find (\<lambda>r. prefix r s) space_runes of
        None \<Rightarrow> s
      | Some r \<Rightarrow> trim_left (drop (length r) s))"
  by pat_completeness auto
termination
proof (relation "measure length", goal_cases)
  case (2 s r)
  then have "r \<noteq> []" and "prefix r s"
    using space_runes_not_Nil by (auto simp: find_Some_iff)
  then show ?case by (auto simp: prefix_def)
qed simp

function trim_right :: "string \<Rightarrow> string" where
  "trim_right s =
     (case find (\<lambda>r. suffix r s) space_runes of
        None \<Rightarrow> s
      | Some r \<Rightarrow> trim_right (take (length s - length r) s))"
  by pat_completeness auto
termination
proof (relation "measure length", goal_cases)
  case (2 s r)
  then have "r \<noteq> []" and "suffix r s"
    using space_runes_not_Nil by (auto simp: find_Some_iff)
  then show ?case by (auto simp: suffix_def)
qed simp

declare trim_left.simps [simp del] trim_right.simps [simp del]

definition TrimSpace :: "string \<Rightarrow> string" where
  "TrimSpace s = trim_right (trim_left s)"

definition is_ascii :: "string \<Rightarrow> bool" where
  "is_ascii s \<longleftrightarrow> list_all (\<lambda>c. byte c < 128) s"

definition ascii_lower :: "char \<Rightarrow> char" where
  "ascii_lower c = (if 65 \<le> byte c \<and> byte c \<le> 90 then char_of (byte c + 32) else c)"

definition ToLower :: "(string \<Rightarrow> string) \<Rightarrow> string \<Rightarrow> string" where
  "ToLower unicode_lower s = (if is_ascii s then map ascii_lower s else unicode_lower s)"

text \<open>\<open>strings.Cut\<close> at a one-byte separator.\<close>

definition Cut :: "string \<Rightarrow> char \<Rightarrow> (string \<times> string) option" where
  "Cut s c = (if c \<in> set s then Some (takeWhile (\<lambda>x. x \<noteq> c) s, tl (dropWhile (\<lambda>x. x \<noteq> c) s))
              else None)"

text \<open>\<open>strings.Join\<close>.\<close>

fun Join :: "string list \<Rightarrow> string \<Rightarrow> string" where
  "Join [] sep = ''''"
| "Join [x] sep = x"
| "Join (x # y # rest) sep = x @ sep @ Join (y # rest) sep"

text \<open>\<open>strings.ReplaceAll\<close>, for an old text that is not empty.\<close>

fun ReplaceAll :: "string \<Rightarrow> string \<Rightarrow> string \<Rightarrow> string" where
  "ReplaceAll old new [] = []"
| "ReplaceAll old new (c # cs) =
     (if old \<noteq> [] \<and> prefix old (c # cs) then new @ ReplaceAll old new (drop (length old - 1) cs)
      else c # ReplaceAll old new cs)"

section \<open>utf8.RuneCountInString\<close>

definition in_range :: "nat \<Rightarrow> nat \<Rightarrow> char \<Rightarrow> bool" where
  "in_range lo hi c \<longleftrightarrow> lo \<le> byte c \<and> byte c \<le> hi"

text \<open>The length the first byte announces, and the bytes it accepts in second place.\<close>

definition rune_shape :: "char \<Rightarrow> nat \<times> nat \<times> nat" where
  "rune_shape c = (let b = byte c in
     if 194 \<le> b \<and> b \<le> 223 then (2, 128, 191)
     else if b = 224 then (3, 160, 191)
     else if b = 237 then (3, 128, 159)
     else if 225 \<le> b \<and> b \<le> 239 then (3, 128, 191)
     else if b = 240 then (4, 144, 191)
     else if 241 \<le> b \<and> b \<le> 243 then (4, 128, 191)
     else if b = 244 then (4, 128, 143)
     else (1, 0, 0))"

definition rune_size :: "char \<Rightarrow> string \<Rightarrow> nat" where
  "rune_size c rest =
     (case rune_shape c of (n, lo, hi) \<Rightarrow>
        if n = 1 \<or> length rest < n - 1 then 1
        else if \<not> in_range lo hi (rest ! 0) then 1
        else if list_all (in_range 128 191) (take (n - 2) (tl rest)) then n
        else 1)"

lemma rune_size_bounds: "1 \<le> rune_size c rest \<and> rune_size c rest \<le> 4 \<and> rune_size c rest \<le> Suc (length rest)"
proof -
  obtain n lo hi where shape: "rune_shape c = (n, lo, hi)" by (cases "rune_shape c")
  moreover have "1 \<le> fst (rune_shape c)" "fst (rune_shape c) \<le> 4"
    by (simp_all add: rune_shape_def Let_def)
  ultimately show ?thesis by (auto simp: rune_size_def)
qed

function RuneCount :: "string \<Rightarrow> nat" where
  "RuneCount [] = 0"
| "RuneCount (c # rest) = Suc (RuneCount (drop (rune_size c rest - 1) rest))"
  by pat_completeness auto
termination
  by (relation "measure length") auto

section \<open>Lemmas\<close>

lemma trim_left_no_space: "r \<in> set space_runes \<Longrightarrow> \<not> prefix r (trim_left s)"
proof (induction s rule: trim_left.induct)
  case (1 s)
  show ?case
  proof (cases "find (\<lambda>r. prefix r s) space_runes")
    case None
    then have "trim_left s = s" by (subst trim_left.simps) simp
    with None 1(2) show ?thesis by (auto simp: find_None_iff)
  next
    case (Some r')
    with 1 show ?thesis by (simp add: trim_left.simps [of s])
  qed
qed

lemma trim_right_no_space: "r \<in> set space_runes \<Longrightarrow> \<not> suffix r (trim_right s)"
proof (induction s rule: trim_right.induct)
  case (1 s)
  show ?case
  proof (cases "find (\<lambda>r. suffix r s) space_runes")
    case None
    then have "trim_right s = s" by (subst trim_right.simps) simp
    with None 1(2) show ?thesis by (auto simp: find_None_iff)
  next
    case (Some r')
    with 1 show ?thesis by (simp add: trim_right.simps [of s])
  qed
qed

lemma trim_left_id: "(\<And>r. r \<in> set space_runes \<Longrightarrow> \<not> prefix r s) \<Longrightarrow> trim_left s = s"
proof -
  assume "\<And>r. r \<in> set space_runes \<Longrightarrow> \<not> prefix r s"
  then have "find (\<lambda>r. prefix r s) space_runes = None" by (simp add: find_None_iff)
  then show ?thesis by (subst trim_left.simps) simp
qed

lemma trim_right_id: "(\<And>r. r \<in> set space_runes \<Longrightarrow> \<not> suffix r s) \<Longrightarrow> trim_right s = s"
proof -
  assume "\<And>r. r \<in> set space_runes \<Longrightarrow> \<not> suffix r s"
  then have "find (\<lambda>r. suffix r s) space_runes = None" by (simp add: find_None_iff)
  then show ?thesis by (subst trim_right.simps) simp
qed

lemma trim_right_prefix: "prefix (trim_right s) s"
proof (induction s rule: trim_right.induct)
  case (1 s)
  show ?case
  proof (cases "find (\<lambda>r. suffix r s) space_runes")
    case None
    then show ?thesis by (simp add: trim_right.simps [of s])
  next
    case (Some r')
    with 1 show ?thesis
      by (simp add: trim_right.simps [of s]) (meson prefix_order.trans take_is_prefix)
  qed
qed

lemma trim_left_suffix: "suffix (trim_left s) s"
proof (induction s rule: trim_left.induct)
  case (1 s)
  show ?case
  proof (cases "find (\<lambda>r. prefix r s) space_runes")
    case None
    then show ?thesis by (simp add: trim_left.simps [of s])
  next
    case (Some r')
    with 1 show ?thesis
      by (simp add: trim_left.simps [of s]) (meson suffix_order.trans suffix_drop)
  qed
qed

text \<open>Trimming leaves no white space at either end, and trimming again changes nothing.\<close>

lemma TrimSpace_no_space:
  assumes "r \<in> set space_runes"
  shows "\<not> prefix r (TrimSpace s) \<and> \<not> suffix r (TrimSpace s)"
  using assms trim_left_no_space [of r s] trim_right_no_space [of r "trim_left s"]
    trim_right_prefix [of "trim_left s"]
  unfolding TrimSpace_def by (meson prefix_order.trans)

lemma TrimSpace_idem [simp]: "TrimSpace (TrimSpace s) = TrimSpace s"
proof -
  have "trim_left (TrimSpace s) = TrimSpace s"
    by (rule trim_left_id) (use TrimSpace_no_space in blast)
  moreover have "trim_right (TrimSpace s) = TrimSpace s"
    by (rule trim_right_id) (use TrimSpace_no_space in blast)
  ultimately show ?thesis by (simp add: TrimSpace_def [of "TrimSpace s"])
qed

lemma set_TrimSpace: "set (TrimSpace s) \<subseteq> set s"
  using set_mono_prefix [OF trim_right_prefix [of "trim_left s"]] set_mono_suffix [OF trim_left_suffix [of s]]
  by (auto simp: TrimSpace_def)

lemma RuneCount_bounds: "RuneCount s \<le> length s \<and> length s \<le> 4 * RuneCount s"
proof (induction s rule: RuneCount.induct)
  case 1
  then show ?case by simp
next
  case (2 c rest)
  let ?d = "rune_size c rest - 1"
  have d: "?d \<le> 3" "?d \<le> length rest" using rune_size_bounds [of c rest] by auto
  then show ?case using "2.IH" by auto
qed

lemma RuneCount_ascii: "is_ascii s \<Longrightarrow> RuneCount s = length s"
  by (induction s) (auto simp: is_ascii_def rune_size_def rune_shape_def Let_def)

lemma Cut_Some: "Cut s c = Some (a, b) \<Longrightarrow> s = a @ c # b \<and> c \<notin> set a"
proof -
  assume *: "Cut s c = Some (a, b)"
  then have c: "c \<in> set s" and a: "a = takeWhile (\<lambda>x. x \<noteq> c) s"
    and b: "b = tl (dropWhile (\<lambda>x. x \<noteq> c) s)" by (auto simp: Cut_def split: if_splits)
  have ne: "dropWhile (\<lambda>x. x \<noteq> c) s \<noteq> []" using c by (simp add: dropWhile_eq_Nil_conv)
  then have "dropWhile (\<lambda>x. x \<noteq> c) s = c # b" using hd_dropWhile [OF ne] b
    by (metis list.collapse)
  then show ?thesis using a by (metis set_takeWhileD takeWhile_dropWhile_id)
qed

lemma Cut_append: "c \<notin> set a \<Longrightarrow> Cut (a @ c # b) c = Some (a, b)"
  by (simp add: Cut_def takeWhile_append dropWhile_append)

lemma Cut_None: "Cut s c = None \<longleftrightarrow> c \<notin> set s"
  by (simp add: Cut_def)

lemma ascii_lower_idem [simp]: "ascii_lower (ascii_lower c) = ascii_lower c"
  by (auto simp: ascii_lower_def)

lemma byte_ascii_lower: "byte c < 128 \<Longrightarrow> byte (ascii_lower c) < 128"
  by (auto simp: ascii_lower_def)

lemma is_ascii_lower: "is_ascii s \<Longrightarrow> is_ascii (map ascii_lower s)"
  by (auto simp: is_ascii_def list_all_iff byte_ascii_lower)

lemma space_rune_not_printable: "r \<in> set space_runes \<Longrightarrow> \<exists>c \<in> set r. byte c < 33 \<or> 128 \<le> byte c"
  by (auto simp: space_runes_def)

text \<open>Text of visible ASCII characters has nothing to trim.\<close>

lemma TrimSpace_printable:
  assumes "\<forall>c \<in> set s. 33 \<le> byte c \<and> byte c < 128"
  shows "TrimSpace s = s"
proof -
  have "\<not> set r \<subseteq> set s" if "r \<in> set space_runes" for r
    using space_rune_not_printable [OF that] assms by force
  then have "\<not> prefix r s" "\<not> suffix r s" if "r \<in> set space_runes" for r
    using that set_mono_prefix set_mono_suffix by blast+
  then show ?thesis by (simp add: TrimSpace_def trim_left_id trim_right_id)
qed

end
