(* ===== verification/User_Domain.thy ===== *)
theory User_Domain
  imports Errors Go_Strings
begin

text \<open>
  Accounts: \<open>internal/domain/role.go\<close>, \<open>user.go\<close> and \<open>verification.go\<close>.
\<close>

section \<open>The model\<close>

subsection \<open>Roles\<close>

type_synonym Role = string

abbreviation RoleCustomer :: Role where "RoleCustomer \<equiv> ''customer''"
abbreviation RoleAdmin :: Role where "RoleAdmin \<equiv> ''admin''"

definition DefaultRole :: Role where "DefaultRole = RoleCustomer"

definition ParseRole :: "string \<Rightarrow> Role result" where
  "ParseRole value =
     (if value = RoleCustomer \<or> value = RoleAdmin then Inr value
      else Inl (Wrapf ''unknown role'' [Domain ErrUnknownRole]))"

definition IsAdmin :: "Role \<Rightarrow> bool" where
  "IsAdmin r \<longleftrightarrow> r = RoleAdmin"

subsection \<open>Accounts\<close>

record User =
  User_ID :: string
  User_Email :: string
  PasswordHash :: string
  User_Role :: Role
  EmailVerifiedAt :: time
  User_CreatedAt :: time

definition EmailVerified :: "User \<Rightarrow> bool" where
  "EmailVerified u \<longleftrightarrow> \<not> IsZero (EmailVerifiedAt u)"

definition NewUser :: "string \<Rightarrow> string \<Rightarrow> string \<Rightarrow> time \<Rightarrow> User" where
  "NewUser userID email passwordHash now =
     \<lparr>User_ID = userID, User_Email = email, PasswordHash = passwordHash, User_Role = DefaultRole,
      EmailVerifiedAt = zero_time, User_CreatedAt = now\<rparr>"

definition NormalizeEmail :: "(string \<Rightarrow> string) \<Rightarrow> string \<Rightarrow> string" where
  "NormalizeEmail unicode_lower email = ToLower unicode_lower (TrimSpace email)"

definition ValidateEmail :: "string \<Rightarrow> unit result" where
  "ValidateEmail email =
     (if email = '''' then Inl (Wrapf ''it is empty'' [Domain ErrInvalidEmail])
      else case Cut email CHR ''@'' of
        None \<Rightarrow> Inl (Wrapf ''not local@domain'' [Domain ErrInvalidEmail])
      | Some (local, domain) \<Rightarrow>
          if local = '''' \<or> domain = ''''
            then Inl (Wrapf ''not local@domain'' [Domain ErrInvalidEmail])
          else if CHR ''.'' \<notin> set domain \<or> CHR '' '' \<in> set email \<or> CHR 0x09 \<in> set email
            then Inl (Wrapf '''' [Domain ErrInvalidEmail])
          else Inr ())"

definition MinPasswordLength :: nat where "MinPasswordLength = 8"
definition MaxPasswordLength :: nat where "MaxPasswordLength = 72"

definition ValidatePassword :: "string \<Rightarrow> unit result" where
  "ValidatePassword password =
     (if RuneCount password < MinPasswordLength
        then Inl (Wrapf ''it is too short'' [Domain ErrWeakPassword])
      else if MaxPasswordLength < length password
        then Inl (Wrapf ''it is too long'' [Domain ErrWeakPassword])
      else Inr ())"

subsection \<open>Email verification links\<close>

definition DefaultVerificationTTL :: duration where "DefaultVerificationTTL = 24 * Hour"

record EmailVerification =
  Token :: string
  Verification_UserID :: string
  Verification_Email :: string
  Verification_CreatedAt :: time
  Verification_ExpiresAt :: time
  Verification_SentAt :: time

definition NewEmailVerification ::
  "string \<Rightarrow> string \<Rightarrow> string \<Rightarrow> time \<Rightarrow> duration \<Rightarrow> EmailVerification result" where
  "NewEmailVerification token userID email now ttl =
     (if token = '''' then Inl (Domain ErrEmptyVerificationToken)
      else if userID = '''' then Inl (Domain ErrEmptyUserID)
      else if email = '''' then Inl (Domain ErrInvalidEmail)
      else Inr \<lparr>Token = token, Verification_UserID = userID, Verification_Email = email,
                Verification_CreatedAt = now,
                Verification_ExpiresAt =
                  time_Add now (if ttl \<le> 0 then DefaultVerificationTTL else ttl),
                Verification_SentAt = zero_time\<rparr>)"

definition IsUsable :: "time \<Rightarrow> EmailVerification \<Rightarrow> bool" where
  "IsUsable now v = Before now (Verification_ExpiresAt v)"

section \<open>Roles and addresses\<close>

lemma ParseRole_iff: "ParseRole v = Inr r \<longleftrightarrow> r = v \<and> (v = RoleCustomer \<or> v = RoleAdmin)"
  by (auto simp: ParseRole_def)

lemma NewUser_not_admin: "\<not> IsAdmin (User_Role (NewUser i e h t))"
  by (simp add: NewUser_def IsAdmin_def DefaultRole_def)

lemma NewUser_not_verified: "\<not> EmailVerified (NewUser i e h t)"
  by (simp add: NewUser_def EmailVerified_def IsZero_def)

lemma ValidateEmail_iff:
  "ValidateEmail email = Inr u \<longleftrightarrow>
     (\<exists>local domain. email = local @ CHR ''@'' # domain \<and> CHR ''@'' \<notin> set local \<and> local \<noteq> '''' \<and>
        CHR ''.'' \<in> set domain \<and> CHR '' '' \<notin> set email \<and> CHR 0x09 \<notin> set email)"
  (is "?l \<longleftrightarrow> ?r")
proof
  assume ?l
  then obtain a b where "Cut email CHR ''@'' = Some (a, b)" "a \<noteq> ''''" "CHR ''.'' \<in> set b"
    "CHR '' '' \<notin> set email" "CHR 0x09 \<notin> set email"
    by (auto simp: ValidateEmail_def split: if_splits option.splits)
  then show ?r using Cut_Some by blast
next
  assume ?r
  then obtain a b where *: "email = a @ CHR ''@'' # b" "CHR ''@'' \<notin> set a" "a \<noteq> ''''"
    "CHR ''.'' \<in> set b" "CHR '' '' \<notin> set email" "CHR 0x09 \<notin> set email" by blast
  have "Cut email CHR ''@'' = Some (a, b)" using * Cut_append by simp
  moreover have "b \<noteq> ''''" "email \<noteq> ''''" using * by auto
  ultimately show ?l using * by (simp add: ValidateEmail_def)
qed

text \<open>Lower-casing ASCII text touches no white space, so it leaves nothing to trim.\<close>

lemma ascii_space_rune: "r \<in> set space_runes \<Longrightarrow> is_ascii r \<Longrightarrow> \<exists>d. r = [d] \<and> byte d \<le> 32"
  by (auto simp: space_runes_def is_ascii_def)

lemma ascii_lower_small: "byte (ascii_lower c) \<le> 32 \<Longrightarrow> ascii_lower c = c"
  by (auto simp: ascii_lower_def)

lemma is_ascii_append: "is_ascii (xs @ ys) \<longleftrightarrow> is_ascii xs \<and> is_ascii ys"
  by (simp add: is_ascii_def)

lemma lower_no_space:
  assumes "is_ascii s" and "r \<in> set space_runes"
  shows "prefix r (map ascii_lower s) \<longrightarrow> prefix r s" "suffix r (map ascii_lower s) \<longrightarrow> suffix r s"
proof -
  have *: "is_ascii (map ascii_lower s)" by (rule is_ascii_lower [OF assms(1)])
  show "prefix r (map ascii_lower s) \<longrightarrow> prefix r s"
  proof
    assume p: "prefix r (map ascii_lower s)"
    then have "is_ascii r" using * by (auto simp: prefix_def is_ascii_append)
    then obtain d where d: "r = [d]" "byte d \<le> 32" using ascii_space_rune assms(2) by blast
    with p show "prefix r s" by (cases s) (use ascii_lower_small in auto)
  qed
  show "suffix r (map ascii_lower s) \<longrightarrow> suffix r s"
  proof
    assume p: "suffix r (map ascii_lower s)"
    then have "is_ascii r" using * by (auto simp: suffix_def is_ascii_append)
    then obtain d where d: "r = [d]" "byte d \<le> 32" using ascii_space_rune assms(2) by blast
    with p show "suffix r s"
      by (cases s rule: rev_cases) (use ascii_lower_small in \<open>force simp: suffix_def\<close>)+
  qed
qed

lemma TrimSpace_id:
  "(\<And>r. r \<in> set space_runes \<Longrightarrow> \<not> prefix r s \<and> \<not> suffix r s) \<Longrightarrow> TrimSpace s = s"
  by (simp add: TrimSpace_def trim_left_id trim_right_id)

lemma is_ascii_TrimSpace: "is_ascii s \<Longrightarrow> is_ascii (TrimSpace s)"
  using set_TrimSpace [of s] by (auto simp: is_ascii_def list_all_iff)

lemma NormalizeEmail_idem:
  assumes "is_ascii email"
  shows "NormalizeEmail f (NormalizeEmail f email) = NormalizeEmail f email"
proof -
  let ?t = "TrimSpace email" let ?n = "map ascii_lower ?t"
  have t: "is_ascii ?t" using assms by (rule is_ascii_TrimSpace)
  have "TrimSpace ?n = ?n"
    by (rule TrimSpace_id) (use lower_no_space [OF t] TrimSpace_no_space in blast)
  then show ?thesis using t is_ascii_lower [OF t]
    by (simp add: NormalizeEmail_def ToLower_def comp_def)
qed

end
