(* ===== verification/Account_Stores.thy ===== *)
theory Account_Stores
  imports User_Domain Claim_Queue
begin

text \<open>
  The in-memory stores behind accounts: users (\<open>memory_user_repository.go\<close>), revoked session tokens
  (\<open>memory_token_repository.go\<close>) and outstanding verification links
  (\<open>memory_verification_repository.go\<close>). Each operation is one step under the store's mutex.
\<close>

section \<open>Users\<close>

type_synonym UserStore = "User gomap"

definition CreateUser :: "User \<Rightarrow> UserStore \<Rightarrow> UserStore result" where
  "CreateUser user r =
     (if map_of r (User_Email user) \<noteq> None then Inl (Repository ErrEmailTaken)
      else Inr (AList.update (User_Email user) user r))"

definition GetUserByEmail :: "string \<Rightarrow> UserStore \<Rightarrow> User result" where
  "GetUserByEmail email r =
     (case map_of r email of None \<Rightarrow> Inl (Repository ErrUserNotFound) | Some user \<Rightarrow> Inr user)"

fun find_user :: "string \<Rightarrow> UserStore \<Rightarrow> (string \<times> User) option" where
  "find_user userID [] = None"
| "find_user userID ((email, user) # r) =
     (if User_ID user = userID then Some (email, user) else find_user userID r)"

definition GetUserByID :: "string \<Rightarrow> UserStore \<Rightarrow> User result" where
  "GetUserByID userID r =
     (case find_user userID r of
        None \<Rightarrow> Inl (Repository ErrUserNotFound)
      | Some (_, user) \<Rightarrow> Inr user)"

definition SetRole :: "string \<Rightarrow> Role \<Rightarrow> UserStore \<Rightarrow> UserStore result" where
  "SetRole email role r =
     (case map_of r email of
        None \<Rightarrow> Inl (Repository ErrUserNotFound)
      | Some user \<Rightarrow> Inr (AList.update email (user\<lparr>User_Role := role\<rparr>) r))"

definition MarkEmailVerified :: "string \<Rightarrow> string \<Rightarrow> time \<Rightarrow> UserStore \<Rightarrow> UserStore result" where
  "MarkEmailVerified userID email now r =
     (case map_of r email of
        None \<Rightarrow> Inl (Repository ErrUserNotFound)
      | Some user \<Rightarrow>
          if User_ID user \<noteq> userID then Inl (Repository ErrUserNotFound)
          else Inr (AList.update email (user\<lparr>EmailVerifiedAt := now\<rparr>) r))"

definition UpdatePasswordHash :: "string \<Rightarrow> string \<Rightarrow> UserStore \<Rightarrow> UserStore result" where
  "UpdatePasswordHash userID hash r =
     (case find_user userID r of
        None \<Rightarrow> Inl (Repository ErrUserNotFound)
      | Some (email, user) \<Rightarrow> Inr (AList.update email (user\<lparr>PasswordHash := hash\<rparr>) r))"

section \<open>Revoked tokens\<close>

type_synonym TokenStore = "time gomap"

definition Revoke :: "string \<Rightarrow> time \<Rightarrow> TokenStore \<Rightarrow> TokenStore" where
  "Revoke tokenID expiresAt r = AList.update tokenID expiresAt r"

definition IsRevoked :: "string \<Rightarrow> TokenStore \<Rightarrow> bool" where
  "IsRevoked tokenID r \<longleftrightarrow> map_of r tokenID \<noteq> None"

text \<open>The loop drops every record that is past its time and counts the records it drops.\<close>

fun Token_DeleteExpired :: "time \<Rightarrow> TokenStore \<Rightarrow> TokenStore \<times> nat" where
  "Token_DeleteExpired now [] = ([], 0)"
| "Token_DeleteExpired now ((tokenID, expiresAt) # r) =
     (let (r', removed) = Token_DeleteExpired now r
      in if \<not> Before now expiresAt then (r', removed + 1) else ((tokenID, expiresAt) # r', removed))"

section \<open>Verification links\<close>

type_synonym VerificationStore = "EmailVerification gomap"

definition Verification_Create :: "EmailVerification \<Rightarrow> VerificationStore \<Rightarrow> VerificationStore" where
  "Verification_Create verification r = AList.update (Token verification) verification r"

definition ClaimUnsent :: "time \<Rightarrow> int \<Rightarrow> VerificationStore \<Rightarrow> VerificationStore \<times> EmailVerification list" where
  "ClaimUnsent now limit r =
     (let tokens = map fst (filter (\<lambda>(token, verification).
            \<not> (\<not> IsZero (Verification_SentAt verification) \<or>
               \<not> Before now (Verification_ExpiresAt verification))) r);
          tokens = SortFunc (stamp_cmp Verification_CreatedAt r) tokens;
          tokens = cut_limit limit tokens
      in claim_each (\<lambda>verification. verification\<lparr>Verification_SentAt := now\<rparr>) tokens r)"

definition Verification_Release :: "string \<Rightarrow> VerificationStore \<Rightarrow> VerificationStore" where
  "Verification_Release token r =
     (case map_of r token of
        None \<Rightarrow> r
      | Some verification \<Rightarrow>
          AList.update token (verification\<lparr>Verification_SentAt := zero_time\<rparr>) r)"

definition Consume :: "string \<Rightarrow> time \<Rightarrow> VerificationStore \<Rightarrow> VerificationStore \<times> EmailVerification result" where
  "Consume token now r =
     (case map_of r token of
        None \<Rightarrow> (r, Inl (Domain ErrVerificationNotUsable))
      | Some verification \<Rightarrow>
          if \<not> IsUsable now verification then (r, Inl (Domain ErrVerificationNotUsable))
          else (AList.delete token r, Inr verification))"

fun Verification_DeleteExpired :: "time \<Rightarrow> VerificationStore \<Rightarrow> VerificationStore \<times> nat" where
  "Verification_DeleteExpired now [] = ([], 0)"
| "Verification_DeleteExpired now ((token, verification) # r) =
     (let (r', removed) = Verification_DeleteExpired now r
      in if \<not> Before now (Verification_ExpiresAt verification) then (r', removed + 1)
         else ((token, verification) # r', removed))"

section \<open>The account directory\<close>

text \<open>Accounts are filed under their address and no two accounts share an id.\<close>

definition users_inv :: "UserStore \<Rightarrow> bool" where
  "users_inv r \<longleftrightarrow> gomap_ok r \<and> (\<forall>k u. map_of r k = Some u \<longrightarrow> k = User_Email u) \<and>
     (\<forall>k u k' u'. map_of r k = Some u \<longrightarrow> map_of r k' = Some u' \<longrightarrow> User_ID u = User_ID u' \<longrightarrow> k = k')"

definition user_id_new :: "UserStore \<Rightarrow> string \<Rightarrow> bool" where
  "user_id_new r i \<longleftrightarrow> (\<forall>k u. map_of r k = Some u \<longrightarrow> User_ID u \<noteq> i)"

lemma users_invD:
  "users_inv r \<Longrightarrow> gomap_ok r"
  "users_inv r \<Longrightarrow> map_of r k = Some u \<Longrightarrow> User_Email u = k"
  "users_inv r \<Longrightarrow> map_of r k = Some u \<Longrightarrow> map_of r k' = Some u' \<Longrightarrow> User_ID u = User_ID u' \<Longrightarrow> k = k'"
  unfolding users_inv_def by blast+

lemma users_inv_Nil [simp]: "users_inv []"
  by (simp add: users_inv_def)

lemma users_inv_update:
  assumes "users_inv r" "User_Email u = k"
    and "user_id_new r (User_ID u) \<or> (\<exists>t. map_of r k = Some t \<and> User_ID t = User_ID u)"
  shows "users_inv (AList.update k u r)"
proof -
  have own: "k' = k" if "map_of r k' = Some t" "User_ID t = User_ID u" for k' t
    using assms(3) that users_invD(3) [OF assms(1)] unfolding user_id_new_def by metis
  have "k1 = User_Email u1" if "map_of (AList.update k u r) k1 = Some u1" for k1 u1
    using that assms(2) users_invD(2) [OF assms(1), of k1 u1] by (auto simp del: map_of_eq_Some_iff split: if_splits)
  moreover have "k1 = k2"
    if "map_of (AList.update k u r) k1 = Some u1" "map_of (AList.update k u r) k2 = Some u2"
      "User_ID u1 = User_ID u2" for k1 u1 k2 u2
    using that own [of k1 u1] own [of k2 u2] users_invD(3) [OF assms(1), of k1 u1 k2 u2]
    by (simp del: map_of_eq_Some_iff split: if_splits)
  ultimately show ?thesis using users_invD(1) [OF assms(1)] unfolding users_inv_def by blast
qed

lemma find_user_None_set: "find_user i r = None \<longleftrightarrow> (\<forall>u \<in> set (vals r). User_ID u \<noteq> i)"
  by (induction i r rule: find_user.induct) auto

lemma find_user_Some: "gomap_ok r \<Longrightarrow> find_user i r = Some (k, u) \<Longrightarrow> map_of r k = Some u \<and> User_ID u = i"
  by (induction i r rule: find_user.induct) (auto split: if_splits simp: rev_image_eqI)

lemma find_user_unique:
  assumes "users_inv r" "map_of r k = Some u" "User_ID u = i"
  shows "find_user i r = Some (k, u)"
proof -
  have ok: "gomap_ok r" by (rule users_invD(1) [OF assms(1)])
  have "u \<in> set (vals r)" using assms(2) vals_conv [OF ok] by blast
  then have "find_user i r \<noteq> None" unfolding find_user_None_set using assms(3) by blast
  then obtain k' u' where f: "find_user i r = Some (k', u')" by auto
  have r: "map_of r k' = Some u'" "User_ID u' = i" using find_user_Some [OF ok f] by auto
  have "k' = k" using users_invD(3) [OF assms(1) r(1) assms(2)] r(2) assms(3) by simp
  then show ?thesis using f r(1) assms(2) by (simp del: map_of_eq_Some_iff)
qed

lemma find_user_None: "gomap_ok r \<Longrightarrow> find_user i r = None \<longleftrightarrow> user_id_new r i"
  unfolding find_user_None_set user_id_new_def using vals_conv [of r] by blast

lemma CreateUser_inv [keeps_inv]:
  "users_inv r \<Longrightarrow> user_id_new r (User_ID u) \<Longrightarrow> CreateUser u r = Inr r' \<Longrightarrow> users_inv r'"
  by (auto simp: CreateUser_def users_inv_update split: if_splits)

lemma SetRole_inv [keeps_inv]: "users_inv r \<Longrightarrow> SetRole e role r = Inr r' \<Longrightarrow> users_inv r'"
  using users_invD(2) [of r e]
  by (auto simp: SetRole_def intro!: users_inv_update simp del: map_of_eq_Some_iff split: option.splits)

lemma MarkEmailVerified_inv [keeps_inv]:
  "users_inv r \<Longrightarrow> MarkEmailVerified i e now r = Inr r' \<Longrightarrow> users_inv r'"
  using users_invD(2) [of r e]
  by (auto simp: MarkEmailVerified_def intro!: users_inv_update simp del: map_of_eq_Some_iff
      split: option.splits if_splits)

lemma UpdatePasswordHash_inv [keeps_inv]:
  "users_inv r \<Longrightarrow> UpdatePasswordHash i h r = Inr r' \<Longrightarrow> users_inv r'"
  using users_invD(1,2) [of r]
  by (auto simp: UpdatePasswordHash_def intro!: users_inv_update simp del: map_of_eq_Some_iff
      dest!: find_user_Some [rotated] split: option.splits)
section \<open>Revocations\<close>

lemma Token_DeleteExpired_eq:
  "Token_DeleteExpired now r =
     (filter (\<lambda>(i, t). Before now t) r, length (filter (\<lambda>(i, t). \<not> Before now t) r))"
  by (induction r rule: Token_DeleteExpired.induct) (auto simp: Let_def)

lemma map_of_filter_val:
  "gomap_ok r \<Longrightarrow> map_of (filter (\<lambda>(k, v). P v) r) k =
     (case map_of r k of None \<Rightarrow> None | Some v \<Rightarrow> if P v then Some v else None)"
  by (induction r) (auto split: option.splits simp: map_of_eq_None_iff image_iff)

lemma gomap_ok_filter: "gomap_ok r \<Longrightarrow> gomap_ok (filter P r)"
  by (rule distinct_map_filter)

text \<open>Forgetting old revocations never lets a session back in: a token that is still inside its
  lifetime stays revoked, only records past their time go, and the count is the number of records
  dropped.\<close>

theorem sweep_keeps_live_revocations:
  assumes "gomap_ok r" and "Token_DeleteExpired now r = (r', n)"
  shows "(\<forall>tokenID expiresAt. map_of r tokenID = Some expiresAt \<longrightarrow>
            IsRevoked tokenID r' = (now < expiresAt)) \<and>
    (\<forall>tokenID. IsRevoked tokenID r' \<longrightarrow> map_of r' tokenID = map_of r tokenID) \<and>
    n + length r' = length r \<and> gomap_ok r'"
proof -
  have r': "r' = filter (\<lambda>(i, t). Before now t) r" and n: "n = length (filter (\<lambda>(i, t). \<not> Before now t) r)"
    using assms(2) by (simp_all add: Token_DeleteExpired_eq)
  have "n + length r' = length r"
    unfolding r' n using sum_length_filter_compl [of "\<lambda>(i, t). Before now t" r] by (simp add: case_prod_unfold)
  moreover have "map_of r' k = (case map_of r k of None \<Rightarrow> None | Some t \<Rightarrow> if Before now t then Some t else None)" for k
    unfolding r' by (rule map_of_filter_val [OF assms(1)])
  ultimately show ?thesis
    using gomap_ok_filter [OF assms(1), of "\<lambda>(i, t). Before now t"]
    by (auto simp: IsRevoked_def Before_def r' split: option.splits if_splits simp del: map_of_eq_Some_iff map_of_eq_None_iff)
qed

theorem sweep_keeps_live_revocations_witness:
  "IsRevoked ''t1'' (fst (Token_DeleteExpired 100 [(''t1'', 101), (''t2'', 100)])) \<and>
   \<not> IsRevoked ''t2'' (fst (Token_DeleteExpired 100 [(''t1'', 101), (''t2'', 100)]))"
proof -
  have "gomap_ok [(''t1'', 101::int), (''t2'', 100)]" by simp
  from sweep_keeps_live_revocations [OF this surjective_pairing, of 100] show ?thesis by simp
qed

section \<open>Verification links\<close>

definition links_inv :: "VerificationStore \<Rightarrow> bool" where
  "links_inv r \<longleftrightarrow> gomap_ok r \<and> (\<forall>k v. map_of r k = Some v \<longrightarrow> k = Token v)"

lemma links_invD:
  "links_inv r \<Longrightarrow> gomap_ok r" "links_inv r \<Longrightarrow> map_of r k = Some v \<Longrightarrow> Token v = k"
  unfolding links_inv_def by blast+

interpretation unsent: claim_queue
  "\<lambda>now v. \<not> (\<not> IsZero (Verification_SentAt v) \<or> \<not> Before now (Verification_ExpiresAt v))"
  Verification_CreatedAt "\<lambda>now v. v\<lparr>Verification_SentAt := now\<rparr>" "\<lambda>now now'. now \<noteq> zero_time"
  by unfold_locales (simp add: go_time)

lemma ClaimUnsent_claim: "ClaimUnsent now limit r = unsent.claim_at now limit r"
  by (simp add: ClaimUnsent_def claim_def Let_def)

lemma ClaimUnsent_each:
  assumes "links_inv r" "ClaimUnsent now limit r = (r', taken)"
  obtains ks where "set ks \<subseteq> set (unsent.ready_keys now r)"
    and "taken = map (\<lambda>k. (the (map_of r k))\<lparr>Verification_SentAt := now\<rparr>) ks"
    and "\<And>k. map_of r' k = (if k \<in> set ks
           then map_option (\<lambda>v. v\<lparr>Verification_SentAt := now\<rparr>) (map_of r k) else map_of r k)"
    and "gomap_ok r'"
proof (rule unsent.claim_takes [OF links_invD(1) [OF assms(1)] assms(2) [unfolded ClaimUnsent_claim]])
  fix ks rest
  assume a: "unsent.ready_keys now r = ks @ rest"
    "taken = map (\<lambda>k. (the (map_of r k))\<lparr>Verification_SentAt := now\<rparr>) ks"
    "\<And>k. map_of r' k = (if k \<in> set ks
       then map_option (\<lambda>v. v\<lparr>Verification_SentAt := now\<rparr>) (map_of r k) else map_of r k)" "gomap_ok r'"
  have "set ks \<subseteq> set (unsent.ready_keys now r)" unfolding a(1) by simp
  from that [OF this a(2-4)] show thesis .
qed

lemma links_inv_step:
  assumes "links_inv r" "gomap_ok r'"
    and "\<And>k v'. map_of r' k = Some v' \<Longrightarrow> \<exists>v. map_of r k = Some v \<and> Token v' = Token v"
  shows "links_inv r'"
  using assms(2,3) links_invD(2) [OF assms(1)] unfolding links_inv_def by metis

lemma Verification_Create_inv [keeps_inv]: "links_inv r \<Longrightarrow> links_inv (Verification_Create v r)"
  by (auto simp: links_inv_def Verification_Create_def simp del: map_of_eq_Some_iff split: if_splits)

lemma ClaimUnsent_inv [keeps_inv]:
  assumes inv: "links_inv r" and "ClaimUnsent now limit r = (r', taken)"
  shows "links_inv r'"
proof (rule ClaimUnsent_each [OF assms])
  fix ks
  assume ok: "gomap_ok r'"
    and ks: "\<And>k. map_of r' k = (if k \<in> set ks
           then map_option (\<lambda>v. v\<lparr>Verification_SentAt := now\<rparr>) (map_of r k) else map_of r k)"
  show "links_inv r'"
    by (rule links_inv_step [OF inv ok]) (auto simp: ks simp del: map_of_eq_Some_iff split: if_splits)
qed

lemma Verification_Release_inv [keeps_inv]: "links_inv r \<Longrightarrow> links_inv (Verification_Release t r)"
  using links_invD(2) [of r t]
  by (auto simp: links_inv_def Verification_Release_def simp del: map_of_eq_Some_iff split: if_splits option.splits)

lemma Consume_inv [keeps_inv]: "links_inv r \<Longrightarrow> links_inv (fst (Consume t now r))"
  by (auto simp: links_inv_def Consume_def simp del: map_of_eq_Some_iff split: if_splits option.splits)

lemma Consume_Inr:
  "Consume t now r = (r', Inr v) \<Longrightarrow> map_of r t = Some v \<and> IsUsable now v \<and> r' = AList.delete t r"
  by (auto simp: Consume_def simp del: map_of_eq_Some_iff split: if_splits option.splits)

text \<open>A verification link works once and only in time: following it gives the link that was stored,
  before its deadline; whoever follows it again, then or later, gets the same answer as for a link that
  never existed. A refused attempt spends nothing, and no attempt touches another link.\<close>

theorem verification_link_single_use:
  assumes "links_inv r" and "Consume token now r = (r', res)"
  shows "(case res of
      Inl err \<Rightarrow> err = Domain ErrVerificationNotUsable \<and> r' = r
    | Inr v \<Rightarrow> Token v = token \<and> map_of r token = Some v \<and> now < Verification_ExpiresAt v \<and>
        Consume token now' r' = (r', Inl (Domain ErrVerificationNotUsable))) \<and>
    (\<forall>other. other \<noteq> token \<longrightarrow> map_of r' other = map_of r other)"
proof (cases res)
  case (Inl err)
  then show ?thesis
    using assms(2) by (auto simp: Consume_def simp del: map_of_eq_Some_iff split: if_splits option.splits)
next
  case (Inr v)
  then have c: "map_of r token = Some v" "IsUsable now v" "r' = AList.delete token r"
    using Consume_Inr [of token now r r' v] assms(2) by simp_all
  have "Token v = token" by (rule links_invD(2) [OF assms(1) c(1)])
  moreover have "Consume token now' r' = (r', Inl (Domain ErrVerificationNotUsable))"
    by (simp add: Consume_def c(3))
  ultimately show ?thesis
    using c Inr by (simp add: IsUsable_def Before_def del: map_of_eq_Some_iff)
qed

definition link_1 :: EmailVerification where
  "link_1 = \<lparr>Token = ''v1'', Verification_UserID = ''u1'', Verification_Email = ''a@b.c'',
     Verification_CreatedAt = 10, Verification_ExpiresAt = 20, Verification_SentAt = 0\<rparr>"

lemma link_1_inv: "links_inv [(''v1'', link_1)]"
  by (simp add: links_inv_def link_1_def)

theorem verification_link_single_use_witness:
  "Consume ''v1'' 15 [(''v1'', link_1)] = ([], Inr link_1) \<and>
   Consume ''v1'' 16 [] = ([], Inl (Domain ErrVerificationNotUsable))"
proof -
  have c: "Consume ''v1'' 15 [(''v1'', link_1)] = ([], Inr link_1)"
    by (simp add: Consume_def link_1_def IsUsable_def go_time)
  show ?thesis using verification_link_single_use [OF link_1_inv c, of 16] c by simp
qed

end
