(* ===== verification/Broker.thy ===== *)
theory Broker
  imports Errors
begin

text \<open>
  Live notices: \<open>internal/event/event.go\<close> and \<open>broker.go\<close>. A subscriber is a pointer in the source; here
  it is an index into the list of all subscribers ever made, so that a subscriber that was removed still
  exists for whoever holds it. A channel is its buffered values and whether it was closed. Sending on a
  closed channel and closing it twice panic in Go; both are errors here, and the theorems show that they
  do not happen.
\<close>

section \<open>The model\<close>

type_synonym Kind = string

abbreviation SeatChanged :: Kind where "SeatChanged \<equiv> ''seat_changed''"
abbreviation TurnCame :: Kind where "TurnCame \<equiv> ''turn_came''"
abbreviation EventCancelled :: Kind where "EventCancelled \<equiv> ''event_cancelled''"

record Notice =
  Notice_Kind :: Kind
  Notice_EventID :: string
  Notice_SeatID :: string
  Notice_HoldID :: string
  Notice_ExpiresAt :: time
  Notice_At :: time
  Notice_UserID :: string

definition IsForEveryone :: "Notice \<Rightarrow> bool" where
  "IsForEveryone e \<longleftrightarrow> Notice_UserID e = ''''"

definition subscriberBuffer :: nat where "subscriberBuffer = 16"

record Subscriber =
  Events :: "Notice list"
  Closed :: bool
  Sub_eventID :: string
  Sub_userID :: string

record Broker =
  All :: "Subscriber list"
  subscribers :: "nat list"
  dropped :: int

abbreviation panic_send :: goerror where "panic_send \<equiv> Opaque ''panic: send on closed channel''"
abbreviation panic_close :: goerror where "panic_close \<equiv> Opaque ''panic: close of closed channel''"

definition NewBroker :: Broker where
  "NewBroker = \<lparr>All = [], subscribers = [], dropped = 0\<rparr>"

definition wants :: "Subscriber \<Rightarrow> Notice \<Rightarrow> bool" where
  "wants s event = (if Sub_eventID s \<noteq> Notice_EventID event then False
     else IsForEveryone event \<or> Notice_UserID event = Sub_userID s)"

definition Subscribe :: "string \<Rightarrow> string \<Rightarrow> Broker \<Rightarrow> Broker \<times> nat" where
  "Subscribe eventID userID b =
     (let subscriber = length (All b) in
      (b\<lparr>All := All b @ [\<lparr>Events = [], Closed = False, Sub_eventID = eventID, Sub_userID = userID\<rparr>],
         subscribers := subscriber # subscribers b\<rparr>, subscriber))"

definition close_channel :: "nat \<Rightarrow> Broker \<Rightarrow> Broker result" where
  "close_channel i b =
     (if Closed (All b ! i) then Inl panic_close
      else Inr (b\<lparr>All := (All b)[i := (All b ! i)\<lparr>Closed := True\<rparr>]\<rparr>))"

definition Unsubscribe :: "nat \<Rightarrow> Broker \<Rightarrow> Broker result" where
  "Unsubscribe subscriber b =
     (if subscriber \<notin> set (subscribers b) then Inr b
      else close_channel subscriber (b\<lparr>subscribers := removeAll subscriber (subscribers b)\<rparr>))"

text \<open>The loop over the subscribers, in the order the map is walked; the answer counts deliveries.\<close>

fun publish_loop :: "Notice \<Rightarrow> nat list \<Rightarrow> Broker \<Rightarrow> nat \<Rightarrow> (Broker \<times> nat) result" where
  "publish_loop event [] b delivered = Inr (b, delivered)"
| "publish_loop event (i # is) b delivered =
     (let s = All b ! i in
      if \<not> wants s event then publish_loop event is b delivered
      else if Closed s then Inl panic_send
      else if length (Events s) < subscriberBuffer
        then publish_loop event is
               (b\<lparr>All := (All b)[i := s\<lparr>Events := Events s @ [event]\<rparr>]\<rparr>) (delivered + 1)
      else publish_loop event is (b\<lparr>dropped := int64 (dropped b + 1)\<rparr>) delivered)"

definition Publish :: "Notice \<Rightarrow> Broker \<Rightarrow> (Broker \<times> nat) result" where
  "Publish event b = publish_loop event (subscribers b) b 0"

fun close_loop :: "nat list \<Rightarrow> Broker \<Rightarrow> Broker result" where
  "close_loop [] b = Inr b"
| "close_loop (i # is) b =
     (case close_channel i (b\<lparr>subscribers := removeAll i (subscribers b)\<rparr>) of
        Inl err \<Rightarrow> Inl err
      | Inr b' \<Rightarrow> close_loop is b')"

definition Broker_Close :: "Broker \<Rightarrow> Broker result" where
  "Broker_Close b = close_loop (subscribers b) b"

text \<open>A reader takes the oldest buffered notice; \<open>None\<close> says that there is none to take.\<close>

definition Receive :: "nat \<Rightarrow> Broker \<Rightarrow> Broker \<times> Notice option" where
  "Receive i b =
     (case Events (All b ! i) of
        [] \<Rightarrow> (b, None)
      | e # es \<Rightarrow> (b\<lparr>All := (All b)[i := (All b ! i)\<lparr>Events := es\<rparr>]\<rparr>, Some e))"

section \<open>The invariant of the broker\<close>

definition sub_wf :: "Subscriber \<Rightarrow> bool" where
  "sub_wf s \<longleftrightarrow> length (Events s) \<le> subscriberBuffer \<and> (\<forall>e \<in> set (Events s). wants s e)"

text \<open>
  A registered subscriber exists and its channel is open, nobody is registered twice, no buffer is
  over its size, and no buffer holds a notice that was not meant for its reader.
\<close>

definition broker_inv :: "Broker \<Rightarrow> bool" where
  "broker_inv b \<longleftrightarrow> distinct (subscribers b) \<and>
     (\<forall>i \<in> set (subscribers b). i < length (All b) \<and> \<not> Closed (All b ! i)) \<and>
     (\<forall>s \<in> set (All b). sub_wf s)"

lemma wants_update [simp]:
  "wants (s\<lparr>Closed := c\<rparr>) e = wants s e" "wants (s\<lparr>Events := es\<rparr>) e = wants s e"
  by (simp_all add: wants_def)

lemma broker_invD:
  "broker_inv b \<Longrightarrow> distinct (subscribers b)"
  "broker_inv b \<Longrightarrow> i \<in> set (subscribers b) \<Longrightarrow> i < length (All b) \<and> \<not> Closed (All b ! i)"
  "broker_inv b \<Longrightarrow> i < length (All b) \<Longrightarrow> sub_wf (All b ! i)"
  by (auto simp: broker_inv_def)

lemma broker_inv_new [simp, keeps_inv]: "broker_inv NewBroker"
  by (simp add: NewBroker_def broker_inv_def)

lemma Subscribe_inv [keeps_inv]: "broker_inv b \<Longrightarrow> broker_inv (fst (Subscribe e u b))"
  by (auto simp: broker_inv_def Subscribe_def Let_def nth_append sub_wf_def)

lemma close_channel_inv:
  assumes "broker_inv b" "i \<in> set (subscribers b)"
  shows "\<exists>b'. close_channel i (b\<lparr>subscribers := removeAll i (subscribers b)\<rparr>) = Inr b' \<and> broker_inv b' \<and>
    subscribers b' = removeAll i (subscribers b)"
proof -
  have i: "i < length (All b)" "\<not> Closed (All b ! i)" using broker_invD(2) [OF assms] by auto
  have "sub_wf ((All b ! i)\<lparr>Closed := True\<rparr>)"
    using broker_invD(3) [OF assms(1) i(1)] by (simp add: sub_wf_def)
  then show ?thesis
    using assms(1) i by (auto simp: close_channel_def broker_inv_def nth_list_update distinct_removeAll
        dest!: set_update_subset_insert [THEN subsetD])
qed

lemma Unsubscribe_inv [keeps_inv]: "broker_inv b \<Longrightarrow> \<exists>b'. Unsubscribe i b = Inr b' \<and> broker_inv b'"
  using close_channel_inv [of b i] by (auto simp: Unsubscribe_def)

lemma close_loop_inv:
  "broker_inv b \<Longrightarrow> subscribers b = is \<Longrightarrow> \<exists>b'. close_loop is b = Inr b' \<and> broker_inv b' \<and> subscribers b' = []"
proof (induction "is" arbitrary: b)
  case Nil
  then show ?case by simp
next
  case (Cons i "is")
  have "i \<in> set (subscribers b)" using Cons.prems(2) by simp
  from close_channel_inv [OF Cons.prems(1) this]
  obtain b' where b': "close_channel i (b\<lparr>subscribers := removeAll i (subscribers b)\<rparr>) = Inr b'"
    "broker_inv b'" "subscribers b' = removeAll i (subscribers b)" by blast
  have "removeAll i (subscribers b) = is"
    using broker_invD(1) [OF Cons.prems(1)] Cons.prems(2) by (simp add: removeAll_id)
  then show ?case using Cons.IH [OF b'(2)] b' by simp
qed

lemma Receive_inv [keeps_inv]:
  assumes "broker_inv b" "i < length (All b)"
  shows "broker_inv (fst (Receive i b))"
proof (cases "Events (All b ! i)")
  case Nil
  then show ?thesis using assms(1) by (simp add: Receive_def)
next
  case (Cons e es)
  have "sub_wf ((All b ! i)\<lparr>Events := es\<rparr>)"
    using broker_invD(3) [OF assms] Cons by (auto simp: sub_wf_def)
  then show ?thesis
    using assms Cons by (auto simp: Receive_def broker_inv_def nth_list_update
        dest!: set_update_subset_insert [THEN subsetD])
qed

lemma publish_step:
  assumes "broker_inv b" "i \<in> set (subscribers b)" "wants (All b ! i) e" "length (Events (All b ! i)) < subscriberBuffer"
  shows "broker_inv (b\<lparr>All := (All b)[i := (All b ! i)\<lparr>Events := Events (All b ! i) @ [e]\<rparr>]\<rparr>)"
proof -
  have i: "i < length (All b)" "\<not> Closed (All b ! i)" using broker_invD(2) [OF assms(1,2)] by auto
  have "sub_wf ((All b ! i)\<lparr>Events := Events (All b ! i) @ [e]\<rparr>)"
    using broker_invD(3) [OF assms(1) i(1)] assms(3,4) by (auto simp: sub_wf_def)
  then show ?thesis
    using assms(1) i by (auto simp: broker_inv_def nth_list_update dest!: set_update_subset_insert [THEN subsetD])
qed

lemma broker_inv_dropped [simp]: "broker_inv (b\<lparr>dropped := n\<rparr>) = broker_inv b"
  by (simp add: broker_inv_def)

text \<open>What one pass of the loop does to the rest of the state.\<close>

definition got :: "Notice \<Rightarrow> Subscriber \<Rightarrow> Subscriber" where
  "got e s = (if wants s e \<and> length (Events s) < subscriberBuffer then s\<lparr>Events := Events s @ [e]\<rparr> else s)"

definition takes :: "Notice \<Rightarrow> Broker \<Rightarrow> nat \<Rightarrow> bool" where
  "takes e b i \<longleftrightarrow> wants (All b ! i) e \<and> length (Events (All b ! i)) < subscriberBuffer"

definition published :: "Notice \<Rightarrow> nat list \<Rightarrow> Broker \<Rightarrow> Broker \<Rightarrow> bool" where
  "published e is b b' \<longleftrightarrow> broker_inv b' \<and> subscribers b' = subscribers b \<and>
     length (All b') = length (All b) \<and>
     (\<forall>j < length (All b). All b' ! j = (if j \<in> set is then got e (All b ! j) else All b ! j))"

lemma published_Cons:
  assumes "published e is b1 b'" "i \<notin> set is" "subscribers b1 = subscribers b" "length (All b1) = length (All b)"
    and "\<And>j. j < length (All b) \<Longrightarrow> All b1 ! j = (if j = i then got e (All b ! j) else All b ! j)"
  shows "published e (i # is) b b'"
  using assms by (auto simp: published_def)

lemma publish_loop_inv:
  "broker_inv b \<Longrightarrow> set is \<subseteq> set (subscribers b) \<Longrightarrow> distinct is \<Longrightarrow>
   \<exists>b'. publish_loop e is b n = Inr (b', n + length (filter (takes e b) is)) \<and> published e is b b'"
proof (induction "is" arbitrary: b n)
  case Nil
  then show ?case by (simp add: published_def)
next
  case (Cons i "is")
  have i: "i < length (All b)" "\<not> Closed (All b ! i)" using broker_invD(2) [OF Cons.prems(1)] Cons.prems(2) by auto
  have rest: "set is \<subseteq> set (subscribers b)" "distinct is" "i \<notin> set is" using Cons.prems(2,3) by auto
  let ?b = "if takes e b i then b\<lparr>All := (All b)[i := got e (All b ! i)]\<rparr>
    else if wants (All b ! i) e then b\<lparr>dropped := int64 (dropped b + 1)\<rparr> else b"
  let ?n = "if takes e b i then n + 1 else n"
  have step: "publish_loop e (i # is) b n = publish_loop e is ?b ?n"
    using i by (simp add: Let_def takes_def got_def)
  have inv: "broker_inv ?b"
    using publish_step [OF Cons.prems(1), of i e] Cons.prems(1,2) by (simp add: takes_def got_def)
  have at: "All ?b ! j = (if j = i then got e (All b ! j) else All b ! j)" if "j < length (All b)" for j
    using that by (simp add: nth_list_update takes_def got_def)
  have subs: "subscribers ?b = subscribers b" and len: "length (All ?b) = length (All b)" by simp_all
  have "takes e ?b j = takes e b j" if "j \<in> set is" for j
  proof -
    have "j < length (All b)" "j \<noteq> i" using that rest broker_invD(2) [OF Cons.prems(1)] by auto
    then show ?thesis using at [of j] by (simp only: takes_def if_False)
  qed
  then have "filter (takes e ?b) is = filter (takes e b) is" by (intro filter_cong) auto
  then obtain b' where "publish_loop e is ?b ?n = Inr (b', ?n + length (filter (takes e b) is))"
    "published e is ?b b'"
    using Cons.IH [OF inv, of ?n] rest subs by (metis (no_types, lifting))
  moreover from this(2) have "published e (i # is) b b'" by (rule published_Cons [OF _ rest(3) subs len at])
  ultimately show ?case unfolding step by auto
qed

text \<open>
  The life of a broker: anybody may subscribe, unsubscribe (any subscriber, any number of times),
  publish, read, or close, in any order.
\<close>

datatype broker_call =
    Call_Subscribe string string | Call_Unsubscribe nat | Call_Publish Notice | Call_Receive nat | Call_Close

fun broker_run :: "broker_call list \<Rightarrow> Broker \<Rightarrow> Broker result" where
  "broker_run [] b = Inr b"
| "broker_run (Call_Subscribe e u # cs) b = broker_run cs (fst (Subscribe e u b))"
| "broker_run (Call_Unsubscribe i # cs) b =
     (if i < length (All b)
      then case Unsubscribe i b of Inl err \<Rightarrow> Inl err | Inr b' \<Rightarrow> broker_run cs b'
      else broker_run cs b)"
| "broker_run (Call_Publish n # cs) b =
     (case Publish n b of Inl err \<Rightarrow> Inl err | Inr (b', _) \<Rightarrow> broker_run cs b')"
| "broker_run (Call_Receive i # cs) b =
     broker_run cs (if i < length (All b) then fst (Receive i b) else b)"
| "broker_run (Call_Close # cs) b =
     (case Broker_Close b of Inl err \<Rightarrow> Inl err | Inr b' \<Rightarrow> broker_run cs b')"

lemma Publish_inv [keeps_inv]:
  "broker_inv b \<Longrightarrow> \<exists>b'. Publish n b = Inr (b', length (filter (takes n b) (subscribers b))) \<and>
     published n (subscribers b) b b'"
  using publish_loop_inv [of b "subscribers b" n 0] by (simp add: Publish_def broker_invD(1))

lemma Broker_Close_inv [keeps_inv]:
  "broker_inv b \<Longrightarrow> \<exists>b'. Broker_Close b = Inr b' \<and> broker_inv b' \<and> subscribers b' = []"
  unfolding Broker_Close_def by (rule close_loop_inv) auto

lemma broker_run_inv: "broker_inv b \<Longrightarrow> \<exists>b'. broker_run cs b = Inr b' \<and> broker_inv b'"
proof (induction cs b rule: broker_run.induct)
  case (3 i cs b)
  then show ?case using Unsubscribe_inv [OF "3.prems", of i] by auto
next
  case (4 n cs b)
  then show ?case using Publish_inv [OF "4.prems", of n] by (auto simp: published_def)
next
  case (6 cs b)
  then show ?case using Broker_Close_inv [OF "6.prems"] by auto
qed (auto simp: Subscribe_inv Receive_inv)

text \<open>The broker never panics and never leaks: whatever calls arrive in whatever order, no notice is
  sent on a closed channel and no channel is closed twice, no reader's buffer outgrows its sixteen
  places, and a reader never finds a notice about another event or one meant for another person.\<close>

theorem broker_never_panics:
  "\<exists>b. broker_run calls NewBroker = Inr b \<and>
     (\<forall>s \<in> set (All b). length (Events s) \<le> 16 \<and>
       (\<forall>n \<in> set (Events s). Notice_EventID n = Sub_eventID s \<and>
          (Notice_UserID n = '''' \<or> Notice_UserID n = Sub_userID s)))"
proof -
  obtain b where "broker_run calls NewBroker = Inr b" "broker_inv b"
    using broker_run_inv [OF broker_inv_new] by blast
  then show ?thesis
    by (fastforce simp: broker_inv_def sub_wf_def wants_def IsForEveryone_def subscriberBuffer_def split: if_splits)
qed

theorem broker_never_panics_witness:
  "\<exists>b. broker_run [Call_Subscribe ''e'' ''u'', Call_Unsubscribe 0, Call_Unsubscribe 0, Call_Close] NewBroker = Inr b \<and>
     (\<forall>s \<in> set (All b). length (Events s) \<le> 16)"
  using broker_never_panics [of "[Call_Subscribe ''e'' ''u'', Call_Unsubscribe 0, Call_Unsubscribe 0, Call_Close]"]
  by blast

text \<open>A notice reaches every watcher it concerns who has room, at the end of their buffer, and nobody
  else; the number reported is the number of those watchers, and a watcher who does not keep up loses
  the notice without holding up the rest.\<close>

theorem publish_reaches_all_with_room:
  assumes "broker_inv b"
  shows "\<exists>b'. Publish n b = Inr (b', length (filter (takes n b) (subscribers b))) \<and> broker_inv b' \<and>
    (\<forall>i < length (All b). Events (All b' ! i) =
       (if i \<in> set (subscribers b) \<and> takes n b i then Events (All b ! i) @ [n] else Events (All b ! i)))"
  using Publish_inv [OF assms, of n] by (auto simp: published_def got_def takes_def)

definition watched :: Broker where
  "watched = fst (Subscribe ''event-1'' ''alice'' NewBroker)"

definition seat_news :: Notice where
  "seat_news = \<lparr>Notice_Kind = SeatChanged, Notice_EventID = ''event-1'', Notice_SeatID = ''A1'',
     Notice_HoldID = '''', Notice_ExpiresAt = 0, Notice_At = 7, Notice_UserID = ''''\<rparr>"

theorem publish_reaches_all_with_room_witness:
  "\<exists>b'. Publish seat_news watched = Inr (b', 1) \<and> Events (All b' ! 0) = [seat_news]"
proof -
  have inv: "broker_inv watched" by (simp add: watched_def Subscribe_inv)
  have "takes seat_news watched 0" "subscribers watched = [0]" "length (All watched) = 1" "Events (All watched ! 0) = []"
    by (simp_all add: takes_def watched_def Subscribe_def NewBroker_def seat_news_def wants_def IsForEveryone_def
        subscriberBuffer_def)
  then show ?thesis using publish_reaches_all_with_room [OF inv, of seat_news] by auto
qed

end
