(* ===== verification/Reservation.thy ===== *)
theory Reservation
  imports Seat_Machine Event_Store Waiting_Store Notice_Stores Account_Stores Broker
begin

text \<open>
  The reservation flow: \<open>internal/service/eligibility.go\<close>, \<open>reservation_service.go\<close>,
  \<open>waiting_list_service.go\<close>, \<open>handoff.go\<close> and \<open>hold_sweeper.go\<close>, over the stores. The services share the
  stores through pointers; here the stores are fields of one record that every operation is given and
  gives back. What is published is kept as the list of calls made on the publisher. The readings of the
  clock and the generated ids an operation uses are its arguments, so every statement holds for all of
  them. Logging is left out.
\<close>

section \<open>The state the services share\<close>

record World =
  W_seats :: SeatStore
  W_events :: EventStore
  W_users :: UserStore
  W_waiting :: WaitingStore
  W_published :: "Notice list"
  W_freed :: "SeatRef list"
  W_not_offered :: int
  W_inbox :: NotificationStore
  W_outbox :: DeliveryStore
  W_push :: PushStore

text \<open>What the services are built with. \<open>Buffer\<close> is the size of the handoff's channel, or \<open>None\<close> where no
  handoff is wired in and freed seats are offered to nobody.\<close>

datatype SeatGate = AllowEveryone | VerifiedOnly

record ServiceConfig =
  HoldTTL :: duration
  Gate :: SeatGate
  Buffer :: "nat option"

section \<open>Who may take a seat\<close>

definition MayTakeSeat :: "SeatGate \<Rightarrow> string \<Rightarrow> UserStore \<Rightarrow> unit result" where
  "MayTakeSeat g userID users =
     (case g of
        AllowEveryone \<Rightarrow> Inr ()
      | VerifiedOnly \<Rightarrow>
          (case GetUserByID userID users of
             Inl err \<Rightarrow> Inl err
           | Inr user \<Rightarrow>
               if \<not> EmailVerified user then Inl (Domain ErrEmailNotVerified) else Inr ()))"

section \<open>The reservation service\<close>

definition publish :: "Notice \<Rightarrow> World \<Rightarrow> World" where
  "publish n w = w\<lparr>W_published := W_published w @ [n]\<rparr>"

definition seat_changed :: "time \<Rightarrow> string \<Rightarrow> string \<Rightarrow> Notice" where
  "seat_changed at eventID seatID =
     \<lparr>Notice_Kind = SeatChanged, Notice_EventID = eventID, Notice_SeatID = seatID,
      Notice_HoldID = '''', Notice_ExpiresAt = zero_time, Notice_At = at, Notice_UserID = ''''\<rparr>"

definition announceSeatChange :: "time \<Rightarrow> string \<Rightarrow> string \<Rightarrow> World \<Rightarrow> World" where
  "announceSeatChange at eventID seatID w = publish (seat_changed at eventID seatID) w"

text \<open>The channel of freed seats takes a seat while it has room.\<close>

definition Offer :: "ServiceConfig \<Rightarrow> SeatRef \<Rightarrow> World \<Rightarrow> World" where
  "Offer cfg seat w =
     (case Buffer cfg of
        None \<Rightarrow> w
      | Some n \<Rightarrow>
          if length (W_freed w) < n then w\<lparr>W_freed := W_freed w @ [seat]\<rparr>
          else w\<lparr>W_not_offered := int64 (W_not_offered w + 1)\<rparr>)"

definition HoldSeat ::
  "ServiceConfig \<Rightarrow> time \<Rightarrow> time \<Rightarrow> string \<Rightarrow> string \<Rightarrow> string \<Rightarrow> string \<Rightarrow> World \<Rightarrow> World \<times> Hold option result"
where
  "HoldSeat cfg now at holdID eventID seatID userID w =
     (case MayTakeSeat (Gate cfg) userID (W_users w) of
        Inl err \<Rightarrow> (w, Inl err)
      | Inr _ \<Rightarrow>
          (case GetEvent eventID (W_events w) of
             Inl err \<Rightarrow> (w, Inl err)
           | Inr event \<Rightarrow>
               if IsCancelled event then (w, Inl (Domain ErrEventCancelled))
               else
                 let (seats, res) =
                   UpdateSeat eventID seatID (Seat_Hold holdID userID (HoldTTL cfg) now) (W_seats w)
                 in case res of
                      Inl err \<Rightarrow> (w\<lparr>W_seats := seats\<rparr>, Inl err)
                    | Inr seat \<Rightarrow>
                        (announceSeatChange at eventID seatID (w\<lparr>W_seats := seats\<rparr>),
                         Inr (CurrentHold now seat))))"

text \<open>\<open>s.newID()[:8]\<close> panics on an id of fewer than eight bytes.\<close>

definition ConfirmReservation ::
  "ServiceConfig \<Rightarrow> time \<Rightarrow> time \<Rightarrow> string \<Rightarrow> string \<Rightarrow> string \<Rightarrow> World \<Rightarrow> World \<times> Seat result" where
  "ConfirmReservation cfg now at newID holdID userID w =
     (case MayTakeSeat (Gate cfg) userID (W_users w) of
        Inl err \<Rightarrow> (w, Inl err)
      | Inr _ \<Rightarrow>
          if length newID < 8 then (w, Inl (Opaque ''panic: slice bounds out of range''))
          else
            let ticketCode = FormatTicketCode (take 8 newID);
                (seats, res) = UpdateSeatByHoldID holdID (Seat_Confirm userID ticketCode now) (W_seats w)
            in case res of
                 Inl err \<Rightarrow> (w\<lparr>W_seats := seats\<rparr>, Inl err)
               | Inr confirmed \<Rightarrow>
                   (announceSeatChange at (Seat_EventID confirmed) (Seat_ID confirmed)
                      (w\<lparr>W_seats := seats\<rparr>), Inr confirmed))"

definition ReleaseSeat ::
  "ServiceConfig \<Rightarrow> time \<Rightarrow> string \<Rightarrow> string \<Rightarrow> World \<Rightarrow> World \<times> unit result" where
  "ReleaseSeat cfg at holdID userID w =
     (let (seats, res) = UpdateSeatByHoldID holdID (Seat_Release userID) (W_seats w)
      in case res of
           Inl err \<Rightarrow> (w\<lparr>W_seats := seats\<rparr>, Inl err)
         | Inr released \<Rightarrow>
             (Offer cfg (Seat_Ref released)
                (announceSeatChange at (Seat_EventID released) (Seat_ID released)
                   (w\<lparr>W_seats := seats\<rparr>)), Inr ()))"

text \<open>\<open>MyTickets\<close> looks every event up once and remembers it.\<close>

fun tickets_loop ::
  "EventStore \<Rightarrow> Event gomap \<Rightarrow> Seat list \<Rightarrow> (Event \<times> Seat) list result" where
  "tickets_loop store seen [] = Inr []"
| "tickets_loop store seen (seat # seats) =
     (case map_of seen (Seat_EventID seat) of
        Some event \<Rightarrow> map_sum (\<lambda>e. e) (\<lambda>ts. (event, seat) # ts) (tickets_loop store seen seats)
      | None \<Rightarrow>
          (case GetEvent (Seat_EventID seat) store of
             Inl err \<Rightarrow> Inl err
           | Inr event \<Rightarrow>
               map_sum (\<lambda>e. e) (\<lambda>ts. (event, seat) # ts)
                 (tickets_loop store (AList.update (Seat_EventID seat) event seen) seats)))"

definition MyTickets :: "string \<Rightarrow> World \<Rightarrow> (Event \<times> Seat) list result" where
  "MyTickets userID w =
     (if userID = '''' then Inl (Domain ErrEmptyUserID)
      else tickets_loop (W_events w) [] (ListSeatsForUser userID (W_seats w)))"

definition SeatMap :: "string \<Rightarrow> World \<Rightarrow> Seat list result" where
  "SeatMap eventID w =
     (case GetEvent eventID (W_events w) of
        Inl err \<Rightarrow> Inl err
      | Inr _ \<Rightarrow> Inr (ListSeats eventID (W_seats w)))"

section \<open>The waiting list service\<close>

definition WaitingList_Join ::
  "ServiceConfig \<Rightarrow> time \<Rightarrow> string \<Rightarrow> string \<Rightarrow> string \<Rightarrow> World \<Rightarrow> World \<times> nat result" where
  "WaitingList_Join cfg now newID eventID userID w =
     (case MayTakeSeat (Gate cfg) userID (W_users w) of
        Inl err \<Rightarrow> (w, Inl err)
      | Inr _ \<Rightarrow>
          (case GetEvent eventID (W_events w) of
             Inl err \<Rightarrow> (w, Inl err)
           | Inr _ \<Rightarrow>
               (case NewWaitingEntry newID eventID userID now of
                  Inl err \<Rightarrow> (w, Inl err)
                | Inr entry \<Rightarrow>
                    let (q, _, position) = Waiting_Join entry (W_waiting w)
                    in (w\<lparr>W_waiting := q\<rparr>, Inr position))))"

definition WaitingList_Leave :: "string \<Rightarrow> string \<Rightarrow> World \<Rightarrow> World" where
  "WaitingList_Leave eventID userID w = w\<lparr>W_waiting := Waiting_Leave eventID userID (W_waiting w)\<rparr>"

definition WaitingList_Position :: "string \<Rightarrow> string \<Rightarrow> World \<Rightarrow> nat result" where
  "WaitingList_Position eventID userID w = Position eventID userID (W_waiting w)"

section \<open>Handing a freed seat over\<close>

definition turn_came :: "time \<Rightarrow> SeatRef \<Rightarrow> string \<Rightarrow> Hold \<Rightarrow> Notice" where
  "turn_came at seat userID hold =
     \<lparr>Notice_Kind = TurnCame, Notice_EventID = Ref_EventID seat, Notice_SeatID = Ref_SeatID seat,
      Notice_HoldID = Hold_ID hold, Notice_ExpiresAt = Hold_ExpiresAt hold, Notice_At = at,
      Notice_UserID = userID\<rparr>"

text \<open>
  What follows the attempt to hold the seat. \<open>hold.ID\<close> on a nil hold would panic; the answer
  of \<open>HoldSeat\<close> is shown to have a hold whenever it has no error.
\<close>

definition hand_result ::
  "time \<Rightarrow> SeatRef \<Rightarrow> WaitingEntry \<Rightarrow> World \<times> Hold option result \<Rightarrow> World" where
  "hand_result at seat entry attempt =
     (case attempt of
        (w, Inl err) \<Rightarrow>
          if errors_Is err (Domain ErrEmailNotVerified) then w
          else w\<lparr>W_waiting := Rejoin entry (W_waiting w)\<rparr>
      | (w, Inr None) \<Rightarrow> w
      | (w, Inr (Some hold)) \<Rightarrow> publish (turn_came at seat (Entry_UserID entry) hold) w)"

definition hand :: "ServiceConfig \<Rightarrow> time \<Rightarrow> time \<Rightarrow> time \<Rightarrow> string \<Rightarrow> SeatRef \<Rightarrow> World \<Rightarrow> World" where
  "hand cfg now at1 at2 holdID seat w =
     (case TakeNext (Ref_EventID seat) (W_waiting w) of
        (q, Inl err) \<Rightarrow> w\<lparr>W_waiting := q\<rparr>
      | (q, Inr entry) \<Rightarrow>
          hand_result at2 seat entry
            (HoldSeat cfg now at1 holdID (Ref_EventID seat) (Ref_SeatID seat) (Entry_UserID entry)
               (w\<lparr>W_waiting := q\<rparr>)))"

text \<open>One turn of a worker's loop: receive a freed seat and hand it over.\<close>

definition hand_next :: "ServiceConfig \<Rightarrow> time \<Rightarrow> time \<Rightarrow> time \<Rightarrow> string \<Rightarrow> World \<Rightarrow> World" where
  "hand_next cfg now at1 at2 holdID w =
     (case W_freed w of
        [] \<Rightarrow> w
      | seat # rest \<Rightarrow> hand cfg now at1 at2 holdID seat (w\<lparr>W_freed := rest\<rparr>))"

section \<open>Sweeping expired holds\<close>

definition Sweep :: "ServiceConfig \<Rightarrow> time \<Rightarrow> World \<Rightarrow> World \<times> SeatRef list" where
  "Sweep cfg now w =
     (let (seats, freed) = ExpireHolds now (W_seats w)
      in (fold (Offer cfg) freed (w\<lparr>W_seats := seats\<rparr>), freed))"

section \<open>The invariant of the stores together\<close>

definition world_inv :: "World \<Rightarrow> bool" where
  "world_inv w \<longleftrightarrow> seats_inv (W_seats w) \<and> events_inv (W_events w) \<and> users_inv (W_users w) \<and>
     queues_inv (W_waiting w)"

lemma world_invD:
  "world_inv w \<Longrightarrow> seats_inv (W_seats w)" "world_inv w \<Longrightarrow> events_inv (W_events w)"
  "world_inv w \<Longrightarrow> users_inv (W_users w)" "world_inv w \<Longrightarrow> queues_inv (W_waiting w)"
  by (simp_all add: world_inv_def)

lemma publish_simps [simp]:
  "W_seats (publish n w) = W_seats w" "W_events (publish n w) = W_events w"
  "W_users (publish n w) = W_users w" "W_waiting (publish n w) = W_waiting w"
  "W_published (publish n w) = W_published w @ [n]" "W_freed (publish n w) = W_freed w"
  "W_inbox (publish n w) = W_inbox w" "W_outbox (publish n w) = W_outbox w" "W_push (publish n w) = W_push w"
  by (simp_all add: publish_def)

lemma Offer_simps [simp]:
  "W_seats (Offer c s w) = W_seats w" "W_events (Offer c s w) = W_events w"
  "W_users (Offer c s w) = W_users w" "W_waiting (Offer c s w) = W_waiting w"
  "W_published (Offer c s w) = W_published w"
  by (simp_all add: Offer_def split: option.split)

lemma fold_Offer_simps [simp]:
  "W_seats (fold (Offer c) ss w) = W_seats w" "W_events (fold (Offer c) ss w) = W_events w"
  "W_users (fold (Offer c) ss w) = W_users w" "W_waiting (fold (Offer c) ss w) = W_waiting w"
  "W_published (fold (Offer c) ss w) = W_published w"
  by (induction ss arbitrary: w) simp_all

lemma UpdateSeat_Inl: "UpdateSeat e i f r = (r', Inl err) \<Longrightarrow> r' = r"
  by (auto simp: UpdateSeat_def Let_def split: option.splits sum.splits)

lemma UpdateSeat_Inr:
  "UpdateSeat e i f r = (r', Inr s') \<Longrightarrow>
     \<exists>s. map_of r (seatKey e i) = Some s \<and> f s = Inr s' \<and> r' = AList.update (seatKey e i) s' r"
  by (auto simp: UpdateSeat_def Let_def split: option.splits sum.splits)

lemma UpdateSeatByHoldID_Inl: "UpdateSeatByHoldID h f r = (r', Inl err) \<Longrightarrow> r' = r"
  by (auto simp: UpdateSeatByHoldID_def split: option.splits sum.splits)

lemma UpdateSeatByHoldID_Inr:
  "gomap_ok r \<Longrightarrow> UpdateSeatByHoldID h f r = (r', Inr s') \<Longrightarrow>
     \<exists>k s. map_of r k = Some s \<and> HoldID s = h \<and> f s = Inr s' \<and> r' = AList.update k s' r"
  using find_hold_Some [of r h]
  by (fastforce simp: UpdateSeatByHoldID_def simp del: map_of_eq_Some_iff split: option.splits sum.splits)

section \<open>Holding\<close>

text \<open>Every way a hold can end.\<close>

lemma HoldSeat_cases:
  "HoldSeat cfg now at h e i u w =
     (case MayTakeSeat (Gate cfg) u (W_users w) of
        Inl err \<Rightarrow> (w, Inl err)
      | Inr _ \<Rightarrow>
          (case map_of (W_events w) e of
             None \<Rightarrow> (w, Inl (Repository ErrEventNotFound))
           | Some ev \<Rightarrow>
               if IsCancelled ev then (w, Inl (Domain ErrEventCancelled))
               else case map_of (W_seats w) (seatKey e i) of
                 None \<Rightarrow> (w, Inl (Repository ErrSeatNotFound))
               | Some s \<Rightarrow>
                   (case Seat_Hold h u (HoldTTL cfg) now s of
                      Inl err \<Rightarrow> (w, Inl err)
                    | Inr s' \<Rightarrow>
                        (publish (seat_changed at e i)
                           (w\<lparr>W_seats := AList.update (seatKey e i) s' (W_seats w)\<rparr>),
                         Inr (CurrentHold now s')))))"
  by (simp add: HoldSeat_def GetEvent_def UpdateSeat_def Let_def announceSeatChange_def
      split: sum.split option.split)

lemma HoldSeat_failed: "HoldSeat cfg now at h e i u w = (w', Inl err) \<Longrightarrow> w' = w"
  unfolding HoldSeat_cases by (auto split: sum.splits option.splits if_splits)

lemma HoldSeat_ok:
  assumes "HoldSeat cfg now at h e i u w = (w', Inr ho)"
  obtains ev s s' where "MayTakeSeat (Gate cfg) u (W_users w) = Inr ()"
    "map_of (W_events w) e = Some ev" "\<not> IsCancelled ev"
    "map_of (W_seats w) (seatKey e i) = Some s" "Seat_Hold h u (HoldTTL cfg) now s = Inr s'"
    "w' = publish (seat_changed at e i) (w\<lparr>W_seats := AList.update (seatKey e i) s' (W_seats w)\<rparr>)"
    "ho = CurrentHold now s'"
  using assms unfolding HoldSeat_cases
  by (auto split: sum.splits option.splits if_splits simp del: map_of_eq_Some_iff)

lemma Seat_Hold_current:
  "Seat_Hold h u d now s = Inr s' \<Longrightarrow>
     CurrentHold now s' = Some \<lparr>Hold_ID = h, Hold_EventID = Seat_EventID s, Hold_SeatID = Seat_ID s,
       Hold_UserID = u, Hold_CreatedAt = now, Hold_ExpiresAt = now + d\<rparr>"
  by (auto simp: seat_ops split: if_splits)

text \<open>Holding a seat through the service succeeds exactly when the account may take a seat, the event
  exists and is not withdrawn, and the seat exists and is free or its hold has run out; the caller then
  gets a hold of their own that ends one time-to-live later, the seat is theirs, and watchers are told
  once. Every refusal leaves all the stores untouched and tells nobody.\<close>

theorem hold_seat_outcome:
  assumes "world_inv w" and "slash_free e" and "h \<noteq> ''''" and "u \<noteq> ''''" and "0 < HoldTTL cfg"
    and "HoldSeat cfg now at h e i u w = (w', res)"
  shows "case res of
      Inl err \<Rightarrow> w' = w \<and> \<not> (MayTakeSeat (Gate cfg) u (W_users w) = Inr () \<and>
        (\<exists>ev. map_of (W_events w) e = Some ev \<and> \<not> IsCancelled ev) \<and>
        (\<exists>s. map_of (W_seats w) (seatKey e i) = Some s \<and> CanHold s now))
    | Inr ho \<Rightarrow> MayTakeSeat (Gate cfg) u (W_users w) = Inr () \<and>
        (\<exists>ev. map_of (W_events w) e = Some ev \<and> \<not> IsCancelled ev) \<and>
        (\<exists>s. map_of (W_seats w) (seatKey e i) = Some s \<and> CanHold s now) \<and>
        ho = Some \<lparr>Hold_ID = h, Hold_EventID = e, Hold_SeatID = i, Hold_UserID = u,
                   Hold_CreatedAt = now, Hold_ExpiresAt = now + HoldTTL cfg\<rparr> \<and>
        ledger (W_seats w') = (ledger (W_seats w))(seatKey e i \<mapsto> Taken u h) \<and>
        W_published w' = W_published w @ [seat_changed at e i]"
proof (cases res)
  case (Inl err)
  then show ?thesis
    using assms(3-6) HoldSeat_failed [of cfg now at h e i u w w' err] unfolding HoldSeat_cases
    by (auto simp: Seat_Hold_def simp del: map_of_eq_Some_iff split: sum.splits option.splits if_splits)
next
  case (Inr ho)
  then obtain ev s s' where o: "MayTakeSeat (Gate cfg) u (W_users w) = Inr ()"
    "map_of (W_events w) e = Some ev" "\<not> IsCancelled ev"
    "map_of (W_seats w) (seatKey e i) = Some s" "Seat_Hold h u (HoldTTL cfg) now s = Inr s'"
    "w' = publish (seat_changed at e i) (w\<lparr>W_seats := AList.update (seatKey e i) s' (W_seats w)\<rparr>)"
    "ho = CurrentHold now s'"
    using HoldSeat_ok assms(6) by metis
  have "seat_filed (seatKey e i) s" by (rule seats_invD(2) [OF world_invD(1) [OF assms(1)] o(4)])
  then have id: "Seat_EventID s = e" "Seat_ID s = i"
    using seatKey_inj [OF assms(2), of "Seat_EventID s"] by (auto simp: seat_filed_def slash_free_def)
  have held: "Seat_Status s' = StatusHeld" "HeldBy s' = u" "HoldID s' = h" "CanHold s now"
    using o(5) by (auto simp: Seat_Hold_def split: if_splits)
  have "ledger (W_seats w') = (ledger (W_seats w))(seatKey e i \<mapsto> Taken u h)"
    using held by (auto simp: o(6) ledger_def fun_eq_iff)
  then show ?thesis
    using o held Inr id Seat_Hold_current [OF o(5)] by (simp del: map_of_eq_Some_iff)
qed

definition gala :: Event where
  "gala = \<lparr>Event_ID = ''event-1'', Event_Name = ''Gala'', Event_Venue = ''Hall'', Event_StartsAt = 5000000000,
     Event_Details = \<lparr>City = ''Izmir'', Details_Category = CategoryOther, ImageURL = '''', Description = '''', Rules = ''''\<rparr>,
     Event_CancelledAt = zero_time\<rparr>"

definition small_world :: World where
  "small_world = \<lparr>W_seats = [(seatKey ''event-1'' ''A1'', seat_A1)], W_events = [(''event-1'', gala)],
     W_users = [], W_waiting = two_waiting, W_published = [], W_freed = [], W_not_offered = 0,
     W_inbox = [], W_outbox = [], W_push = []\<rparr>"

definition small_cfg :: ServiceConfig where
  "small_cfg = \<lparr>HoldTTL = 300, Gate = AllowEveryone, Buffer = Some 1\<rparr>"

lemma small_world_inv: "world_inv small_world"
  using two_waiting_inv
  by (auto simp: world_inv_def small_world_def seats_inv_def seat_filed_def sample_seats events_inv_def
      gala_def storable_def WithDefaults_def)

lemmas small = small_world_def small_cfg_def MayTakeSeat_def gala_def IsCancelled_def go_time seat_ops sample_seats

theorem hold_seat_outcome_witness:
  "\<exists>w'. HoldSeat small_cfg 100 101 ''h1'' ''event-1'' ''A1'' ''alice'' small_world =
      (w', Inr (Some \<lparr>Hold_ID = ''h1'', Hold_EventID = ''event-1'', Hold_SeatID = ''A1'',
        Hold_UserID = ''alice'', Hold_CreatedAt = 100, Hold_ExpiresAt = 400\<rparr>)) \<and>
    ledger (W_seats w') (seatKey ''event-1'' ''A1'') = Some (Taken ''alice'' ''h1'')"
proof -
  obtain w' ho where h: "HoldSeat small_cfg 100 101 ''h1'' ''event-1'' ''A1'' ''alice'' small_world = (w', Inr ho)"
    by (simp add: HoldSeat_cases small)
  have "HoldTTL small_cfg = 300" by (simp add: small_cfg_def)
  then show ?thesis
    using hold_seat_outcome [OF small_world_inv _ _ _ _ h] h by (simp add: slash_free_def)
qed

section \<open>Confirming and releasing\<close>

lemma ConfirmReservation_failed: "ConfirmReservation cfg now at n h u w = (w', Inl err) \<Longrightarrow> w' = w"
  by (auto simp: ConfirmReservation_def Let_def dest: UpdateSeatByHoldID_Inl
      split: sum.splits option.splits if_splits prod.splits)

lemma ConfirmReservation_ok:
  assumes "ConfirmReservation cfg now at n h u w = (w', Inr s')" "gomap_ok (W_seats w)"
  obtains k s where "MayTakeSeat (Gate cfg) u (W_users w) = Inr ()" "8 \<le> length n"
    "map_of (W_seats w) k = Some s" "HoldID s = h" "Seat_Confirm u (FormatTicketCode (take 8 n)) now s = Inr s'"
    "w' = publish (seat_changed at (Seat_EventID s') (Seat_ID s')) (w\<lparr>W_seats := AList.update k s' (W_seats w)\<rparr>)"
proof -
  obtain seats where u: "UpdateSeatByHoldID h (Seat_Confirm u (FormatTicketCode (take 8 n)) now) (W_seats w) = (seats, Inr s')"
    and g: "MayTakeSeat (Gate cfg) u (W_users w) = Inr ()" "8 \<le> length n"
    and w': "w' = publish (seat_changed at (Seat_EventID s') (Seat_ID s')) (w\<lparr>W_seats := seats\<rparr>)"
    using assms(1) by (auto simp: ConfirmReservation_def Let_def announceSeatChange_def
        split: sum.splits if_splits prod.splits)
  from UpdateSeatByHoldID_Inr [OF assms(2) u] show thesis using that g w' by blast
qed

lemma ReleaseSeat_failed: "ReleaseSeat cfg at h u w = (w', Inl err) \<Longrightarrow> w' = w"
  by (auto simp: ReleaseSeat_def Let_def dest: UpdateSeatByHoldID_Inl split: sum.splits prod.splits)

text \<open>Confirming through the service sells the seat to whoever holds it and to nobody else: it
  succeeds only for an account that may take seats and that holds the seat under this hold id, in time;
  the seat then carries their name and the ticket printed from the fresh id, every other place is as it
  was, and the hold id is spent, so that a repeated confirm finds no hold. Every refusal leaves all the
  stores untouched.\<close>

theorem confirm_reservation_outcome:
  assumes "world_inv w" and "h \<noteq> ''''" and "ConfirmReservation cfg now at n h u w = (w', res)"
  shows "case res of
      Inl err \<Rightarrow> w' = w
    | Inr s' \<Rightarrow> MayTakeSeat (Gate cfg) u (W_users w) = Inr () \<and>
        (\<exists>s. map_of (W_seats w) (key_of s') = Some s \<and> Seat_Status s = StatusHeld \<and> HeldBy s = u \<and>
           HoldID s = h \<and> now < HoldExpiresAt s) \<and>
        ledger (W_seats w') = (ledger (W_seats w))(key_of s' \<mapsto> Sold u (FormatTicketCode (take 8 n))) \<and>
        W_published w' = W_published w @ [seat_changed at (Seat_EventID s') (Seat_ID s')] \<and>
        hold_is_new (W_seats w') h \<and> world_inv w'"
proof (cases res)
  case (Inl err)
  then show ?thesis using ConfirmReservation_failed assms(3) by simp
next
  case (Inr s')
  have inv: "seats_inv (W_seats w)" by (rule world_invD(1) [OF assms(1)])
  obtain k s where o: "MayTakeSeat (Gate cfg) u (W_users w) = Inr ()"
    "map_of (W_seats w) k = Some s" "HoldID s = h" "Seat_Confirm u (FormatTicketCode (take 8 n)) now s = Inr s'"
    "w' = publish (seat_changed at (Seat_EventID s') (Seat_ID s')) (w\<lparr>W_seats := AList.update k s' (W_seats w)\<rparr>)"
    using ConfirmReservation_ok [OF assms(3) [unfolded Inr] seats_invD(1) [OF inv]] by metis
  have k: "k = key_of s'"
    using seats_invD(2) [OF inv o(2)] Seat_Confirm_same [OF o(4)] by (simp add: seat_filed_def same_seat_def)
  have sold: "Seat_Status s = StatusHeld" "HeldBy s = u" "now < HoldExpiresAt s" "Seat_Status s' = StatusReserved"
    "ReservedBy s' = u" "TicketCode s' = FormatTicketCode (take 8 n)" "HoldID s' = ''''"
    using o(4) by (auto simp: seat_ops split: if_splits)
  have new: "hold_is_new (W_seats w') h"
    using seats_invD(3) [OF inv _ o(2)] o(3) assms(2) sold(7)
    by (auto simp: hold_is_new_def o(5) simp del: map_of_eq_Some_iff split: if_splits)
  have "seats_inv (W_seats w')"
    using update_ok_filed [OF inv domain_ops_update_ok(2) o(2,4)] by (simp add: o(5))
  then have "world_inv w'" using assms(1) by (simp add: world_inv_def o(5))
  moreover have "ledger (W_seats w') = (ledger (W_seats w))(key_of s' \<mapsto> Sold u (FormatTicketCode (take 8 n)))"
    using sold k by (auto simp: o(5) ledger_def fun_eq_iff)
  ultimately show ?thesis using o sold new Inr k by (auto simp del: map_of_eq_Some_iff)
qed

definition held_world :: World where
  "held_world = small_world\<lparr>W_seats := store_A1\<rparr>"

lemma held_world_inv: "world_inv held_world"
  using small_world_inv store_A1_inv by (simp add: world_inv_def held_world_def)

theorem confirm_reservation_outcome_witness:
  "\<exists>w' s'. ConfirmReservation small_cfg 399 400 ''ABCDEFGHJ'' ''h1'' ''alice'' held_world = (w', Inr s') \<and>
     hold_is_new (W_seats w') ''h1'' \<and>
     ledger (W_seats w') (key_of s') = Some (Sold ''alice'' (FormatTicketCode ''ABCDEFGH''))"
proof -
  obtain w' s' where c: "ConfirmReservation small_cfg 399 400 ''ABCDEFGHJ'' ''h1'' ''alice'' held_world = (w', Inr s')"
    by (simp add: ConfirmReservation_def UpdateSeatByHoldID_def held_world_def store_A1_def small Let_def)
  from confirm_reservation_outcome [OF held_world_inv _ c] show ?thesis using c by simp
qed

section \<open>Only verified accounts\<close>

lemma MayTakeSeat_verified:
  assumes "MayTakeSeat VerifiedOnly u users = Inr ()" "gomap_ok users"
  obtains k user where "map_of users k = Some user" "User_ID user = u" "EmailVerified user"
  using assms find_user_Some [OF assms(2), of u]
  by (auto simp: MayTakeSeat_def GetUserByID_def simp del: map_of_eq_Some_iff split: option.splits if_splits)

text \<open>Where the rule is on, no seat is taken, no ticket is sold and nobody joins a queue for an account
  whose address was never confirmed: each of the three calls, when it succeeds, was made by an account on
  file with a confirmed address.\<close>

theorem only_verified_accounts:
  assumes "gomap_ok (W_users w)" and "Gate cfg = VerifiedOnly"
    and "(\<exists>w' ho. HoldSeat cfg now at h e i u w = (w', Inr ho)) \<or>
      (\<exists>w' s. ConfirmReservation cfg now at n h u w = (w', Inr s)) \<or>
      (\<exists>w' p. WaitingList_Join cfg now n e u w = (w', Inr p))"
  shows "\<exists>k user. map_of (W_users w) k = Some user \<and> User_ID user = u \<and> EmailVerified user"
proof -
  have "MayTakeSeat VerifiedOnly u (W_users w) = Inr ()"
    using assms(2,3) by (cases "MayTakeSeat VerifiedOnly u (W_users w)")
      (auto simp: HoldSeat_def ConfirmReservation_def WaitingList_Join_def)
  from MayTakeSeat_verified [OF this assms(1)] show ?thesis by blast
qed

definition alice_account :: User where
  "alice_account = (NewUser ''alice'' ''a@b.c'' ''hash'' 5)\<lparr>EmailVerifiedAt := 6\<rparr>"

definition verified_world :: World where
  "verified_world = small_world\<lparr>W_users := [(''a@b.c'', alice_account)]\<rparr>"

theorem only_verified_accounts_witness:
  "\<exists>k user. map_of (W_users verified_world) k = Some user \<and> User_ID user = ''alice'' \<and> EmailVerified user"
proof (rule only_verified_accounts [where cfg = "small_cfg\<lparr>Gate := VerifiedOnly\<rparr>"])
  show "gomap_ok (W_users verified_world)" by (simp add: verified_world_def)
  show "(\<exists>w' ho. HoldSeat (small_cfg\<lparr>Gate := VerifiedOnly\<rparr>) 100 101 ''h1'' ''event-1'' ''A1'' ''alice'' verified_world = (w', Inr ho)) \<or>
      (\<exists>w' s. ConfirmReservation (small_cfg\<lparr>Gate := VerifiedOnly\<rparr>) 100 101 ''x'' ''h1'' ''alice'' verified_world = (w', Inr s)) \<or>
      (\<exists>w' p. WaitingList_Join (small_cfg\<lparr>Gate := VerifiedOnly\<rparr>) 100 ''x'' ''event-1'' ''alice'' verified_world = (w', Inr p))"
    by (simp add: HoldSeat_cases small verified_world_def alice_account_def NewUser_def GetUserByID_def EmailVerified_def)
qed (simp add: small_cfg_def)

section \<open>Handing over\<close>

lemma HoldSeat_waiting [simp]: "W_waiting (fst (HoldSeat cfg now at h e i u w)) = W_waiting w"
  by (auto simp: HoldSeat_cases split: sum.split option.split)



section \<open>Releasing and sweeping\<close>

text \<open>Giving up a hold frees that seat at once and passes it on: it works for the holder alone, the
  place is free, watchers are told, and the seat is queued for the waiting list if the queue has room
  and counted as not offered if it has not. Every refusal leaves all the stores untouched.\<close>

theorem release_seat_outcome:
  assumes "world_inv w" and "h \<noteq> ''''" and "ReleaseSeat cfg at h u w = (w', res)"
  shows "case res of
      Inl err \<Rightarrow> w' = w
    | Inr _ \<Rightarrow> \<exists>s. map_of (W_seats w) (key_of s) = Some s \<and> Seat_Status s = StatusHeld \<and> HeldBy s = u \<and> HoldID s = h \<and>
        ledger (W_seats w') = (ledger (W_seats w))(key_of s \<mapsto> Free) \<and>
        W_published w' = W_published w @ [seat_changed at (Seat_EventID s) (Seat_ID s)] \<and>
        (case Buffer cfg of
           None \<Rightarrow> W_freed w' = W_freed w
         | Some n \<Rightarrow> W_freed w' = (if length (W_freed w) < n then W_freed w @ [Seat_Ref s] else W_freed w))"
proof (cases res)
  case (Inl err)
  then show ?thesis using ReleaseSeat_failed assms(3) by simp
next
  case (Inr r)
  have inv: "seats_inv (W_seats w)" by (rule world_invD(1) [OF assms(1)])
  obtain seats s' where u: "UpdateSeatByHoldID h (Seat_Release u) (W_seats w) = (seats, Inr s')"
    and w': "w' = Offer cfg (Seat_Ref s') (publish (seat_changed at (Seat_EventID s') (Seat_ID s')) (w\<lparr>W_seats := seats\<rparr>))"
    using assms(3) Inr by (auto simp: ReleaseSeat_def Let_def announceSeatChange_def split: sum.splits prod.splits)
  obtain k s where o: "map_of (W_seats w) k = Some s" "HoldID s = h" "Seat_Release u s = Inr s'"
    "seats = AList.update k s' (W_seats w)"
    using UpdateSeatByHoldID_Inr [OF seats_invD(1) [OF inv] u] by blast
  have same: "Seat_EventID s' = Seat_EventID s" "Seat_ID s' = Seat_ID s" "Seat_Ref s' = Seat_Ref s"
    using Seat_Release_same [OF o(3)] by (simp_all add: same_seat_def Seat_Ref_def)
  have rel: "Seat_Status s = StatusHeld" "HeldBy s = u" "Seat_Status s' = StatusAvailable"
    using o(3) by (auto simp: seat_ops split: if_splits)
  have k: "k = key_of s" using seats_invD(2) [OF inv o(1)] by (simp add: seat_filed_def)
  have "ledger (W_seats w') = (ledger (W_seats w))(key_of s \<mapsto> Free)"
    using rel k by (auto simp: w' o(4) ledger_def fun_eq_iff)
  then show ?thesis
    using o rel k same Inr by (auto simp: w' Offer_def simp del: map_of_eq_Some_iff split: option.split intro!: exI [of _ s])
qed

theorem release_seat_outcome_witness:
  "\<exists>w'. ReleaseSeat small_cfg 200 ''h1'' ''alice'' held_world = (w', Inr ()) \<and>
     W_freed w' = [\<lparr>Ref_EventID = ''event-1'', Ref_SeatID = ''A1''\<rparr>]"
proof -
  obtain w' where r: "ReleaseSeat small_cfg 200 ''h1'' ''alice'' held_world = (w', Inr ())"
    by (simp add: ReleaseSeat_def UpdateSeatByHoldID_def held_world_def store_A1_def small Let_def)
  from release_seat_outcome [OF held_world_inv _ r]
  obtain s where "HoldID s = ''h1''" "map_of (W_seats held_world) (key_of s) = Some s"
    "W_freed w' = W_freed held_world @ [Seat_Ref s]"
    by (auto simp: small_cfg_def held_world_def small_world_def simp del: map_of_eq_Some_iff)
  then show ?thesis
    using r by (auto simp: held_world_def small_world_def store_A1_def sample_seats Seat_Ref_def split: if_splits)
qed

section \<open>The services as steps of the seat store\<close>

text \<open>Whatever a service does, the seat store sees at most one of its own steps.\<close>

lemma HoldSeat_seats:
  "hold_is_new (W_seats w) h \<Longrightarrow> seat_steps (W_seats w) (W_seats (fst (HoldSeat cfg now at h e i u w)))"
  using step_hold [of "W_seats w" h e i u "HoldTTL cfg" now]
  by (auto simp: HoldSeat_def announceSeatChange_def Let_def case_prod_unfold split: sum.split option.split)

lemma ConfirmReservation_seats: "seat_steps (W_seats w) (W_seats (fst (ConfirmReservation cfg now at n h u w)))"
  using step_confirm [of "W_seats w" h u "FormatTicketCode (take 8 n)" now]
  by (auto simp: ConfirmReservation_def announceSeatChange_def Let_def case_prod_unfold split: sum.split)

lemma ReleaseSeat_seats: "seat_steps (W_seats w) (W_seats (fst (ReleaseSeat cfg at h u w)))"
  using step_release [of "W_seats w" h u]
  by (auto simp: ReleaseSeat_def announceSeatChange_def Let_def case_prod_unfold split: sum.split)

lemma WaitingList_Join_seats [simp]: "W_seats (fst (WaitingList_Join cfg now n e u w)) = W_seats w"
  by (auto simp: WaitingList_Join_def Let_def case_prod_unfold split: sum.split)

lemma Sweep_seats: "seat_steps (W_seats w) (W_seats (fst (Sweep cfg now w)))"
  using step_expire [of "W_seats w" now] by (simp add: Sweep_def Let_def case_prod_unfold r_into_rtranclp)

lemma hand_result_seats [simp]: "W_seats (hand_result at seat x a) = W_seats (fst a)"
  by (auto simp: hand_result_def split: prod.split sum.split option.split)

lemma hand_seats:
  assumes "hold_is_new (W_seats w) h"
  shows "seat_steps (W_seats w) (W_seats (hand cfg now at1 at2 h seat w))"
proof (cases "TakeNext (Ref_EventID seat) (W_waiting w)")
  case (Pair q res)
  then show ?thesis
    using HoldSeat_seats [of "w\<lparr>W_waiting := q\<rparr>" h cfg now at1 "Ref_EventID seat" "Ref_SeatID seat"] assms
    by (cases res) (simp_all add: hand_def)
qed

lemma hand_next_seats:
  "hold_is_new (W_seats w) h \<Longrightarrow> seat_steps (W_seats w) (W_seats (hand_next cfg now at1 at2 h w))"
  using hand_seats [of "w\<lparr>W_freed := rest\<rparr>" h cfg now at1 at2 seat for rest seat]
  by (auto simp: hand_next_def split: list.split)

lemmas service_seats = HoldSeat_seats ConfirmReservation_seats ReleaseSeat_seats Sweep_seats hand_seats hand_next_seats

section \<open>The services keep the stores' invariants\<close>

lemma HoldSeat_others [simp]:
  "W_events (fst (HoldSeat cfg now at h e i u w)) = W_events w"
  "W_users (fst (HoldSeat cfg now at h e i u w)) = W_users w"
  by (auto simp: HoldSeat_cases split: sum.split option.split)

lemma ConfirmReservation_others [simp]:
  "W_events (fst (ConfirmReservation cfg now at n h u w)) = W_events w"
  "W_users (fst (ConfirmReservation cfg now at n h u w)) = W_users w"
  "W_waiting (fst (ConfirmReservation cfg now at n h u w)) = W_waiting w"
  by (auto simp: ConfirmReservation_def announceSeatChange_def Let_def case_prod_unfold split: sum.split)

lemma ReleaseSeat_others [simp]:
  "W_events (fst (ReleaseSeat cfg at h u w)) = W_events w"
  "W_users (fst (ReleaseSeat cfg at h u w)) = W_users w"
  "W_waiting (fst (ReleaseSeat cfg at h u w)) = W_waiting w"
  by (auto simp: ReleaseSeat_def announceSeatChange_def Let_def case_prod_unfold split: sum.split)

lemma world_inv_seats:
  "world_inv w \<Longrightarrow> seat_steps (W_seats w) (W_seats w') \<Longrightarrow> W_events w' = W_events w \<Longrightarrow> W_users w' = W_users w \<Longrightarrow>
     queues_inv (W_waiting w') \<Longrightarrow> world_inv w'"
  by (auto simp: world_inv_def intro: seat_steps_inv)

lemma HoldSeat_inv [keeps_inv]:
  "world_inv w \<Longrightarrow> hold_is_new (W_seats w) h \<Longrightarrow> world_inv (fst (HoldSeat cfg now at h e i u w))"
  by (rule world_inv_seats [OF _ HoldSeat_seats]) (simp_all add: world_invD)

lemma ConfirmReservation_inv [keeps_inv]: "world_inv w \<Longrightarrow> world_inv (fst (ConfirmReservation cfg now at n h u w))"
  by (rule world_inv_seats [OF _ ConfirmReservation_seats]) (simp_all add: world_invD)

lemma ReleaseSeat_inv [keeps_inv]: "world_inv w \<Longrightarrow> world_inv (fst (ReleaseSeat cfg at h u w))"
  by (rule world_inv_seats [OF _ ReleaseSeat_seats]) (simp_all add: world_invD)

lemma Sweep_inv [keeps_inv]: "world_inv w \<Longrightarrow> world_inv (fst (Sweep cfg now w))"
  by (rule world_inv_seats [OF _ Sweep_seats]) (simp_all add: world_invD Sweep_def Let_def case_prod_unfold)

lemma WaitingList_Join_inv [keeps_inv]: "world_inv w \<Longrightarrow> world_inv (fst (WaitingList_Join cfg now n e u w))"
  using Waiting_Join_inv [of "W_waiting w"]
  by (auto simp: WaitingList_Join_def world_inv_def Let_def case_prod_unfold split: sum.split)

lemma WaitingList_Leave_inv [keeps_inv]: "world_inv w \<Longrightarrow> world_inv (WaitingList_Leave e u w)"
  by (simp add: WaitingList_Leave_def world_inv_def Waiting_Leave_inv)

lemma hand_result_inv: "world_inv (fst a) \<Longrightarrow> world_inv (hand_result at seat x a)"
  by (auto simp: hand_result_def world_inv_def Rejoin_inv split: prod.split sum.split option.split)

lemma hand_inv [keeps_inv]:
  assumes "world_inv w" "hold_is_new (W_seats w) h"
  shows "world_inv (hand cfg now at1 at2 h seat w)"
proof (cases "TakeNext (Ref_EventID seat) (W_waiting w)")
  case (Pair q res)
  have "queues_inv q" using TakeNext_inv [OF world_invD(4) [OF assms(1)], of "Ref_EventID seat"] Pair by simp
  then have "world_inv (w\<lparr>W_waiting := q\<rparr>)" using assms(1) by (simp add: world_inv_def)
  then show ?thesis using Pair assms(2) by (cases res) (simp_all add: hand_def hand_result_inv HoldSeat_inv)
qed

lemma hand_next_inv [keeps_inv]:
  "world_inv w \<Longrightarrow> hold_is_new (W_seats w) h \<Longrightarrow> world_inv (hand_next cfg now at1 at2 h w)"
  by (auto simp: hand_next_def world_inv_def intro!: hand_inv [unfolded world_inv_def] split: list.split)

end
