(* ===== verification/Inventory.thy ===== *)
theory Inventory
  imports Reservation
begin

text \<open>
  Stocking the service and withdrawing events: \<open>internal/service/inventory_service.go\<close>. The stores a
  deployment may leave out are switches of the configuration. Ids are drawn from a sequence: \<open>newID n\<close> is
  the answer to the \<open>n\<close>-th call, and the loops thread the number of calls made so far.
\<close>

section \<open>The model\<close>

record InventoryConfig =
  HasWaiting :: bool
  HasNotifications :: bool
  HasDeliveries :: bool
  Channels :: "DeliveryChannel list"

definition Inventory_CreateEvent ::
  "url_parser \<Rightarrow> string \<Rightarrow> string \<Rightarrow> string \<Rightarrow> time \<Rightarrow> EventDetails \<Rightarrow> World \<Rightarrow> World \<times> Event result" where
  "Inventory_CreateEvent url_Parse newID name venue startsAt details w =
     (case NewEvent url_Parse newID name venue startsAt details of
        Inl err \<Rightarrow> (w, Inl err)
      | Inr event \<Rightarrow>
          (case CreateEvent event (W_events w) of
             Inl err \<Rightarrow> (w, Inl err)
           | Inr events \<Rightarrow> (w\<lparr>W_events := events\<rparr>, Inr event)))"

definition Inventory_UpdateEvent ::
  "url_parser \<Rightarrow> string \<Rightarrow> string \<Rightarrow> string \<Rightarrow> time \<Rightarrow> (EventDetails \<Rightarrow> EventDetails) \<Rightarrow> World \<Rightarrow> World \<times> Event result"
where
  "Inventory_UpdateEvent url_Parse eventID name venue startsAt details w =
     (let (events, res) = UpdateEvent eventID
            (\<lambda>event. Event_Update url_Parse name venue startsAt (details (Event_Details event)) event) (W_events w)
      in (w\<lparr>W_events := events\<rparr>, res))"

text \<open>Whoever has a claim on a seat, if anyone does.\<close>

definition claimant :: "Seat \<Rightarrow> string" where
  "claimant seat = (let holder = HeldBy seat in if holder = '''' then ReservedBy seat else holder)"

fun seat_notices ::
  "(nat \<Rightarrow> string) \<Rightarrow> nat \<Rightarrow> Event \<Rightarrow> time \<Rightarrow> Seat list \<Rightarrow> (Notification list \<times> nat) result" where
  "seat_notices newID n cancelled now [] = Inr ([], n)"
| "seat_notices newID n cancelled now (seat # seats) =
     (if claimant seat = '''' then seat_notices newID n cancelled now seats
      else case NewNotification (newID n) (claimant seat) NotifyEventCancelled (Event_ID cancelled)
                  (Event_Name cancelled) (Seat_ID seat) now of
        Inl err \<Rightarrow> Inl err
      | Inr notice \<Rightarrow>
          (case seat_notices newID (n + 1) cancelled now seats of
             Inl err \<Rightarrow> Inl err
           | Inr (notices, m) \<Rightarrow> Inr (notice # notices, m)))"

fun waiting_notices ::
  "(nat \<Rightarrow> string) \<Rightarrow> nat \<Rightarrow> Event \<Rightarrow> time \<Rightarrow> WaitingEntry list \<Rightarrow> (Notification list \<times> nat) result" where
  "waiting_notices newID n cancelled now [] = Inr ([], n)"
| "waiting_notices newID n cancelled now (entry # waiting) =
     (case NewNotification (newID n) (Entry_UserID entry) NotifyEventCancelled (Event_ID cancelled)
             (Event_Name cancelled) '''' now of
        Inl err \<Rightarrow> Inl err
      | Inr notice \<Rightarrow>
          (case waiting_notices newID (n + 1) cancelled now waiting of
             Inl err \<Rightarrow> Inl err
           | Inr (notices, m) \<Rightarrow> Inr (notice # notices, m)))"

definition cancellationNotices ::
  "InventoryConfig \<Rightarrow> (nat \<Rightarrow> string) \<Rightarrow> time \<Rightarrow> Event \<Rightarrow> World \<Rightarrow> World \<times> (Notification list \<times> nat) result" where
  "cancellationNotices cfg newID now cancelled w =
     (case seat_notices newID 0 cancelled now (ListSeats (Event_ID cancelled) (W_seats w)) of
        Inl err \<Rightarrow> (w, Inl err)
      | Inr (notices, n) \<Rightarrow>
          if \<not> HasWaiting cfg then (w, Inr (notices, n))
          else
            let (q, waiting) = Drain (Event_ID cancelled) (W_waiting w)
            in (w\<lparr>W_waiting := q\<rparr>,
                case waiting_notices newID n cancelled now waiting of
                  Inl err \<Rightarrow> Inl err
                | Inr (others, m) \<Rightarrow> Inr (notices @ others, m)))"

text \<open>A delivery that cannot be made is passed over; its id is spent all the same.\<close>

fun channel_deliveries ::
  "(nat \<Rightarrow> string) \<Rightarrow> nat \<Rightarrow> time \<Rightarrow> Notification \<Rightarrow> DeliveryChannel list \<Rightarrow> Delivery list" where
  "channel_deliveries newID n now notice [] = []"
| "channel_deliveries newID n now notice (channel # channels) =
     (case NewDelivery (newID n) (Notification_ID notice) (Notification_UserID notice) channel now of
        Inl _ \<Rightarrow> channel_deliveries newID (n + 1) now notice channels
      | Inr delivery \<Rightarrow> delivery # channel_deliveries newID (n + 1) now notice channels)"

fun notice_deliveries ::
  "(nat \<Rightarrow> string) \<Rightarrow> nat \<Rightarrow> time \<Rightarrow> DeliveryChannel list \<Rightarrow> Notification list \<Rightarrow> Delivery list" where
  "notice_deliveries newID n now channels [] = []"
| "notice_deliveries newID n now channels (notice # notices) =
     channel_deliveries newID n now notice channels @
     notice_deliveries newID (n + length channels) now channels notices"

definition queueDeliveries ::
  "InventoryConfig \<Rightarrow> (nat \<Rightarrow> string) \<Rightarrow> nat \<Rightarrow> time \<Rightarrow> Notification list \<Rightarrow> World \<Rightarrow> World" where
  "queueDeliveries cfg newID n now notices w =
     (if \<not> HasDeliveries cfg \<or> length (Channels cfg) = 0 then w
      else w\<lparr>W_outbox := Enqueue (notice_deliveries newID n now (Channels cfg) notices) (W_outbox w)\<rparr>)"

definition event_cancelled :: "time \<Rightarrow> string \<Rightarrow> Notice" where
  "event_cancelled at eventID =
     \<lparr>Notice_Kind = EventCancelled, Notice_EventID = eventID, Notice_SeatID = '''',
      Notice_HoldID = '''', Notice_ExpiresAt = zero_time, Notice_At = at, Notice_UserID = ''''\<rparr>"

definition announceCancellation ::
  "InventoryConfig \<Rightarrow> (nat \<Rightarrow> string) \<Rightarrow> time \<Rightarrow> time \<Rightarrow> time \<Rightarrow> Event \<Rightarrow> World \<Rightarrow> World" where
  "announceCancellation cfg newID at now1 now2 cancelled w =
     (let w1 = publish (event_cancelled at (Event_ID cancelled)) w in
      if \<not> HasNotifications cfg then w1
      else case cancellationNotices cfg newID now1 cancelled w1 of
        (w2, Inl err) \<Rightarrow> w2
      | (w2, Inr (notices, n)) \<Rightarrow>
          if length notices = 0 then w2
          else queueDeliveries cfg newID n now2 notices (w2\<lparr>W_inbox := Notify notices (W_inbox w2)\<rparr>))"

definition CancelEvent ::
  "InventoryConfig \<Rightarrow> (nat \<Rightarrow> string) \<Rightarrow> time \<Rightarrow> time \<Rightarrow> time \<Rightarrow> time \<Rightarrow> string \<Rightarrow> World \<Rightarrow> World \<times> Event result" where
  "CancelEvent cfg newID now at now1 now2 eventID w =
     (case UpdateEvent eventID (Event_Cancel now) (W_events w) of
        (events, Inl err) \<Rightarrow> (w\<lparr>W_events := events\<rparr>, Inl err)
      | (events, Inr cancelled) \<Rightarrow>
          (announceCancellation cfg newID at now1 now2 cancelled (w\<lparr>W_events := events\<rparr>), Inr cancelled))"

definition Inventory_DeleteEvent :: "string \<Rightarrow> World \<Rightarrow> World \<times> unit result" where
  "Inventory_DeleteEvent eventID w =
     (case DeleteEvent eventID (Some (W_seats w)) (W_events w) of
        Inl err \<Rightarrow> (w, Inl err)
      | Inr events \<Rightarrow> (w\<lparr>W_events := events\<rparr>, Inr ()))"

definition AddSeats :: "string \<Rightarrow> string list \<Rightarrow> int \<Rightarrow> World \<Rightarrow> World \<times> int result" where
  "AddSeats eventID rows perRow w =
     (case GetEvent eventID (W_events w) of
        Inl err \<Rightarrow> (w, Inl err)
      | Inr _ \<Rightarrow>
          (case NewSeatBlock eventID rows perRow of
             Inl err \<Rightarrow> (w, Inl err)
           | Inr seats \<Rightarrow>
               let (store, created) = CreateSeats seats (W_seats w)
               in (w\<lparr>W_seats := store\<rparr>, Inr created)))"

section \<open>Who is told\<close>

lemma NewNotification_ok:
  "i \<noteq> '''' \<Longrightarrow> u \<noteq> '''' \<Longrightarrow> e \<noteq> '''' \<Longrightarrow>
     NewNotification i u NotifyEventCancelled e name seat now =
       Inr \<lparr>Notification_ID = i, Notification_UserID = u, Notification_Kind = NotifyEventCancelled,
            Notification_EventID = e, Notification_EventName = name, Notification_SeatID = seat,
            Notification_CreatedAt = now, ReadAt = zero_time\<rparr>"
  by (simp add: NewNotification_def ParseNotificationKind_def)

definition about :: "Event \<Rightarrow> Notification list \<Rightarrow> bool" where
  "about ev ns \<longleftrightarrow> (\<forall>x \<in> set ns. Notification_EventID x = Event_ID ev \<and> \<not> IsRead x \<and>
     Notification_ID x \<noteq> '''' \<and> Notification_UserID x \<noteq> '''')"

lemma seat_notices_ok:
  assumes "\<forall>n. newID n \<noteq> ''''" "Event_ID ev \<noteq> ''''"
  shows "\<exists>ns m. seat_notices newID n ev now seats = Inr (ns, m) \<and>
    map (\<lambda>x. (Notification_UserID x, Notification_SeatID x)) ns =
      map (\<lambda>s. (claimant s, Seat_ID s)) (filter (\<lambda>s. claimant s \<noteq> '''') seats) \<and>
    about ev ns"
proof (induction seats arbitrary: n)
  case Nil
  then show ?case by (simp add: about_def)
next
  case (Cons s seats)
  show ?case
  proof (cases "claimant s = ''''")
    case True
    then show ?thesis using Cons.IH [of n] by simp
  next
    case False
    obtain ns m where "seat_notices newID (n + 1) ev now seats = Inr (ns, m)"
      "map (\<lambda>x. (Notification_UserID x, Notification_SeatID x)) ns =
         map (\<lambda>s. (claimant s, Seat_ID s)) (filter (\<lambda>s. claimant s \<noteq> '''') seats)" "about ev ns"
      using Cons.IH [of "n + 1"] by blast
    then show ?thesis
      using False assms by (simp add: NewNotification_ok about_def IsRead_def IsZero_def)
  qed
qed

lemma waiting_notices_ok:
  assumes "\<forall>n. newID n \<noteq> ''''" "Event_ID ev \<noteq> ''''" "\<forall>x \<in> set es. Entry_UserID x \<noteq> ''''"
  shows "\<exists>ns m. waiting_notices newID n ev now es = Inr (ns, m) \<and>
    map (\<lambda>x. (Notification_UserID x, Notification_SeatID x)) ns = map (\<lambda>x. (Entry_UserID x, '''')) es \<and>
    about ev ns"
  using assms(3)
proof (induction es arbitrary: n)
  case Nil
  then show ?case by (simp add: about_def)
next
  case (Cons e es)
  obtain ns m where "waiting_notices newID (n + 1) ev now es = Inr (ns, m)"
    "map (\<lambda>x. (Notification_UserID x, Notification_SeatID x)) ns = map (\<lambda>x. (Entry_UserID x, '''')) es" "about ev ns"
    using Cons.IH [of "n + 1"] Cons.prems by auto
  then show ?case
    using Cons.prems assms(1,2) by (simp add: NewNotification_ok about_def IsRead_def IsZero_def)
qed

text \<open>Everybody a withdrawal concerns: the claimant of each seat that has one, and everybody in the queue.\<close>

definition concerned :: "string \<Rightarrow> World \<Rightarrow> (string \<times> string) list" where
  "concerned eventID w =
     map (\<lambda>s. (claimant s, Seat_ID s)) (filter (\<lambda>s. claimant s \<noteq> '''') (ListSeats eventID (W_seats w))) @
     map (\<lambda>x. (Entry_UserID x, '''')) (queue_of (W_waiting w) eventID)"

lemma cancellationNotices_ok:
  assumes "\<forall>n. newID n \<noteq> ''''" "Event_ID ev \<noteq> ''''" "HasWaiting cfg"
    and "\<forall>x \<in> set (queue_of (W_waiting w) (Event_ID ev)). Entry_UserID x \<noteq> ''''"
  obtains ns m where "cancellationNotices cfg newID now ev w =
      (w\<lparr>W_waiting := fst (Drain (Event_ID ev) (W_waiting w))\<rparr>, Inr (ns, m))"
    "map (\<lambda>x. (Notification_UserID x, Notification_SeatID x)) ns = concerned (Event_ID ev) w"
    "about ev ns"
proof -
  obtain ns1 m1 where a: "seat_notices newID 0 ev now (ListSeats (Event_ID ev) (W_seats w)) = Inr (ns1, m1)"
    "map (\<lambda>x. (Notification_UserID x, Notification_SeatID x)) ns1 =
       map (\<lambda>s. (claimant s, Seat_ID s)) (filter (\<lambda>s. claimant s \<noteq> '''') (ListSeats (Event_ID ev) (W_seats w)))"
    "about ev ns1"
    using seat_notices_ok [OF assms(1,2)] by blast
  obtain ns2 m2 where b: "waiting_notices newID m1 ev now (queue_of (W_waiting w) (Event_ID ev)) = Inr (ns2, m2)"
    "map (\<lambda>x. (Notification_UserID x, Notification_SeatID x)) ns2 =
       map (\<lambda>x. (Entry_UserID x, '''')) (queue_of (W_waiting w) (Event_ID ev))"
    "about ev ns2"
    using waiting_notices_ok [OF assms(1,2,4)] by blast
  show thesis
    by (rule that [of "ns1 @ ns2" m2])
      (use a b assms(3) in \<open>auto simp: cancellationNotices_def concerned_def Drain_def about_def\<close>)
qed

lemma channel_deliveries_all:
  assumes "\<forall>n. newID n \<noteq> ''''" "Notification_ID x \<noteq> ''''" "Notification_UserID x \<noteq> ''''"
    and "c \<in> set cs" "c = ChannelEmail \<or> c = ChannelPush"
  shows "\<exists>d \<in> set (channel_deliveries newID n now x cs).
    Delivery_NotificationID d = Notification_ID x \<and> Channel d = c"
  using assms(4)
proof (induction cs arbitrary: n)
  case (Cons c' cs)
  show ?case
  proof (cases "c' = c")
    case True
    then show ?thesis using assms(1-3,5) by (auto simp: NewDelivery_def ParseDeliveryChannel_def)
  next
    case False
    then show ?thesis using Cons.IH [of "n + 1"] Cons.prems by (auto split: sum.split)
  qed
qed simp

lemma notice_deliveries_all:
  assumes "\<forall>n. newID n \<noteq> ''''" "\<forall>x \<in> set ns. Notification_ID x \<noteq> '''' \<and> Notification_UserID x \<noteq> ''''"
    and "x \<in> set ns" "c \<in> set cs" "c = ChannelEmail \<or> c = ChannelPush"
  shows "\<exists>d \<in> set (notice_deliveries newID n now cs ns).
    Delivery_NotificationID d = Notification_ID x \<and> Channel d = c"
  using assms(2,3)
proof (induction ns arbitrary: n)
  case (Cons y ns)
  show ?case
  proof (cases "x = y")
    case True
    then show ?thesis
      using channel_deliveries_all [OF assms(1) _ _ assms(4,5), of y n now] Cons.prems by auto
  next
    case False
    then show ?thesis using Cons.IH [of "n + length cs"] Cons.prems by auto
  qed
qed simp

lemma CancelEvent_Inr:
  assumes "events_inv (W_events w)" "CancelEvent cfg newID now at now1 now2 eventID w = (w', Inr ev)"
  obtains events where "UpdateEvent eventID (Event_Cancel now) (W_events w) = (events, Inr ev)" "Event_ID ev = eventID"
    "w' = announceCancellation cfg newID at now1 now2 ev (w\<lparr>W_events := events\<rparr>)"
proof -
  obtain events where u: "UpdateEvent eventID (Event_Cancel now) (W_events w) = (events, Inr ev)"
    and w': "w' = announceCancellation cfg newID at now1 now2 ev (w\<lparr>W_events := events\<rparr>)"
    using assms(2) by (auto simp: CancelEvent_def split: prod.splits sum.splits)
  obtain e where "map_of (W_events w) eventID = Some e" "Event_Cancel now e = Inr ev"
    using UpdateEvent_Inr [OF u] by blast
  then have "Event_ID ev = eventID" using events_invD(2) [OF assms(1)] Event_Cancel_keeps by metis
  then show thesis using that u w' by blast
qed

lemma queueDeliveries_keeps [simp]:
  "W_seats (queueDeliveries c i n t ns w) = W_seats w" "W_events (queueDeliveries c i n t ns w) = W_events w"
  "W_users (queueDeliveries c i n t ns w) = W_users w" "W_waiting (queueDeliveries c i n t ns w) = W_waiting w"
  "W_published (queueDeliveries c i n t ns w) = W_published w" "W_inbox (queueDeliveries c i n t ns w) = W_inbox w"
  by (simp_all add: queueDeliveries_def)

lemma announceCancellation_ok:
  assumes "\<forall>n. newID n \<noteq> ''''" "Event_ID ev \<noteq> ''''" "HasWaiting cfg" "HasNotifications cfg"
    and "\<forall>x \<in> set (queue_of (W_waiting w) (Event_ID ev)). Entry_UserID x \<noteq> ''''"
    and "w' = announceCancellation cfg newID at now1 now2 ev w"
  shows "W_seats w' = W_seats w \<and> W_events w' = W_events w \<and> W_users w' = W_users w \<and>
    queue_of (W_waiting w') = (queue_of (W_waiting w))(Event_ID ev := []) \<and>
    W_published w' = W_published w @ [event_cancelled at (Event_ID ev)] \<and>
    (\<exists>ns. map (\<lambda>x. (Notification_UserID x, Notification_SeatID x)) ns = concerned (Event_ID ev) w \<and>
       about ev ns \<and>
       (\<forall>u. notices_of (W_inbox w') u = notices_of (W_inbox w) u @ filter (\<lambda>x. Notification_UserID x = u) ns) \<and>
       (HasDeliveries cfg \<longrightarrow> (\<forall>x \<in> set ns. \<forall>c \<in> set (Channels cfg). c = ChannelEmail \<or> c = ChannelPush \<longrightarrow>
          map_of (W_outbox w') (deliveryKey (Notification_ID x) c) \<noteq> None)))"
proof -
  let ?w1 = "publish (event_cancelled at (Event_ID ev)) w"
  have q1: "\<forall>x \<in> set (queue_of (W_waiting ?w1) (Event_ID ev)). Entry_UserID x \<noteq> ''''" using assms(5) by simp
  obtain ns m where c: "cancellationNotices cfg newID now1 ev ?w1 =
      (?w1\<lparr>W_waiting := fst (Drain (Event_ID ev) (W_waiting ?w1))\<rparr>, Inr (ns, m))"
    and who: "map (\<lambda>x. (Notification_UserID x, Notification_SeatID x)) ns = concerned (Event_ID ev) ?w1"
    and each: "about ev ns"
    using cancellationNotices_ok [OF assms(1-3) q1] by blast
  have who': "map (\<lambda>x. (Notification_UserID x, Notification_SeatID x)) ns = concerned (Event_ID ev) w"
    using who by (simp add: concerned_def)
  have w': "w' = (if ns = [] then ?w1\<lparr>W_waiting := fst (Drain (Event_ID ev) (W_waiting w))\<rparr>
      else queueDeliveries cfg newID m now2 ns (?w1\<lparr>W_waiting := fst (Drain (Event_ID ev) (W_waiting w)),
        W_inbox := Notify ns (W_inbox w)\<rparr>))"
    using assms(4,6) c by (simp add: announceCancellation_def Let_def)
  have out: "map_of (W_outbox w') (deliveryKey (Notification_ID x) c) \<noteq> None"
    if x: "x \<in> set ns" "c \<in> set (Channels cfg)" "c = ChannelEmail \<or> c = ChannelPush" "HasDeliveries cfg" for x c
  proof -
    let ?ds = "notice_deliveries newID m now2 (Channels cfg) ns"
    have "\<forall>x \<in> set ns. Notification_ID x \<noteq> '''' \<and> Notification_UserID x \<noteq> ''''" using each by (simp add: about_def)
    from notice_deliveries_all [OF assms(1) this x(1-3), of m now2]
    obtain d where d: "d \<in> set ?ds" "delivery_key d = deliveryKey (Notification_ID x) c" by auto
    have "find (\<lambda>y. delivery_key y = deliveryKey (Notification_ID x) c) ?ds \<noteq> None"
      by (rule find_known [OF d(1)]) (simp add: d(2))
    moreover have "W_outbox w' = Enqueue ?ds (W_outbox w)"
      using x by (auto simp: w' queueDeliveries_def publish_def)
    ultimately show ?thesis by (auto simp: map_of_Enqueue split: option.split)
  qed
  have "notices_of (W_inbox w') u = notices_of (W_inbox w) u @ filter (\<lambda>x. Notification_UserID x = u) ns" for u
    by (simp add: w' notices_of_Notify)
  moreover have "queue_of (W_waiting w') = (queue_of (W_waiting w))(Event_ID ev := [])"
    by (simp add: w' fun_eq_iff)
  moreover have "W_seats w' = W_seats w \<and> W_events w' = W_events w \<and> W_users w' = W_users w \<and>
      W_published w' = W_published w @ [event_cancelled at (Event_ID ev)]"
    by (simp add: w')
  ultimately show ?thesis using who' each out by blast
qed

text \<open>C23. Withdrawing an event tells everybody it concerns and strands nobody: the event is withdrawn for
  good, everyone who holds or owns one of its seats and everyone in its queue finds exactly one unread
  notice per seat or place, nobody else finds one, the queue is emptied and no other queue is touched,
  the seats stay with their owners, watchers are told, and every notice is queued for every channel.\<close>

theorem cancel_tells_everyone:
  assumes "world_inv w" and "\<forall>n. newID n \<noteq> ''''" and "eventID \<noteq> ''''" and "Second \<le> now"
    and "HasWaiting cfg" and "HasNotifications cfg"
    and "\<forall>x \<in> set (queue_of (W_waiting w) eventID). Entry_UserID x \<noteq> ''''"
    and "CancelEvent cfg newID now at now1 now2 eventID w = (w', Inr ev)"
  shows "(\<exists>e'. map_of (W_events w') eventID = Some e' \<and> IsCancelled e') \<and>
    W_seats w' = W_seats w \<and>
    queue_of (W_waiting w') = (queue_of (W_waiting w))(eventID := []) \<and>
    W_published w' = W_published w @ [event_cancelled at eventID] \<and>
    (\<exists>ns. map (\<lambda>x. (Notification_UserID x, Notification_SeatID x)) ns = concerned eventID w \<and>
       (\<forall>x \<in> set ns. Notification_EventID x = eventID \<and> \<not> IsRead x) \<and>
       (\<forall>u. notices_of (W_inbox w') u = notices_of (W_inbox w) u @ filter (\<lambda>x. Notification_UserID x = u) ns) \<and>
       (HasDeliveries cfg \<longrightarrow> (\<forall>x \<in> set ns. \<forall>c \<in> set (Channels cfg). c = ChannelEmail \<or> c = ChannelPush \<longrightarrow>
          map_of (W_outbox w') (deliveryKey (Notification_ID x) c) \<noteq> None)))"
proof -
  obtain events where u: "UpdateEvent eventID (Event_Cancel now) (W_events w) = (events, Inr ev)"
    and id: "Event_ID ev = eventID"
    and w': "w' = announceCancellation cfg newID at now1 now2 ev (w\<lparr>W_events := events\<rparr>)"
    using CancelEvent_Inr [OF world_invD(2) [OF assms(1)] assms(8)] by blast
  obtain e where e: "Event_Cancel now e = Inr ev" "events = AList.update eventID (storable ev) (W_events w)"
    using UpdateEvent_Inr [OF u] by blast
  have "map_of events eventID = Some (storable ev)" "IsCancelled (storable ev)"
    using e(2) Event_Cancel_cancels [OF assms(4) e(1)] by simp_all
  moreover have "Event_ID ev \<noteq> ''''" "\<forall>x \<in> set (queue_of (W_waiting (w\<lparr>W_events := events\<rparr>)) (Event_ID ev)). Entry_UserID x \<noteq> ''''"
    using id assms(3,7) by simp_all
  note announceCancellation_ok [OF assms(2) this(1) assms(5,6) this(2) w']
  moreover have "concerned eventID (w\<lparr>W_events := events\<rparr>) = concerned eventID w" by (simp add: concerned_def)
  ultimately show ?thesis by (auto simp: id about_def)
qed

definition full_cfg :: InventoryConfig where
  "full_cfg = \<lparr>HasWaiting = True, HasNotifications = True, HasDeliveries = True, Channels = [ChannelEmail]\<rparr>"

theorem cancel_tells_everyone_witness:
  "\<exists>w' ev ns. CancelEvent full_cfg (\<lambda>n. ''id'' @ Itoa (int n)) Second 1 2 3 ''event-1'' held_world = (w', Inr ev) \<and>
     queue_of (W_waiting w') ''event-1'' = [] \<and>
     map (\<lambda>x. (Notification_UserID x, Notification_SeatID x)) ns = [(''alice'', ''A1''), (''ann'', ''''), (''bob'', '''')] \<and>
     notices_of (W_inbox w') ''ann'' = notices_of (W_inbox held_world) ''ann'' @ filter (\<lambda>x. Notification_UserID x = ''ann'') ns"
proof -
  have ev: "map_of (W_events held_world) ''event-1'' = Some gala" "\<not> IsCancelled gala"
    by (simp_all add: held_world_def small_world_def gala_def IsCancelled_def go_time)
  obtain w' e where c: "CancelEvent full_cfg (\<lambda>n. ''id'' @ Itoa (int n)) Second 1 2 3 ''event-1'' held_world = (w', Inr e)"
    using ev by (auto simp: CancelEvent_def UpdateEvent_def Event_Cancel_def)
  have who: "concerned ''event-1'' held_world = [(''alice'', ''A1''), (''ann'', ''''), (''bob'', '''')]"
    by (simp add: concerned_def held_world_def small_world_def store_A1_def sample_seats ListSeats_def sortSeats_def
        claimant_def sample_waiting)
  have "\<forall>x \<in> set (queue_of (W_waiting held_world) ''event-1''). Entry_UserID x \<noteq> ''''"
    by (simp add: held_world_def small_world_def sample_waiting)
  note all = cancel_tells_everyone [OF held_world_inv _ _ _ _ _ this c, unfolded who]
  have cfg: "\<forall>n. ''id'' @ Itoa (int n) \<noteq> ''''" "''event-1'' \<noteq> ''''" "(Second::int) \<le> Second"
    "HasWaiting full_cfg" "HasNotifications full_cfg" by (simp_all add: full_cfg_def)
  from all [OF cfg] have q: "queue_of (W_waiting w') = (queue_of (W_waiting held_world))(''event-1'' := [])" by blast
  from all [OF cfg] obtain ns where
    "map (\<lambda>x. (Notification_UserID x, Notification_SeatID x)) ns = [(''alice'', ''A1''), (''ann'', ''''), (''bob'', '''')]"
    "\<forall>u. notices_of (W_inbox w') u = notices_of (W_inbox held_world) u @ filter (\<lambda>x. Notification_UserID x = u) ns"
    by (elim conjE exE) (rule that)
  then show ?thesis using c q by (intro exI [of _ w'] exI [of _ e] exI [of _ ns]) simp
qed

text \<open>A withdrawn event takes no more holds: from the moment a withdrawal has succeeded, holding any of
  its seats is refused as withdrawn for every account that may take seats at all, whatever the seat and
  whenever it is tried, and withdrawing it a second time is refused too.\<close>

theorem cancelled_event_takes_no_holds:
  assumes "world_inv w" and "Second \<le> now"
    and "CancelEvent icfg newID now at now1 now2 eventID w = (w', Inr ev)"
    and "MayTakeSeat (Gate cfg) u (W_users w') = Inr ()"
  shows "HoldSeat cfg now' at' h eventID i u w' = (w', Inl (Domain ErrEventCancelled)) \<and>
    snd (CancelEvent icfg2 newID2 t1 t2 t3 t4 eventID w') = Inl (Domain ErrEventAlreadyCancelled)"
proof -
  obtain events where u: "UpdateEvent eventID (Event_Cancel now) (W_events w) = (events, Inr ev)"
    and w': "w' = announceCancellation icfg newID at now1 now2 ev (w\<lparr>W_events := events\<rparr>)"
    using CancelEvent_Inr [OF world_invD(2) [OF assms(1)] assms(3)] by blast
  obtain e where e: "Event_Cancel now e = Inr ev" "events = AList.update eventID (storable ev) (W_events w)"
    using UpdateEvent_Inr [OF u] by blast
  have "W_events w' = events"
    by (auto simp: w' announceCancellation_def cancellationNotices_def Let_def case_prod_unfold split: sum.split)
  then have ev: "map_of (W_events w') eventID = Some (storable ev)" using e(2) by simp
  have c: "IsCancelled (storable ev)" using Event_Cancel_cancels [OF assms(2) e(1)] by simp
  have "events_inv events"
    using UpdateEvent_inv [OF world_invD(2) [OF assms(1)], of "Event_Cancel now" eventID] Event_Cancel_keeps u by fastforce
  then have "snd (UpdateEvent eventID (Event_Cancel t1) events) = Inl (Domain ErrEventAlreadyCancelled)"
    using memory_events.cancelled_once(1) [OF world_invD(2) [OF assms(1)] assms(2), of eventID ev t1] u by simp
  then show ?thesis
    using ev c assms(4) \<open>W_events w' = events\<close>
    by (auto simp: HoldSeat_cases CancelEvent_def simp del: map_of_eq_Some_iff split: prod.splits sum.splits)
qed

theorem cancelled_event_takes_no_holds_witness:
  "\<exists>w' ev. CancelEvent full_cfg (\<lambda>n. ''id'' @ Itoa (int n)) Second 1 2 3 ''event-1'' held_world = (w', Inr ev) \<and>
     HoldSeat small_cfg 9 9 ''h9'' ''event-1'' ''A2'' ''cid'' w' = (w', Inl (Domain ErrEventCancelled))"
proof -
  have ev: "map_of (W_events held_world) ''event-1'' = Some gala" "\<not> IsCancelled gala"
    by (simp_all add: held_world_def small_world_def gala_def IsCancelled_def go_time)
  obtain w' e where c: "CancelEvent full_cfg (\<lambda>n. ''id'' @ Itoa (int n)) Second 1 2 3 ''event-1'' held_world = (w', Inr e)"
    using ev by (auto simp: CancelEvent_def UpdateEvent_def Event_Cancel_def)
  have "MayTakeSeat (Gate small_cfg) ''cid'' (W_users w') = Inr ()" by (simp add: small_cfg_def MayTakeSeat_def)
  from cancelled_event_takes_no_holds [OF held_world_inv _ c this] show ?thesis using c by auto
qed

section \<open>Stocking\<close>

lemma NewSeatBlock_stock:
  "NewSeatBlock e rows n = Inr seats \<Longrightarrow> slash_free e \<Longrightarrow> new_stock seats \<and> (\<forall>s \<in> set seats. Seat_EventID s = e)"
  by (auto simp: NewSeatBlock_iff row_seats_def new_stock_def NewSeat_def seat_wf_def no_hold_def)

text \<open>Adding rows to an event gives it every seat of the block, reports how many of them are new, and
  takes nothing from anyone: seats that were there before, held and sold ones too, are exactly as they
  were, and an unknown event or a refused block changes nothing.\<close>

theorem add_seats_outcome:
  assumes "world_inv w" and "slash_free eventID" and "AddSeats eventID rows perRow w = (w', res)"
  shows "case res of
      Inl err \<Rightarrow> w' = w
    | Inr created \<Rightarrow> \<exists>seats. NewSeatBlock eventID rows perRow = Inr seats \<and> map_of (W_events w) eventID \<noteq> None \<and>
        (\<forall>k s. map_of (W_seats w) k = Some s \<longrightarrow> map_of (W_seats w') k = Some s) \<and>
        (\<forall>s \<in> set seats. map_of (W_seats w') (key_of s) \<noteq> None) \<and>
        created = int (length (W_seats w')) - int (length (W_seats w)) \<and>
        w' = w\<lparr>W_seats := W_seats w'\<rparr> \<and> world_inv w'"
proof (cases res)
  case (Inl err)
  then show ?thesis using assms(3) by (auto simp: AddSeats_def split: sum.splits prod.splits)
next
  case (Inr created)
  obtain seats store where o: "map_of (W_events w) eventID \<noteq> None" "NewSeatBlock eventID rows perRow = Inr seats"
    "CreateSeats seats (W_seats w) = (store, created)" "w' = w\<lparr>W_seats := store\<rparr>"
    using assms(3) Inr by (auto simp: AddSeats_def GetEvent_def split: sum.splits prod.splits option.splits)
  have store: "store = fst (create_loop seats 0 (W_seats w))" "created = snd (create_loop seats 0 (W_seats w))"
    using o(3) by (simp_all add: CreateSeats_def)
  have "seat_step (W_seats w) store"
    using step_create [of seats "W_seats w"] NewSeatBlock_stock [OF o(2) assms(2)] o(3) by simp
  then have inv: "world_inv w'"
    using assms(1) seat_step_inv by (auto simp: world_inv_def o(4))
  have "map_of store (key_of s) \<noteq> None" if "s \<in> set seats" for s
    using find_known [of s seats "\<lambda>t. key_of t = key_of s"] that
    unfolding store map_of_create_loop by (auto split: option.split)
  moreover have "map_of store k = Some s" if "map_of (W_seats w) k = Some s" for k s
    using that unfolding store map_of_create_loop by (simp del: map_of_eq_Some_iff)
  moreover have "created = int (length store) - int (length (W_seats w))"
    using create_loop_count [of seats 0 "W_seats w"] store by simp
  ultimately show ?thesis using o inv Inr by auto
qed

theorem add_seats_outcome_witness:
  "\<exists>w' n. AddSeats ''event-1'' [''A'', ''B''] 2 held_world = (w', Inr n) \<and>
     map_of (W_seats w') (seatKey ''event-1'' ''A1'') = Some held_A1"
proof -
  obtain w' n where a: "AddSeats ''event-1'' [''A'', ''B''] 2 held_world = (w', Inr n)"
    using block_AB
    by (cases "CreateSeats [NewSeat ''event-1'' ''A1'' ''A'' 1, NewSeat ''event-1'' ''A2'' ''A'' 2,
          NewSeat ''event-1'' ''B1'' ''B'' 1, NewSeat ''event-1'' ''B2'' ''B'' 2] store_A1")
      (simp add: AddSeats_def GetEvent_def held_world_def small_world_def)
  have "map_of (W_seats held_world) (seatKey ''event-1'' ''A1'') = Some held_A1"
    by (simp add: held_world_def store_A1_def)
  then show ?thesis
    using add_seats_outcome [OF held_world_inv _ a] a by (auto simp: slash_free_def simp del: map_of_eq_Some_iff)
qed

section \<open>Inventory calls as steps\<close>

lemma AddSeats_seats:
  "slash_free e \<Longrightarrow> seat_steps (W_seats w) (W_seats (fst (AddSeats e rows n w)))"
  using step_create [of _ "W_seats w"] NewSeatBlock_stock [of e rows n]
  by (auto simp: AddSeats_def Let_def case_prod_unfold split: sum.split)

lemma announceCancellation_keeps [simp]:
  "W_seats (announceCancellation c i t1 t2 t3 ev w) = W_seats w"
  "W_events (announceCancellation c i t1 t2 t3 ev w) = W_events w"
  "W_users (announceCancellation c i t1 t2 t3 ev w) = W_users w"
  by (auto simp: announceCancellation_def cancellationNotices_def Let_def case_prod_unfold split: sum.split)

lemma announceCancellation_queues:
  "queues_inv (W_waiting w) \<Longrightarrow> queues_inv (W_waiting (announceCancellation c i t1 t2 t3 ev w))"
  using Drain_inv [of "W_waiting w" "Event_ID ev"]
  by (auto simp: announceCancellation_def cancellationNotices_def Let_def case_prod_unfold split: sum.split)

lemma inventory_seats [simp]:
  "W_seats (fst (Inventory_CreateEvent p i n v t d w)) = W_seats w"
  "W_seats (fst (Inventory_UpdateEvent p e n v t f w)) = W_seats w"
  "W_seats (fst (CancelEvent c ids t1 t2 t3 t4 e w)) = W_seats w"
  "W_seats (fst (Inventory_DeleteEvent e w)) = W_seats w"
  by (auto simp: Inventory_CreateEvent_def Inventory_UpdateEvent_def CancelEvent_def Inventory_DeleteEvent_def
      case_prod_unfold Let_def split: sum.split)

lemma Inventory_CreateEvent_inv [keeps_inv]: "world_inv w \<Longrightarrow> world_inv (fst (Inventory_CreateEvent p i n v t d w))"
  by (auto simp: Inventory_CreateEvent_def world_inv_def intro: CreateEvent_inv split: sum.split)

lemma Inventory_UpdateEvent_inv [keeps_inv]: "world_inv w \<Longrightarrow> world_inv (fst (Inventory_UpdateEvent p e n v t f w))"
proof -
  assume w: "world_inv w"
  have "events_inv (fst (UpdateEvent e (\<lambda>ev. Event_Update p n v t (f (Event_Details ev)) ev) (W_events w)))"
    by (rule UpdateEvent_inv [OF world_invD(2) [OF w]]) (use Event_Update_keeps in blast)
  then show ?thesis using w by (simp add: Inventory_UpdateEvent_def world_inv_def case_prod_unfold Let_def)
qed

lemma CancelEvent_inv [keeps_inv]: "world_inv w \<Longrightarrow> world_inv (fst (CancelEvent c ids t1 t2 t3 t4 e w))"
proof -
  assume w: "world_inv w"
  have "events_inv (fst (UpdateEvent e (Event_Cancel t1) (W_events w)))"
    using UpdateEvent_inv [OF world_invD(2) [OF w], of "Event_Cancel t1"] Event_Cancel_keeps by blast
  then show ?thesis
    using w by (auto simp: CancelEvent_def world_inv_def announceCancellation_queues split: prod.split sum.split)
qed

lemma Inventory_DeleteEvent_inv [keeps_inv]: "world_inv w \<Longrightarrow> world_inv (fst (Inventory_DeleteEvent e w))"
  by (auto simp: Inventory_DeleteEvent_def world_inv_def intro: DeleteEvent_inv split: sum.split)

lemma AddSeats_inv [keeps_inv]: "world_inv w \<Longrightarrow> slash_free e \<Longrightarrow> world_inv (fst (AddSeats e rows n w))"
  by (rule world_inv_seats [OF _ AddSeats_seats])
    (auto simp: world_invD AddSeats_def Let_def case_prod_unfold split: sum.split)

end
