(* ===== verification/Auth_Token.thy ===== *)
theory Auth_Token
  imports Errors Go_Strings
begin

text \<open>
  Bearer tokens: \<open>internal/auth/token.go\<close>, with the parts of \<open>strings\<close>, \<open>strconv\<close>, \<open>time\<close> and
  \<open>encoding/base64\<close> it uses. The keyed hash \<open>t.sign\<close> is a parameter: any function from payloads to byte
  strings; what the theorems say about signatures is said of that function.
\<close>

section \<open>Base64, URL alphabet, no padding\<close>

definition b64_alphabet :: string where
  "b64_alphabet = ''ABCDEFGHIJKLMNOPQRSTUVWXYZabcdefghijklmnopqrstuvwxyz0123456789-_''"

definition b64_char :: "nat \<Rightarrow> char" where
  "b64_char n = b64_alphabet ! n"

fun index_of :: "char \<Rightarrow> string \<Rightarrow> nat option" where
  "index_of c [] = None"
| "index_of c (d # ds) = (if c = d then Some 0 else map_option Suc (index_of c ds))"

definition b64_val :: "char \<Rightarrow> nat option" where
  "b64_val c = index_of c b64_alphabet"

fun b64_groups :: "nat list \<Rightarrow> nat list" where
  "b64_groups [] = []"
| "b64_groups [a] = [a div 4, (a mod 4) * 16]"
| "b64_groups [a, b] = [a div 4, (a mod 4) * 16 + b div 16, (b mod 16) * 4]"
| "b64_groups (a # b # c # rest) =
     [a div 4, (a mod 4) * 16 + b div 16, (b mod 16) * 4 + c div 64, c mod 64] @ b64_groups rest"

text \<open>A single character left over is an error; spare bits at the end are not looked at.\<close>

fun b64_bytes :: "nat list \<Rightarrow> nat list option" where
  "b64_bytes [] = Some []"
| "b64_bytes [x] = None"
| "b64_bytes [x, y] = Some [x * 4 + y div 16]"
| "b64_bytes [x, y, z] = Some [x * 4 + y div 16, (y mod 16) * 16 + z div 4]"
| "b64_bytes (x # y # z # t # rest) =
     (case b64_bytes rest of
        None \<Rightarrow> None
      | Some bs \<Rightarrow> Some ([x * 4 + y div 16, (y mod 16) * 16 + z div 4, (z mod 4) * 64 + t] @ bs))"

fun b64_vals :: "string \<Rightarrow> nat list option" where
  "b64_vals [] = Some []"
| "b64_vals (c # cs) =
     (case b64_val c of
        None \<Rightarrow> None
      | Some v \<Rightarrow> (case b64_vals cs of None \<Rightarrow> None | Some vs \<Rightarrow> Some (v # vs)))"

definition encode :: "string \<Rightarrow> string" where
  "encode value = map b64_char (b64_groups (map of_char value))"

text \<open>The decoder skips carriage returns and line feeds.\<close>

definition decode :: "string \<Rightarrow> string option" where
  "decode value =
     (case b64_vals (filter (\<lambda>c. c \<noteq> CHR 0x0D \<and> c \<noteq> CHR 0x0A) value) of
        None \<Rightarrow> None
      | Some vs \<Rightarrow> map_option (map char_of) (b64_bytes vs))"

section \<open>Numbers and instants\<close>

fun digits_value :: "nat \<Rightarrow> string \<Rightarrow> nat option" where
  "digits_value acc [] = Some acc"
| "digits_value acc (c # cs) =
     (if is_digit c then digits_value (acc * 10 + (of_char c - 48)) cs else None)"

text \<open>\<open>strconv.ParseInt(s, 10, 64)\<close>: an optional sign, at least one digit, and a value of 64 bits.\<close>

definition ParseInt64 :: "string \<Rightarrow> int option" where
  "ParseInt64 s =
     (let (neg, ds) = (case s of
            [] \<Rightarrow> (False, [])
          | c # cs \<Rightarrow> if c = CHR ''-'' then (True, cs) else if c = CHR ''+'' then (False, cs) else (False, s))
      in if ds = [] then None
         else case digits_value 0 ds of
           None \<Rightarrow> None
         | Some n \<Rightarrow>
             let v = (if neg then - int n else int n)
             in if - (2 ^ 63) \<le> v \<and> v < 2 ^ 63 then Some v else None)"

text \<open>Seconds from Go's zero time to 1 January 1970.\<close>

definition unix_epoch :: int where "unix_epoch = 62135596800"

definition Unix :: "time \<Rightarrow> int" where
  "Unix t = t div Second - unix_epoch"

definition time_Unix :: "int \<Rightarrow> time" where
  "time_Unix seconds = (seconds + unix_epoch) * Second"

fun Split :: "char \<Rightarrow> string \<Rightarrow> string list" where
  "Split sep [] = [[]]"
| "Split sep (c # cs) =
     (if c = sep then [] # Split sep cs
      else case Split sep cs of [] \<Rightarrow> [[c]] | p # ps \<Rightarrow> (c # p) # ps)"

section \<open>Tokens\<close>

definition MinSecretLength :: nat where "MinSecretLength = 32"

record Claims =
  Claims_UserID :: string
  Claims_TokenID :: string
  Claims_ExpiresAt :: time

definition NewTokens :: "string \<Rightarrow> string result" where
  "NewTokens secret =
     (if length secret < MinSecretLength then Inl (Wrapf ''the secret is too short'' [Auth ErrWeakSecret])
      else Inr secret)"

definition Tokens_Issue :: "(string \<Rightarrow> string) \<Rightarrow> string \<Rightarrow> string \<Rightarrow> time \<Rightarrow> string result" where
  "Tokens_Issue sign rand_Text userID expiresAt =
     (if userID = '''' \<or> CHR ''|'' \<in> set userID then Inl (Wrapf ''user id'' [Auth ErrInvalidUserID])
      else let payload = userID @ ''|'' @ Itoa (Unix expiresAt) @ ''|'' @ rand_Text
        in Inr (encode payload @ ''.'' @ encode (sign payload)))"

definition Tokens_Verify :: "(string \<Rightarrow> string) \<Rightarrow> string \<Rightarrow> time \<Rightarrow> Claims result" where
  "Tokens_Verify sign token now =
     (case Cut token CHR ''.'' of
        None \<Rightarrow> Inl (Auth ErrMalformedToken)
      | Some (encodedPayload, encodedSignature) \<Rightarrow>
          (case decode encodedPayload of
             None \<Rightarrow> Inl (Auth ErrMalformedToken)
           | Some payload \<Rightarrow>
               (case decode encodedSignature of
                  None \<Rightarrow> Inl (Auth ErrMalformedToken)
                | Some signature \<Rightarrow>
                    if signature \<noteq> sign payload then Inl (Auth ErrInvalidSignature)
                    else
                      let parts = Split CHR ''|'' payload
                      in if length parts \<noteq> 3 \<or> parts ! 0 = '''' \<or> parts ! 2 = '''' then Inl (Auth ErrMalformedToken)
                         else case ParseInt64 (parts ! 1) of
                           None \<Rightarrow> Inl (Auth ErrMalformedToken)
                         | Some seconds \<Rightarrow>
                             let expiresAt = time_Unix seconds
                             in if \<not> Before now expiresAt then Inl (Auth ErrTokenExpired)
                                else Inr \<lparr>Claims_UserID = parts ! 0, Claims_TokenID = parts ! 2,
                                          Claims_ExpiresAt = expiresAt\<rparr>)))"

section \<open>Encoding and decoding\<close>

lemma length_b64_alphabet: "length b64_alphabet = 64"
  by (simp add: b64_alphabet_def)

lemma index_of_nth: "distinct cs \<Longrightarrow> n < length cs \<Longrightarrow> index_of (cs ! n) cs = Some n"
proof (induction cs arbitrary: n)
  case (Cons d ds)
  then show ?case by (cases n) auto
qed simp

lemma distinct_b64_alphabet: "distinct b64_alphabet"
  by (simp add: b64_alphabet_def)

lemma b64_val_char: "n < 64 \<Longrightarrow> b64_val (b64_char n) = Some n"
  by (simp add: b64_val_def b64_char_def index_of_nth distinct_b64_alphabet length_b64_alphabet)

lemma b64_char_in: "n < 64 \<Longrightarrow> b64_char n \<in> set b64_alphabet"
  by (simp add: b64_char_def length_b64_alphabet)

lemma b64_char_not: "n < 64 \<Longrightarrow> b64_char n \<noteq> CHR ''.'' \<and> b64_char n \<noteq> CHR 0x0D \<and> b64_char n \<noteq> CHR 0x0A"
  using b64_char_in [of n] by (auto simp: b64_alphabet_def)

lemma b64_groups_small: "\<forall>b \<in> set bs. b < 256 \<Longrightarrow> \<forall>v \<in> set (b64_groups bs). v < 64"
  by (induction bs rule: b64_groups.induct) auto

lemma sextet_parts:
  fixes b :: nat
  assumes "b < 256"
  shows "b div 16 div 16 = 0" "b div 16 mod 16 = b div 16" "b div 64 div 4 = 0" "b div 64 mod 4 = b div 64"
proof -
  have "b div 16 < 16" "b div 64 < 4" using assms by (simp_all add: less_mult_imp_div_less)
  then show "b div 16 div 16 = 0" "b div 16 mod 16 = b div 16" "b div 64 div 4 = 0" "b div 64 mod 4 = b div 64"
    by simp_all
qed

lemma b64_bytes_groups: "\<forall>b \<in> set bs. b < 256 \<Longrightarrow> b64_bytes (b64_groups bs) = Some bs"
  by (induction bs rule: b64_groups.induct) (simp_all add: sextet_parts)

lemma b64_vals_chars: "\<forall>v \<in> set vs. v < 64 \<Longrightarrow> b64_vals (map b64_char vs) = Some vs"
  by (induction vs) (simp_all add: b64_val_char)


lemma is_digit_value: "d < 10 \<Longrightarrow> is_digit (digit_char d)"
  by (simp add: is_digit_def)

lemma digits_value_append:
  "digits_value acc (xs @ ys) = (case digits_value acc xs of None \<Rightarrow> None | Some n \<Rightarrow> digits_value n ys)"
  by (induction acc xs rule: digits_value.induct) auto

lemma digits_value_nat_digits: "digits_value 0 (nat_digits n) = Some n"
proof (induction n rule: nat_digits.induct)
  case (1 n)
  then show ?case
    by (subst nat_digits.simps) (auto simp: digits_value_append is_digit_value)
qed

lemma nat_digits_first: "hd (nat_digits n) \<noteq> CHR ''-'' \<and> hd (nat_digits n) \<noteq> CHR ''+''"
  using nat_digits_all_digits [of "hd (nat_digits n)" n] by (auto simp: is_digit_def)

lemma ParseInt64_Itoa: "- (2 ^ 63) \<le> i \<Longrightarrow> i < 2 ^ 63 \<Longrightarrow> ParseInt64 (Itoa i) = Some i"
  using nat_digits_first [of "nat i"] digits_value_nat_digits [of "nat i"] digits_value_nat_digits [of "nat (- i)"]
  by (cases "nat_digits (nat i)") (auto simp: ParseInt64_def Itoa_def Let_def simp del: digits_value.simps)

lemma decode_encode: "decode (encode s) = Some s"
proof -
  let ?bs = "map of_char s :: nat list"
  have bytes: "\<forall>b \<in> set ?bs. b < 256" by (auto simp: nat_of_char_less_256)
  have small: "\<forall>v \<in> set (b64_groups ?bs). v < 64" by (rule b64_groups_small [OF bytes])
  have "filter (\<lambda>c. c \<noteq> CHR 0x0D \<and> c \<noteq> CHR 0x0A) (encode s) = encode s"
    using small b64_char_not by (auto simp: encode_def filter_id_conv)
  then show ?thesis
    using b64_vals_chars [OF small] b64_bytes_groups [OF bytes]
    by (simp add: decode_def encode_def comp_def)
qed

lemma dot_not_encoded: "CHR ''.'' \<notin> set (encode s)"
proof -
  have "\<forall>b \<in> set (map of_char s :: nat list). b < 256" by (auto simp: nat_of_char_less_256)
  then have "\<forall>v \<in> set (b64_groups (map of_char s)). b64_char v \<noteq> CHR ''.''"
    using b64_groups_small b64_char_not by blast
  then show ?thesis unfolding encode_def set_map by (metis (no_types, lifting) imageE)
qed

lemma Split_none: "c \<notin> set s \<Longrightarrow> Split c s = [s]"
  by (induction s) auto

lemma Split_append: "c \<notin> set a \<Longrightarrow> Split c (a @ c # b) = a # Split c b"
  by (induction a) auto

lemma Itoa_no_bar: "CHR ''|'' \<notin> set (Itoa i)"
  using nat_digits_all_digits [of "CHR ''|''"] by (auto simp: Itoa_def is_digit_def)

lemma time_Unix_Unix: "time_Unix (Unix t) = Truncate_Second t"
  by (simp add: time_Unix_def Unix_def Truncate_Second_def minus_mod_eq_div_mult)

section \<open>What a token proves\<close>

text \<open>C40. A token that was issued is accepted until the second it was issued for, and says exactly whom and
  which token it names: verifying it before that second gives back the user, the token's own id and
  the expiry rounded down to the second, and from that second on it is refused as expired.\<close>

theorem token_roundtrip:
  assumes "Tokens_Issue sign rid userID expiresAt = Inr token"
    and "rid \<noteq> ''''" and "CHR ''|'' \<notin> set rid" and "- (2 ^ 63) \<le> Unix expiresAt" and "Unix expiresAt < 2 ^ 63"
  shows "Tokens_Verify sign token now =
    (if now < Truncate_Second expiresAt
     then Inr \<lparr>Claims_UserID = userID, Claims_TokenID = rid, Claims_ExpiresAt = Truncate_Second expiresAt\<rparr>
     else Inl (Auth ErrTokenExpired))"
proof -
  let ?p = "userID @ ''|'' @ Itoa (Unix expiresAt) @ ''|'' @ rid"
  have u: "userID \<noteq> ''''" "CHR ''|'' \<notin> set userID" and t: "token = encode ?p @ CHR ''.'' # encode (sign ?p)"
    using assms(1) by (auto simp: Tokens_Issue_def Let_def split: if_splits)
  have "Split CHR ''|'' ?p = [userID, Itoa (Unix expiresAt), rid]"
    using u(2) assms(3) Itoa_no_bar by (simp add: Split_append Split_none)
  moreover have "Cut token CHR ''.'' = Some (encode ?p, encode (sign ?p))"
    unfolding t by (rule Cut_append) (rule dot_not_encoded)
  ultimately show ?thesis
    using u(1) assms(2) ParseInt64_Itoa [OF assms(4,5)]
    by (simp add: Tokens_Verify_def decode_encode Let_def time_Unix_Unix Before_def)
qed

definition some_token :: string where
  "some_token = encode ''u1|-62135596790|t1'' @ ''.'' @ encode ''sig''"

lemma some_token_issued: "Tokens_Issue (\<lambda>_. ''sig'') ''t1'' ''u1'' (10 * Second) = Inr some_token"
  by (simp add: Tokens_Issue_def some_token_def Unix_def unix_epoch_def Itoa_def nat_digits.simps)

theorem token_roundtrip_witness:
  "Tokens_Verify (\<lambda>_. ''sig'') some_token (9 * Second) =
     Inr \<lparr>Claims_UserID = ''u1'', Claims_TokenID = ''t1'', Claims_ExpiresAt = 10 * Second\<rparr> \<and>
   Tokens_Verify (\<lambda>_. ''sig'') some_token (10 * Second) = Inl (Auth ErrTokenExpired)"
  using token_roundtrip [OF some_token_issued, of "9 * Second"] token_roundtrip [OF some_token_issued, of "10 * Second"]
  by (simp add: Unix_def unix_epoch_def Truncate_Second_def)

text \<open>Nothing is believed that was not signed: a token is accepted only if its second half decodes to
  the signature of exactly the payload in its first half, and what it is taken to say is read from that
  payload: a user, an expiry that still lies ahead, and a token id.\<close>

theorem verify_only_signed:
  assumes "Tokens_Verify sign token now = Inr claims"
  shows "\<exists>first second payload seconds. token = first @ ''.'' @ second \<and>
    decode first = Some payload \<and> decode second = Some (sign payload) \<and>
    Split CHR ''|'' payload = [Claims_UserID claims, seconds, Claims_TokenID claims] \<and>
    map_option time_Unix (ParseInt64 seconds) = Some (Claims_ExpiresAt claims) \<and>
    Claims_UserID claims \<noteq> '''' \<and> Claims_TokenID claims \<noteq> '''' \<and> now < Claims_ExpiresAt claims"
proof -
  obtain a b payload where o: "Cut token CHR ''.'' = Some (a, b)" "decode a = Some payload" "decode b = Some (sign payload)"
    "length (Split CHR ''|'' payload) = 3"
    using assms by (auto simp: Tokens_Verify_def Let_def split: option.splits prod.splits if_splits)
  obtain x y z where parts: "Split CHR ''|'' payload = [x, y, z]"
    using o(4) by (auto simp: numeral_3_eq_3 length_Suc_conv)
  have t: "token = a @ ''.'' @ b" using Cut_Some [OF o(1)] by simp
  have c: "x \<noteq> ''''" "z \<noteq> ''''" "Claims_UserID claims = x" "Claims_TokenID claims = z"
    "map_option time_Unix (ParseInt64 y) = Some (Claims_ExpiresAt claims)" "now < Claims_ExpiresAt claims"
    using assms o parts by (auto simp: Tokens_Verify_def Let_def Before_def split: option.splits if_splits)
  show ?thesis
    by (intro exI [of _ a] exI [of _ b] exI [of _ payload] exI [of _ y] conjI) (use t o parts c in simp_all)
qed

theorem verify_only_signed_witness:
  "\<exists>payload. decode (encode ''sig'') = Some ((\<lambda>_. ''sig'') payload) \<and> Split CHR ''|'' payload ! 0 = ''u1''"
proof -
  have v: "Tokens_Verify (\<lambda>_. ''sig'') some_token (9 * Second) =
      Inr \<lparr>Claims_UserID = ''u1'', Claims_TokenID = ''t1'', Claims_ExpiresAt = 10 * Second\<rparr>"
  proof -
    have "Split CHR ''|'' ''u1|-62135596790|t1'' = [''u1'', ''-62135596790'', ''t1'']" by simp
    moreover have "Cut some_token CHR ''.'' = Some (encode ''u1|-62135596790|t1'', encode ''sig'')"
      unfolding some_token_def using Cut_append [OF dot_not_encoded] by simp
    ultimately show ?thesis
      using ParseInt64_Itoa [of "-62135596790"]
      by (simp add: Tokens_Verify_def decode_encode Before_def time_Unix_def unix_epoch_def Itoa_def nat_digits.simps)
  qed
  from verify_only_signed [OF v] show ?thesis using decode_encode [of "''sig''"] by auto (metis nth_Cons_0)
qed

end
