(* ===== verification/Accounts.thy ===== *)
theory Accounts
  imports Account_Stores Auth_Token
begin

text \<open>
  Accounts and sessions: \<open>internal/service/account_service.go\<close>, \<open>verification_service.go\<close>,
  \<open>verification_sender.go\<close>, \<open>token_sweeper.go\<close>, and the bearer-token middleware of
  \<open>internal/handler/auth.go\<close>. The password hash (\<open>Hash\<close>, \<open>Compare\<close>, \<open>NeedsRehash\<close>) is a parameter, as are
  the mail server and the escaping of a token in a URL. Hashing draws a random salt, so the
  outcome of a call of \<open>Hash\<close> is an argument. Logging is left out.
\<close>

section \<open>The model\<close>

text \<open>\<open>None\<close> stands for a store that a deployment left out.\<close>

record AccountState =
  A_users :: UserStore
  A_revoked :: "TokenStore option"
  A_links :: VerificationStore

record Session =
  Session_Token :: string
  Session_UserID :: string
  Session_ExpiresAt :: time

definition DefaultTokenTTL :: duration where "DefaultTokenTTL = Hour"

definition token_ttl :: "duration \<Rightarrow> duration" where
  "token_ttl configured = (if configured \<le> 0 then DefaultTokenTTL else configured)"

subsection \<open>Verification links\<close>

definition verification_ttl :: "duration \<Rightarrow> duration" where
  "verification_ttl configured = (if configured \<le> 0 then DefaultVerificationTTL else configured)"

definition Verification_Issue ::
  "duration \<Rightarrow> string \<Rightarrow> time \<Rightarrow> string \<Rightarrow> string \<Rightarrow> AccountState \<Rightarrow> AccountState \<times> string result" where
  "Verification_Issue ttl token now userID email a =
     (case NewEmailVerification token userID email now ttl of
        Inl err \<Rightarrow> (a, Inl err)
      | Inr verification \<Rightarrow> (a\<lparr>A_links := Verification_Create verification (A_links a)\<rparr>, Inr token))"

definition Verification_Resend ::
  "duration \<Rightarrow> string \<Rightarrow> time \<Rightarrow> string \<Rightarrow> AccountState \<Rightarrow> AccountState \<times> unit result" where
  "Verification_Resend ttl token now userID a =
     (case GetUserByID userID (A_users a) of
        Inl err \<Rightarrow> (a, Inl err)
      | Inr user \<Rightarrow>
          if EmailVerified user then (a, Inl (Service ErrAlreadyVerified))
          else case Verification_Issue ttl token now (User_ID user) (User_Email user) a of
            (a', Inl err) \<Rightarrow> (a', Inl err)
          | (a', Inr _) \<Rightarrow> (a', Inr ()))"

definition Verification_Verify :: "string \<Rightarrow> time \<Rightarrow> AccountState \<Rightarrow> AccountState \<times> unit result" where
  "Verification_Verify token now a =
     (if token = '''' then (a, Inl (Domain ErrVerificationNotUsable))
      else case Consume token now (A_links a) of
        (links, Inl err) \<Rightarrow> (a\<lparr>A_links := links\<rparr>, Inl err)
      | (links, Inr verification) \<Rightarrow>
          (case MarkEmailVerified (Verification_UserID verification) (Verification_Email verification) now (A_users a) of
             Inl err \<Rightarrow>
               (a\<lparr>A_links := links\<rparr>,
                Inl (if errors_Is err (Repository ErrUserNotFound) then Domain ErrVerificationNotUsable else err))
           | Inr users \<Rightarrow> (a\<lparr>A_links := links, A_users := users\<rparr>, Inr ())))"

definition Verification_Link :: "(string \<Rightarrow> string) \<Rightarrow> string \<Rightarrow> string \<Rightarrow> string" where
  "Verification_Link QueryEscape publicURL token =
     (if publicURL = '''' then ''/verify?token='' @ QueryEscape token
      else publicURL @ ''/verify?token='' @ QueryEscape token)"

text \<open>
  One pass of the sender: what the mail server answered is a function of the link sent. \<open>mailer\<close> is \<open>None\<close>
  where none is configured. The answer lists the links that went out.
\<close>

fun send_loop ::
  "(EmailVerification \<Rightarrow> bool) \<Rightarrow> EmailVerification list \<Rightarrow> VerificationStore \<Rightarrow> VerificationStore \<times> EmailVerification list" where
  "send_loop sends [] r = (r, [])"
| "send_loop sends (verification # rest) r =
     (if \<not> sends verification then send_loop sends rest (Verification_Release (Token verification) r)
      else let (r', sent) = send_loop sends rest r in (r', verification # sent))"

definition Sender_Send ::
  "(EmailVerification \<Rightarrow> bool) option \<Rightarrow> int \<Rightarrow> time \<Rightarrow> VerificationStore \<Rightarrow> VerificationStore \<times> EmailVerification list" where
  "Sender_Send mailer batch now r =
     (case mailer of
        None \<Rightarrow> (r, [])
      | Some sends \<Rightarrow> let (r', claimed) = ClaimUnsent now batch r in send_loop sends claimed r')"

subsection \<open>Registering and signing in\<close>

text \<open>\<open>verifier\<close> is the verification service where one is wired in, with the token it draws and its
  reading of the clock; its failures are only logged.\<close>

definition Register ::
  "(string \<Rightarrow> string) \<Rightarrow> (duration \<times> string \<times> time) option \<Rightarrow> string result \<Rightarrow> string \<Rightarrow> time \<Rightarrow> string \<Rightarrow> string \<Rightarrow> AccountState \<Rightarrow> AccountState \<times> User result" where
  "Register unicode_lower verifier hashed newID now email password a =
     (let normalized = NormalizeEmail unicode_lower email in
      case ValidateEmail normalized of
        Inl err \<Rightarrow> (a, Inl err)
      | Inr _ \<Rightarrow>
          (case ValidatePassword password of
             Inl err \<Rightarrow> (a, Inl err)
           | Inr _ \<Rightarrow>
               (case hashed of
                  Inl err \<Rightarrow> (a, Inl err)
                | Inr hash \<Rightarrow>
                    let user = NewUser newID normalized hash now in
                    case CreateUser user (A_users a) of
                      Inl err \<Rightarrow> (a, Inl err)
                    | Inr users \<Rightarrow>
                        let a1 = a\<lparr>A_users := users\<rparr>;
                            a2 = (case verifier of
                                    None \<Rightarrow> a1
                                  | Some (ttl, token, issued) \<Rightarrow>
                                      fst (Verification_Issue ttl token issued (User_ID user) (User_Email user) a1))
                        in (a2, Inr (user\<lparr>PasswordHash := ''''\<rparr>)))))"

definition upgradeHash ::
  "(string \<Rightarrow> bool) \<Rightarrow> string result \<Rightarrow> User \<Rightarrow> AccountState \<Rightarrow> AccountState" where
  "upgradeHash NeedsRehash hashed user a =
     (if \<not> NeedsRehash (PasswordHash user) then a
      else case hashed of
        Inl _ \<Rightarrow> a
      | Inr hash \<Rightarrow>
          (case UpdatePasswordHash (User_ID user) hash (A_users a) of
             Inl _ \<Rightarrow> a
           | Inr users \<Rightarrow> a\<lparr>A_users := users\<rparr>))"

definition Login ::
  "(string \<Rightarrow> string) \<Rightarrow> (string \<Rightarrow> string \<Rightarrow> unit result) \<Rightarrow> (string \<Rightarrow> bool) \<Rightarrow> (string \<Rightarrow> string) \<Rightarrow> duration \<Rightarrow>
   string result \<Rightarrow> string \<Rightarrow> time \<Rightarrow> string \<Rightarrow> string \<Rightarrow> AccountState \<Rightarrow> AccountState \<times> Session result" where
  "Login unicode_lower Compare NeedsRehash sign ttl hashed rand_Text now email password a =
     (let normalized = NormalizeEmail unicode_lower email in
      case GetUserByEmail normalized (A_users a) of
        Inl err \<Rightarrow>
          (a, Inl (if errors_Is err (Repository ErrUserNotFound) then Service ErrInvalidCredentials else err))
      | Inr user \<Rightarrow>
          (case Compare (PasswordHash user) password of
             Inl _ \<Rightarrow> (a, Inl (Service ErrInvalidCredentials))
           | Inr _ \<Rightarrow>
               let a1 = upgradeHash NeedsRehash hashed user a;
                   expiresAt = time_Add now ttl
               in case Tokens_Issue sign rand_Text (User_ID user) expiresAt of
                    Inl err \<Rightarrow> (a1, Inl err)
                  | Inr token \<Rightarrow>
                      (a1, Inr \<lparr>Session_Token = token, Session_UserID = User_ID user,
                                Session_ExpiresAt = expiresAt\<rparr>)))"

definition Logout :: "string \<Rightarrow> time \<Rightarrow> AccountState \<Rightarrow> AccountState \<times> unit result" where
  "Logout tokenID expiresAt a =
     (case A_revoked a of
        None \<Rightarrow> (a, Inl (Service ErrLogoutUnavailable))
      | Some r \<Rightarrow> (a\<lparr>A_revoked := Some (Revoke tokenID expiresAt r)\<rparr>, Inr ()))"

definition IsTokenRevoked :: "string \<Rightarrow> AccountState \<Rightarrow> bool" where
  "IsTokenRevoked tokenID a = (case A_revoked a of None \<Rightarrow> False | Some r \<Rightarrow> IsRevoked tokenID r)"

definition SweepRevocations :: "time \<Rightarrow> AccountState \<Rightarrow> AccountState \<times> nat" where
  "SweepRevocations now a =
     (case A_revoked a of
        None \<Rightarrow> (a, 0)
      | Some r \<Rightarrow> let (r', n) = Token_DeleteExpired now r in (a\<lparr>A_revoked := Some r'\<rparr>, n))"

definition Account :: "string \<Rightarrow> AccountState \<Rightarrow> User result" where
  "Account userID a =
     (case GetUserByID userID (A_users a) of
        Inl err \<Rightarrow> Inl err
      | Inr user \<Rightarrow> Inr (user\<lparr>PasswordHash := ''''\<rparr>))"

definition Account_Role :: "string \<Rightarrow> AccountState \<Rightarrow> Role result" where
  "Account_Role userID a =
     (case GetUserByID userID (A_users a) of Inl err \<Rightarrow> Inl err | Inr user \<Rightarrow> Inr (User_Role user))"

definition Account_SetRole :: "(string \<Rightarrow> string) \<Rightarrow> string \<Rightarrow> Role \<Rightarrow> AccountState \<Rightarrow> AccountState \<times> unit result" where
  "Account_SetRole unicode_lower email role a =
     (case SetRole (NormalizeEmail unicode_lower email) role (A_users a) of
        Inl err \<Rightarrow> (a, Inl err)
      | Inr users \<Rightarrow> (a\<lparr>A_users := users\<rparr>, Inr ()))"

text \<open>The sweepers' passes: revocations and links that no longer matter are dropped.\<close>

definition TokenSweeper_Sweep :: "time \<Rightarrow> AccountState \<Rightarrow> AccountState \<times> nat" where
  "TokenSweeper_Sweep now a = SweepRevocations now a"

definition SweepVerifications :: "time \<Rightarrow> AccountState \<Rightarrow> AccountState \<times> nat" where
  "SweepVerifications now a =
     (let (links, n) = Verification_DeleteExpired now (A_links a) in (a\<lparr>A_links := links\<rparr>, n))"

subsection \<open>The bearer-token middleware\<close>

definition bearerPrefix :: string where "bearerPrefix = ''Bearer ''"

text \<open>The prefix is ASCII, so \<open>strings.EqualFold\<close> on seven bytes ignores the case of ASCII letters.\<close>

definition bearerToken :: "string \<Rightarrow> string option" where
  "bearerToken header =
     (if header = '''' then None
      else if length header < length bearerPrefix \<or>
        map ascii_lower (take (length bearerPrefix) header) \<noteq> map ascii_lower bearerPrefix then None
      else let token = TrimSpace (drop (length bearerPrefix) header)
        in if token \<noteq> '''' then Some token else None)"

text \<open>\<open>Inr None\<close> lets an anonymous request through, \<open>Inr (Some c)\<close> a request made by the user of \<open>c\<close>.\<close>

definition Authenticate ::
  "(string \<Rightarrow> string) \<Rightarrow> time \<Rightarrow> string \<Rightarrow> AccountState \<Rightarrow> Claims option result" where
  "Authenticate sign now header a =
     (case bearerToken header of
        None \<Rightarrow> Inr None
      | Some token \<Rightarrow>
          (case Tokens_Verify sign token now of
             Inl _ \<Rightarrow> Inl (Handler errInvalidToken)
           | Inr claims \<Rightarrow>
               if IsTokenRevoked (Claims_TokenID claims) a then Inl (Handler errInvalidToken)
               else Inr (Some claims)))"

section \<open>Signing out\<close>

lemma Tokens_Verify_later:
  assumes "Tokens_Verify sign token now = Inr claims"
  shows "Tokens_Verify sign token now' =
    (if now' < Claims_ExpiresAt claims then Inr claims else Inl (Auth ErrTokenExpired))"
  using assms by (auto simp: Tokens_Verify_def Let_def Before_def split: option.splits prod.splits if_splits)

definition revoked_until :: "string \<Rightarrow> time \<Rightarrow> AccountState \<Rightarrow> bool" where
  "revoked_until i t a \<longleftrightarrow> (\<exists>r. A_revoked a = Some r \<and> gomap_ok r \<and> map_of r i = Some t)"

lemma revoked_until_sweep:
  assumes "revoked_until i t a" "now < t"
  shows "revoked_until i t (fst (SweepRevocations now a))"
proof -
  obtain r where r: "A_revoked a = Some r" "gomap_ok r" "map_of r i = Some t"
    using assms(1) by (auto simp: revoked_until_def)
  have "map_of (filter (\<lambda>(i, t). Before now t) r) i = Some t"
    using map_of_filter_val [OF r(2), of "Before now" i] r(3) assms(2) by (simp add: Before_def del: map_of_eq_Some_iff)
  moreover have "gomap_ok (filter (\<lambda>(i, t). Before now t) r)" by (rule gomap_ok_filter [OF r(2)])
  ultimately show ?thesis
    using r(1) by (simp add: revoked_until_def SweepRevocations_def Token_DeleteExpired_eq)
qed

lemma revoked_until_sweeps:
  "revoked_until i t a \<Longrightarrow> \<forall>s \<in> set ts. s < t \<Longrightarrow>
     revoked_until i t (fold (\<lambda>s. fst \<circ> SweepRevocations s) ts a)"
  by (induction ts arbitrary: a) (simp_all add: revoked_until_sweep)

text \<open>C27. A signed-out session stays signed out. Once the holder of an accepted token has signed out, that
  token is refused on every later request, however often the revocation list was swept in between: a
  sweep drops the record only once the token has expired of itself.\<close>

theorem logged_out_is_refused:
  assumes "Authenticate sign now header a = Inr (Some claims)" and "A_revoked a = Some r" and "gomap_ok r"
    and "Logout (Claims_TokenID claims) (Claims_ExpiresAt claims) a = (a1, res)"
    and "\<forall>s \<in> set ts. s \<le> now'"
  shows "res = Inr () \<and>
    Authenticate sign now' header (fold (\<lambda>s. fst \<circ> SweepRevocations s) ts a1) = Inl (Handler errInvalidToken)"
proof -
  obtain token where t: "bearerToken header = Some token" "Tokens_Verify sign token now = Inr claims"
    using assms(1) by (auto simp: Authenticate_def split: option.splits sum.splits if_splits)
  have a1: "res = Inr ()" "revoked_until (Claims_TokenID claims) (Claims_ExpiresAt claims) a1"
    using assms(2-4) by (auto simp: Logout_def Revoke_def revoked_until_def)
  show ?thesis
  proof (cases "now' < Claims_ExpiresAt claims")
    case True
    then have "\<forall>s \<in> set ts. s < Claims_ExpiresAt claims" using assms(5) by auto
    from revoked_until_sweeps [OF a1(2) this]
    have "IsTokenRevoked (Claims_TokenID claims) (fold (\<lambda>s. fst \<circ> SweepRevocations s) ts a1)"
      by (auto simp: revoked_until_def IsTokenRevoked_def IsRevoked_def)
    then show ?thesis using t a1(1) Tokens_Verify_later [OF t(2), of now'] True by (simp add: Authenticate_def)
  next
    case False
    then show ?thesis using t a1(1) Tokens_Verify_later [OF t(2), of now'] by (simp add: Authenticate_def)
  qed
qed

definition empty_accounts :: AccountState where
  "empty_accounts = \<lparr>A_users = [], A_revoked = Some [], A_links = []\<rparr>"

lemma some_token_verified:
  "Tokens_Verify (\<lambda>_. ''sig'') some_token (9 * Second) =
     Inr \<lparr>Claims_UserID = ''u1'', Claims_TokenID = ''t1'', Claims_ExpiresAt = 10 * Second\<rparr>"
proof -
  have "Split CHR ''|'' ''u1|-62135596790|t1'' = [''u1'', ''-62135596790'', ''t1'']" by simp
  moreover have "Cut some_token CHR ''.'' = Some (encode ''u1|-62135596790|t1'', encode ''sig'')"
    unfolding some_token_def using Cut_append [OF dot_not_encoded] by simp
  ultimately show ?thesis
    using ParseInt64_Itoa [of "-62135596790"]
    by (simp add: Tokens_Verify_def decode_encode Before_def time_Unix_def unix_epoch_def Itoa_def nat_digits.simps)
qed

lemma some_token_no_space: "c \<in> set some_token \<Longrightarrow> c \<in> set (''.'' @ b64_alphabet)"
proof -
  have "set (encode s) \<subseteq> set b64_alphabet" for s
  proof -
    have "\<forall>b \<in> set (map of_char s :: nat list). b < 256" by auto
    from b64_groups_small [OF this] show ?thesis using b64_char_in by (auto simp: encode_def)
  qed
  then show "c \<in> set some_token \<Longrightarrow> c \<in> set (''.'' @ b64_alphabet)" by (auto simp: some_token_def)
qed

lemma some_header: "bearerToken (''Bearer '' @ some_token) = Some some_token"
proof -
  have "33 \<le> byte c \<and> byte c < 128" if "c \<in> set some_token" for c
    using some_token_no_space [OF that] by (auto simp: b64_alphabet_def)
  then have "TrimSpace some_token = some_token" by (intro TrimSpace_printable) blast
  moreover have "some_token \<noteq> ''''" by (simp add: some_token_def)
  ultimately show ?thesis by (simp add: bearerToken_def bearerPrefix_def)
qed

theorem logged_out_is_refused_witness:
  "Authenticate (\<lambda>_. ''sig'') (9 * Second) (''Bearer '' @ some_token) empty_accounts \<noteq> Inl (Handler errInvalidToken) \<and>
   Authenticate (\<lambda>_. ''sig'') (9 * Second) (''Bearer '' @ some_token)
     (fold (\<lambda>s. fst \<circ> SweepRevocations s) [8 * Second] (fst (Logout ''t1'' (10 * Second) empty_accounts)))
     = Inl (Handler errInvalidToken)"
proof -
  have ok: "Authenticate (\<lambda>_. ''sig'') (9 * Second) (''Bearer '' @ some_token) empty_accounts =
      Inr (Some \<lparr>Claims_UserID = ''u1'', Claims_TokenID = ''t1'', Claims_ExpiresAt = 10 * Second\<rparr>)"
    unfolding Authenticate_def some_header option.case some_token_verified
    by (simp add: IsTokenRevoked_def empty_accounts_def IsRevoked_def)
  from logged_out_is_refused [OF ok, of "[]" "fst (Logout ''t1'' (10 * Second) empty_accounts)" "Inr ()" "[8 * Second]" "9 * Second"]
  show ?thesis using ok by (simp add: empty_accounts_def Logout_def)
qed

section \<open>Registering and signing in\<close>

lemma Verification_Issue_users [simp]: "A_users (fst (Verification_Issue ttl tok now u e a)) = A_users a"
  by (simp add: Verification_Issue_def split: sum.split)

text \<open>C28. What a caller registers with is what lets them in, and signing in gives nothing away: after a
  registration the same address, however it is capitalised or padded, signs in with the password that
  matches the stored hash and gets a token for that account and no other; a password the hash does not
  match and an address nobody registered are answered alike and change nothing.\<close>

theorem register_then_login:
  assumes "Register lower verifier (Inr hash) newID now email password a = (a1, Inr user)"
    and "NormalizeEmail lower email2 = NormalizeEmail lower email" and "CHR ''|'' \<notin> set newID" and "newID \<noteq> ''''"
    and "Compare hash password = Inr ()" and "Compare hash wrong = Inl err"
    and "map_of (A_users a1) (NormalizeEmail lower other) = None"
  shows "(\<exists>a2 token. Login lower Compare rehash sign ttl hashed rid later email2 password a1 =
      (a2, Inr \<lparr>Session_Token = token, Session_UserID = newID, Session_ExpiresAt = later + ttl\<rparr>) \<and>
      Tokens_Issue sign rid newID (later + ttl) = Inr token) \<and>
    Login lower Compare rehash sign ttl hashed rid later email2 wrong a1 = (a1, Inl (Service ErrInvalidCredentials)) \<and>
    Login lower Compare rehash sign ttl hashed rid later other password a1 = (a1, Inl (Service ErrInvalidCredentials)) \<and>
    PasswordHash user = '''' \<and> \<not> IsAdmin (User_Role user) \<and> \<not> EmailVerified user"
proof -
  let ?e = "NormalizeEmail lower email" and ?u = "NewUser newID (NormalizeEmail lower email) hash now"
  obtain users where c: "CreateUser ?u (A_users a) = Inr users" and user: "user = ?u\<lparr>PasswordHash := ''''\<rparr>"
    and a1: "A_users a1 = users"
    using assms(1) by (auto simp: Register_def Let_def split: sum.splits option.splits)
  have "User_Email ?u = ?e" by (simp add: NewUser_def)
  then have "users = AList.update ?e ?u (A_users a)" using c by (simp add: CreateUser_def split: if_splits)
  then have at: "map_of (A_users a1) ?e = Some ?u" using a1 by simp
  have t: "\<exists>token. Tokens_Issue sign rid newID (later + ttl) = Inr token"
    using assms(3,4) by (simp add: Tokens_Issue_def Let_def)
  have "PasswordHash ?u = hash" "User_ID ?u = newID" by (simp_all add: NewUser_def)
  then show ?thesis
    using at t assms(2,5-7) user NewUser_not_admin [of newID ?e hash now] NewUser_not_verified [of newID ?e hash now]
    by (auto simp: Login_def GetUserByEmail_def Let_def time_Add_def IsAdmin_def EmailVerified_def simp del: map_of_eq_Some_iff)
qed

definition plain_compare :: "string \<Rightarrow> string \<Rightarrow> unit result" where
  "plain_compare hash password = (if hash = ''#'' @ password then Inr () else Inl (Auth ErrPasswordMismatch))"

lemma lower_ann: "NormalizeEmail (\<lambda>s. s) ''ann@b.c'' = ''ann@b.c''"
proof -
  have "TrimSpace ''ann@b.c'' = ''ann@b.c''" by (rule TrimSpace_printable) simp
  then show ?thesis by (simp add: NormalizeEmail_def ToLower_def is_ascii_def ascii_lower_def)
qed

theorem register_then_login_witness:
  "\<exists>a1 user a2 s. Register (\<lambda>s. s) None (Inr ''#secret77'') ''u1'' 5 ''ann@b.c'' ''secret77'' empty_accounts = (a1, Inr user) \<and>
     Login (\<lambda>s. s) plain_compare (\<lambda>_. False) (\<lambda>_. ''sig'') 60 (Inr '''') ''t1'' 9 ''ann@b.c'' ''secret77'' a1 = (a2, Inr s) \<and>
     Session_UserID s = ''u1''"
proof -
  have v: "ValidateEmail ''ann@b.c'' = Inr ()" by (simp add: ValidateEmail_def Cut_def)
  have p: "ValidatePassword ''secret77'' = Inr ()"
    using RuneCount_ascii [of "''secret77''"]
    by (simp add: ValidatePassword_def MinPasswordLength_def MaxPasswordLength_def is_ascii_def)
  obtain a1 user where r: "Register (\<lambda>s. s) None (Inr ''#secret77'') ''u1'' 5 ''ann@b.c'' ''secret77'' empty_accounts = (a1, Inr user)"
    by (simp add: Register_def Let_def lower_ann v p CreateUser_def NewUser_def empty_accounts_def)
  have "map_of (A_users a1) (NormalizeEmail (\<lambda>s. s) ''x'') = None"
  proof -
    have "TrimSpace ''x'' = ''x''" by (rule TrimSpace_printable) simp
    then have n: "NormalizeEmail (\<lambda>s. s) ''x'' = ''x''"
      by (simp add: NormalizeEmail_def ToLower_def is_ascii_def ascii_lower_def)
    show ?thesis
      unfolding n using r by (auto simp: Register_def Let_def lower_ann v p CreateUser_def NewUser_def empty_accounts_def)
  qed
  from register_then_login [OF r refl _ _ _ _ this, where Compare = plain_compare and wrong = "''other''"
      and rehash = "\<lambda>_. False" and sign = "\<lambda>_. ''sig''" and ttl = 60 and hashed = "Inr ''''" and rid = "''t1''" and later = 9]
  show ?thesis using r by (auto simp: plain_compare_def)
qed

section \<open>Confirming an address\<close>

text \<open>Following a link confirms the address it was sent to and nothing else: it succeeds only with a
  link on file that is still in time, for an account that still has that address; that account is then
  confirmed, every other account is as it was, and the link is spent. A link whose account has moved to
  another address confirms nobody.\<close>

theorem verify_confirms_one_address:
  assumes "users_inv (A_users a)" and "links_inv (A_links a)" and "now \<noteq> zero_time"
    and "Verification_Verify token now a = (a', res)"
  shows "(case res of
      Inr _ \<Rightarrow> \<exists>v u. map_of (A_links a) token = Some v \<and> now < Verification_ExpiresAt v \<and>
        map_of (A_users a) (Verification_Email v) = Some u \<and> User_ID u = Verification_UserID v \<and>
        A_users a' = AList.update (Verification_Email v) (u\<lparr>EmailVerifiedAt := now\<rparr>) (A_users a) \<and>
        EmailVerified (u\<lparr>EmailVerifiedAt := now\<rparr>) \<and> map_of (A_links a') token = None
    | Inl err \<Rightarrow> A_users a' = A_users a \<and> err = Domain ErrVerificationNotUsable) \<and>
    users_inv (A_users a') \<and> links_inv (A_links a')"
proof (cases "token = '''' \<or> (\<exists>err. snd (Consume token now (A_links a)) = Inl err)")
  case True
  have "Consume token now (A_links a) = (l, Inl err) \<Longrightarrow> l = A_links a \<and> err = Domain ErrVerificationNotUsable" for l err
    by (auto simp: Consume_def split: option.splits if_splits)
  then show ?thesis
    using True assms by (auto simp: Verification_Verify_def split: prod.splits sum.splits if_splits)
next
  case False
  then obtain links v where c: "Consume token now (A_links a) = (links, Inr v)" and tok: "token \<noteq> ''''"
    by (cases "Consume token now (A_links a)"; cases "snd (Consume token now (A_links a))") auto
  have v: "map_of (A_links a) token = Some v" "now < Verification_ExpiresAt v" "links = AList.delete token (A_links a)"
    using Consume_Inr [OF c] by (simp_all add: IsUsable_def Before_def)
  have li: "links_inv links" using Consume_inv [OF assms(2), of token now] c by simp
  show ?thesis
  proof (cases "MarkEmailVerified (Verification_UserID v) (Verification_Email v) now (A_users a)")
    case (Inl err)
    then have "err = Repository ErrUserNotFound" by (auto simp: MarkEmailVerified_def split: option.splits if_splits)
    then show ?thesis using Inl assms(1,4) c tok li by (auto simp: Verification_Verify_def)
  next
    case (Inr users)
    then obtain u where u: "map_of (A_users a) (Verification_Email v) = Some u" "User_ID u = Verification_UserID v"
      "users = AList.update (Verification_Email v) (u\<lparr>EmailVerifiedAt := now\<rparr>) (A_users a)"
      by (auto simp: MarkEmailVerified_def split: option.splits if_splits)
    have "users_inv users" by (rule MarkEmailVerified_inv [OF assms(1) Inr])
    moreover have "a' = a\<lparr>A_links := links, A_users := users\<rparr>" "res = Inr ()"
      using assms(4) c tok Inr by (simp_all add: Verification_Verify_def)
    ultimately show ?thesis
      using u v li assms(3) by (auto simp: EmailVerified_def IsZero_def simp del: map_of_eq_Some_iff)
  qed
qed

definition unverified_accounts :: AccountState where
  "unverified_accounts = \<lparr>A_users = [(''a@b.c'', NewUser ''u1'' ''a@b.c'' ''h'' 5)], A_revoked = None, A_links = [(''v1'', link_1)]\<rparr>"

theorem verify_confirms_one_address_witness:
  "\<exists>a' u. Verification_Verify ''v1'' 15 unverified_accounts = (a', Inr ()) \<and>
     map_of (A_users a') ''a@b.c'' = Some u \<and> EmailVerified u"
proof -
  obtain a' where v: "Verification_Verify ''v1'' 15 unverified_accounts = (a', Inr ())"
    by (simp add: Verification_Verify_def unverified_accounts_def Consume_def link_1_def IsUsable_def go_time
        MarkEmailVerified_def NewUser_def)
  have inv: "users_inv (A_users unverified_accounts)" "links_inv (A_links unverified_accounts)"
    using link_1_inv by (simp_all add: unverified_accounts_def users_inv_def NewUser_def)
  from verify_confirms_one_address [OF inv _ v] obtain v' u where
    "map_of (A_links unverified_accounts) ''v1'' = Some v'"
    "A_users a' = AList.update (Verification_Email v') (u\<lparr>EmailVerifiedAt := 15\<rparr>) (A_users unverified_accounts)"
    "EmailVerified (u\<lparr>EmailVerifiedAt := 15\<rparr>)" by auto
  moreover from this(1) have "v' = link_1" by (simp add: unverified_accounts_def)
  ultimately show ?thesis using v by (auto simp: link_1_def)
qed

end
