(* ===== verification/Service_Machine.thy ===== *)
theory Service_Machine
  imports Inventory Accounts
begin

text \<open>
  The services together, as a step relation on the state they share: every call a request, a handoff
  worker, the sweeper or an administrator can make, in any order. The properties here are about whole
  runs of the server. Two assumptions are built into the steps: the ids drawn for holds and users are
  new, and the ids drawn for events have no slash (\<open>rand.Text\<close> draws letters and digits).
\<close>

section \<open>Runs of the server\<close>

inductive service_step :: "ServiceConfig \<Rightarrow> InventoryConfig \<Rightarrow> url_parser \<Rightarrow> World \<Rightarrow> World \<Rightarrow> bool"
  for cfg icfg url_Parse
where
  does_hold: "hold_is_new (W_seats w) holdID \<Longrightarrow>
    service_step cfg icfg url_Parse w (fst (HoldSeat cfg now at holdID eventID seatID userID w))"
| does_confirm: "service_step cfg icfg url_Parse w (fst (ConfirmReservation cfg now at newID holdID userID w))"
| does_release: "service_step cfg icfg url_Parse w (fst (ReleaseSeat cfg at holdID userID w))"
| does_sweep: "service_step cfg icfg url_Parse w (fst (Sweep cfg now w))"
| does_hand: "hold_is_new (W_seats w) holdID \<Longrightarrow>
    service_step cfg icfg url_Parse w (hand_next cfg now at1 at2 holdID w)"
| does_join: "service_step cfg icfg url_Parse w (fst (WaitingList_Join cfg now newID eventID userID w))"
| does_leave: "service_step cfg icfg url_Parse w (WaitingList_Leave eventID userID w)"
| does_create: "slash_free newID \<Longrightarrow>
    service_step cfg icfg url_Parse w (fst (Inventory_CreateEvent url_Parse newID name venue startsAt details w))"
| does_update: "service_step cfg icfg url_Parse w (fst (Inventory_UpdateEvent url_Parse eventID name venue startsAt change w))"
| does_cancel: "service_step cfg icfg url_Parse w (fst (CancelEvent icfg newIDs now at now1 now2 eventID w))"
| does_delete: "service_step cfg icfg url_Parse w (fst (Inventory_DeleteEvent eventID w))"
| does_add: "service_step cfg icfg url_Parse w (fst (AddSeats eventID rows perRow w))"
| does_register: "user_id_new (W_users w) (User_ID user) \<Longrightarrow> CreateUser user (W_users w) = Inr users \<Longrightarrow>
    service_step cfg icfg url_Parse w (w\<lparr>W_users := users\<rparr>)"
| does_verify: "MarkEmailVerified userID email now (W_users w) = Inr users \<Longrightarrow> now \<noteq> zero_time \<Longrightarrow>
    service_step cfg icfg url_Parse w (w\<lparr>W_users := users\<rparr>)"
| does_role: "SetRole email role (W_users w) = Inr users \<Longrightarrow> service_step cfg icfg url_Parse w (w\<lparr>W_users := users\<rparr>)"
| does_rehash: "UpdatePasswordHash userID hash (W_users w) = Inr users \<Longrightarrow>
    service_step cfg icfg url_Parse w (w\<lparr>W_users := users\<rparr>)"
| does_deliver: "service_step cfg icfg url_Parse w (w\<lparr>W_inbox := inbox, W_outbox := outbox, W_push := subscriptions\<rparr>)"

abbreviation service_steps :: "ServiceConfig \<Rightarrow> InventoryConfig \<Rightarrow> url_parser \<Rightarrow> World \<Rightarrow> World \<Rightarrow> bool" where
  "service_steps cfg icfg url_Parse \<equiv> (service_step cfg icfg url_Parse)\<^sup>*\<^sup>*"

definition event_ids_ok :: "World \<Rightarrow> bool" where
  "event_ids_ok w \<longleftrightarrow> (\<forall>k. map_of (W_events w) k \<noteq> None \<longrightarrow> slash_free k)"

definition service_inv :: "World \<Rightarrow> bool" where
  "service_inv w \<longleftrightarrow> world_inv w \<and> event_ids_ok w"

lemma service_invD: "service_inv w \<Longrightarrow> world_inv w" "service_inv w \<Longrightarrow> event_ids_ok w"
  by (simp_all add: service_inv_def)

section \<open>Every step keeps the invariant\<close>

lemma AddSeats_unknown: "map_of (W_events w) e = None \<Longrightarrow> fst (AddSeats e rows n w) = w"
  by (simp add: AddSeats_def GetEvent_def)

lemma AddSeats_service_inv: "service_inv w \<Longrightarrow> world_inv (fst (AddSeats e rows n w))"
  using AddSeats_unknown [of w e rows n] AddSeats_inv [of w e rows n]
  by (cases "map_of (W_events w) e") (auto simp: service_inv_def event_ids_ok_def)

lemma world_inv_users: "world_inv w \<Longrightarrow> users_inv users \<Longrightarrow> world_inv (w\<lparr>W_users := users\<rparr>)"
  by (simp add: world_inv_def)

lemma service_step_world_inv: "service_step cfg icfg p w w' \<Longrightarrow> service_inv w \<Longrightarrow> world_inv w'"
proof (induction rule: service_step.induct)
  case (does_deliver w)
  then show ?case by (simp add: service_inv_def world_inv_def)
qed (auto dest: service_invD(1) intro: keeps_inv AddSeats_service_inv intro!: world_inv_users dest: world_invD(3)
  intro: CreateUser_inv MarkEmailVerified_inv SetRole_inv UpdatePasswordHash_inv)

lemma hand_result_others [simp]:
  "W_events (hand_result at seat x a) = W_events (fst a)" "W_users (hand_result at seat x a) = W_users (fst a)"
  by (auto simp: hand_result_def split: prod.split sum.split option.split)

lemma hand_next_others [simp]:
  "W_events (hand_next cfg now at1 at2 h w) = W_events w" "W_users (hand_next cfg now at1 at2 h w) = W_users w"
  by (auto simp: hand_next_def hand_def split: list.split prod.split sum.split)

lemma Sweep_others [simp]: "W_events (fst (Sweep cfg now w)) = W_events w" "W_users (fst (Sweep cfg now w)) = W_users w"
  by (simp_all add: Sweep_def Let_def case_prod_unfold)

lemma queue_others [simp]:
  "W_events (fst (WaitingList_Join cfg now n e u w)) = W_events w" "W_users (fst (WaitingList_Join cfg now n e u w)) = W_users w"
  "W_events (WaitingList_Leave e u w) = W_events w" "W_users (WaitingList_Leave e u w) = W_users w"
  "W_seats (WaitingList_Leave e u w) = W_seats w"
  by (auto simp: WaitingList_Join_def WaitingList_Leave_def Let_def case_prod_unfold split: sum.split)

lemma inventory_users [simp]:
  "W_users (fst (Inventory_CreateEvent p i n v t d w)) = W_users w"
  "W_users (fst (Inventory_UpdateEvent p e n v t f w)) = W_users w"
  "W_users (fst (CancelEvent c ids t1 t2 t3 t4 e w)) = W_users w"
  "W_users (fst (Inventory_DeleteEvent e w)) = W_users w"
  "W_users (fst (AddSeats e rows m w)) = W_users w" "W_events (fst (AddSeats e rows m w)) = W_events w"
  by (auto simp: Inventory_CreateEvent_def Inventory_UpdateEvent_def CancelEvent_def Inventory_DeleteEvent_def AddSeats_def
      case_prod_unfold Let_def split: sum.split)

lemma UpdateEvent_dom: "map_of (fst (UpdateEvent e f r)) k \<noteq> None \<Longrightarrow> map_of r k \<noteq> None"
  by (auto simp: UpdateEvent_def simp del: map_of_eq_Some_iff split: option.splits sum.splits if_splits)

lemma CancelEvent_events: "W_events (fst (CancelEvent c ids t1 t2 t3 t4 e w)) = fst (UpdateEvent e (Event_Cancel t1) (W_events w))"
  by (auto simp: CancelEvent_def split: prod.split sum.split)

lemma CreateEvent_dom: "map_of (W_events (fst (Inventory_CreateEvent p i n v t d w))) k \<noteq> None \<Longrightarrow>
    map_of (W_events w) k \<noteq> None \<or> k = i"
  by (auto simp: Inventory_CreateEvent_def CreateEvent_def NewEvent_def Let_def simp del: map_of_eq_Some_iff
      split: sum.splits if_splits)

lemma DeleteEvent_dom: "map_of (W_events (fst (Inventory_DeleteEvent e w))) k \<noteq> None \<Longrightarrow> map_of (W_events w) k \<noteq> None"
  by (auto simp: Inventory_DeleteEvent_def DeleteEvent_def simp del: map_of_eq_Some_iff split: sum.splits if_splits)

lemma service_step_event_ids: "service_step cfg icfg p w w' \<Longrightarrow> event_ids_ok w \<Longrightarrow> event_ids_ok w'"
  unfolding event_ids_ok_def
proof (induction rule: service_step.induct)
  case (does_create newID w name venue startsAt details)
  then show ?case using CreateEvent_dom by blast
next
  case (does_update w eventID name venue startsAt change)
  then show ?case using UpdateEvent_dom [of eventID _ "W_events w"]
    by (simp add: Inventory_UpdateEvent_def case_prod_unfold Let_def del: map_of_eq_Some_iff)
next
  case (does_cancel w newIDs now at now1 now2 eventID)
  then show ?case unfolding CancelEvent_events using UpdateEvent_dom by blast
next
  case (does_delete w eventID)
  then show ?case using DeleteEvent_dom by blast
qed simp_all

lemma service_step_inv: "service_step cfg icfg p w w' \<Longrightarrow> service_inv w \<Longrightarrow> service_inv w'"
  using service_step_world_inv service_step_event_ids by (metis service_inv_def)

lemma service_steps_inv: "service_steps cfg icfg p w w' \<Longrightarrow> service_inv w \<Longrightarrow> service_inv w'"
  by (induction rule: rtranclp_induct) (auto intro: service_step_inv)

lemma service_step_seats:
  "service_step cfg icfg p w w' \<Longrightarrow> event_ids_ok w \<Longrightarrow> seat_steps (W_seats w) (W_seats w')"
proof (induction rule: service_step.induct)
  case (does_add w eventID rows perRow)
  then show ?case using AddSeats_unknown [of w eventID rows perRow] AddSeats_seats [of eventID w rows perRow]
    by (cases "map_of (W_events w) eventID") (auto simp: event_ids_ok_def)
qed (simp_all add: service_seats)

lemma service_steps_seats:
  "service_steps cfg icfg p w w' \<Longrightarrow> service_inv w \<Longrightarrow> seat_steps (W_seats w) (W_seats w')"
proof (induction rule: rtranclp_induct)
  case (step w1 w2)
  have "event_ids_ok w1" by (rule service_invD(2)) (rule service_steps_inv [OF step.hyps(1) step.prems])
  from service_step_seats [OF step.hyps(2) this] step.IH [OF step.prems] show ?case by (rule rtranclp_trans [rotated])
qed simp

section \<open>Who a seat is sold to\<close>

text \<open>Between two states of the seat store, seats were sold to accounts that satisfy \<open>P\<close> only.\<close>

definition sales_to :: "(string \<Rightarrow> bool) \<Rightarrow> SeatStore \<Rightarrow> SeatStore \<Rightarrow> bool" where
  "sales_to P r r' \<longleftrightarrow> (\<forall>k u c. ledger r' k = Some (Sold u c) \<longrightarrow> ledger r k = Some (Sold u c) \<or> P u)"

lemma sales_same [simp]: "sales_to P r r"
  by (simp add: sales_to_def)

lemma sales_weaken: "sales_to (\<lambda>_. False) r r' \<Longrightarrow> sales_to P r r'"
  by (simp add: sales_to_def)

definition sells_to :: "(string \<Rightarrow> bool) \<Rightarrow> (Seat \<Rightarrow> Seat result) \<Rightarrow> bool" where
  "sells_to P f \<longleftrightarrow> (\<forall>s s'. f s = Inr s' \<longrightarrow> Seat_Status s' = StatusReserved \<longrightarrow> P (ReservedBy s'))"

lemma domain_sales:
  "sells_to (\<lambda>_. False) (Seat_Hold h u d now)" "sells_to (\<lambda>_. False) (Seat_Release u)"
  "sells_to (\<lambda>v. v = u) (Seat_Confirm u c now)"
  by (auto simp: sells_to_def seat_ops split: if_splits)

lemma sales_update:
  "Seat_Status s' = StatusReserved \<longrightarrow> P (ReservedBy s') \<Longrightarrow> sales_to P r (AList.update k s' r)"
  by (auto simp: sales_to_def ledger_Sold simp del: map_of_eq_Some_iff split: if_splits)

lemma UpdateSeat_sales: "sells_to P f \<Longrightarrow> sales_to P r (fst (UpdateSeat e i f r))"
  by (auto simp: UpdateSeat_def Let_def sells_to_def intro!: sales_update split: option.split sum.split)

lemma UpdateSeatByHoldID_sales: "sells_to P f \<Longrightarrow> sales_to P r (fst (UpdateSeatByHoldID h f r))"
  by (auto simp: UpdateSeatByHoldID_def sells_to_def intro!: sales_update split: option.split sum.split)

lemma ExpireHolds_sales: "sales_to P r (fst (ExpireHolds now r))"
  unfolding sales_to_def
proof (intro allI impI disjI1)
  fix k u c assume "ledger (fst (ExpireHolds now r)) k = Some (Sold u c)"
  then show "ledger r k = Some (Sold u c)"
    by (cases "map_of r k") (auto simp: ledger_Sold map_of_ExpireHolds seat_ops simp del: map_of_eq_Some_iff split: if_splits)
qed

lemma CreateSeats_sales: "new_stock seats \<Longrightarrow> sales_to P r (fst (CreateSeats seats r))"
  unfolding sales_to_def
proof (intro allI impI disjI1)
  fix k u c assume "new_stock seats" "ledger (fst (CreateSeats seats r)) k = Some (Sold u c)"
  moreover from this(1) have "find (\<lambda>s. key_of s = k) seats = Some s \<Longrightarrow> Seat_Status s = StatusAvailable" for s
    by (auto simp: find_Some_iff new_stock_def)
  ultimately show "ledger r k = Some (Sold u c)"
    by (cases "map_of r k"; cases "find (\<lambda>s. key_of s = k) seats")
      (auto simp: ledger_Sold CreateSeats_def map_of_create_loop simp del: map_of_eq_Some_iff)
qed

lemma HoldSeat_sales: "sales_to P (W_seats w) (W_seats (fst (HoldSeat cfg now at h e i u w)))"
  using UpdateSeat_sales [OF domain_sales(1), of "W_seats w" e i h u "HoldTTL cfg" now, THEN sales_weaken]
  by (auto simp: HoldSeat_def announceSeatChange_def Let_def case_prod_unfold split: sum.split option.split)

lemma ConfirmReservation_sales:
  assumes "\<And>v. MayTakeSeat (Gate cfg) v (W_users w) = Inr () \<Longrightarrow> P v"
  shows "sales_to P (W_seats w) (W_seats (fst (ConfirmReservation cfg now at n h u w)))"
proof (cases "MayTakeSeat (Gate cfg) u (W_users w)")
  case (Inr x)
  then have "sells_to P (Seat_Confirm u (FormatTicketCode (take 8 n)) now)"
    using assms domain_sales(3) by (auto simp: sells_to_def)
  from UpdateSeatByHoldID_sales [OF this, of "W_seats w" h] show ?thesis
    by (auto simp: ConfirmReservation_def announceSeatChange_def Let_def case_prod_unfold split: sum.split)
qed (simp add: ConfirmReservation_def)

lemma ReleaseSeat_sales: "sales_to P (W_seats w) (W_seats (fst (ReleaseSeat cfg at h u w)))"
  using UpdateSeatByHoldID_sales [OF domain_sales(2), of "W_seats w" h u, THEN sales_weaken]
  by (auto simp: ReleaseSeat_def announceSeatChange_def Let_def case_prod_unfold split: sum.split)

lemma hand_next_sales: "sales_to P (W_seats w) (W_seats (hand_next cfg now at1 at2 h w))"
  using HoldSeat_sales [of P "w\<lparr>W_freed := rest, W_waiting := q\<rparr>" cfg now at1 h for rest q]
  by (auto simp: hand_next_def hand_def split: list.split prod.split sum.split)

lemma AddSeats_sales: "event_ids_ok w \<Longrightarrow> sales_to P (W_seats w) (W_seats (fst (AddSeats e rows n w)))"
  using CreateSeats_sales [of _ P "W_seats w"] NewSeatBlock_stock [of e rows n]
  by (auto simp: AddSeats_def event_ids_ok_def GetEvent_def Let_def case_prod_unfold split: sum.split option.splits)

lemma service_step_sales:
  assumes "service_step cfg icfg p w w'" "event_ids_ok w" "\<And>v. MayTakeSeat (Gate cfg) v (W_users w) = Inr () \<Longrightarrow> P v"
  shows "sales_to P (W_seats w) (W_seats w')"
  using assms
proof (induction rule: service_step.induct)
  case (does_sweep w now)
  then show ?case by (simp add: Sweep_def Let_def case_prod_unfold ExpireHolds_sales)
qed (simp_all add: HoldSeat_sales ConfirmReservation_sales ReleaseSeat_sales hand_next_sales AddSeats_sales)

section \<open>Only verified accounts own tickets\<close>

definition verified_account :: "UserStore \<Rightarrow> string \<Rightarrow> bool" where
  "verified_account users u \<longleftrightarrow> (case GetUserByID u users of Inl _ \<Rightarrow> False | Inr x \<Rightarrow> EmailVerified x)"

lemma verified_account_iff:
  assumes "users_inv r"
  shows "verified_account r u \<longleftrightarrow> (\<exists>k x. map_of r k = Some x \<and> User_ID x = u \<and> EmailVerified x)"
proof (cases "find_user u r")
  case None
  then have "user_id_new r u" using find_user_None [OF users_invD(1) [OF assms], of u] by simp
  moreover have "\<not> verified_account r u" using None by (simp add: verified_account_def GetUserByID_def)
  ultimately show ?thesis unfolding user_id_new_def by blast
next
  case (Some p)
  obtain k x where p: "p = (k, x)" by force
  have x: "map_of r k = Some x" "User_ID x = u" using find_user_Some [OF users_invD(1) [OF assms]] Some p by blast+
  have "y = x" if "map_of r j = Some y" "User_ID y = u" for j y
    using find_user_unique [OF assms that] Some p by simp
  moreover have "verified_account r u = EmailVerified x" using Some p by (simp add: verified_account_def GetUserByID_def)
  ultimately show ?thesis using x by blast
qed

lemma verified_update:
  assumes "users_inv r" "users_inv (AList.update k x r)" "verified_account r u"
    and "\<And>y. map_of r k = Some y \<Longrightarrow> User_ID x = User_ID y \<and> (EmailVerified y \<longrightarrow> EmailVerified x)"
  shows "verified_account (AList.update k x r) u"
proof -
  obtain j y where y: "map_of r j = Some y" "User_ID y = u" "EmailVerified y"
    using assms(3) verified_account_iff [OF assms(1)] by blast
  show ?thesis unfolding verified_account_iff [OF assms(2)]
  proof (cases "j = k")
    case True
    then have "map_of (AList.update k x r) k = Some x \<and> User_ID x = u \<and> EmailVerified x" using y assms(4) by simp
    then show "\<exists>k' z. map_of (AList.update k x r) k' = Some z \<and> User_ID z = u \<and> EmailVerified z" by blast
  next
    case False
    then have "map_of (AList.update k x r) j = Some y" using y(1) by (simp del: map_of_eq_Some_iff)
    then show "\<exists>k' z. map_of (AList.update k x r) k' = Some z \<and> User_ID z = u \<and> EmailVerified z" using y by blast
  qed
qed

lemma user_steps_verified:
  assumes "users_inv r" "verified_account r u"
  shows "user_id_new r (User_ID x) \<Longrightarrow> CreateUser x r = Inr r' \<Longrightarrow> verified_account r' u"
    "MarkEmailVerified i e now r = Inr r' \<Longrightarrow> now \<noteq> zero_time \<Longrightarrow> verified_account r' u"
    "SetRole e role r = Inr r' \<Longrightarrow> verified_account r' u"
    "UpdatePasswordHash i h r = Inr r' \<Longrightarrow> verified_account r' u"
proof -
  note up = verified_update [OF assms(1) _ assms(2)]
  show "verified_account r' u" if new: "user_id_new r (User_ID x)" "CreateUser x r = Inr r'"
    using CreateUser_inv [OF assms(1) new] new(2) up [of "User_Email x" x]
    by (simp add: CreateUser_def split: if_splits)
  show "verified_account r' u" if "MarkEmailVerified i e now r = Inr r'" "now \<noteq> zero_time"
    using MarkEmailVerified_inv [OF assms(1) that(1)] that up [of e]
    by (auto simp: MarkEmailVerified_def EmailVerified_def IsZero_def simp del: map_of_eq_Some_iff split: option.splits if_splits)
  show "verified_account r' u" if "SetRole e role r = Inr r'"
    using SetRole_inv [OF assms(1) that] that up [of e]
    by (auto simp: SetRole_def EmailVerified_def simp del: map_of_eq_Some_iff split: option.splits)
  show "verified_account r' u" if h: "UpdatePasswordHash i h r = Inr r'"
  proof -
    obtain k y where y: "find_user i r = Some (k, y)" "r' = AList.update k (y\<lparr>PasswordHash := h\<rparr>) r"
      using h by (auto simp: UpdatePasswordHash_def split: option.splits)
    have "map_of r k = Some y" using find_user_Some [OF users_invD(1) [OF assms(1)] y(1)] by blast
    then show ?thesis using UpdatePasswordHash_inv [OF assms(1) h] up [of k "y\<lparr>PasswordHash := h\<rparr>"]
      unfolding y(2) by (simp add: EmailVerified_def del: map_of_eq_Some_iff)
  qed
qed

lemma service_step_verified:
  assumes "service_step cfg icfg p w w'" "service_inv w" "verified_account (W_users w) u"
  shows "verified_account (W_users w') u"
proof -
  have inv: "users_inv (W_users w)" using assms(2) by (simp add: service_inv_def world_inv_def)
  note keep = user_steps_verified [OF inv assms(3)]
  from assms(1) show ?thesis
    by (cases rule: service_step.cases) (auto intro: keep assms(3))
qed

lemma may_take_verified: "MayTakeSeat VerifiedOnly u users = Inr () \<Longrightarrow> verified_account users u"
  by (auto simp: MayTakeSeat_def verified_account_def split: sum.splits if_splits)

definition owners_verified :: "World \<Rightarrow> bool" where
  "owners_verified w \<longleftrightarrow> (\<forall>k u c. ledger (W_seats w) k = Some (Sold u c) \<longrightarrow> verified_account (W_users w) u)"

lemma service_step_owners:
  assumes "service_step cfg icfg p w w'" "service_inv w" "Gate cfg = VerifiedOnly" "owners_verified w"
  shows "owners_verified w'"
proof -
  have "sales_to (verified_account (W_users w)) (W_seats w) (W_seats w')"
    by (rule service_step_sales [OF assms(1) service_invD(2) [OF assms(2)]]) (simp add: assms(3) may_take_verified)
  then show ?thesis
    using assms(4) service_step_verified [OF assms(1,2)] unfolding owners_verified_def sales_to_def by blast
qed

lemma service_steps_owners:
  "service_steps cfg icfg p w w' \<Longrightarrow> service_inv w \<Longrightarrow> Gate cfg = VerifiedOnly \<Longrightarrow> owners_verified w \<Longrightarrow> owners_verified w'"
proof (induction rule: rtranclp_induct)
  case (step w1 w2)
  then show ?case using service_step_owners [OF step.hyps(2) service_steps_inv [OF step.hyps(1)]] by blast
qed simp

lemma sales_are_final:
  assumes "service_inv w0" and "service_steps cfg icfg url_Parse w0 w1" and "service_steps cfg icfg url_Parse w1 w2"
    and "ledger (W_seats w1) k = Some (Sold u c)"
  shows "service_inv w2 \<and> ledger (W_seats w2) k = Some (Sold u c) \<and>
    (Gate cfg = VerifiedOnly \<longrightarrow> owners_verified w0 \<longrightarrow> verified_account (W_users w2) u)"
proof -
  have inv: "service_inv w1" "service_inv w2" using service_steps_inv assms(1-3) by blast+
  have "ledger (W_seats w2) k = Some (Sold u c)"
    using sold_stays_forever [OF service_steps_seats [OF assms(3) inv(1)]] assms(4) inv(1)
    unfolding ledger_Sold by (metis service_invD(1) world_invD(1))
  moreover have "verified_account (W_users w2) u" if "Gate cfg = VerifiedOnly" "owners_verified w0"
    using service_steps_owners [OF rtranclp_trans [OF assms(2,3)] assms(1) that] calculation
    unfolding owners_verified_def by blast
  ultimately show ?thesis using inv by blast
qed

text \<open>The server sells no seat twice and sells none to a stranger. However holds, confirmations,
  releases, sweeps, handoffs, queueing, stocking, withdrawals, registrations and deliveries follow one
  another, the stores keep their invariants, a sold seat keeps its owner and its ticket for good, and
  where only confirmed addresses may buy, every owner of a ticket has an account whose address was
  confirmed.\<close>

theorem server_sells_once:
  assumes "service_inv w0" and "service_steps cfg icfg url_Parse w0 w1" and "service_steps cfg icfg url_Parse w1 w2"
    and "ledger (W_seats w1) k = Some (Sold u c)"
  shows "service_inv w2 \<and> ledger (W_seats w2) k = Some (Sold u c) \<and>
    (Gate cfg = VerifiedOnly \<longrightarrow> owners_verified w0 \<longrightarrow> verified_account (W_users w2) u)"
  using sales_are_final [OF assms] .

definition buying_world :: World where
  "buying_world = held_world\<lparr>W_users := [(''a@b.c'', alice_account)]\<rparr>"

definition strict_cfg :: ServiceConfig where
  "strict_cfg = small_cfg\<lparr>Gate := VerifiedOnly\<rparr>"

lemma buying_world_inv: "service_inv buying_world"
proof -
  have "users_inv [(''a@b.c'', alice_account)]" by (simp add: users_inv_def alice_account_def NewUser_def)
  moreover have "event_ids_ok buying_world"
    by (simp add: event_ids_ok_def buying_world_def held_world_def small_world_def slash_free_def)
  ultimately show ?thesis using held_world_inv by (simp add: service_inv_def world_inv_def buying_world_def)
qed

lemma buying_world_sale:
  "ledger (W_seats (fst (ConfirmReservation strict_cfg 399 400 ''ABCDEFGHJ'' ''h1'' ''alice'' buying_world)))
     (seatKey ''event-1'' ''A1'') = Some (Sold ''alice'' (FormatTicketCode ''ABCDEFGH''))"
  by (simp add: ConfirmReservation_def UpdateSeatByHoldID_def buying_world_def strict_cfg_def held_world_def store_A1_def small
      Let_def GetUserByID_def alice_account_def NewUser_def EmailVerified_def ledger_def announceSeatChange_def)

theorem server_sells_once_witness:
  "verified_account (W_users (fst (Sweep strict_cfg 500
     (fst (ConfirmReservation strict_cfg 399 400 ''ABCDEFGHJ'' ''h1'' ''alice'' buying_world))))) ''alice''"
proof -
  let ?w1 = "fst (ConfirmReservation strict_cfg 399 400 ''ABCDEFGHJ'' ''h1'' ''alice'' buying_world)"
  have "service_steps strict_cfg full_cfg (\<lambda>_. None) buying_world ?w1" by (rule r_into_rtranclp) (rule does_confirm)
  moreover have "service_steps strict_cfg full_cfg (\<lambda>_. None) ?w1 (fst (Sweep strict_cfg 500 ?w1))"
    by (rule r_into_rtranclp) (rule does_sweep)
  moreover have "owners_verified buying_world"
    by (simp add: owners_verified_def ledger_def buying_world_def held_world_def store_A1_def sample_seats split: if_splits)
  moreover have "Gate strict_cfg = VerifiedOnly" by (simp add: strict_cfg_def)
  ultimately show ?thesis using server_sells_once [OF buying_world_inv _ _ buying_world_sale] by blast
qed

section \<open>A withdrawn event\<close>

text \<open>What may still happen to a place of a withdrawn event: a hold runs out, is given up or is turned into the
  ticket its holder was buying, and an administrator may add places. Nobody takes a place any more.\<close>

fun frozen_step :: "place option \<Rightarrow> place option \<Rightarrow> bool" where
  "frozen_step (Some (Taken u h)) q = (q = Some (Taken u h) \<or> q = Some Free \<or> (\<exists>c. q = Some (Sold u c)))"
| "frozen_step None q = (q = None \<or> q = Some Free)"
| "frozen_step p q = (q = p)"

lemma frozen_refl [simp]: "frozen_step p p"
  by (cases "(p, p)" rule: frozen_step.cases) auto

lemma place_step_frozen:
  "place_step p q \<Longrightarrow> (\<And>u h. q = Some (Taken u h) \<Longrightarrow> p = q) \<Longrightarrow> frozen_step p q"
  by (induction rule: place_step.induct) auto

text \<open>Between two states no place among \<open>K\<close> was taken by anybody.\<close>

definition none_taken :: "string set \<Rightarrow> SeatStore \<Rightarrow> SeatStore \<Rightarrow> bool" where
  "none_taken K r r' \<longleftrightarrow> (\<forall>k \<in> K. \<forall>u h. ledger r' k = Some (Taken u h) \<longrightarrow> ledger r k = Some (Taken u h))"

lemma none_taken_same [simp]: "none_taken K r r"
  by (simp add: none_taken_def)

lemma ledger_Taken: "ledger r k = Some (Taken u h) \<longleftrightarrow>
  (\<exists>s. map_of r k = Some s \<and> Seat_Status s = StatusHeld \<and> HeldBy s = u \<and> HoldID s = h)"
proof (cases "map_of r k")
  case (Some s)
  then show ?thesis by (cases "Seat_Status s") (simp_all add: ledger_def del: map_of_eq_Some_iff)
qed (simp add: ledger_def)

lemma none_taken_update: "Seat_Status s' \<noteq> StatusHeld \<or> k \<notin> K \<Longrightarrow> none_taken K r (AList.update k s' r)"
  by (auto simp: none_taken_def ledger_Taken simp del: map_of_eq_Some_iff split: if_splits)

lemma UpdateSeatByHoldID_none_taken:
  "(\<And>s s'. f s = Inr s' \<Longrightarrow> Seat_Status s' \<noteq> StatusHeld) \<Longrightarrow> none_taken K r (fst (UpdateSeatByHoldID h f r))"
  by (auto simp: UpdateSeatByHoldID_def intro!: none_taken_update split: option.split sum.split)

lemma ExpireHolds_none_taken: "none_taken K r (fst (ExpireHolds now r))"
  unfolding none_taken_def
proof (intro ballI allI impI)
  fix k u h assume "ledger (fst (ExpireHolds now r)) k = Some (Taken u h)"
  then show "ledger r k = Some (Taken u h)"
    by (cases "map_of r k") (auto simp: ledger_Taken map_of_ExpireHolds seat_ops simp del: map_of_eq_Some_iff split: if_splits)
qed

lemma CreateSeats_none_taken: "new_stock seats \<Longrightarrow> none_taken K r (fst (CreateSeats seats r))"
  unfolding none_taken_def
proof (intro ballI allI impI)
  fix k u h assume "new_stock seats" "ledger (fst (CreateSeats seats r)) k = Some (Taken u h)"
  moreover from this(1) have "find (\<lambda>s. key_of s = k) seats = Some s \<Longrightarrow> Seat_Status s = StatusAvailable" for s
    by (auto simp: find_Some_iff new_stock_def)
  ultimately show "ledger r k = Some (Taken u h)"
    by (cases "map_of r k"; cases "find (\<lambda>s. key_of s = k) seats")
      (auto simp: ledger_Taken CreateSeats_def map_of_create_loop simp del: map_of_eq_Some_iff)
qed

definition withdrawn :: "string \<Rightarrow> World \<Rightarrow> bool" where
  "withdrawn e w \<longleftrightarrow> (\<exists>ev. map_of (W_events w) e = Some ev \<and> IsCancelled ev)"

abbreviation places_of :: "string \<Rightarrow> string set" where
  "places_of e \<equiv> range (seatKey e)"

lemma HoldSeat_once:
  assumes "hold_is_new (W_seats w) h"
  shows "W_seats (fst (HoldSeat cfg now at h e i u w)) = W_seats w \<or>
    seat_step (W_seats w) (W_seats (fst (HoldSeat cfg now at h e i u w)))"
  using step_hold [OF assms, of e i u "HoldTTL cfg" now]
  by (auto simp: HoldSeat_def announceSeatChange_def Let_def case_prod_unfold split: sum.split option.split)

lemma hand_next_once:
  assumes "hold_is_new (W_seats w) h"
  shows "W_seats (hand_next cfg now at1 at2 h w) = W_seats w \<or> seat_step (W_seats w) (W_seats (hand_next cfg now at1 at2 h w))"
  using HoldSeat_once [of "w\<lparr>W_freed := rest, W_waiting := q\<rparr>" h cfg now at1 for rest q] assms
  by (auto simp: hand_next_def hand_def split: list.split prod.split sum.split)

lemma service_step_once:
  "service_step cfg icfg p w w' \<Longrightarrow> event_ids_ok w \<Longrightarrow> W_seats w' = W_seats w \<or> seat_step (W_seats w) (W_seats w')"
proof (induction rule: service_step.induct)
  case (does_confirm w now at newID holdID userID)
  show ?case using step_confirm [of "W_seats w" holdID userID "FormatTicketCode (take 8 newID)" now]
    by (auto simp: ConfirmReservation_def announceSeatChange_def Let_def case_prod_unfold split: sum.split)
next
  case (does_release w at holdID userID)
  show ?case using step_release [of "W_seats w" holdID userID]
    by (auto simp: ReleaseSeat_def announceSeatChange_def Let_def case_prod_unfold split: sum.split)
next
  case (does_sweep w now)
  show ?case using step_expire [of "W_seats w" now] by (simp add: Sweep_def Let_def case_prod_unfold)
next
  case (does_add w eventID rows perRow)
  then show ?case using step_create [of _ "W_seats w"] NewSeatBlock_stock [of eventID rows perRow]
    by (auto simp: AddSeats_def event_ids_ok_def GetEvent_def Let_def case_prod_unfold split: sum.split option.splits)
qed (simp_all add: HoldSeat_once hand_next_once)

lemma HoldSeat_none_taken:
  assumes "event_ids_ok w" "withdrawn e w"
  shows "none_taken (places_of e) (W_seats w) (W_seats (fst (HoldSeat cfg now at h e' i u w)))"
proof (cases "e' = e \<or> map_of (W_events w) e' = None")
  case True
  then show ?thesis using assms(2)
    by (auto simp: HoldSeat_def withdrawn_def GetEvent_def simp del: map_of_eq_Some_iff split: sum.split option.split)
next
  case False
  have "slash_free e" "slash_free e'" using assms False unfolding event_ids_ok_def withdrawn_def by auto
  then have "seatKey e' i \<notin> places_of e" using seatKey_inj [of e' e i] False by auto
  then have "none_taken (places_of e) (W_seats w) (fst (UpdateSeat e' i f (W_seats w)))" for f
    by (auto simp: UpdateSeat_def Let_def intro!: none_taken_update split: option.split sum.split)
  then show ?thesis
    by (auto simp: HoldSeat_def announceSeatChange_def Let_def case_prod_unfold split: sum.split option.split)
qed

lemma hand_next_none_taken:
  assumes "event_ids_ok w" "withdrawn e w"
  shows "none_taken (places_of e) (W_seats w) (W_seats (hand_next cfg now at1 at2 h w))"
  using HoldSeat_none_taken [of "w\<lparr>W_freed := rest, W_waiting := q\<rparr>" e cfg now at1 h for rest q] assms
  by (auto simp: hand_next_def hand_def event_ids_ok_def withdrawn_def split: list.split prod.split sum.split)

lemma service_step_none_taken:
  "service_step cfg icfg p w w' \<Longrightarrow> event_ids_ok w \<Longrightarrow> withdrawn e w \<Longrightarrow> none_taken (places_of e) (W_seats w) (W_seats w')"
proof (induction rule: service_step.induct)
  case (does_confirm w now at newID holdID userID)
  show ?case using UpdateSeatByHoldID_none_taken [OF confirm_release_not_held(1), where r = "W_seats w" and h = holdID]
    by (auto simp: ConfirmReservation_def announceSeatChange_def Let_def case_prod_unfold split: sum.split)
next
  case (does_release w at holdID userID)
  show ?case using UpdateSeatByHoldID_none_taken [OF confirm_release_not_held(2), where r = "W_seats w" and h = holdID]
    by (auto simp: ReleaseSeat_def announceSeatChange_def Let_def case_prod_unfold split: sum.split)
next
  case (does_sweep w now)
  show ?case by (simp add: Sweep_def Let_def case_prod_unfold ExpireHolds_none_taken)
next
  case (does_add w eventID rows perRow)
  then show ?case using CreateSeats_none_taken [of _ _ "W_seats w"] NewSeatBlock_stock [of eventID rows perRow]
    by (auto simp: AddSeats_def event_ids_ok_def GetEvent_def Let_def case_prod_unfold split: sum.split option.splits)
qed (simp_all add: HoldSeat_none_taken hand_next_none_taken)

lemma UpdateEvent_withdrawn:
  assumes "map_of r e = Some ev" "IsCancelled ev" "\<And>x x'. f x = Inr x' \<Longrightarrow> IsCancelled x \<Longrightarrow> IsCancelled x'"
  shows "\<exists>ev. map_of (fst (UpdateEvent e' f r)) e = Some ev \<and> IsCancelled ev"
  using assms by (auto simp: UpdateEvent_def simp del: map_of_eq_Some_iff split: option.split sum.split)

lemma service_step_withdrawn:
  "service_step cfg icfg p w w' \<Longrightarrow> withdrawn e w \<Longrightarrow> withdrawn e w' \<or> map_of (W_events w') e = None"
proof (induction rule: service_step.induct)
  case (does_create newID w name venue startsAt details)
  then show ?case by (auto simp: Inventory_CreateEvent_def CreateEvent_def withdrawn_def NewEvent_def Let_def
      simp del: map_of_eq_Some_iff split: sum.split)
next
  case (does_update w eventID name venue startsAt change)
  let ?f = "\<lambda>event. Event_Update p name venue startsAt (change (Event_Details event)) event"
  have "IsCancelled x'" if "?f x = Inr x'" "IsCancelled x" for x x'
    using Event_Update_keeps [OF that(1)] that(2) by (simp add: IsCancelled_def)
  then show ?case using UpdateEvent_withdrawn [of "W_events w" e _ ?f eventID] does_update
    by (auto simp: Inventory_UpdateEvent_def withdrawn_def case_prod_unfold Let_def simp del: map_of_eq_Some_iff)
next
  case (does_cancel w newIDs now at now1 now2 eventID)
  have "IsCancelled x'" if "Event_Cancel now x = Inr x'" "IsCancelled x" for x x'
    using that by (simp add: Event_Cancel_def)
  then show ?case using UpdateEvent_withdrawn [of "W_events w" e _ "Event_Cancel now" eventID] does_cancel
    unfolding withdrawn_def CancelEvent_events by blast
next
  case (does_delete w eventID)
  then show ?case by (auto simp: Inventory_DeleteEvent_def DeleteEvent_def withdrawn_def simp del: map_of_eq_Some_iff
      split: sum.split)
qed (simp_all add: withdrawn_def)

text \<open>C6. A withdrawn event is frozen: whatever call comes next, nobody takes one of its places any more. A
  hold that was running can run out, be given up or be turned into a ticket by its holder, a sold place
  stays sold, and the event stays withdrawn until it is deleted.\<close>

theorem withdrawn_event_frozen:
  assumes "service_inv w" and "withdrawn e w" and "service_step cfg icfg url_Parse w w'"
  shows "frozen_step (ledger (W_seats w) (seatKey e i)) (ledger (W_seats w') (seatKey e i)) \<and>
    (withdrawn e w' \<or> map_of (W_events w') e = None)"
proof -
  have ids: "event_ids_ok w" and seats: "seats_inv (W_seats w)" using assms(1) by (simp_all add: service_inv_def world_inv_def)
  have "place_step (ledger (W_seats w) (seatKey e i)) (ledger (W_seats w') (seatKey e i))"
    using service_step_once [OF assms(3) ids] seat_step_ledger [OF _ seats] by (auto simp: ledger_step_def place_same)
  moreover have "ledger (W_seats w) (seatKey e i) = Some (Taken u h)" if "ledger (W_seats w') (seatKey e i) = Some (Taken u h)" for u h
    using service_step_none_taken [OF assms(3) ids assms(2)] that unfolding none_taken_def by blast
  ultimately show ?thesis using place_step_frozen service_step_withdrawn [OF assms(3,2)] by metis
qed

theorem withdrawn_event_frozen_witness:
  "frozen_step (Some (Taken ''alice'' ''h1''))
     (ledger (W_seats (fst (HoldSeat small_cfg 900 901 ''h2'' ''event-1'' ''A1'' ''bob''
        (held_world\<lparr>W_events := [(''event-1'', gala\<lparr>Event_CancelledAt := Second\<rparr>)]\<rparr>)))) (seatKey ''event-1'' ''A1''))"
proof -
  let ?w = "held_world\<lparr>W_events := [(''event-1'', gala\<lparr>Event_CancelledAt := Second\<rparr>)]\<rparr>"
  have "events_inv [(''event-1'', gala\<lparr>Event_CancelledAt := Second\<rparr>)]"
    using events_inv_update [of "[]" "gala\<lparr>Event_CancelledAt := Second\<rparr>" "''event-1''"]
    by (simp add: gala_def storable_def WithDefaults_def)
  then have inv: "service_inv ?w" using held_world_inv
    by (simp add: service_inv_def event_ids_ok_def world_inv_def slash_free_def)
  have wd: "withdrawn ''event-1'' ?w" by (simp add: withdrawn_def IsCancelled_def go_time)
  have "hold_is_new (W_seats ?w) ''h2''" by (simp add: hold_is_new_def held_world_def store_A1_def sample_seats)
  then have st: "service_step small_cfg full_cfg (\<lambda>_. None) ?w (fst (HoldSeat small_cfg 900 901 ''h2'' ''event-1'' ''A1'' ''bob'' ?w))"
    by (rule does_hold)
  have l: "ledger (W_seats ?w) (seatKey ''event-1'' ''A1'') = Some (Taken ''alice'' ''h1'')"
    by (simp add: ledger_def held_world_def store_A1_def sample_seats)
  from withdrawn_event_frozen [OF inv wd st, of "''A1''"] show ?thesis unfolding l by blast
qed

end
