(* ===== verification/Deliveries.thy ===== *)
theory Deliveries
  imports Notice_Stores Account_Stores
begin

text \<open>
  Getting notices out: \<open>internal/notify/notice.go\<close>, the push sender of \<open>internal/notify/push.go\<close>,
  \<open>internal/service/delivery_worker.go\<close>, \<open>notification_service.go\<close> and \<open>push_service.go\<close>. The mail server and
  the push service are parameters: functions that say how each call was answered. Logging is left out.
\<close>

section \<open>Words for a notice\<close>

record Message =
  Subject :: string
  Body :: string
  Message_Link :: string

definition cancelledNotice :: "Notification \<Rightarrow> Message" where
  "cancelledNotice notification =
     (let subject = Notification_EventName notification @ '' has been cancelled'' in
      if Notification_SeatID notification = '''' then
        \<lparr>Subject = subject,
         Body = ''You were on the waiting list for '' @ Notification_EventName notification @
           ''. It has been cancelled, so the queue has been cleared and there is nothing left to wait for.'',
         Message_Link = ''/''\<rparr>
      else
        \<lparr>Subject = subject,
         Body = ''Your seat '' @ Notification_SeatID notification @ '' for '' @ Notification_EventName notification @
           '' has been cancelled. The event is no longer going ahead.'',
         Message_Link = ''/''\<rparr>)"

definition Render :: "Notification \<Rightarrow> Message" where
  "Render notification =
     (if Notification_Kind notification = NotifyEventCancelled then cancelledNotice notification
      else \<lparr>Subject = ''An update about your tickets'',
            Body = ''Something about your tickets has changed. Open the application to see.'',
            Message_Link = ''/''\<rparr>)"

definition VerificationNotice :: "string \<Rightarrow> Message" where
  "VerificationNotice link =
     \<lparr>Subject = ''Confirm your email address'',
      Body = ''Open this link to confirm this address belongs to you:'' @ [CHR 0x0A, CHR 0x0A] @ link @ [CHR 0x0A, CHR 0x0A] @
        ''It works once, and stops working after a day. If you did not create an account, there is nothing '' @
        ''to do: without this nothing else will be sent here.'',
      Message_Link = link\<rparr>"

section \<open>Pushing to browsers\<close>

text \<open>How the push service answered one push: an error of the transport, or a status code.\<close>

definition push_one :: "(PushSubscription \<Rightarrow> int result) \<Rightarrow> PushSubscription \<Rightarrow> PushStore \<Rightarrow> PushStore \<times> unit result" where
  "push_one answer subscription r =
     (case answer subscription of
        Inl err \<Rightarrow> (r, Inl (Wrapf ''pushing'' [err]))
      | Inr status \<Rightarrow>
          if status = 404 \<or> status = 410 then
            (Push_Unsubscribe (Endpoint subscription) r, Inl (Opaque ''the subscription is gone''))
          else if 400 \<le> status then (r, Inl (Opaque ''the push service answered''))
          else (r, Inr ()))"

text \<open>\<open>errors.Join\<close> collects the failures.\<close>

fun push_loop ::
  "(PushSubscription \<Rightarrow> int result) \<Rightarrow> PushSubscription list \<Rightarrow> nat \<Rightarrow> goerror list \<Rightarrow> PushStore \<Rightarrow>
   PushStore \<times> nat \<times> goerror list" where
  "push_loop answer [] reached failures r = (r, reached, failures)"
| "push_loop answer (s # ss) reached failures r =
     (case push_one answer s r of
        (r', Inl err) \<Rightarrow> push_loop answer ss reached (failures @ [err]) r'
      | (r', Inr _) \<Rightarrow> push_loop answer ss (reached + 1) failures r')"

definition SendPush :: "(PushSubscription \<Rightarrow> int result) \<Rightarrow> string \<Rightarrow> PushStore \<Rightarrow> PushStore \<times> nat result" where
  "SendPush answer userID r =
     (let subscriptions = Push_ListForUser userID r in
      if length subscriptions = 0 then (r, Inr 0)
      else case push_loop answer subscriptions 0 [] r of
        (r', reached, failures) \<Rightarrow>
          if reached = 0 \<and> failures \<noteq> [] then (r', Inl (Wrapf '''' failures)) else (r', Inr reached))"

section \<open>The delivery worker\<close>

record DeliveryState =
  D_outbox :: DeliveryStore
  D_inbox :: NotificationStore
  D_users :: UserStore
  D_push :: PushStore

text \<open>\<open>None\<close> is a sender that is not configured.\<close>

record Senders =
  Mailer :: "(string \<Rightarrow> Message \<Rightarrow> unit result) option"
  Push_answers :: "(PushSubscription \<Rightarrow> Message \<Rightarrow> int result) option"

definition attempt :: "Senders \<Rightarrow> Delivery \<Rightarrow> DeliveryState \<Rightarrow> DeliveryState \<times> unit result" where
  "attempt senders delivery d =
     (case Notification_Get (Delivery_NotificationID delivery) (D_inbox d) of
        Inl err \<Rightarrow> (d, Inl err)
      | Inr notification \<Rightarrow>
          let notice = Render notification in
          if Channel delivery = ChannelEmail then
            (case Mailer senders of
               None \<Rightarrow> (d, Inl ErrMailNotConfigured)
             | Some SendEmail \<Rightarrow>
                 (case GetUserByID (Delivery_UserID delivery) (D_users d) of
                    Inl err \<Rightarrow> (d, Inl err)
                  | Inr user \<Rightarrow>
                      if \<not> EmailVerified user then (d, Inl (Service errAddressNotVerified))
                      else (d, SendEmail (User_Email user) notice)))
          else if Channel delivery = ChannelPush then
            (case Push_answers senders of
               None \<Rightarrow> (d, Inl (Service errPushNotConfigured))
             | Some answers \<Rightarrow>
                 (case SendPush (\<lambda>s. answers s notice) (Delivery_UserID delivery) (D_push d) of
                    (r, Inl err) \<Rightarrow> (d\<lparr>D_push := r\<rparr>, Inl err)
                  | (r, Inr _) \<Rightarrow> (d\<lparr>D_push := r\<rparr>, Inr ())))
          else (d, Inl (Opaque ''no sender for channel'')))"

text \<open>What is written down after an attempt.\<close>

definition recorded :: "unit result \<Rightarrow> time \<Rightarrow> Delivery \<Rightarrow> Delivery" where
  "recorded res now delivery =
     (case res of
        Inl err \<Rightarrow>
          if errors_Is err (Service errAddressNotVerified) then Delivery_GiveUp err now delivery
          else Delivery_Failed err now delivery
      | Inr _ \<Rightarrow> Delivery_Sent now delivery)"

definition deliver :: "Senders \<Rightarrow> time \<Rightarrow> Delivery \<Rightarrow> DeliveryState \<Rightarrow> DeliveryState \<times> bool" where
  "deliver senders now delivery d =
     (case attempt senders delivery d of
        (d', res) \<Rightarrow>
          (case Delivery_Save (recorded res now delivery) (D_outbox d') of
             Inl _ \<Rightarrow> d'
           | Inr outbox \<Rightarrow> d'\<lparr>D_outbox := outbox\<rparr>,
           case res of Inl _ \<Rightarrow> False | Inr _ \<Rightarrow> True))"

text \<open>\<open>clock k\<close> is the reading taken after the \<open>k\<close>-th attempt of the pass.\<close>

fun deliver_all :: "Senders \<Rightarrow> (nat \<Rightarrow> time) \<Rightarrow> nat \<Rightarrow> Delivery list \<Rightarrow> DeliveryState \<Rightarrow> DeliveryState \<times> nat" where
  "deliver_all senders clock k [] d = (d, 0)"
| "deliver_all senders clock k (delivery # claimed) d =
     (let (d1, ok) = deliver senders (clock k) delivery d;
          (d2, sent) = deliver_all senders clock (k + 1) claimed d1
      in (d2, if ok then sent + 1 else sent))"

definition Worker_Drain :: "Senders \<Rightarrow> int \<Rightarrow> time \<Rightarrow> (nat \<Rightarrow> time) \<Rightarrow> DeliveryState \<Rightarrow> DeliveryState \<times> nat" where
  "Worker_Drain senders batch now clock d =
     (let (outbox, claimed) = TakeDue now batch (D_outbox d)
      in deliver_all senders clock 0 claimed (d\<lparr>D_outbox := outbox\<rparr>))"

section \<open>The notification and push services\<close>

definition Service_Notifications :: "string \<Rightarrow> NotificationStore \<Rightarrow> Notification list result" where
  "Service_Notifications userID r =
     (if userID = '''' then Inl (Domain ErrEmptyUserID) else Inr (Notification_ListForUser userID r))"

definition MarkNotificationsRead :: "string \<Rightarrow> time \<Rightarrow> NotificationStore \<Rightarrow> NotificationStore \<times> nat result" where
  "MarkNotificationsRead userID now r =
     (if userID = '''' then (r, Inl (Domain ErrEmptyUserID))
      else let (r', n) = MarkAllRead userID now r in (r', Inr n))"

definition Service_Subscribe ::
  "string \<Rightarrow> time \<Rightarrow> string \<Rightarrow> string \<Rightarrow> string \<Rightarrow> string \<Rightarrow> PushStore \<Rightarrow> PushStore \<times> unit result" where
  "Service_Subscribe newID now userID endpoint p256dh auth r =
     (case NewPushSubscription newID userID endpoint p256dh auth now of
        Inl err \<Rightarrow> (r, Inl err)
      | Inr subscription \<Rightarrow> (Push_Subscribe subscription r, Inr ()))"

definition Service_Unsubscribe :: "string \<Rightarrow> string \<Rightarrow> PushStore \<Rightarrow> PushStore \<times> unit result" where
  "Service_Unsubscribe userID endpoint r =
     (if endpoint = '''' then (r, Inl (Domain ErrInvalidPushSubscription))
      else if list_ex (\<lambda>s. Endpoint s = endpoint) (Push_ListForUser userID r)
        then (Push_Unsubscribe endpoint r, Inr ())
      else (r, Inl (Service ErrNotYourSubscription)))"

section \<open>What a pass of the worker achieves\<close>

lemma attempt_outbox [simp]: "D_outbox (fst (attempt s x d)) = D_outbox d"
  "D_inbox (fst (attempt s x d)) = D_inbox d" "D_users (fst (attempt s x d)) = D_users d"
  by (auto simp: attempt_def Let_def split: sum.split option.split prod.split)

text \<open>Mail goes only to addresses that were confirmed.\<close>

lemma attempt_mail:
  assumes "attempt \<lparr>Mailer = Some send, Push_answers = p\<rparr> x d = (d', Inr ())" "Channel x = ChannelEmail"
  shows "\<exists>user n. GetUserByID (Delivery_UserID x) (D_users d) = Inr user \<and> EmailVerified user \<and>
    Notification_Get (Delivery_NotificationID x) (D_inbox d) = Inr n \<and> send (User_Email user) (Render n) = Inr ()"
  using assms by (auto simp: attempt_def Let_def split: sum.splits if_splits)

lemma recorded_key [simp]: "delivery_key (recorded res now x) = delivery_key x"
  by (auto simp: recorded_def Delivery_GiveUp_def Delivery_Failed_def Delivery_Sent_def Let_def split: sum.split)

lemma recorded_wf:
  "delivery_wf x \<Longrightarrow> \<not> IsDone x \<Longrightarrow> now \<noteq> zero_time \<Longrightarrow> delivery_wf (recorded res now x)"
  by (auto simp: recorded_def Delivery_Failed_wf Delivery_GiveUp_wf Delivery_Sent_wf split: sum.split)

lemma deliver_outbox:
  assumes "map_of (D_outbox d) (delivery_key x) \<noteq> None"
  shows "D_outbox (fst (deliver s now x d)) =
    AList.update (delivery_key x) (recorded (snd (attempt s x d)) now x) (D_outbox d)"
proof (cases "attempt s x d")
  case (Pair d' res)
  have "D_outbox d' = D_outbox d" using attempt_outbox(1) [of s x d] Pair by simp
  then show ?thesis using Pair assms by (auto simp: deliver_def Delivery_Save_def Let_def)
qed

lemma deliver_ok: "snd (deliver s now x d) = (\<exists>u. snd (attempt s x d) = Inr u)"
  by (auto simp: deliver_def split: prod.split sum.split)

lemma recorded_sent:
  "\<not> IsDone x \<Longrightarrow> now \<noteq> zero_time \<Longrightarrow> (\<not> IsZero (SentAt (recorded res now x))) = (\<exists>u. res = Inr u)"
  by (auto simp: recorded_def IsDone_def Delivery_GiveUp_def Delivery_Failed_def Delivery_Sent_def Let_def IsZero_def
      split: sum.split)

lemma recorded_progress:
  "delivery_wf x \<Longrightarrow> \<not> IsDone x \<Longrightarrow> now \<noteq> zero_time \<Longrightarrow>
     IsDone (recorded res now x) \<or> Attempts (recorded res now x) = Attempts x + 1 \<and> Attempts (recorded res now x) < 5"
  by (auto simp: recorded_def delivery_ops go_time split: sum.split)

definition sent_in :: "DeliveryStore \<Rightarrow> Delivery \<Rightarrow> bool" where
  "sent_in r x \<longleftrightarrow> (\<exists>y. map_of r (delivery_key x) = Some y \<and> \<not> IsZero (SentAt y))"

definition on_file :: "DeliveryStore \<Rightarrow> Delivery \<Rightarrow> bool" where
  "on_file r x \<longleftrightarrow> map_of r (delivery_key x) = Some x \<and> \<not> IsDone x"

lemma outbox_inv_recorded:
  assumes "outbox_inv r" "delivery_wf x" "\<not> IsDone x" "now \<noteq> zero_time"
  shows "outbox_inv (AList.update (delivery_key x) (recorded res now x) r)"
  using outbox_inv_update [OF assms(1) recorded_wf [OF assms(2-4)], of res] unfolding recorded_key .

lemma key_differs: "a \<in> K \<Longrightarrow> b \<notin> K \<Longrightarrow> a \<noteq> b"
  by blast

lemma on_file_update:
  assumes "on_file r y" "delivery_key y \<noteq> delivery_key x"
  shows "on_file (AList.update (delivery_key x) z r) y"
proof -
  have "map_of (AList.update (delivery_key x) z r) (delivery_key y) = map_of r (delivery_key y)"
    unfolding update_conv' by (rule fun_upd_other) (rule assms(2))
  then show ?thesis using assms(1) by (simp only: on_file_def not_False_eq_True simp_thms)
qed

lemma deliver_all_outbox:
  assumes "outbox_inv (D_outbox d)" "distinct (map delivery_key xs)" "\<forall>x \<in> set xs. on_file (D_outbox d) x"
    and "\<forall>k. clock k \<noteq> zero_time" "deliver_all s clock k xs d = (d', n)"
  shows "outbox_inv (D_outbox d') \<and>
    (\<forall>key. key \<notin> delivery_key ` set xs \<longrightarrow> map_of (D_outbox d') key = map_of (D_outbox d) key) \<and>
    (\<forall>x \<in> set xs. \<exists>res t. t \<noteq> zero_time \<and> map_of (D_outbox d') (delivery_key x) = Some (recorded res t x)) \<and>
    n = length (filter (sent_in (D_outbox d')) xs)"
  using assms
proof (induction xs arbitrary: d k n)
  case Nil
  then show ?case by simp
next
  case (Cons x xs)
  let ?t = "clock k" and ?res = "snd (attempt s x d)"
  let ?d1 = "fst (deliver s ?t x d)"
  obtain n1 where n1: "deliver_all s clock (k + 1) xs ?d1 = (d', n1)"
    and n: "n = (if snd (deliver s ?t x d) then n1 + 1 else n1)"
    using Cons.prems(5)
    by (cases "deliver s ?t x d"; cases "deliver_all s clock (k + 1) xs ?d1") (auto split: if_splits)
  have x: "map_of (D_outbox d) (delivery_key x) = Some x" "\<not> IsDone x" using Cons.prems(3) by (auto simp: on_file_def)
  have t: "?t \<noteq> zero_time" using Cons.prems(4) by simp
  have o1: "D_outbox ?d1 = AList.update (delivery_key x) (recorded ?res ?t x) (D_outbox d)"
    by (rule deliver_outbox) (simp add: x(1))
  have wf: "delivery_wf x" using outbox_invD(2) [OF Cons.prems(1) x(1)] by simp
  have inv1: "outbox_inv (D_outbox ?d1)"
    unfolding o1 by (rule outbox_inv_recorded [OF Cons.prems(1) wf x(2) t])
  have new: "delivery_key x \<notin> delivery_key ` set xs" "distinct (map delivery_key xs)" using Cons.prems(2) by auto
  have "on_file (D_outbox ?d1) y" if y: "y \<in> set xs" for y
    unfolding o1
  proof (rule on_file_update)
    show "on_file (D_outbox d) y" using Cons.prems(3) y by simp
    show "delivery_key y \<noteq> delivery_key x" using imageI [OF y, of delivery_key] new(1) by (rule key_differs)
  qed
  then have "\<forall>y \<in> set xs. on_file (D_outbox ?d1) y" by blast
  note IH = Cons.IH [OF inv1 new(2) this Cons.prems(4) n1]
  have at: "map_of (D_outbox d') (delivery_key x) = Some (recorded ?res ?t x)" using IH new(1) by (simp add: o1)
  have "sent_in (D_outbox d') x = snd (deliver s ?t x d)"
    using at recorded_sent [OF x(2) t, of ?res] by (simp add: sent_in_def deliver_ok)
  then have "n = length (filter (sent_in (D_outbox d')) (x # xs))" using IH n by simp
  moreover have "\<exists>res t. t \<noteq> zero_time \<and> map_of (D_outbox d') (delivery_key y) = Some (recorded res t y)" if "y \<in> set (x # xs)" for y
    using that at t IH by auto
  moreover have "map_of (D_outbox d') key = map_of (D_outbox d) key" if "key \<notin> delivery_key ` set (x # xs)" for key
    using that IH by (simp add: o1)
  ultimately show ?case using IH by blast
qed

text \<open>C29. A pass of the delivery worker leaves nothing hanging: every message it claimed is afterwards
  either finished (sent or given up) or has one more attempt on record and fewer than five in all, every
  other message is untouched, the number reported is the number of messages marked sent, and the outbox
  keeps its invariant.\<close>

theorem worker_pass_outcome:
  assumes "outbox_inv (D_outbox d)" and "\<forall>k. clock k \<noteq> zero_time"
    and "TakeDue now batch (D_outbox d) = (r, claimed)"
    and "Worker_Drain senders batch now clock d = (d', n)"
  shows "outbox_inv (D_outbox d') \<and>
    (\<forall>x \<in> set claimed. \<exists>y. map_of (D_outbox d') (delivery_key x) = Some y \<and>
       (IsDone y \<or> Attempts y = Attempts x + 1 \<and> Attempts y < 5)) \<and>
    (\<forall>key. key \<notin> delivery_key ` set claimed \<longrightarrow> map_of (D_outbox d') key = map_of (D_outbox d) key) \<and>
    n = length (filter (sent_in (D_outbox d')) claimed)"
proof -
  have inv: "outbox_inv r" by (rule TakeDue_inv [OF assms(1,3)])
  have onfile: "on_file r x" if "x \<in> set claimed" for x
    by (rule TakeDue_entry [OF assms(1,3) that]) (simp add: on_file_def lease_keeps)
  have d: "distinct (map delivery_key claimed)"
    unfolding TakeDue_keys [OF assms(1,3)]
    by (rule distinct_cut_limit) (rule outbox.distinct_ready_keys [OF outbox_invD(1) [OF assms(1)]])
  have "deliver_all senders clock 0 claimed (d\<lparr>D_outbox := r\<rparr>) = (d', n)"
    using assms(3,4) by (simp add: Worker_Drain_def)
  note all = deliver_all_outbox [of "d\<lparr>D_outbox := r\<rparr>", simplified, OF inv d _ assms(2) this]
  have files: "\<forall>x \<in> set claimed. on_file r x" using onfile by blast
  have "\<exists>y. map_of (D_outbox d') (delivery_key x) = Some y \<and> (IsDone y \<or> Attempts y = Attempts x + 1 \<and> Attempts y < 5)"
    if x: "x \<in> set claimed" for x
  proof -
    obtain res t where "t \<noteq> zero_time" "map_of (D_outbox d') (delivery_key x) = Some (recorded res t x)"
      using all [OF files] x by blast
    moreover have "delivery_wf x" "\<not> IsDone x"
      using onfile [OF x] outbox_invD(2) [OF inv, of "delivery_key x" x] by (simp_all add: on_file_def)
    ultimately show ?thesis using recorded_progress [of x t res] by blast
  qed
  moreover have "map_of r key = map_of (D_outbox d) key" if "key \<notin> delivery_key ` set claimed" for key
  proof (rule TakeDue_takes [OF outbox_invD(1) [OF assms(1)] assms(3)])
    fix ks
    assume ks: "ks = cut_limit batch (outbox.ready_keys now (D_outbox d))"
      "\<And>k. map_of r k = (if k \<in> set ks
        then map_option (\<lambda>d. d\<lparr>DueAt := now + DeliveryLease\<rparr>) (map_of (D_outbox d) k) else map_of (D_outbox d) k)"
    have "set ks = delivery_key ` set claimed"
      unfolding ks(1) TakeDue_keys [OF assms(1,3), symmetric] by (simp only: list.set_map)
    then show ?thesis using ks(2) [of key] that by simp
  qed
  ultimately show ?thesis using all [OF files] by simp
qed

definition worker_state :: DeliveryState where
  "worker_state = \<lparr>D_outbox = outbox_one, D_inbox = [], D_users = [], D_push = []\<rparr>"

theorem worker_pass_outcome_witness:
  "outbox_inv (D_outbox (fst (Worker_Drain \<lparr>Mailer = None, Push_answers = None\<rparr> 5 10 (\<lambda>_. 20) worker_state))) \<and>
   snd (Worker_Drain \<lparr>Mailer = None, Push_answers = None\<rparr> 5 10 (\<lambda>_. 20) worker_state) =
     length (filter (sent_in (D_outbox (fst (Worker_Drain \<lparr>Mailer = None, Push_answers = None\<rparr> 5 10 (\<lambda>_. 20) worker_state))))
       (snd (TakeDue 10 5 outbox_one)))"
proof -
  have inv: "outbox_inv (D_outbox worker_state)" by (simp add: worker_state_def outbox_one_inv)
  have clock: "\<forall>k::nat. (\<lambda>_. 20::time) k \<noteq> zero_time" by simp
  have due: "TakeDue 10 5 (D_outbox worker_state) = (fst (TakeDue 10 5 outbox_one), snd (TakeDue 10 5 outbox_one))"
    by (simp add: worker_state_def)
  from worker_pass_outcome [OF inv clock due surjective_pairing, of "\<lparr>Mailer = None, Push_answers = None\<rparr>"]
  show ?thesis by (elim conjE) (intro conjI)
qed

section \<open>Switching a browser off\<close>

lemma map_of_Push_Unsubscribe: "gomap_ok r \<Longrightarrow> map_of (Push_Unsubscribe e r) k = (if k = e then None else map_of r k)"
  by (simp add: Push_Unsubscribe_def delete_conv')

text \<open>A caller switches off their own browsers only: the call succeeds exactly when the endpoint is
  not empty and belongs to a subscription of the caller, it then removes that subscription and nothing
  else, and no other account's subscriptions are touched whatever is asked.\<close>

theorem unsubscribe_only_own:
  assumes "push_inv r" and "Service_Unsubscribe u e r = (r', res)"
  shows "(res = Inr ()) = (e \<noteq> '''' \<and> (\<exists>s. map_of r e = Some s \<and> Subscription_UserID s = u)) \<and>
    (res = Inr () \<longrightarrow> map_of r' = (map_of r)(e := None)) \<and> (res \<noteq> Inr () \<longrightarrow> r' = r) \<and>
    (\<forall>v. v \<noteq> u \<longrightarrow> set (Push_ListForUser v r') = set (Push_ListForUser v r)) \<and> push_inv r'"
proof -
  have ok: "gomap_ok r" and key: "\<And>k s. map_of r k = Some s \<Longrightarrow> k = Endpoint s"
    using assms(1) unfolding push_inv_def by blast+
  have mine: "list_ex (\<lambda>s. Endpoint s = e) (Push_ListForUser u r) \<longleftrightarrow> (\<exists>s. map_of r e = Some s \<and> Subscription_UserID s = u)"
    (is "?L = ?R")
  proof
    assume ?L
    then obtain s where "Endpoint s = e" "s \<in> set (Push_ListForUser u r)" unfolding list_ex_iff by blast
    then show ?R using set_Push_ListForUser [OF ok] key by blast
  next
    assume ?R
    then obtain s where s: "map_of r e = Some s" "Subscription_UserID s = u" by blast
    then have "s \<in> set (Push_ListForUser u r)" using set_Push_ListForUser [OF ok] by blast
    then show ?L using key [OF s(1)] unfolding list_ex_iff by blast
  qed
  consider "e = ''''" "r' = r" "res \<noteq> Inr ()" | "e \<noteq> ''''" "\<nexists>s. map_of r e = Some s \<and> Subscription_UserID s = u" "r' = r" "res \<noteq> Inr ()"
    | s where "e \<noteq> ''''" "map_of r e = Some s" "Subscription_UserID s = u" "r' = Push_Unsubscribe e r" "res = Inr ()"
    using assms(2) mine unfolding Service_Unsubscribe_def by (fastforce split: if_splits)
  then show ?thesis
  proof cases
    case 3
    have inv: "push_inv r'" unfolding 3(4) by (rule push_ops_inv(3) [OF assms(1)])
    have ok': "gomap_ok r'" using inv unfolding push_inv_def by blast
    have m: "map_of r' = (map_of r)(e := None)" unfolding 3(4) by (rule ext) (simp add: map_of_Push_Unsubscribe [OF ok])
    have same: "(\<exists>k. map_of r' k = Some x) = (\<exists>k. map_of r k = Some x)" if "Subscription_UserID x \<noteq> u" for x
      unfolding m fun_upd_apply using that 3(2,3) by (metis option.distinct(1) option.inject)
    have "set (Push_ListForUser v r') = set (Push_ListForUser v r)" if "v \<noteq> u" for v
    proof (rule set_eqI)
      fix x
      show "x \<in> set (Push_ListForUser v r') \<longleftrightarrow> x \<in> set (Push_ListForUser v r)"
        unfolding set_Push_ListForUser [OF ok] set_Push_ListForUser [OF ok'] using same [of x] that by blast
    qed
    then show ?thesis using 3 inv m by blast
  qed (use assms(1) in simp_all)
qed

theorem unsubscribe_only_own_witness:
  "snd (Service_Unsubscribe ''mallory'' ''https://p/1'' [(''https://p/1'',
      \<lparr>Subscription_ID = ''s1'', Subscription_UserID = ''ada'', Endpoint = ''https://p/1'', P256dh = ''k'', Subscription_Auth = ''a'', Subscription_CreatedAt = 1\<rparr>)])
     \<noteq> Inr ()"
proof -
  let ?s = "\<lparr>Subscription_ID = ''s1'', Subscription_UserID = ''ada'', Endpoint = ''https://p/1'', P256dh = ''k'', Subscription_Auth = ''a'', Subscription_CreatedAt = 1\<rparr>"
  have "push_inv [(''https://p/1'', ?s)]" by (simp add: push_inv_def)
  from unsubscribe_only_own [OF this surjective_pairing, of "''mallory''" "''https://p/1''"] show ?thesis by simp
qed

end
