(* ===== verification/Http_Answers.thy ===== *)
theory Http_Answers
  imports Errors
begin

text \<open>
  How the handler layer answers: the error table of \<open>internal/handler/errors.go\<close>, \<open>writeAPIError\<close> of
  \<open>handler.go\<close> and the recording writer of \<open>idempotency.go\<close>. What a handler does to its
  \<open>http.ResponseWriter\<close> is the list of its calls; \<open>sent\<close> is the answer that \<open>net/http\<close> makes of them
  (the first status counts, a body without a status is a 200). The JSON bytes of an error body are a
  parameter, a function of the code and the message, and so is the text of an error.
\<close>

section \<open>The error table\<close>

definition StatusClientClosedRequest :: int where
  "StatusClientClosedRequest = 499"

definition errorMapping :: "(goerror \<times> int \<times> string) list" where
  "errorMapping = [
    (ContextCanceled, StatusClientClosedRequest, ''client_closed''),
    (Repository ErrEventNotFound, 404, ''event_not_found''),
    (Repository ErrSeatNotFound, 404, ''seat_not_found''),
    (Repository ErrHoldNotFound, 404, ''hold_not_found''),
    (Repository ErrNotWaiting, 404, ''not_waiting''),
    (Handler errTicketNotFound, 404, ''ticket_not_found''),
    (Domain ErrSeatNotAvailable, 409, ''seat_not_available''),
    (Domain ErrSeatNotHeld, 409, ''seat_not_held''),
    (Domain ErrHoldExpired, 410, ''hold_expired''),
    (Domain ErrNotHoldOwner, 403, ''not_hold_owner''),
    (Domain ErrNotPermitted, 403, ''not_permitted''),
    (Repository ErrEventExists, 409, ''event_exists''),
    (Repository ErrEventInUse, 409, ''event_in_use''),
    (Domain ErrEventCancelled, 409, ''event_cancelled''),
    (Domain ErrEventAlreadyCancelled, 409, ''event_already_cancelled''),
    (Domain ErrInvalidEvent, 400, ''invalid_event''),
    (Domain ErrInvalidSeatMap, 400, ''invalid_seat_map''),
    (Domain ErrInvalidPushSubscription, 400, ''invalid_push_subscription''),
    (Service ErrNotYourSubscription, 403, ''not_your_subscription''),
    (Domain ErrVerificationNotUsable, 410, ''verification_not_usable''),
    (Service ErrAlreadyVerified, 409, ''already_verified''),
    (Domain ErrEmailNotVerified, 403, ''email_not_verified''),
    (Handler errIdempotencyInProgress, 409, ''idempotency_in_progress''),
    (Handler errIdempotencyKeyReused, 422, ''idempotency_key_reused''),
    (Handler errUnauthenticated, 401, ''unauthenticated''),
    (Handler errInvalidToken, 401, ''invalid_token''),
    (Repository ErrEmailTaken, 409, ''email_taken''),
    (Service ErrInvalidCredentials, 401, ''invalid_credentials''),
    (Service ErrLogoutUnavailable, 501, ''logout_unavailable''),
    (Domain ErrInvalidEmail, 400, ''invalid_email''),
    (Domain ErrWeakPassword, 400, ''weak_password''),
    (Handler errInvalidRequestBody, 400, ''invalid_request_body''),
    (Handler errRequestBodyTooLarge, 413, ''request_body_too_large''),
    (Handler errTooManyRequests, 429, ''too_many_requests''),
    (Handler errStreamUnavailable, 503, ''stream_unavailable''),
    (Domain ErrEmptyUserID, 400, ''user_id_required''),
    (Domain ErrEmptyHoldID, 400, ''hold_id_required''),
    (Domain ErrEmptyEventID, 400, ''event_id_required''),
    (Domain ErrInvalidHoldDuration, 400, ''invalid_hold_duration'')]"

fun first_match :: "goerror \<Rightarrow> (goerror \<times> int \<times> string) list \<Rightarrow> int \<times> string" where
  "first_match err [] = (500, ''internal_error'')"
| "first_match err ((target, status, code) # rows) =
     (if errors_Is err target then (status, code) else first_match err rows)"

definition statusForError :: "goerror \<Rightarrow> int \<times> string" where
  "statusForError err = first_match err errorMapping"

section \<open>Writing an answer\<close>

text \<open>What a handler does to its writer, and \<open>noteFailure\<close>, which tells the middleware outside which code was answered.\<close>

datatype writer_call = SetHeader string string | WriteHeader int | Write string | NoteFailure string

type_synonym answer_calls = "writer_call list"

fun sent_status :: "answer_calls \<Rightarrow> int" where
  "sent_status [] = 200"
| "sent_status (SetHeader _ _ # cs) = sent_status cs"
| "sent_status (WriteHeader s # cs) = s"
| "sent_status (Write _ # cs) = 200"
| "sent_status (NoteFailure _ # cs) = sent_status cs"

fun sent_body :: "answer_calls \<Rightarrow> string" where
  "sent_body [] = ''''"
| "sent_body (Write b # cs) = b @ sent_body cs"
| "sent_body (_ # cs) = sent_body cs"

definition sent :: "answer_calls \<Rightarrow> int \<times> string" where
  "sent cs = (sent_status cs, sent_body cs)"

text \<open>\<open>Encode\<close> is the JSON encoding of an error body, \<open>Error\<close> the text of an error.\<close>

definition writeAPIError :: "(string \<Rightarrow> string \<Rightarrow> string) \<Rightarrow> (goerror \<Rightarrow> string) \<Rightarrow> goerror \<Rightarrow> answer_calls" where
  "writeAPIError Encode Error err =
     (let (status, code) = statusForError err;
          message = (if status = 500 then ''internal error'' else Error err)
      in [NoteFailure code, SetHeader ''Content-Type'' ''application/json'', WriteHeader status, Write (Encode code message)])"

section \<open>The recording writer\<close>

record recordingWriter =
  rec_status :: int
  rec_body :: string

definition new_recorder :: recordingWriter where
  "new_recorder = \<lparr>rec_status = 0, rec_body = ''''\<rparr>"

fun record_call :: "writer_call \<Rightarrow> recordingWriter \<Rightarrow> recordingWriter" where
  "record_call (SetHeader _ _) w = w"
| "record_call (WriteHeader status) w = w\<lparr>rec_status := status\<rparr>"
| "record_call (Write b) w =
     w\<lparr>rec_status := (if rec_status w = 0 then 200 else rec_status w), rec_body := rec_body w @ b\<rparr>"
| "record_call (NoteFailure _) w = w"

definition recorded_answer :: "answer_calls \<Rightarrow> recordingWriter" where
  "recorded_answer cs = fold record_call cs new_recorder"

section \<open>What the table answers\<close>

lemma first_match_500:
  "list_all (\<lambda>(t, s, c). s \<noteq> 500) rows \<Longrightarrow>
     fst (first_match err rows) = 500 \<longleftrightarrow> list_all (\<lambda>(t, s, c). \<not> errors_Is err t) rows"
  by (induction err rows rule: first_match.induct) auto

lemma first_match_wrapped:
  "list_all (\<lambda>(t, s, c). \<forall>es. t \<noteq> Wrapf m es) rows \<Longrightarrow> first_match (Wrapf m [e]) rows = first_match e rows"
  by (induction e rows rule: first_match.induct) auto

lemma statusForError_error: "400 \<le> fst (statusForError err)"
proof -
  have "list_all (\<lambda>(t, s, c). 400 \<le> s) rows \<Longrightarrow> 400 \<le> fst (first_match err rows)" for rows
    by (induction err rows rule: first_match.induct) auto
  moreover have "list_all (\<lambda>(t, s, c). 400 \<le> s) errorMapping" by (simp add: errorMapping_def StatusClientClosedRequest_def)
  ultimately show ?thesis unfolding statusForError_def by blast
qed

text \<open>The error table does what it says, row by row: no row is shadowed by an earlier one, wrapping
  an error in more words does not change its answer, a cancelled request is reported as such whatever
  else went wrong with it, and 500 is the answer exactly when no row matches.\<close>

theorem error_table_sound:
  "map (statusForError \<circ> fst) errorMapping = map snd errorMapping \<and>
   statusForError (Wrapf m [err]) = statusForError err \<and>
   statusForError (Wrapf m (es @ ContextCanceled # fs)) = (499, ''client_closed'') \<and>
   (fst (statusForError err) = 500 \<longleftrightarrow> list_all (\<lambda>(t, s, c). \<not> errors_Is err t) errorMapping)"
proof (intro conjI)
  show "map (statusForError \<circ> fst) errorMapping = map snd errorMapping" by code_simp
  show "statusForError (Wrapf m [err]) = statusForError err"
    unfolding statusForError_def by (rule first_match_wrapped) (simp add: errorMapping_def)
  show "statusForError (Wrapf m (es @ ContextCanceled # fs)) = (499, ''client_closed'')"
    by (simp add: statusForError_def errorMapping_def StatusClientClosedRequest_def)
  show "fst (statusForError err) = 500 \<longleftrightarrow> list_all (\<lambda>(t, s, c). \<not> errors_Is err t) errorMapping"
    unfolding statusForError_def
    by (rule first_match_500) (simp add: errorMapping_def StatusClientClosedRequest_def)
qed

section \<open>What the recording writer keeps\<close>

text \<open>A handler that sets its headers, then one status, then writes its body.\<close>

fun only_writes :: "answer_calls \<Rightarrow> bool" where
  "only_writes [] = True"
| "only_writes (Write _ # cs) = only_writes cs"
| "only_writes (NoteFailure _ # cs) = only_writes cs"
| "only_writes _ = False"

fun disciplined :: "answer_calls \<Rightarrow> bool" where
  "disciplined [] = False"
| "disciplined (SetHeader _ _ # cs) = disciplined cs"
| "disciplined (WriteHeader s # cs) = (s \<noteq> 0 \<and> only_writes cs)"
| "disciplined (Write _ # cs) = only_writes cs"
| "disciplined (NoteFailure _ # cs) = disciplined cs"

lemma rec_body_fold: "rec_body (fold record_call cs w) = rec_body w @ sent_body cs"
proof (induction cs arbitrary: w)
  case (Cons c cs)
  then show ?case by (cases c) auto
qed simp

lemma rec_status_writes: "only_writes cs \<Longrightarrow> rec_status w \<noteq> 0 \<Longrightarrow> rec_status (fold record_call cs w) = rec_status w"
  by (induction cs arbitrary: w rule: only_writes.induct) auto

lemma rec_status_fold: "disciplined cs \<Longrightarrow> rec_status w = 0 \<Longrightarrow> rec_status (fold record_call cs w) = sent_status cs"
  by (induction cs arbitrary: w rule: disciplined.induct) (auto simp: rec_status_writes)

lemma recorder_exact:
  assumes "disciplined cs"
  shows "rec_status (recorded_answer cs) = sent_status cs" "rec_body (recorded_answer cs) = sent_body cs"
  using rec_status_fold [OF assms] by (simp_all add: recorded_answer_def new_recorder_def rec_body_fold)

lemma writeAPIError_disciplined: "disciplined (writeAPIError Encode Error err)"
proof -
  have "list_all (\<lambda>(t, s, c). s \<noteq> 0) rows \<Longrightarrow> fst (first_match err rows) \<noteq> 0" for rows
    by (induction err rows rule: first_match.induct) auto
  moreover have "list_all (\<lambda>(t, s, c). s \<noteq> 0) errorMapping" by (simp add: errorMapping_def StatusClientClosedRequest_def)
  ultimately have "fst (statusForError err) \<noteq> 0" unfolding statusForError_def by blast
  then show ?thesis by (cases "statusForError err") (simp add: writeAPIError_def)
qed

lemma sent_writeAPIError:
  "statusForError err = (status, code) \<Longrightarrow> status \<noteq> 500 \<Longrightarrow>
     sent (writeAPIError Encode Error err) = (status, Encode code (Error err))"
  by (simp add: writeAPIError_def sent_def)

end
