(* ===== verification/Idempotency.thy ===== *)
theory Idempotency
  imports Http_Answers
begin

text \<open>
  Retried requests: the store of \<open>internal/repository/memory_idempotency_repository.go\<close> and the
  middleware of \<open>internal/handler/idempotency.go\<close>. The handler behind the middleware is a parameter: a
  function of the request and of the rest of the server's state. The middleware is given both as one
  call and, since requests overlap, as the two halves it makes around the handler, interleaved in any
  order.
\<close>

section \<open>The store\<close>

datatype IdempotencyState = IdempotencyInProgress | IdempotencyCompleted

record IdempotencyRecord =
  I_UserID :: string
  I_Key :: string
  Fingerprint :: string
  I_State :: IdempotencyState
  StatusCode :: int
  I_Response :: string
  I_CreatedAt :: time
  I_ExpiresAt :: time

definition IsCompleted :: "IdempotencyRecord \<Rightarrow> bool" where
  "IsCompleted r \<longleftrightarrow> I_State r = IdempotencyCompleted"

type_synonym IdempotencyStore = "IdempotencyRecord gomap"

definition idempotencyKey :: "string \<Rightarrow> string \<Rightarrow> string" where
  "idempotencyKey userID key = userID @ [CHR 0x00] @ key"

definition Idempotency_Claim ::
  "IdempotencyRecord \<Rightarrow> IdempotencyStore \<Rightarrow> IdempotencyStore \<times> IdempotencyRecord \<times> bool" where
  "Idempotency_Claim record r =
     (let mapKey = idempotencyKey (I_UserID record) (I_Key record);
          fresh = record\<lparr>I_State := IdempotencyInProgress, StatusCode := 0, I_Response := ''''\<rparr>
      in case map_of r mapKey of
           Some existing \<Rightarrow>
             if After (I_ExpiresAt existing) (I_CreatedAt record) then (r, existing, False)
             else (AList.update mapKey fresh r, fresh, True)
         | None \<Rightarrow> (AList.update mapKey fresh r, fresh, True))"

definition Idempotency_Complete ::
  "string \<Rightarrow> string \<Rightarrow> int \<Rightarrow> string \<Rightarrow> IdempotencyStore \<Rightarrow> IdempotencyStore result" where
  "Idempotency_Complete userID key statusCode response r =
     (let mapKey = idempotencyKey userID key in
      case map_of r mapKey of
        None \<Rightarrow> Inl (Repository ErrIdempotencyKeyNotFound)
      | Some record \<Rightarrow>
          Inr (AList.update mapKey
            (record\<lparr>I_State := IdempotencyCompleted, StatusCode := statusCode, I_Response := response\<rparr>) r))"

definition Idempotency_Release :: "string \<Rightarrow> string \<Rightarrow> IdempotencyStore \<Rightarrow> IdempotencyStore" where
  "Idempotency_Release userID key r = AList.delete (idempotencyKey userID key) r"

section \<open>The middleware\<close>

record Request =
  Req_Method :: string
  Req_Path :: string
  Req_Key :: string
  Req_User :: string

definition isRepeatable :: "string \<Rightarrow> bool" where
  "isRepeatable m \<longleftrightarrow> m \<in> {''POST'', ''PUT'', ''PATCH'', ''DELETE''}"

definition request_fingerprint :: "Request \<Rightarrow> string" where
  "request_fingerprint r = Req_Method r @ '' '' @ Req_Path r"

definition claim_record :: "duration \<Rightarrow> time \<Rightarrow> Request \<Rightarrow> IdempotencyRecord" where
  "claim_record ttl now r =
     \<lparr>I_UserID = Req_User r, I_Key = Req_Key r, Fingerprint = request_fingerprint r,
      I_State = IdempotencyInProgress, StatusCode = 0, I_Response = '''',
      I_CreatedAt = now, I_ExpiresAt = time_Add now ttl\<rparr>"

definition replay ::
  "(string \<Rightarrow> string \<Rightarrow> string) \<Rightarrow> (goerror \<Rightarrow> string) \<Rightarrow> IdempotencyRecord \<Rightarrow> string \<Rightarrow> answer_calls" where
  "replay Encode Error record fingerprint =
     (if Fingerprint record \<noteq> fingerprint then writeAPIError Encode Error (Handler errIdempotencyKeyReused)
      else if \<not> IsCompleted record then writeAPIError Encode Error (Handler errIdempotencyInProgress)
      else [SetHeader ''Content-Type'' ''application/json'', SetHeader ''Idempotent-Replay'' ''true'',
            WriteHeader (StatusCode record), Write (I_Response record)])"

definition finish :: "string \<Rightarrow> string \<Rightarrow> recordingWriter \<Rightarrow> IdempotencyStore \<Rightarrow> IdempotencyStore" where
  "finish userID key recorder r =
     (if 500 \<le> rec_status recorder then Idempotency_Release userID key r
      else case Idempotency_Complete userID key (rec_status recorder) (rec_body recorder) r of
        Inl _ \<Rightarrow> r
      | Inr r' \<Rightarrow> r')"

definition covered :: "Request \<Rightarrow> bool" where
  "covered r \<longleftrightarrow> \<not> (Req_Key r = '''' \<or> Req_User r = '''' \<or> \<not> isRepeatable (Req_Method r))"

definition Idempotency ::
  "(string \<Rightarrow> string \<Rightarrow> string) \<Rightarrow> (goerror \<Rightarrow> string) \<Rightarrow> duration \<Rightarrow> (Request \<Rightarrow> 'w \<Rightarrow> 'w \<times> answer_calls) \<Rightarrow>
   time \<Rightarrow> Request \<Rightarrow> IdempotencyStore \<times> 'w \<Rightarrow> (IdempotencyStore \<times> 'w) \<times> answer_calls" where
  "Idempotency Encode Error ttl serve now r st =
     (let (store, w) = st in
      if \<not> covered r then (let (w', calls) = serve r w in ((store, w'), calls))
      else case Idempotency_Claim (claim_record ttl now r) store of
        (store1, existing, claimed) \<Rightarrow>
          if \<not> claimed then ((store1, w), replay Encode Error existing (request_fingerprint r))
          else let (w', calls) = serve r w
            in ((finish (Req_User r) (Req_Key r) (recorded_answer calls) store1, w'), calls))"

section \<open>Laws of the store\<close>

abbreviation request_key :: "Request \<Rightarrow> string" where
  "request_key r \<equiv> idempotencyKey (Req_User r) (Req_Key r)"

definition free_key :: "time \<Rightarrow> string \<Rightarrow> IdempotencyStore \<Rightarrow> bool" where
  "free_key now k store \<longleftrightarrow> (\<forall>x. map_of store k = Some x \<longrightarrow> I_ExpiresAt x \<le> now)"

lemma claim_refused:
  "map_of store (request_key r) = Some x \<Longrightarrow> now < I_ExpiresAt x \<Longrightarrow>
     Idempotency_Claim (claim_record ttl now r) store = (store, x, False)"
  by (simp add: Idempotency_Claim_def claim_record_def After_def)

lemma claim_granted:
  "free_key now (request_key r) store \<Longrightarrow>
     Idempotency_Claim (claim_record ttl now r) store =
       (AList.update (request_key r) (claim_record ttl now r) store, claim_record ttl now r, True)"
  by (auto simp: Idempotency_Claim_def claim_record_def free_key_def After_def Let_def split: option.split)

lemma claim_cases:
  obtains (held) x where "map_of store (request_key r) = Some x" "now < I_ExpiresAt x"
    "Idempotency_Claim (claim_record ttl now r) store = (store, x, False)"
  | (free) "free_key now (request_key r) store" "Idempotency_Claim (claim_record ttl now r) store =
       (AList.update (request_key r) (claim_record ttl now r) store, claim_record ttl now r, True)"
proof (cases "free_key now (request_key r) store")
  case True
  then show thesis by (intro free claim_granted)
next
  case False
  then obtain x where "map_of store (request_key r) = Some x" "now < I_ExpiresAt x"
    unfolding free_key_def by (meson not_le)
  then show thesis by (intro held claim_refused)
qed

lemma map_of_finish:
  "map_of (finish u k w store) j =
     (if j = idempotencyKey u k then
        if 500 \<le> rec_status w then None
        else map_option (\<lambda>x. x\<lparr>I_State := IdempotencyCompleted, StatusCode := rec_status w, I_Response := rec_body w\<rparr>)
          (map_of store j)
      else map_of store j)"
  by (auto simp: finish_def Idempotency_Release_def Idempotency_Complete_def Let_def update_conv' delete_conv'
      split: option.split)

text \<open>Two users never share an entry: a user id holds no NUL byte, so the map key determines both parts.\<close>

lemma idempotencyKey_inj:
  assumes "CHR 0x00 \<notin> set u" "CHR 0x00 \<notin> set v" "idempotencyKey u k = idempotencyKey v l"
  shows "u = v \<and> k = l"
proof -
  have "takeWhile (\<lambda>c. c \<noteq> CHR 0x00) (u @ [CHR 0x00] @ k) = u" using assms(1) by (induction u) auto
  moreover have "takeWhile (\<lambda>c. c \<noteq> CHR 0x00) (v @ [CHR 0x00] @ l) = v" using assms(2) by (induction v) auto
  ultimately show ?thesis using assms(3) by (metis append_same_eq idempotencyKey_def same_append_eq)
qed

section \<open>Retries, one request after another\<close>

text \<open>A sequence of requests, each served at its time.\<close>

definition serve_all ::
  "(string \<Rightarrow> string \<Rightarrow> string) \<Rightarrow> (goerror \<Rightarrow> string) \<Rightarrow> duration \<Rightarrow> (Request \<Rightarrow> 'w \<Rightarrow> 'w \<times> answer_calls) \<Rightarrow>
   (time \<times> Request) list \<Rightarrow> IdempotencyStore \<times> 'w \<Rightarrow> IdempotencyStore \<times> 'w" where
  "serve_all Encode Error ttl serve = fold (\<lambda>(now, r) st. fst (Idempotency Encode Error ttl serve now r st))"

definition answered :: "string \<Rightarrow> IdempotencyRecord \<Rightarrow> IdempotencyStore \<Rightarrow> bool" where
  "answered k x store \<longleftrightarrow> map_of store k = Some x \<and> IsCompleted x"

lemma answered_stays:
  assumes "answered k x store" "now < I_ExpiresAt x"
  shows "answered k x (fst (fst (Idempotency Encode Error ttl serve now r (store, w))))"
proof (cases "covered r")
  case False
  then show ?thesis using assms(1) by (simp add: Idempotency_def split: prod.split)
next
  case True
  show ?thesis
  proof (rule claim_cases [of store r now ttl])
    fix y assume "Idempotency_Claim (claim_record ttl now r) store = (store, y, False)"
    then show ?thesis using assms(1) True by (simp add: Idempotency_def)
  next
    assume free: "free_key now (request_key r) store" and "Idempotency_Claim (claim_record ttl now r) store =
       (AList.update (request_key r) (claim_record ttl now r) store, claim_record ttl now r, True)"
    moreover have "k \<noteq> request_key r" using free assms by (auto simp: free_key_def answered_def)
    ultimately show ?thesis using assms(1) True
      by (simp add: Idempotency_def answered_def map_of_finish update_conv' split: prod.split)
  qed
qed

lemma answered_stays_all:
  "answered k x (fst st) \<Longrightarrow> \<forall>(now, r) \<in> set qs. now < I_ExpiresAt x \<Longrightarrow>
     answered k x (fst (serve_all Encode Error ttl serve qs st))"
proof (induction qs arbitrary: st)
  case (Cons q qs)
  have "answered k x (fst (fst (Idempotency Encode Error ttl serve (fst q) (snd q) (fst st, snd st))))"
    using Cons.prems by (intro answered_stays) (auto split: prod.splits)
  then show ?case using Cons.IH Cons.prems(2) by (simp add: serve_all_def split: prod.splits)
qed (simp add: serve_all_def)

lemma Idempotency_answered:
  assumes "covered r" "answered (request_key r) x (fst st)" "now < I_ExpiresAt x"
    "Fingerprint x = request_fingerprint r"
  shows "Idempotency Encode Error ttl serve now r st =
    (st, [SetHeader ''Content-Type'' ''application/json'', SetHeader ''Idempotent-Replay'' ''true'',
            WriteHeader (StatusCode x), Write (I_Response x)])"
  using assms claim_refused [of "fst st" r x now ttl]
  by (cases st) (simp add: Idempotency_def answered_def replay_def)

lemma Idempotency_first:
  assumes "covered r" "free_key now (request_key r) store" "serve r w = (w', calls)"
  shows "Idempotency Encode Error ttl serve now r (store, w) =
    ((finish (Req_User r) (Req_Key r) (recorded_answer calls)
        (AList.update (request_key r) (claim_record ttl now r) store), w'), calls)"
  using assms by (simp add: Idempotency_def claim_granted)

text \<open>A retry gets the first attempt's answer and the work is not done twice: once a request has been
  answered with anything below 500, the same request with the same key, made again within the time the
  key is kept and after any other requests, is answered with the same status and the same body, and
  neither the store nor the rest of the server changes.\<close>

theorem retry_gets_first_answer:
  assumes "covered r" and "free_key now (request_key r) store"
    and "serve r w = (w', calls)" and "disciplined calls" and "sent_status calls < 500"
    and "\<forall>(t, q) \<in> set qs. t < now + ttl" and "now' < now + ttl"
    and "st = serve_all Encode Error ttl serve qs (fst (Idempotency Encode Error ttl serve now r (store, w)))"
  shows "snd (Idempotency Encode Error ttl serve now r (store, w)) = calls \<and>
    (\<exists>again. Idempotency Encode Error ttl serve now' r st = (st, again) \<and> sent again = sent calls)"
proof -
  let ?x = "(claim_record ttl now r)\<lparr>I_State := IdempotencyCompleted, StatusCode := sent_status calls, I_Response := sent_body calls\<rparr>"
  have exp: "I_ExpiresAt ?x = now + ttl" by (simp add: claim_record_def time_Add_def)
  note first = Idempotency_first [of r now store serve w w' calls Encode Error ttl, OF assms(1-3)]
  have "answered (request_key r) ?x (fst (fst (Idempotency Encode Error ttl serve now r (store, w))))"
    using assms(5) by (simp add: first answered_def map_of_finish update_conv' recorder_exact [OF assms(4)] IsCompleted_def)
  then have "answered (request_key r) ?x (fst st)" unfolding assms(8)
    by (rule answered_stays_all) (use assms(6) in \<open>simp only: exp\<close>)
  from Idempotency_answered [OF assms(1) this, of now']
  have "Idempotency Encode Error ttl serve now' r st = (st, [SetHeader ''Content-Type'' ''application/json'',
      SetHeader ''Idempotent-Replay'' ''true'', WriteHeader (StatusCode ?x), Write (I_Response ?x)])"
    using assms(7) unfolding exp by (simp add: claim_record_def)
  then show ?thesis by (simp add: first sent_def)
qed

definition some_request :: Request where
  "some_request = \<lparr>Req_Method = ''POST'', Req_Path = ''/holds/h1/confirm'', Req_Key = ''k1'', Req_User = ''u1''\<rparr>"

definition counting :: "Request \<Rightarrow> nat \<Rightarrow> nat \<times> answer_calls" where
  "counting r w = (w + 1, [WriteHeader 200, Write ''done''])"

lemma some_request_covered: "covered some_request"
  by (simp add: covered_def some_request_def isRepeatable_def)

theorem retry_gets_first_answer_witness:
  "\<exists>again. Idempotency (\<lambda>c m. c) (\<lambda>e. '''') 100 counting 20 some_request
      (serve_all (\<lambda>c m. c) (\<lambda>e. '''') 100 counting [(15, some_request\<lparr>Req_User := ''u2''\<rparr>)]
        (fst (Idempotency (\<lambda>c m. c) (\<lambda>e. '''') 100 counting 10 some_request ([], 0)))) =
     (serve_all (\<lambda>c m. c) (\<lambda>e. '''') 100 counting [(15, some_request\<lparr>Req_User := ''u2''\<rparr>)]
        (fst (Idempotency (\<lambda>c m. c) (\<lambda>e. '''') 100 counting 10 some_request ([], 0))), again) \<and>
    sent again = (200, ''done'')"
proof -
  have "free_key 10 (request_key some_request) []" by (simp add: free_key_def)
  moreover have "counting some_request 0 = (1, [WriteHeader 200, Write ''done''])" by (simp add: counting_def)
  moreover have "disciplined [WriteHeader 200, Write ''done'']" "sent_status [WriteHeader 200, Write ''done''] < 500" by simp_all
  moreover have "\<forall>(t, q) \<in> set [(15, some_request\<lparr>Req_User := ''u2''\<rparr>)]. t < 10 + (100::int)" "20 < 10 + (100::int)" by simp_all
  ultimately show ?thesis
    using retry_gets_first_answer [OF some_request_covered _ _ _ _ _ _ refl, of 10 "[]" counting 0 1 _ _ 100 20 "\<lambda>c m. c" "\<lambda>e. ''''"]
    by (force simp: sent_def)
qed

text \<open>Every branch of the middleware: a request without a key, without a signed-in user or with a safe
  method goes straight through; a key held by another request is refused with 422 when that request was a
  different one and with 409 while it is still running, and the handler is not called; a free key lets
  the handler run, and an answer of 500 or more leaves the key free, so that a retry runs it again.\<close>

theorem idempotency_branches:
  assumes "serve r w = (w', calls)" and "disciplined calls"
    and "st = Idempotency Encode Error ttl serve now r (store, w)"
  shows "(\<not> covered r \<longrightarrow> st = ((store, w'), calls)) \<and>
    (covered r \<longrightarrow> (\<forall>x. map_of store (request_key r) = Some x \<and> now < I_ExpiresAt x \<longrightarrow>
        fst st = (store, w) \<and>
        (Fingerprint x \<noteq> request_fingerprint r \<longrightarrow> sent_status (snd st) = 422) \<and>
        (Fingerprint x = request_fingerprint r \<and> \<not> IsCompleted x \<longrightarrow> sent_status (snd st) = 409))) \<and>
    (covered r \<and> free_key now (request_key r) store \<longrightarrow>
        snd (fst st) = w' \<and> snd st = calls \<and>
        (500 \<le> sent_status calls \<longleftrightarrow> map_of (fst (fst st)) (request_key r) = None))"
proof (intro conjI impI)
  show "st = ((store, w'), calls)" if "\<not> covered r" using that assms by (simp add: Idempotency_def)
next
  assume c: "covered r"
  show "\<forall>x. map_of store (request_key r) = Some x \<and> now < I_ExpiresAt x \<longrightarrow>
        fst st = (store, w) \<and>
        (Fingerprint x \<noteq> request_fingerprint r \<longrightarrow> sent_status (snd st) = 422) \<and>
        (Fingerprint x = request_fingerprint r \<and> \<not> IsCompleted x \<longrightarrow> sent_status (snd st) = 409)"
  proof (intro allI impI)
    fix x assume "map_of store (request_key r) = Some x \<and> now < I_ExpiresAt x"
    then have "st = ((store, w), replay Encode Error x (request_fingerprint r))"
      using claim_refused [of store r x now ttl] c assms(3) by (simp add: Idempotency_def)
    moreover have "statusForError (Handler errIdempotencyKeyReused) = (422, ''idempotency_key_reused'')"
      "statusForError (Handler errIdempotencyInProgress) = (409, ''idempotency_in_progress'')" by code_simp+
    ultimately show "fst st = (store, w) \<and>
        (Fingerprint x \<noteq> request_fingerprint r \<longrightarrow> sent_status (snd st) = 422) \<and>
        (Fingerprint x = request_fingerprint r \<and> \<not> IsCompleted x \<longrightarrow> sent_status (snd st) = 409)"
      by (simp add: replay_def writeAPIError_def)
  qed
next
  assume "covered r \<and> free_key now (request_key r) store"
  then have st: "st = ((finish (Req_User r) (Req_Key r) (recorded_answer calls)
        (AList.update (request_key r) (claim_record ttl now r) store), w'), calls)"
    using Idempotency_first assms(1,3) by metis
  show "snd (fst st) = w'" "snd st = calls" by (simp_all add: st)
  show "500 \<le> sent_status calls \<longleftrightarrow> map_of (fst (fst st)) (request_key r) = None"
    by (simp add: st map_of_finish update_conv' recorder_exact [OF assms(2)])
qed

theorem idempotency_branches_witness:
  "map_of (fst (fst (Idempotency (\<lambda>c m. c) (\<lambda>e. '''') 100 (\<lambda>r w. (w, [WriteHeader 503])) 10 some_request ([], 0::nat))))
     (request_key some_request) = None"
proof -
  have "free_key 10 (request_key some_request) []" by (simp add: free_key_def)
  then show ?thesis
    using idempotency_branches [OF _ _ refl, of "\<lambda>r w. (w, [WriteHeader 503])" some_request "0::nat" 0 "[WriteHeader 503]"
        "\<lambda>c m. c" "\<lambda>e. ''''" 100 10 "[]"] some_request_covered by simp
qed

section \<open>Retries that overlap\<close>

text \<open>
  Requests run at the same time, so between the claim of one and its end any others may claim and end. A
  step is the claim of a request, granted or refused, or the end of a request that was granted its key.
\<close>

datatype idem_event = Began string time | Refused string time | Ended string int

type_synonym idem_state = "IdempotencyStore \<times> (string \<times> string) list"

inductive idem_step :: "duration \<Rightarrow> idem_state \<Rightarrow> idem_event \<Rightarrow> idem_state \<Rightarrow> bool" for ttl where
  idem_begin: "covered r \<Longrightarrow> Idempotency_Claim (claim_record ttl now r) store = (store', x, True) \<Longrightarrow>
    idem_step ttl (store, running) (Began (request_key r) now) (store', (Req_User r, Req_Key r) # running)"
| idem_refuse: "covered r \<Longrightarrow> Idempotency_Claim (claim_record ttl now r) store = (store', x, False) \<Longrightarrow>
    idem_step ttl (store, running) (Refused (request_key r) now) (store', running)"
| idem_end: "(u, k) \<in> set running \<Longrightarrow>
    idem_step ttl (store, running) (Ended (idempotencyKey u k) (rec_status w)) (finish u k w store, remove1 (u, k) running)"

inductive_cases idem_stepE: "idem_step ttl s e s'"

inductive idem_run :: "duration \<Rightarrow> idem_state \<Rightarrow> idem_event list \<Rightarrow> idem_state \<Rightarrow> bool" for ttl where
  idem_nil: "idem_run ttl s [] s"
| idem_cons: "idem_step ttl s e s' \<Longrightarrow> idem_run ttl s' es s'' \<Longrightarrow> idem_run ttl s (e # es) s''"

inductive_simps idem_run_Nil [simp]: "idem_run ttl s [] s'"
inductive_simps idem_run_Cons [simp]: "idem_run ttl s (e # es) s'"

lemma idem_run_append [simp]:
  "idem_run ttl s (es @ fs) s'' \<longleftrightarrow> (\<exists>s'. idem_run ttl s es s' \<and> idem_run ttl s' fs s'')"
  by (induction es arbitrary: s) auto

definition taken_until :: "string \<Rightarrow> time \<Rightarrow> idem_state \<Rightarrow> bool" where
  "taken_until k t s \<longleftrightarrow> (\<exists>x. map_of (fst s) k = Some x \<and> t \<le> I_ExpiresAt x)"

lemma began_takes: "idem_step ttl s (Began k now) s' \<Longrightarrow> taken_until k (now + ttl) s' \<and> free_key now k (fst s)"
  by (erule idem_stepE) (auto simp: taken_until_def Idempotency_Claim_def claim_record_def free_key_def update_conv'
      time_Add_def After_def Let_def split: option.splits if_splits)

lemma taken_step:
  assumes "idem_step ttl s e s'" "taken_until k t s" "0 \<le> ttl" "\<forall>st. e = Ended k st \<longrightarrow> st < 500"
  shows "taken_until k t s'"
  using assms(1)
proof (cases rule: idem_step.cases)
  case (idem_begin r now store store' x running)
  show ?thesis
  proof (cases "request_key r = k")
    case True
    have "taken_until k (now + ttl) s'" "free_key now k (fst s)" using began_takes assms(1) idem_begin True by metis+
    then show ?thesis using assms(2,3) by (fastforce simp: taken_until_def free_key_def)
  next
    case False
    then show ?thesis using idem_begin assms(2)
      by (auto simp: taken_until_def Idempotency_Claim_def claim_record_def update_conv' Let_def split: option.splits if_splits)
  qed
next
  case (idem_refuse r now store store' x running)
  then have "store' = store" by (auto simp: Idempotency_Claim_def Let_def split: option.splits if_splits)
  then show ?thesis using idem_refuse assms(2) by (simp add: taken_until_def)
next
  case (idem_end u j running store w)
  then show ?thesis using assms(2,4) by (auto simp: taken_until_def map_of_finish)
qed

lemma taken_run:
  "idem_run ttl s es s' \<Longrightarrow> taken_until k t s \<Longrightarrow> 0 \<le> ttl \<Longrightarrow> \<forall>st. Ended k st \<in> set es \<longrightarrow> st < 500 \<Longrightarrow> taken_until k t s'"
proof (induction rule: idem_run.induct)
  case (idem_cons s e s' es s'')
  then have "taken_until k t s'" by (intro taken_step [of ttl s e s' k t]) auto
  then show ?case using idem_cons by simp
qed simp

text \<open>C7. However requests overlap, one key runs the handler once: if a request was granted a key and,
  within the time the key is kept, a request is granted the same key again, then a run under that key
  ended with an answer of 500 or more in between.\<close>

theorem one_run_per_key:
  assumes "idem_run ttl s (before @ Began k t # between @ Began k t' # after) s'"
    and "0 \<le> ttl" and "t' < t + ttl"
  shows "\<exists>status. Ended k status \<in> set between \<and> 500 \<le> status"
proof (rule ccontr)
  assume "\<not> ?thesis"
  then have ok: "\<forall>st. Ended k st \<in> set between \<longrightarrow> st < 500" by (meson not_le)
  obtain s1 s2 s3 s4 where r: "idem_step ttl s1 (Began k t) s2" "idem_run ttl s2 between s3" "idem_step ttl s3 (Began k t') s4"
    using assms(1) by auto
  have "taken_until k (t + ttl) s3" using taken_run [OF r(2) _ assms(2) ok] began_takes [OF r(1)] by blast
  then show False using began_takes [OF r(3)] assms(3) by (fastforce simp: taken_until_def free_key_def)
qed

text \<open>The middleware as one call is one of these runs: a refusal, or a beginning and an end.\<close>

lemma Idempotency_is_run:
  assumes "covered r" "serve r w = (w', calls)"
  shows "\<exists>es. idem_run ttl (store, running) es (fst (fst (Idempotency Encode Error ttl serve now r (store, w))), running)"
proof (rule claim_cases [of store r now ttl])
  fix x assume c: "Idempotency_Claim (claim_record ttl now r) store = (store, x, False)"
  then have "idem_step ttl (store, running) (Refused (request_key r) now) (store, running)" by (rule idem_refuse [OF assms(1)])
  moreover have "fst (fst (Idempotency Encode Error ttl serve now r (store, w))) = store"
    using c assms(1) by (simp add: Idempotency_def)
  ultimately show ?thesis by (metis idem_nil idem_cons)
next
  let ?s = "AList.update (request_key r) (claim_record ttl now r) store"
  assume c: "free_key now (request_key r) store"
    "Idempotency_Claim (claim_record ttl now r) store = (?s, claim_record ttl now r, True)"
  have "idem_step ttl (store, running) (Began (request_key r) now) (?s, (Req_User r, Req_Key r) # running)"
    by (rule idem_begin [OF assms(1) c(2)])
  moreover have "idem_step ttl (?s, (Req_User r, Req_Key r) # running)
      (Ended (request_key r) (rec_status (recorded_answer calls)))
      (finish (Req_User r) (Req_Key r) (recorded_answer calls) ?s, running)"
    using idem_end [of "Req_User r" "Req_Key r" "(Req_User r, Req_Key r) # running"] by simp
  moreover have "fst (fst (Idempotency Encode Error ttl serve now r (store, w))) =
      finish (Req_User r) (Req_Key r) (recorded_answer calls) ?s"
    using Idempotency_first [of r now store serve w w' calls Encode Error ttl, OF assms(1) c(1) assms(2)] by simp
  ultimately show ?thesis by (metis idem_nil idem_cons)
qed

lemma failing_run:
  "idem_run 100 ([], []) ([] @ Began (request_key some_request) 10 #
     [Ended (request_key some_request) 500] @ Began (request_key some_request) 20 # [])
     ([(request_key some_request, claim_record 100 20 some_request)], [(''u1'', ''k1'')])"
proof -
  have u: "Req_User some_request = ''u1''" "Req_Key some_request = ''k1''" by (simp_all add: some_request_def)
  have free: "free_key n (request_key some_request) []" for n by (simp add: free_key_def)
  let ?s = "\<lambda>n. [(request_key some_request, claim_record 100 n some_request)]"
  have "idem_step 100 ([], []) (Began (request_key some_request) n) (?s n, [(''u1'', ''k1'')])" for n
    using idem_begin [OF some_request_covered claim_granted [OF free], where running = "[]" and ttl = 100 and now = n] u by simp
  moreover have "idem_step 100 (?s 10, [(''u1'', ''k1'')]) (Ended (request_key some_request) 500) ([], [])"
    using idem_end [of "''u1''" "''k1''" "[(''u1'', ''k1'')]" 100 "?s 10" "\<lparr>rec_status = 500, rec_body = ''''\<rparr>"] u
    by (simp add: finish_def Idempotency_Release_def)
  ultimately show ?thesis by (simp del: split_paired_Ex) blast
qed

theorem one_run_per_key_witness:
  "\<exists>status. Ended (request_key some_request) status \<in> set [Ended (request_key some_request) 500] \<and> 500 \<le> status"
  by (rule one_run_per_key [OF failing_run]) simp_all

end
