(* ===== verification/Http_Shapes.thy ===== *)
theory Http_Shapes
  imports Reservation
begin

text \<open>
  What the API sends and receives: the response structs of \<open>internal/handler/dto.go\<close> and of the handler files,
  each with the function that fills it from the domain, and the request structs. The bytes they are encoded
  to and decoded from are the business of \<open>encoding/json\<close>, which is a parameter of the handlers; so a body
  here is the struct that is handed to the encoder.
\<close>

section \<open>Responses\<close>

record eventResponse =
  ER_ID :: string
  ER_Name :: string
  ER_Venue :: string
  ER_StartsAt :: time
  ER_HasStarted :: bool
  ER_City :: string
  ER_Category :: string
  ER_ImageURL :: string
  ER_Description :: string
  ER_Rules :: string
  ER_Cancelled :: bool
  ER_CancelledAt :: time

definition newEventResponse :: "Event \<Rightarrow> time \<Rightarrow> eventResponse" where
  "newEventResponse event now =
     \<lparr>ER_ID = Event_ID event, ER_Name = Event_Name event, ER_Venue = Event_Venue event,
      ER_StartsAt = Event_StartsAt event, ER_HasStarted = HasStarted event now,
      ER_City = City (Event_Details event), ER_Category = Details_Category (Event_Details event),
      ER_ImageURL = ImageURL (Event_Details event), ER_Description = Description (Event_Details event),
      ER_Rules = Rules (Event_Details event), ER_Cancelled = IsCancelled event,
      ER_CancelledAt = Event_CancelledAt event\<rparr>"

record eventDetailResponse =
  ED_event :: eventResponse
  ED_Available :: int
  ED_Total :: int

record seatResponse =
  SR_ID :: string
  SR_Row :: string
  SR_Number :: int
  SR_Status :: string

definition newSeatResponse :: "Seat \<Rightarrow> time \<Rightarrow> seatResponse" where
  "newSeatResponse seat now =
     (let status = (if IsHoldExpired seat now then StatusAvailable else Seat_Status seat) in
      \<lparr>SR_ID = Seat_ID seat, SR_Row = Seat_Row seat, SR_Number = Seat_Number seat,
       SR_Status = SeatStatus_String status\<rparr>)"

record seatMapResponse =
  SM_EventID :: string
  SM_Seats :: "seatResponse list"

text \<open>
  \<open>int(d.Seconds())\<close>: whole seconds, cut towards zero. \<open>Seconds\<close> is a \<open>float64\<close>; for durations below
  \<open>2 ^ 24\<close> seconds, half a year, its rounding never reaches the next whole second.
\<close>

definition whole_seconds :: "duration \<Rightarrow> int" where
  "whole_seconds d = (if 0 \<le> d then d div Second else - ((- d) div Second))"

record holdResponse =
  HR_HoldID :: string
  HR_EventID :: string
  HR_SeatID :: string
  HR_UserID :: string
  HR_ExpiresAt :: time
  HR_ExpiresInSeconds :: int

definition newHoldResponse :: "Hold \<Rightarrow> time \<Rightarrow> holdResponse" where
  "newHoldResponse hold now =
     \<lparr>HR_HoldID = Hold_ID hold, HR_EventID = Hold_EventID hold, HR_SeatID = Hold_SeatID hold,
      HR_UserID = Hold_UserID hold, HR_ExpiresAt = Hold_ExpiresAt hold,
      HR_ExpiresInSeconds = whole_seconds (RemainingTime hold now)\<rparr>"

record reservationResponse =
  RR_EventID :: string
  RR_SeatID :: string
  RR_UserID :: string
  RR_Status :: string
  RR_TicketCode :: string

definition newReservationResponse :: "Seat \<Rightarrow> reservationResponse" where
  "newReservationResponse seat =
     \<lparr>RR_EventID = Seat_EventID seat, RR_SeatID = Seat_ID seat, RR_UserID = ReservedBy seat,
      RR_Status = SeatStatus_String (Seat_Status seat), RR_TicketCode = TicketCode seat\<rparr>"

record ticketResponse =
  TR_EventID :: string
  TR_EventName :: string
  TR_Venue :: string
  TR_StartsAt :: time
  TR_SeatID :: string
  TR_Row :: string
  TR_Number :: int
  TR_Status :: string
  TR_TicketCode :: string
  TR_HoldID :: string
  TR_ExpiresAt :: time
  TR_ExpiresInSeconds :: int

definition newTicketResponse :: "Event \<times> Seat \<Rightarrow> time \<Rightarrow> ticketResponse" where
  "newTicketResponse ticket now =
     (let (event, seat) = ticket;
          body = \<lparr>TR_EventID = Event_ID event, TR_EventName = Event_Name event, TR_Venue = Event_Venue event,
                  TR_StartsAt = Event_StartsAt event, TR_SeatID = Seat_ID seat, TR_Row = Seat_Row seat,
                  TR_Number = Seat_Number seat, TR_Status = SeatStatus_String (Seat_Status seat),
                  TR_TicketCode = TicketCode seat, TR_HoldID = '''', TR_ExpiresAt = zero_time,
                  TR_ExpiresInSeconds = 0\<rparr>
      in case CurrentHold now seat of
           None \<Rightarrow> body
         | Some hold \<Rightarrow>
             body\<lparr>TR_HoldID := Hold_ID hold, TR_ExpiresAt := Hold_ExpiresAt hold,
                  TR_ExpiresInSeconds := whole_seconds (RemainingTime hold now)\<rparr>)"

record ticketsResponse =
  TS_Holds :: "ticketResponse list"
  TS_Reservations :: "ticketResponse list"

record userResponse =
  UR_ID :: string
  UR_Email :: string
  UR_CreatedAt :: time

record sessionResponse =
  SS_Token :: string
  SS_UserID :: string
  SS_ExpiresAt :: time
  SS_ExpiresInSeconds :: int

record accountResponse =
  AR_UserID :: string
  AR_Email :: string
  AR_Role :: string
  AR_EmailVerified :: bool

record addSeatsResponse =
  AS_EventID :: string
  AS_Created :: int

record waitingListResponse =
  WL_EventID :: string
  WL_UserID :: string
  WL_Position :: int

record notificationResponse =
  NR_ID :: string
  NR_Kind :: string
  NR_EventID :: string
  NR_EventName :: string
  NR_SeatID :: string
  NR_CreatedAt :: time
  NR_Read :: bool

record notificationsResponse =
  NS_Unread :: int
  NS_Notifications :: "notificationResponse list"

record readyResponse =
  RY_Status :: string
  RY_Store :: string
  RY_Err :: string

text \<open>A value handed to the JSON encoder.\<close>

datatype reply_body =
    ErrorBody string string
  | HealthBody string
  | EventsBody "eventResponse list"
  | EventDetailBody eventDetailResponse
  | EventBody eventResponse
  | SeatMapBody seatMapResponse
  | TicketsBody ticketsResponse
  | HoldBody holdResponse
  | ReservationBody reservationResponse
  | UserBody userResponse
  | SessionBody sessionResponse
  | AccountBody accountResponse
  | AddSeatsBody addSeatsResponse
  | WaitingListBody waitingListResponse
  | NotificationsBody notificationsResponse
  | MarkReadBody int
  | PushKeyBody string
  | ReadyBody readyResponse

section \<open>Requests\<close>

record credentialsRequest =
  CR_Email :: string
  CR_Password :: string

text \<open>\<open>None\<close> is a field left out of the body.\<close>

record eventDetailsRequest =
  DR_City :: "string option"
  DR_Category :: "string option"
  DR_ImageURL :: "string option"
  DR_Description :: "string option"
  DR_Rules :: "string option"

definition sent_text :: "string option \<Rightarrow> string \<Rightarrow> string" where
  "sent_text sent into = (case sent of None \<Rightarrow> into | Some text \<Rightarrow> TrimSpace text)"

definition applyTo :: "eventDetailsRequest \<Rightarrow> EventDetails \<Rightarrow> EventDetails" where
  "applyTo b current =
     current\<lparr>City := sent_text (DR_City b) (City current), ImageURL := sent_text (DR_ImageURL b) (ImageURL current),
       Description := sent_text (DR_Description b) (Description current), Rules := sent_text (DR_Rules b) (Rules current),
       Details_Category := sent_text (DR_Category b) (Details_Category current)\<rparr>"

text \<open>The bodies that create and that change an event have the same fields.\<close>

record eventRequest =
  EQ_Name :: string
  EQ_Venue :: string
  EQ_StartsAt :: time
  EQ_details :: eventDetailsRequest

record addSeatsRequest =
  AQ_Rows :: "string list"
  AQ_SeatsPerRow :: int

record subscribeRequest =
  SQ_Endpoint :: string
  SQ_P256dh :: string
  SQ_Auth :: string

section \<open>What the shapes show\<close>

text \<open>A seat is shown as available exactly when somebody could take it.\<close>

lemma shown_available_iff:
  "seat_wf seat \<Longrightarrow> SR_Status (newSeatResponse seat now) = ''available'' \<longleftrightarrow> CanHold seat now"
  by (cases "Seat_Status seat") (auto simp: newSeatResponse_def seat_ops seat_wf_def)

lemma applyTo_idem [simp]: "applyTo b (applyTo b d) = applyTo b d"
  by (simp add: applyTo_def sent_text_def split: option.split)

end
