(* ===== verification/Handlers.thy ===== *)
theory Handlers
  imports Service_Machine Deliveries Idempotency Http_Shapes
begin

text \<open>
  The request handlers of \<open>internal/handler\<close> and their routes. A handler is a function of the wiring (the fields
  of the \<open>Handler\<close> struct), of what the outside supplies while it runs (readings of the clock, ids, password
  hashes), of the request and of the server's state; it gives the new state and the calls it made on the
  response writer. \<open>encoding/json\<close>, the QR encoder, the file server of the web interface and the answers of
  \<open>http.ServeMux\<close> where no route matches are parameters. A handler that panics is answered by the \<open>Recovery\<close>
  middleware with the bytes of an internal error, and is written here as failing with an \<open>Opaque\<close> error, which
  gives the same answer.
\<close>

section \<open>State and wiring\<close>

record Server =
  S_world :: World
  S_revoked :: "TokenStore option"
  S_links :: VerificationStore

definition accounts_of :: "Server \<Rightarrow> AccountState" where
  "accounts_of s = \<lparr>A_users = W_users (S_world s), A_revoked = S_revoked s, A_links = S_links s\<rparr>"

definition with_accounts :: "AccountState \<Rightarrow> Server \<Rightarrow> Server" where
  "with_accounts a s =
     s\<lparr>S_world := (S_world s)\<lparr>W_users := A_users a\<rparr>, S_revoked := A_revoked a, S_links := A_links a\<rparr>"

text \<open>What one request draws: the readings of the clock in order, the ids, and the hash of a password.\<close>

record Draws =
  tick :: "nat \<Rightarrow> time"
  newID :: "nat \<Rightarrow> string"
  rand_Text :: string
  Hash :: "string \<Rightarrow> string result"

text \<open>
  A decoder is told the limit and the bytes of the body. It says what the first \<open>Decode\<close> gave, where \<open>Inl True\<close> is a
  \<open>http.MaxBytesError\<close> and \<open>Inl False\<close> any other failure, and whether the second one found the end of the body.
\<close>

type_synonym 'a decoder = "int \<Rightarrow> string \<Rightarrow> (bool + 'a) \<times> bool"

text \<open>A \<open>None\<close> is a dependency that is not wired in.\<close>

record Handler =
  H_json :: "reply_body \<Rightarrow> string"
  H_Error :: "goerror \<Rightarrow> string"
  H_service :: ServiceConfig
  H_verifier :: "duration option"
  H_waiting :: bool
  H_inventory :: "InventoryConfig option"
  H_notifier :: bool
  H_push :: "string option"
  H_prober :: "unit result option"
  H_web :: "(string \<Rightarrow> answer_calls) option"
  H_metrics :: "answer_calls option"
  H_stream :: "string \<Rightarrow> string \<Rightarrow> answer_calls"
  H_docsPage :: string
  H_openAPISpec :: string
  H_unmatched :: "Request \<Rightarrow> answer_calls"
  H_bodyLimit :: int
  H_url_Parse :: url_parser
  H_lower :: "string \<Rightarrow> string"
  H_Compare :: "string \<Rightarrow> string \<Rightarrow> unit result"
  H_NeedsRehash :: "string \<Rightarrow> bool"
  H_sign :: "string \<Rightarrow> string"
  H_tokenTTL :: duration
  H_qrcode :: "string \<Rightarrow> string result"
  D_credentials :: "credentialsRequest decoder"
  D_event :: "eventRequest decoder"
  D_addSeats :: "addSeatsRequest decoder"
  D_subscribe :: "subscribeRequest decoder"
  D_endpoint :: "string decoder"
  D_token :: "string decoder"

text \<open>What a handler reads of its request: who asks, what their token said, the body and the path values.\<close>

record Call =
  C_user :: string
  C_claims :: "Claims option"
  C_body :: string
  C_path :: "(string \<times> string) list"
  C_url :: string

definition PathValue :: "string \<Rightarrow> Call \<Rightarrow> string" where
  "PathValue name r = (case map_of (C_path r) name of None \<Rightarrow> '''' | Some v \<Rightarrow> v)"

type_synonym handler = "Draws \<Rightarrow> Call \<Rightarrow> Server \<Rightarrow> Server \<times> answer_calls"

section \<open>Reading and writing\<close>

definition userIDFrom :: "Call \<Rightarrow> string result" where
  "userIDFrom r = (if C_user r = '''' then Inl (Handler errUnauthenticated) else Inr (C_user r))"

definition writeJSON :: "Handler \<Rightarrow> int \<Rightarrow> reply_body \<Rightarrow> answer_calls" where
  "writeJSON h status body =
     [SetHeader ''Content-Type'' ''application/json'', WriteHeader status, Write (H_json h body)]"

definition writeError :: "Handler \<Rightarrow> goerror \<Rightarrow> answer_calls" where
  "writeError h err = writeAPIError (\<lambda>code message. H_json h (ErrorBody code message)) (H_Error h) err"

definition defaultBodyLimit :: int where "defaultBodyLimit = 8192"

definition invalidBody :: "bool \<Rightarrow> goerror" where
  "invalidBody tooLarge = Handler (if tooLarge then errRequestBodyTooLarge else errInvalidRequestBody)"

definition decodeJSON :: "'a decoder \<Rightarrow> int \<Rightarrow> string \<Rightarrow> 'a result" where
  "decodeJSON decoder limit body =
     (let limit = (if limit \<le> 0 then defaultBodyLimit else limit) in
      case decoder limit body of
        (Inl tooLarge, _) \<Rightarrow> Inl (invalidBody tooLarge)
      | (Inr value, at_end) \<Rightarrow> if at_end then Inr value else Inl (Handler errInvalidRequestBody))"

section \<open>Events and seats\<close>

definition health :: "Handler \<Rightarrow> handler" where
  "health h d r s = (s, writeJSON h 200 (HealthBody ''ok''))"

definition ready :: "Handler \<Rightarrow> handler" where
  "ready h d r s =
     (s, case H_prober h of
           None \<Rightarrow> writeJSON h 200 (ReadyBody \<lparr>RY_Status = ''ready'', RY_Store = ''memory'', RY_Err = ''''\<rparr>)
         | Some (Inl _) \<Rightarrow>
             writeJSON h 503 (ReadyBody
               \<lparr>RY_Status = ''unavailable'', RY_Store = ''postgres'', RY_Err = ''the database could not be reached''\<rparr>)
         | Some (Inr _) \<Rightarrow> writeJSON h 200 (ReadyBody \<lparr>RY_Status = ''ready'', RY_Store = ''postgres'', RY_Err = ''''\<rparr>))"

definition listEvents :: "Handler \<Rightarrow> handler" where
  "listEvents h d r s =
     (s, writeJSON h 200 (EventsBody (map (\<lambda>event. newEventResponse event (tick d 0)) (ListEvents (W_events (S_world s))))))"

definition showEvent :: "Handler \<Rightarrow> handler" where
  "showEvent h d r s =
     (let eventID = PathValue ''eventID'' r in
      case GetEvent eventID (W_events (S_world s)) of
        Inl err \<Rightarrow> (s, writeError h err)
      | Inr event \<Rightarrow>
          (case SeatMap eventID (S_world s) of
             Inl err \<Rightarrow> (s, writeError h err)
           | Inr seats \<Rightarrow>
               let now = tick d 0;
                   available = length (filter (\<lambda>seat. Seat_Status seat = StatusAvailable \<or> IsHoldExpired seat now) seats)
               in (s, writeJSON h 200 (EventDetailBody
                     \<lparr>ED_event = newEventResponse event now, ED_Available = int available,
                      ED_Total = int (length seats)\<rparr>))))"

definition seatMap :: "Handler \<Rightarrow> handler" where
  "seatMap h d r s =
     (let eventID = PathValue ''eventID'' r in
      case SeatMap eventID (S_world s) of
        Inl err \<Rightarrow> (s, writeError h err)
      | Inr seats \<Rightarrow>
          (s, writeJSON h 200 (SeatMapBody
             \<lparr>SM_EventID = eventID, SM_Seats = map (\<lambda>seat. newSeatResponse seat (tick d 0)) seats\<rparr>)))"

fun sort_tickets :: "time \<Rightarrow> (Event \<times> Seat) list \<Rightarrow> ticketsResponse \<Rightarrow> ticketsResponse" where
  "sort_tickets now [] body = body"
| "sort_tickets now (ticket # tickets) body =
     (if Seat_Status (snd ticket) = StatusHeld \<and> \<not> IsHoldExpired (snd ticket) now
        then sort_tickets now tickets (body\<lparr>TS_Holds := TS_Holds body @ [newTicketResponse ticket now]\<rparr>)
      else if Seat_Status (snd ticket) = StatusReserved
        then sort_tickets now tickets (body\<lparr>TS_Reservations := TS_Reservations body @ [newTicketResponse ticket now]\<rparr>)
      else sort_tickets now tickets body)"

definition myTickets :: "Handler \<Rightarrow> handler" where
  "myTickets h d r s =
     (case userIDFrom r of
        Inl err \<Rightarrow> (s, writeError h err)
      | Inr userID \<Rightarrow>
          (case MyTickets userID (S_world s) of
             Inl err \<Rightarrow> (s, writeError h err)
           | Inr tickets \<Rightarrow>
               (s, writeJSON h 200 (TicketsBody
                  (sort_tickets (tick d 0) tickets \<lparr>TS_Holds = [], TS_Reservations = []\<rparr>)))))"

definition holdSeat :: "Handler \<Rightarrow> handler" where
  "holdSeat h d r s =
     (case userIDFrom r of
        Inl err \<Rightarrow> (s, writeError h err)
      | Inr userID \<Rightarrow>
          (case HoldSeat (H_service h) (tick d 0) (tick d 1) (newID d 0)
                  (PathValue ''eventID'' r) (PathValue ''seatID'' r) userID (S_world s) of
             (w, Inl err) \<Rightarrow> (s\<lparr>S_world := w\<rparr>, writeError h err)
           | (w, Inr None) \<Rightarrow> (s\<lparr>S_world := w\<rparr>, writeError h (Opaque ''panic: nil pointer dereference''))
           | (w, Inr (Some hold)) \<Rightarrow>
               (s\<lparr>S_world := w\<rparr>,
                SetHeader ''Location'' (''/holds/'' @ Hold_ID hold) #
                writeJSON h 201 (HoldBody (newHoldResponse hold (tick d 2))))))"

definition confirmReservation :: "Handler \<Rightarrow> handler" where
  "confirmReservation h d r s =
     (case userIDFrom r of
        Inl err \<Rightarrow> (s, writeError h err)
      | Inr userID \<Rightarrow>
          (case ConfirmReservation (H_service h) (tick d 0) (tick d 1) (newID d 0) (PathValue ''holdID'' r) userID (S_world s) of
             (w, Inl err) \<Rightarrow> (s\<lparr>S_world := w\<rparr>, writeError h err)
           | (w, Inr seat) \<Rightarrow>
               (s\<lparr>S_world := w\<rparr>, writeJSON h 200 (ReservationBody (newReservationResponse seat)))))"

definition releaseSeat :: "Handler \<Rightarrow> handler" where
  "releaseSeat h d r s =
     (case userIDFrom r of
        Inl err \<Rightarrow> (s, writeError h err)
      | Inr userID \<Rightarrow>
          (case ReleaseSeat (H_service h) (tick d 0) (PathValue ''holdID'' r) userID (S_world s) of
             (w, Inl err) \<Rightarrow> (s\<lparr>S_world := w\<rparr>, writeError h err)
           | (w, Inr _) \<Rightarrow> (s\<lparr>S_world := w\<rparr>, [WriteHeader 204])))"

definition ticketQR :: "Handler \<Rightarrow> handler" where
  "ticketQR h d r s =
     (s, case userIDFrom r of
           Inl err \<Rightarrow> writeError h err
         | Inr userID \<Rightarrow>
             (case MyTickets userID (S_world s) of
                Inl err \<Rightarrow> writeError h err
              | Inr tickets \<Rightarrow>
                  let wanted = PathValue ''ticketCode'' r in
                  if \<not> list_ex (\<lambda>ticket. TicketCode (snd ticket) = wanted \<and> wanted \<noteq> '''') tickets
                    then writeError h (Handler errTicketNotFound)
                  else case H_qrcode h wanted of
                    Inl err \<Rightarrow> writeError h err
                  | Inr png \<Rightarrow>
                      [SetHeader ''Content-Type'' ''image/png'',
                       SetHeader ''Cache-Control'' ''private, max-age=86400'', Write png]))"

section \<open>Accounts\<close>

definition register :: "Handler \<Rightarrow> handler" where
  "register h d r s =
     (case decodeJSON (D_credentials h) (H_bodyLimit h) (C_body r) of
        Inl err \<Rightarrow> (s, writeError h err)
      | Inr credentials \<Rightarrow>
          (case Register (H_lower h) (map_option (\<lambda>ttl. (ttl, rand_Text d, tick d 1)) (H_verifier h))
                  (Hash d (CR_Password credentials)) (newID d 0) (tick d 0)
                  (CR_Email credentials) (CR_Password credentials) (accounts_of s) of
             (a, Inl err) \<Rightarrow> (with_accounts a s, writeError h err)
           | (a, Inr user) \<Rightarrow>
               (with_accounts a s, writeJSON h 201 (UserBody
                  \<lparr>UR_ID = User_ID user, UR_Email = User_Email user, UR_CreatedAt = User_CreatedAt user\<rparr>))))"

definition login :: "Handler \<Rightarrow> handler" where
  "login h d r s =
     (case decodeJSON (D_credentials h) (H_bodyLimit h) (C_body r) of
        Inl err \<Rightarrow> (s, writeError h err)
      | Inr credentials \<Rightarrow>
          (case Login (H_lower h) (H_Compare h) (H_NeedsRehash h) (H_sign h) (H_tokenTTL h)
                  (Hash d (CR_Password credentials)) (rand_Text d) (tick d 0)
                  (CR_Email credentials) (CR_Password credentials) (accounts_of s) of
             (a, Inl err) \<Rightarrow> (with_accounts a s, writeError h err)
           | (a, Inr session) \<Rightarrow>
               (with_accounts a s, writeJSON h 200 (SessionBody
                  \<lparr>SS_Token = Session_Token session, SS_UserID = Session_UserID session,
                   SS_ExpiresAt = Session_ExpiresAt session,
                   SS_ExpiresInSeconds = whole_seconds (time_Sub (Session_ExpiresAt session) (tick d 1))\<rparr>))))"

definition logout :: "Handler \<Rightarrow> handler" where
  "logout h d r s =
     (case C_claims r of
        None \<Rightarrow> (s, writeError h (Handler errUnauthenticated))
      | Some claims \<Rightarrow>
          (case Logout (Claims_TokenID claims) (Claims_ExpiresAt claims) (accounts_of s) of
             (a, Inl err) \<Rightarrow> (with_accounts a s, writeError h err)
           | (a, Inr _) \<Rightarrow> (with_accounts a s, [WriteHeader 204])))"

definition account :: "Handler \<Rightarrow> handler" where
  "account h d r s =
     (s, case userIDFrom r of
           Inl err \<Rightarrow> writeError h err
         | Inr userID \<Rightarrow>
             (case Account userID (accounts_of s) of
                Inl err \<Rightarrow> writeError h err
              | Inr user \<Rightarrow>
                  writeJSON h 200 (AccountBody
                    \<lparr>AR_UserID = User_ID user, AR_Email = User_Email user, AR_Role = User_Role user,
                     AR_EmailVerified = EmailVerified user\<rparr>)))"

definition verifyEmail :: "Handler \<Rightarrow> handler" where
  "verifyEmail h d r s =
     (case decodeJSON (D_token h) (H_bodyLimit h) (C_body r) of
        Inl err \<Rightarrow> (s, writeError h err)
      | Inr token \<Rightarrow>
          (case Verification_Verify token (tick d 0) (accounts_of s) of
             (a, Inl err) \<Rightarrow> (with_accounts a s, writeError h err)
           | (a, Inr _) \<Rightarrow> (with_accounts a s, [WriteHeader 204])))"

definition resendVerification :: "duration \<Rightarrow> Handler \<Rightarrow> handler" where
  "resendVerification ttl h d r s =
     (case userIDFrom r of
        Inl err \<Rightarrow> (s, writeError h err)
      | Inr userID \<Rightarrow>
          (case Verification_Resend ttl (rand_Text d) (tick d 0) userID (accounts_of s) of
             (a, Inl err) \<Rightarrow> (with_accounts a s, writeError h err)
           | (a, Inr _) \<Rightarrow> (with_accounts a s, [WriteHeader 202])))"

section \<open>Waiting lists, notices and push\<close>

definition place_in_queue :: "Handler \<Rightarrow> string \<Rightarrow> string \<Rightarrow> nat \<Rightarrow> answer_calls" where
  "place_in_queue h eventID userID position =
     writeJSON h 200 (WaitingListBody \<lparr>WL_EventID = eventID, WL_UserID = userID, WL_Position = int position\<rparr>)"

definition joinWaitingList :: "Handler \<Rightarrow> handler" where
  "joinWaitingList h d r s =
     (case userIDFrom r of
        Inl err \<Rightarrow> (s, writeError h err)
      | Inr userID \<Rightarrow>
          let eventID = PathValue ''eventID'' r in
          (case WaitingList_Join (H_service h) (tick d 0) (newID d 0) eventID userID (S_world s) of
             (w, Inl err) \<Rightarrow> (s\<lparr>S_world := w\<rparr>, writeError h err)
           | (w, Inr position) \<Rightarrow> (s\<lparr>S_world := w\<rparr>, place_in_queue h eventID userID position)))"

definition leaveWaitingList :: "Handler \<Rightarrow> handler" where
  "leaveWaitingList h d r s =
     (case userIDFrom r of
        Inl err \<Rightarrow> (s, writeError h err)
      | Inr userID \<Rightarrow>
          (s\<lparr>S_world := WaitingList_Leave (PathValue ''eventID'' r) userID (S_world s)\<rparr>, [WriteHeader 204]))"

definition waitingListPosition :: "Handler \<Rightarrow> handler" where
  "waitingListPosition h d r s =
     (s, case userIDFrom r of
           Inl err \<Rightarrow> writeError h err
         | Inr userID \<Rightarrow>
             let eventID = PathValue ''eventID'' r in
             (case WaitingList_Position eventID userID (S_world s) of
                Inl err \<Rightarrow> writeError h err
              | Inr position \<Rightarrow> place_in_queue h eventID userID position))"

definition notification_response :: "Notification \<Rightarrow> notificationResponse" where
  "notification_response notice =
     \<lparr>NR_ID = Notification_ID notice, NR_Kind = Notification_Kind notice, NR_EventID = Notification_EventID notice,
      NR_EventName = Notification_EventName notice, NR_SeatID = Notification_SeatID notice,
      NR_CreatedAt = Notification_CreatedAt notice, NR_Read = IsRead notice\<rparr>"

definition notifications :: "Handler \<Rightarrow> handler" where
  "notifications h d r s =
     (s, case userIDFrom r of
           Inl err \<Rightarrow> writeError h err
         | Inr userID \<Rightarrow>
             (case Service_Notifications userID (W_inbox (S_world s)) of
                Inl err \<Rightarrow> writeError h err
              | Inr notices \<Rightarrow>
                  writeJSON h 200 (NotificationsBody
                    \<lparr>NS_Unread = int (length (filter (\<lambda>notice. \<not> IsRead notice) notices)),
                     NS_Notifications = map notification_response notices\<rparr>)))"

definition markNotificationsRead :: "Handler \<Rightarrow> handler" where
  "markNotificationsRead h d r s =
     (case userIDFrom r of
        Inl err \<Rightarrow> (s, writeError h err)
      | Inr userID \<Rightarrow>
          (case MarkNotificationsRead userID (tick d 0) (W_inbox (S_world s)) of
             (inbox, Inl err) \<Rightarrow> (s\<lparr>S_world := (S_world s)\<lparr>W_inbox := inbox\<rparr>\<rparr>, writeError h err)
           | (inbox, Inr marked) \<Rightarrow>
               (s\<lparr>S_world := (S_world s)\<lparr>W_inbox := inbox\<rparr>\<rparr>, writeJSON h 200 (MarkReadBody (int marked)))))"

definition pushKey :: "string \<Rightarrow> Handler \<Rightarrow> handler" where
  "pushKey key h d r s = (s, writeJSON h 200 (PushKeyBody key))"

definition subscribeToPush :: "Handler \<Rightarrow> handler" where
  "subscribeToPush h d r s =
     (case userIDFrom r of
        Inl err \<Rightarrow> (s, writeError h err)
      | Inr userID \<Rightarrow>
          (case decodeJSON (D_subscribe h) (H_bodyLimit h) (C_body r) of
             Inl err \<Rightarrow> (s, writeError h err)
           | Inr body \<Rightarrow>
               (case Service_Subscribe (newID d 0) (tick d 0) userID (SQ_Endpoint body) (SQ_P256dh body) (SQ_Auth body)
                       (W_push (S_world s)) of
                  (subs, Inl err) \<Rightarrow> (s\<lparr>S_world := (S_world s)\<lparr>W_push := subs\<rparr>\<rparr>, writeError h err)
                | (subs, Inr _) \<Rightarrow> (s\<lparr>S_world := (S_world s)\<lparr>W_push := subs\<rparr>\<rparr>, [WriteHeader 204]))))"

definition unsubscribeFromPush :: "Handler \<Rightarrow> handler" where
  "unsubscribeFromPush h d r s =
     (case userIDFrom r of
        Inl err \<Rightarrow> (s, writeError h err)
      | Inr userID \<Rightarrow>
          (case decodeJSON (D_endpoint h) (H_bodyLimit h) (C_body r) of
             Inl err \<Rightarrow> (s, writeError h err)
           | Inr endpoint \<Rightarrow>
               (case Service_Unsubscribe userID endpoint (W_push (S_world s)) of
                  (subs, Inl err) \<Rightarrow> (s\<lparr>S_world := (S_world s)\<lparr>W_push := subs\<rparr>\<rparr>, writeError h err)
                | (subs, Inr _) \<Rightarrow> (s\<lparr>S_world := (S_world s)\<lparr>W_push := subs\<rparr>\<rparr>, [WriteHeader 204]))))"

section \<open>Administration\<close>

definition requireAdmin :: "Handler \<Rightarrow> handler \<Rightarrow> handler" where
  "requireAdmin h next d r s =
     (case userIDFrom r of
        Inl err \<Rightarrow> (s, writeError h err)
      | Inr userID \<Rightarrow>
          (case Account_Role userID (accounts_of s) of
             Inl _ \<Rightarrow> (s, writeError h (Domain ErrNotPermitted))
           | Inr role \<Rightarrow>
               if \<not> IsAdmin role then (s, writeError h (Domain ErrNotPermitted)) else next d r s))"

definition no_details :: EventDetails where
  "no_details = \<lparr>City = '''', Details_Category = '''', ImageURL = '''', Description = '''', Rules = ''''\<rparr>"

definition createEvent :: "Handler \<Rightarrow> handler" where
  "createEvent h d r s =
     (case decodeJSON (D_event h) (H_bodyLimit h) (C_body r) of
        Inl err \<Rightarrow> (s, writeError h err)
      | Inr body \<Rightarrow>
          (case Inventory_CreateEvent (H_url_Parse h) (newID d 0) (EQ_Name body) (EQ_Venue body) (EQ_StartsAt body)
                  (applyTo (EQ_details body) no_details) (S_world s) of
             (w, Inl err) \<Rightarrow> (s\<lparr>S_world := w\<rparr>, writeError h err)
           | (w, Inr event) \<Rightarrow>
               (s\<lparr>S_world := w\<rparr>,
                SetHeader ''Location'' (''/events/'' @ Event_ID event) #
                writeJSON h 201 (EventBody (newEventResponse event (tick d 0))))))"

definition addSeats :: "Handler \<Rightarrow> handler" where
  "addSeats h d r s =
     (case decodeJSON (D_addSeats h) (H_bodyLimit h) (C_body r) of
        Inl err \<Rightarrow> (s, writeError h err)
      | Inr body \<Rightarrow>
          let eventID = PathValue ''eventID'' r in
          (case AddSeats eventID (AQ_Rows body) (AQ_SeatsPerRow body) (S_world s) of
             (w, Inl err) \<Rightarrow> (s\<lparr>S_world := w\<rparr>, writeError h err)
           | (w, Inr created) \<Rightarrow>
               (s\<lparr>S_world := w\<rparr>, writeJSON h 201 (AddSeatsBody \<lparr>AS_EventID = eventID, AS_Created = created\<rparr>))))"

definition updateEvent :: "Handler \<Rightarrow> handler" where
  "updateEvent h d r s =
     (case decodeJSON (D_event h) (H_bodyLimit h) (C_body r) of
        Inl err \<Rightarrow> (s, writeError h err)
      | Inr body \<Rightarrow>
          (case Inventory_UpdateEvent (H_url_Parse h) (PathValue ''eventID'' r) (EQ_Name body) (EQ_Venue body)
                  (EQ_StartsAt body) (applyTo (EQ_details body)) (S_world s) of
             (w, Inl err) \<Rightarrow> (s\<lparr>S_world := w\<rparr>, writeError h err)
           | (w, Inr event) \<Rightarrow>
               (s\<lparr>S_world := w\<rparr>, writeJSON h 200 (EventBody (newEventResponse event (tick d 0))))))"

definition cancelEvent :: "InventoryConfig \<Rightarrow> Handler \<Rightarrow> handler" where
  "cancelEvent icfg h d r s =
     (case CancelEvent icfg (newID d) (tick d 0) (tick d 1) (tick d 2) (tick d 3) (PathValue ''eventID'' r) (S_world s) of
        (w, Inl err) \<Rightarrow> (s\<lparr>S_world := w\<rparr>, writeError h err)
      | (w, Inr event) \<Rightarrow>
          (s\<lparr>S_world := w\<rparr>, writeJSON h 200 (EventBody (newEventResponse event (tick d 4)))))"

definition deleteEvent :: "Handler \<Rightarrow> handler" where
  "deleteEvent h d r s =
     (case Inventory_DeleteEvent (PathValue ''eventID'' r) (S_world s) of
        (w, Inl err) \<Rightarrow> (s\<lparr>S_world := w\<rparr>, writeError h err)
      | (w, Inr _) \<Rightarrow> (s\<lparr>S_world := w\<rparr>, [WriteHeader 204]))"

subsection \<open>Documentation\<close>

definition quoted :: "string \<Rightarrow> string" where
  "quoted s = CHR 0x27 # s @ [CHR 0x27]"

definition swaggerCDN :: string where "swaggerCDN = ''https://unpkg.com''"

definition docsPolicy :: "string \<Rightarrow> string" where
  "docsPolicy nonce = Join
     [''default-src '' @ quoted ''none'', ''script-src '' @ quoted (''nonce-'' @ nonce) @ '' '' @ swaggerCDN,
      ''style-src '' @ quoted ''unsafe-inline'' @ '' '' @ swaggerCDN, ''img-src '' @ quoted ''self'' @ '' data:'',
      ''font-src '' @ swaggerCDN @ '' data:'', ''connect-src '' @ quoted ''self'', ''frame-ancestors '' @ quoted ''none'',
      ''base-uri '' @ quoted ''none''] ''; ''"

definition docs :: "Handler \<Rightarrow> handler" where
  "docs h d r s =
     (let nonce = rand_Text d in
      (s, [SetHeader ''Content-Security-Policy'' (docsPolicy nonce), SetHeader ''Content-Type'' ''text/html; charset=utf-8'',
           Write (ReplaceAll ''{{nonce}}'' nonce (H_docsPage h))]))"

definition openAPI :: "Handler \<Rightarrow> handler" where
  "openAPI h d r s = (s, [SetHeader ''Content-Type'' ''application/yaml'', Write (H_openAPISpec h)])"

section \<open>Routes\<close>

text \<open>A route and, where its handler needs a dependency that may be absent, that dependency.\<close>

datatype route =
    R_web "string \<Rightarrow> answer_calls" | R_health | R_ready | R_metrics answer_calls | R_docs | R_openAPI
  | R_register | R_login | R_logout | R_verifyEmail | R_resendVerification duration
  | R_listEvents | R_showEvent | R_seatMap | R_stream
  | R_waitingListPosition | R_joinWaitingList | R_leaveWaitingList
  | R_holdSeat | R_account | R_myTickets | R_ticketQR
  | R_notifications | R_markNotificationsRead
  | R_pushKey string | R_subscribeToPush | R_unsubscribeFromPush
  | R_confirmReservation | R_releaseSeat
  | R_createEvent | R_addSeats | R_updateEvent | R_cancelEvent InventoryConfig | R_deleteEvent

datatype segment = Lit string | Wild string

text \<open>\<open>Subtree\<close> is the pattern \<open>/\<close>, which takes every path.\<close>

datatype path_pattern = Exact "segment list" | Subtree

type_synonym mux = "(string \<times> path_pattern \<times> route) list"

definition Routes :: "Handler \<Rightarrow> mux" where
  "Routes h =
     (case H_web h of None \<Rightarrow> [] | Some web \<Rightarrow> [(''GET'', Subtree, R_web web)]) @
     [(''GET'', Exact [Lit ''health''], R_health),
      (''GET'', Exact [Lit ''ready''], R_ready)] @
     (case H_metrics h of None \<Rightarrow> [] | Some page \<Rightarrow> [(''GET'', Exact [Lit ''metrics''], R_metrics page)]) @
     [(''GET'', Exact [Lit ''docs''], R_docs),
      (''GET'', Exact [Lit ''openapi.yaml''], R_openAPI),
      (''POST'', Exact [Lit ''auth'', Lit ''register''], R_register),
      (''POST'', Exact [Lit ''auth'', Lit ''login''], R_login),
      (''POST'', Exact [Lit ''auth'', Lit ''logout''], R_logout)] @
     (case H_verifier h of
        None \<Rightarrow> []
      | Some ttl \<Rightarrow>
          [(''POST'', Exact [Lit ''auth'', Lit ''verify''], R_verifyEmail),
           (''POST'', Exact [Lit ''auth'', Lit ''verify'', Lit ''resend''], R_resendVerification ttl)]) @
     [(''GET'', Exact [Lit ''events''], R_listEvents),
      (''GET'', Exact [Lit ''events'', Wild ''eventID''], R_showEvent),
      (''GET'', Exact [Lit ''events'', Wild ''eventID'', Lit ''seats''], R_seatMap),
      (''GET'', Exact [Lit ''events'', Wild ''eventID'', Lit ''stream''], R_stream)] @
     (if H_waiting h then
        [(''GET'', Exact [Lit ''events'', Wild ''eventID'', Lit ''waiting-list''], R_waitingListPosition),
         (''POST'', Exact [Lit ''events'', Wild ''eventID'', Lit ''waiting-list''], R_joinWaitingList),
         (''DELETE'', Exact [Lit ''events'', Wild ''eventID'', Lit ''waiting-list''], R_leaveWaitingList)]
      else []) @
     [(''POST'', Exact [Lit ''events'', Wild ''eventID'', Lit ''seats'', Wild ''seatID'', Lit ''hold''], R_holdSeat),
      (''GET'', Exact [Lit ''account''], R_account),
      (''GET'', Exact [Lit ''tickets''], R_myTickets),
      (''GET'', Exact [Lit ''tickets'', Wild ''ticketCode'', Lit ''qr.png''], R_ticketQR)] @
     (if H_notifier h then
        [(''GET'', Exact [Lit ''notifications''], R_notifications),
         (''POST'', Exact [Lit ''notifications'', Lit ''read''], R_markNotificationsRead)]
      else []) @
     (case H_push h of
        None \<Rightarrow> []
      | Some key \<Rightarrow>
          [(''GET'', Exact [Lit ''push'', Lit ''key''], R_pushKey key),
           (''POST'', Exact [Lit ''push'', Lit ''subscriptions''], R_subscribeToPush),
           (''DELETE'', Exact [Lit ''push'', Lit ''subscriptions''], R_unsubscribeFromPush)]) @
     [(''POST'', Exact [Lit ''holds'', Wild ''holdID'', Lit ''confirm''], R_confirmReservation),
      (''DELETE'', Exact [Lit ''holds'', Wild ''holdID''], R_releaseSeat)] @
     (case H_inventory h of
        None \<Rightarrow> []
      | Some icfg \<Rightarrow>
          [(''POST'', Exact [Lit ''admin'', Lit ''events''], R_createEvent),
           (''POST'', Exact [Lit ''admin'', Lit ''events'', Wild ''eventID'', Lit ''seats''], R_addSeats),
           (''PATCH'', Exact [Lit ''admin'', Lit ''events'', Wild ''eventID''], R_updateEvent),
           (''POST'', Exact [Lit ''admin'', Lit ''events'', Wild ''eventID'', Lit ''cancel''], R_cancelEvent icfg),
           (''DELETE'', Exact [Lit ''admin'', Lit ''events'', Wild ''eventID''], R_deleteEvent)])"

fun run_route :: "Handler \<Rightarrow> route \<Rightarrow> handler" where
  "run_route h (R_web web) d r s = (s, web (C_url r))"
| "run_route h R_health d r s = health h d r s"
| "run_route h R_ready d r s = ready h d r s"
| "run_route h (R_metrics page) d r s = (s, page)"
| "run_route h R_docs d r s = docs h d r s"
| "run_route h R_openAPI d r s = openAPI h d r s"
| "run_route h R_register d r s = register h d r s"
| "run_route h R_login d r s = login h d r s"
| "run_route h R_logout d r s = logout h d r s"
| "run_route h R_verifyEmail d r s = verifyEmail h d r s"
| "run_route h (R_resendVerification ttl) d r s = resendVerification ttl h d r s"
| "run_route h R_listEvents d r s = listEvents h d r s"
| "run_route h R_showEvent d r s = showEvent h d r s"
| "run_route h R_seatMap d r s = seatMap h d r s"
| "run_route h R_stream d r s = (s, H_stream h (PathValue ''eventID'' r) (C_user r))"
| "run_route h R_waitingListPosition d r s = waitingListPosition h d r s"
| "run_route h R_joinWaitingList d r s = joinWaitingList h d r s"
| "run_route h R_leaveWaitingList d r s = leaveWaitingList h d r s"
| "run_route h R_holdSeat d r s = holdSeat h d r s"
| "run_route h R_account d r s = account h d r s"
| "run_route h R_myTickets d r s = myTickets h d r s"
| "run_route h R_ticketQR d r s = ticketQR h d r s"
| "run_route h R_notifications d r s = notifications h d r s"
| "run_route h R_markNotificationsRead d r s = markNotificationsRead h d r s"
| "run_route h (R_pushKey key) d r s = pushKey key h d r s"
| "run_route h R_subscribeToPush d r s = subscribeToPush h d r s"
| "run_route h R_unsubscribeFromPush d r s = unsubscribeFromPush h d r s"
| "run_route h R_confirmReservation d r s = confirmReservation h d r s"
| "run_route h R_releaseSeat d r s = releaseSeat h d r s"
| "run_route h R_createEvent d r s = requireAdmin h (createEvent h) d r s"
| "run_route h R_addSeats d r s = requireAdmin h (addSeats h) d r s"
| "run_route h R_updateEvent d r s = requireAdmin h (updateEvent h) d r s"
| "run_route h (R_cancelEvent icfg) d r s = requireAdmin h (cancelEvent icfg h) d r s"
| "run_route h R_deleteEvent d r s = requireAdmin h (deleteEvent h) d r s"

subsection \<open>The multiplexer\<close>

text \<open>
  How \<open>http.ServeMux\<close> chooses: a wildcard takes one segment that is not empty, a \<open>GET\<close> pattern takes \<open>HEAD\<close> too,
  and the catch-all is the least specific of the patterns. Paths are taken as \<open>r.URL.Path\<close> has them, without
  percent escapes.
\<close>

fun split_slash :: "string \<Rightarrow> string list" where
  "split_slash [] = [[]]"
| "split_slash (c # cs) =
     (if c = CHR ''/'' then [] # split_slash cs
      else case split_slash cs of x # xs \<Rightarrow> (c # x) # xs | [] \<Rightarrow> [[c]])"

definition path_segments :: "string \<Rightarrow> string list" where
  "path_segments path = split_slash (tl path)"

fun match_segments :: "segment list \<Rightarrow> string list \<Rightarrow> (string \<times> string) list option" where
  "match_segments [] [] = Some []"
| "match_segments (Lit a # ps) (x # xs) = (if a = x then match_segments ps xs else None)"
| "match_segments (Wild n # ps) (x # xs) =
     (if x = '''' then None else map_option (\<lambda>vs. (n, x) # vs) (match_segments ps xs))"
| "match_segments _ _ = None"

definition takes_method :: "string \<Rightarrow> string \<Rightarrow> bool" where
  "takes_method pattern m \<longleftrightarrow> pattern = m \<or> pattern = ''GET'' \<and> m = ''HEAD''"

fun find_exact :: "mux \<Rightarrow> string \<Rightarrow> string list \<Rightarrow> (route \<times> (string \<times> string) list) option" where
  "find_exact [] m xs = None"
| "find_exact ((_, Subtree, _) # rs) m xs = find_exact rs m xs"
| "find_exact ((pm, Exact ps, route) # rs) m xs =
     (case (if takes_method pm m then match_segments ps xs else None) of
        Some vs \<Rightarrow> Some (route, vs)
      | None \<Rightarrow> find_exact rs m xs)"

fun find_subtree :: "mux \<Rightarrow> string \<Rightarrow> route option" where
  "find_subtree [] m = None"
| "find_subtree ((_, Exact _, _) # rs) m = find_subtree rs m"
| "find_subtree ((pm, Subtree, route) # rs) m = (if takes_method pm m then Some route else find_subtree rs m)"

definition mux_Handler :: "mux \<Rightarrow> string \<Rightarrow> string \<Rightarrow> (route \<times> (string \<times> string) list) option" where
  "mux_Handler mx m path =
     (case find_exact mx m (path_segments path) of
        Some found \<Rightarrow> Some found
      | None \<Rightarrow> map_option (\<lambda>route. (route, [])) (find_subtree mx m))"

text \<open>One request, after the middleware has read its token.\<close>

definition ServeHTTP :: "Handler \<Rightarrow> Draws \<Rightarrow> Claims option \<Rightarrow> string \<Rightarrow> Request \<Rightarrow> Server \<Rightarrow> Server \<times> answer_calls" where
  "ServeHTTP h d claims body r s =
     (case mux_Handler (Routes h) (Req_Method r) (Req_Path r) of
        None \<Rightarrow> (s, H_unmatched h r)
      | Some (route, values) \<Rightarrow>
          run_route h route d
            \<lparr>C_user = Req_User r, C_claims = claims, C_body = body, C_path = values, C_url = Req_Path r\<rparr> s)"

end
