(* ===== verification/Http_Server.thy ===== *)
theory Http_Server
  imports Handlers
begin

text \<open>
  What the handlers promise together. Every request is a run of the services of \<open>Service_Machine\<close>, so what holds of
  their runs holds of every sequence of requests; only administrators change the catalogue; a caller without
  a token changes nothing but their own account; a refused request leaves seats, events, queues and notices as
  they were; and the answers about seats say what the services would do.
\<close>

section \<open>Every request is a run of the services\<close>

lemma with_accounts_of [simp]: "with_accounts (accounts_of s) s = s"
  by (simp add: with_accounts_def accounts_of_def)

lemma with_accounts_world [simp]:
  "S_world (with_accounts a s) = (S_world s)\<lparr>W_users := A_users a\<rparr>"
  by (simp add: with_accounts_def)

lemma accounts_of_users [simp]: "A_users (accounts_of s) = W_users (S_world s)"
  by (simp add: accounts_of_def)

text \<open>What the draws of a request are relied on for: its ids are new and have no slash, and the clock does not read the
  zero time.\<close>

definition fresh_draws :: "Draws \<Rightarrow> World \<Rightarrow> bool" where
  "fresh_draws d w \<longleftrightarrow> hold_is_new (W_seats w) (newID d 0) \<and> user_id_new (W_users w) (newID d 0) \<and>
     slash_free (newID d 0) \<and> tick d 0 \<noteq> zero_time"

lemma docs_keeps [dest]: "docs h d r s = (s', cs) \<Longrightarrow> s' = s" "openAPI h d r s = (s', cs) \<Longrightarrow> s' = s"
  by (simp_all add: docs_def openAPI_def Let_def)

lemma Issue_users: "Verification_Issue ttl token now u e a = (a', res) \<Longrightarrow> A_users a' = A_users a"
  by (auto simp: Verification_Issue_def split: sum.splits)

lemma Resend_users: "Verification_Resend ttl token now u a = (a', res) \<Longrightarrow> A_users a' = A_users a"
  by (auto simp: Verification_Resend_def dest: Issue_users split: sum.splits prod.splits if_splits)

lemma Register_users:
  "Register lower v hashed i now email password a = (a', res) \<Longrightarrow> A_users a' = A_users a \<or>
   (\<exists>user. User_ID user = i \<and> CreateUser user (A_users a) = Inr (A_users a'))"
proof -
  have issue: "A_users (fst (Verification_Issue ttl token issued u e a1)) = A_users a1" for ttl token issued u e a1
    by (rule Issue_users) (rule prod.collapse [symmetric])
  assume "Register lower v hashed i now email password a = (a', res)"
  then show ?thesis
    by (auto simp: Register_def Let_def NewUser_def issue split: sum.splits option.splits)
qed

lemma Login_users:
  "Login lower C N sign ttl hashed rt now email password a = (a', res) \<Longrightarrow> A_users a' = A_users a \<or>
   (\<exists>u hash. UpdatePasswordHash u hash (A_users a) = Inr (A_users a'))"
  by (auto simp: Login_def Let_def upgradeHash_def split: sum.splits if_splits)

lemma Verify_users:
  "Verification_Verify token now a = (a', res) \<Longrightarrow> A_users a' = A_users a \<or>
   (\<exists>u email. MarkEmailVerified u email now (A_users a) = Inr (A_users a'))"
  by (auto simp: Verification_Verify_def split: sum.splits prod.splits if_splits)

lemma Logout_users: "Logout t e a = (a', res) \<Longrightarrow> A_users a' = A_users a"
  by (auto simp: Logout_def split: option.splits)

text \<open>The effect of the account handlers on the shared state.\<close>

lemma register_world:
  "register h d r s = (s', cs) \<Longrightarrow> S_world s' = S_world s \<or>
   (\<exists>user users. User_ID user = newID d 0 \<and> CreateUser user (W_users (S_world s)) = Inr users \<and>
      S_world s' = (S_world s)\<lparr>W_users := users\<rparr>)"
  by (fastforce simp: register_def dest!: Register_users split: sum.splits prod.splits)

lemma login_world:
  "login h d r s = (s', cs) \<Longrightarrow> S_world s' = S_world s \<or>
   (\<exists>u hash users. UpdatePasswordHash u hash (W_users (S_world s)) = Inr users \<and>
      S_world s' = (S_world s)\<lparr>W_users := users\<rparr>)"
  by (fastforce simp: login_def dest!: Login_users split: sum.splits prod.splits)

lemma verifyEmail_world:
  "verifyEmail h d r s = (s', cs) \<Longrightarrow> S_world s' = S_world s \<or>
   (\<exists>u email users. MarkEmailVerified u email (tick d 0) (W_users (S_world s)) = Inr users \<and>
      S_world s' = (S_world s)\<lparr>W_users := users\<rparr>)"
  by (fastforce simp: verifyEmail_def dest!: Verify_users split: sum.splits prod.splits)

lemma quiet_worlds:
  "logout h d r s = (s', cs) \<Longrightarrow> S_world s' = S_world s"
  "resendVerification ttl h d r s = (s', cs) \<Longrightarrow> S_world s' = S_world s"
  by (auto simp: logout_def resendVerification_def dest!: Logout_users Resend_users split: option.splits sum.splits prod.splits)

lemma service_calls:
  "HoldSeat cfg now at i e j u w = (w', res1) \<Longrightarrow> hold_is_new (W_seats w) i \<Longrightarrow> service_step cfg icfg p w w'"
  "ConfirmReservation cfg now at i hid u w = (w', res2) \<Longrightarrow> service_step cfg icfg p w w'"
  "ReleaseSeat cfg at hid u w = (w', res3) \<Longrightarrow> service_step cfg icfg p w w'"
  "WaitingList_Join cfg now i e u w = (w', res4) \<Longrightarrow> service_step cfg icfg p w w'"
  "Inventory_CreateEvent p i n v t details w = (w', res5) \<Longrightarrow> slash_free i \<Longrightarrow> service_step cfg icfg p w w'"
  "Inventory_UpdateEvent p e n v t change w = (w', res6) \<Longrightarrow> service_step cfg icfg p w w'"
  "CancelEvent icfg ids t1 t2 t3 t4 e w = (w', res7) \<Longrightarrow> service_step cfg icfg p w w'"
  "Inventory_DeleteEvent e w = (w', res8) \<Longrightarrow> service_step cfg icfg p w w'"
  "AddSeats e rows m w = (w', res9) \<Longrightarrow> service_step cfg icfg p w w'"
  by (metis fst_conv does_hold, metis fst_conv does_confirm, metis fst_conv does_release, metis fst_conv does_join,
      metis fst_conv does_create, metis fst_conv does_update, metis fst_conv does_cancel, metis fst_conv does_delete,
      metis fst_conv does_add)

lemma notice_calls:
  "service_step cfg icfg p w (w\<lparr>W_inbox := inbox\<rparr>)" "service_step cfg icfg p w (w\<lparr>W_push := subs\<rparr>)"
  using does_deliver [where w = w and inbox = inbox and outbox = "W_outbox w" and subscriptions = "W_push w"]
    does_deliver [where w = w and inbox = "W_inbox w" and outbox = "W_outbox w" and subscriptions = subs]
  by simp_all

lemma admin_routes: "requireAdmin h next d r s = (s', cs) \<Longrightarrow> s' = s \<or> next d r s = (s', cs)"
  by (auto simp: requireAdmin_def split: sum.splits if_splits)

lemma admin_calls:
  "createEvent h d r s = (s', cs) \<Longrightarrow> slash_free (newID d 0) \<Longrightarrow>
     S_world s' = S_world s \<or> service_step cfg icfg (H_url_Parse h) (S_world s) (S_world s')"
  "addSeats h d r s = (s', cs) \<Longrightarrow> S_world s' = S_world s \<or> service_step cfg icfg p (S_world s) (S_world s')"
  "updateEvent h d r s = (s', cs) \<Longrightarrow>
     S_world s' = S_world s \<or> service_step cfg icfg (H_url_Parse h) (S_world s) (S_world s')"
  "cancelEvent icfg h d r s = (s', cs) \<Longrightarrow> service_step cfg icfg p (S_world s) (S_world s')"
  "deleteEvent h d r s = (s', cs) \<Longrightarrow> service_step cfg icfg p (S_world s) (S_world s')"
  by (auto simp: createEvent_def addSeats_def updateEvent_def cancelEvent_def deleteEvent_def docs_def openAPI_def Let_def
      intro: service_calls split: sum.splits prod.splits)

lemma run_route_step:
  assumes "run_route h route d r s = (s', cs)" "fresh_draws d (S_world s)" "\<forall>ic. route = R_cancelEvent ic \<longrightarrow> ic = icfg"
  shows "S_world s' = S_world s \<or> service_step (H_service h) icfg (H_url_Parse h) (S_world s) (S_world s')"
proof (cases route)
  case R_register
  then show ?thesis using assms(1,2) by (auto simp: fresh_draws_def dest!: register_world) (metis does_register)
next
  case R_login
  then show ?thesis using assms(1) by (auto dest!: login_world intro: does_rehash)
next
  case R_verifyEmail
  then show ?thesis using assms(1,2) by (auto simp: fresh_draws_def dest!: verifyEmail_world intro: does_verify)
next
  case R_holdSeat
  then show ?thesis using assms(1,2)
    by (auto simp: holdSeat_def fresh_draws_def intro: service_calls split: sum.splits prod.splits option.splits)
next
  case R_leaveWaitingList
  then show ?thesis using assms(1) by (auto simp: leaveWaitingList_def intro: does_leave split: sum.splits)
next
  case R_createEvent
  then show ?thesis using assms(1,2) admin_routes [of h "createEvent h" d r s s' cs] admin_calls(1) [of h d r s s' cs]
    by (auto simp: fresh_draws_def)
next
  case R_addSeats
  then show ?thesis using assms(1) admin_routes [of h "addSeats h" d r s s' cs] admin_calls(2) [of h d r s s' cs] by auto
next
  case R_updateEvent
  then show ?thesis using assms(1) admin_routes [of h "updateEvent h" d r s s' cs] admin_calls(3) [of h d r s s' cs] by auto
next
  case (R_cancelEvent ic)
  then show ?thesis using assms(1,3) admin_routes [of h "cancelEvent icfg h" d r s s' cs] admin_calls(4) [of icfg h d r s s' cs] by auto
next
  case R_deleteEvent
  then show ?thesis using assms(1) admin_routes [of h "deleteEvent h" d r s s' cs] admin_calls(5) [of h d r s s' cs] by auto
qed (use assms(1) in \<open>auto simp: quiet_worlds health_def ready_def listEvents_def showEvent_def seatMap_def myTickets_def
  ticketQR_def account_def waitingListPosition_def notifications_def pushKey_def confirmReservation_def releaseSeat_def
  joinWaitingList_def markNotificationsRead_def subscribeToPush_def unsubscribeFromPush_def
  Let_def intro: service_calls notice_calls dest!: quiet_worlds split: sum.splits prod.splits\<close>)

lemma find_exact_in: "find_exact mx m xs = Some (route, vs) \<Longrightarrow> \<exists>pm pat. (pm, pat, route) \<in> set mx"
  by (induction mx m xs rule: find_exact.induct) (auto split: option.splits if_splits)

lemma find_subtree_in: "find_subtree mx m = Some route \<Longrightarrow> \<exists>pm pat. (pm, pat, route) \<in> set mx"
  by (induction mx m rule: find_subtree.induct) (auto split: if_splits)

lemma mux_in: "mux_Handler mx m path = Some (route, vs) \<Longrightarrow> \<exists>pm pat. (pm, pat, route) \<in> set mx"
  by (auto simp: mux_Handler_def dest: find_exact_in find_subtree_in split: option.splits)

lemma cancel_route: "(pm, pat, R_cancelEvent ic) \<in> set (Routes h) \<Longrightarrow> H_inventory h = Some ic"
  by (auto simp: Routes_def split: option.splits if_splits)

lemma ServeHTTP_step:
  assumes "ServeHTTP h d claims body r s = (s', cs)" "fresh_draws d (S_world s)"
  shows "S_world s' = S_world s \<or>
    service_step (H_service h) (the (H_inventory h)) (H_url_Parse h) (S_world s) (S_world s')"
proof (cases "mux_Handler (Routes h) (Req_Method r) (Req_Path r)")
  case None
  then show ?thesis using assms(1) by (simp add: ServeHTTP_def)
next
  case (Some found)
  obtain route vs where f: "found = (route, vs)" by force
  obtain pm pat where "(pm, pat, route) \<in> set (Routes h)" using mux_in Some f by blast
  then have "\<forall>ic. route = R_cancelEvent ic \<longrightarrow> ic = the (H_inventory h)" by (auto dest: cancel_route)
  with run_route_step [OF _ assms(2)] assms(1) Some f show ?thesis by (simp add: ServeHTTP_def)
qed

section \<open>Who may change what\<close>

definition same_catalogue :: "World \<Rightarrow> World \<Rightarrow> bool" where
  "same_catalogue w w' \<longleftrightarrow> W_events w' = W_events w \<and>
     (\<forall>k. map_of (W_seats w') k = None \<longleftrightarrow> map_of (W_seats w) k = None)"

lemma same_catalogue_refl [simp]: "same_catalogue w w"
  by (simp add: same_catalogue_def)

lemma same_catalogue_others [simp]:
  "same_catalogue w (w\<lparr>W_users := users\<rparr>)" "same_catalogue w (w\<lparr>W_inbox := inbox\<rparr>)" "same_catalogue w (w\<lparr>W_push := subs\<rparr>)"
  by (simp_all add: same_catalogue_def)

lemma update_keys:
  "map_of r k0 \<noteq> None \<Longrightarrow> map_of (AList.update k0 v r) k = None \<longleftrightarrow> map_of r k = None"
  by (simp add: update_conv')

lemma UpdateSeat_keys: "map_of (fst (UpdateSeat e i f r)) k = None \<longleftrightarrow> map_of r k = None"
  by (auto simp: UpdateSeat_def Let_def update_keys simp del: map_of_eq_Some_iff split: option.split sum.split)

lemma find_hold_key: "find_hold hid r = Some (k, s) \<Longrightarrow> map_of r k \<noteq> None"
  by (induction hid r rule: find_hold.induct) (auto split: if_splits)

lemma UpdateSeatByHoldID_keys: "map_of (fst (UpdateSeatByHoldID hid f r)) k = None \<longleftrightarrow> map_of r k = None"
proof (cases "find_hold hid r")
  case (Some p)
  then show ?thesis using find_hold_key [of hid r "fst p" "snd p"]
    by (cases p) (auto simp: UpdateSeatByHoldID_def update_keys split: sum.split)
qed (simp add: UpdateSeatByHoldID_def)

lemma HoldSeat_catalogue: "HoldSeat cfg now at i e j u w = (w', res) \<Longrightarrow> same_catalogue w w'"
  using UpdateSeat_keys [of e j "Seat_Hold i u (HoldTTL cfg) now" "W_seats w"]
  by (auto simp: HoldSeat_def announceSeatChange_def same_catalogue_def Let_def case_prod_unfold
      split: sum.splits option.splits if_splits)

lemma ConfirmReservation_catalogue: "ConfirmReservation cfg now at i hid u w = (w', res) \<Longrightarrow> same_catalogue w w'"
  using UpdateSeatByHoldID_keys [of hid "Seat_Confirm u (FormatTicketCode (take 8 i)) now" "W_seats w"]
  by (auto simp: ConfirmReservation_def announceSeatChange_def same_catalogue_def Let_def case_prod_unfold
      split: sum.splits if_splits)

lemma ReleaseSeat_catalogue: "ReleaseSeat cfg at hid u w = (w', res) \<Longrightarrow> same_catalogue w w'"
  using UpdateSeatByHoldID_keys [of hid "Seat_Release u" "W_seats w"]
  by (auto simp: ReleaseSeat_def announceSeatChange_def same_catalogue_def Let_def case_prod_unfold split: sum.splits)

lemma WaitingList_catalogue:
  "WaitingList_Join cfg now i e u w = (w', res) \<Longrightarrow> same_catalogue w w'" "same_catalogue w (WaitingList_Leave e u w)"
  by (auto simp: WaitingList_Join_def WaitingList_Leave_def same_catalogue_def Let_def split: sum.splits prod.splits)

fun admin_route :: "route \<Rightarrow> bool" where
  "admin_route R_createEvent = True"
| "admin_route R_addSeats = True"
| "admin_route R_updateEvent = True"
| "admin_route (R_cancelEvent _) = True"
| "admin_route R_deleteEvent = True"
| "admin_route _ = False"

lemma customer_route_catalogue:
  assumes "run_route h route d r s = (s', cs)" "\<not> admin_route route"
  shows "same_catalogue (S_world s) (S_world s')"
  using assms
  by (cases route) (auto simp: health_def ready_def listEvents_def showEvent_def seatMap_def myTickets_def
      ticketQR_def account_def waitingListPosition_def notifications_def pushKey_def confirmReservation_def releaseSeat_def
      joinWaitingList_def leaveWaitingList_def markNotificationsRead_def subscribeToPush_def unsubscribeFromPush_def
      holdSeat_def Let_def WaitingList_catalogue dest!: quiet_worlds register_world login_world verifyEmail_world
      dest: HoldSeat_catalogue ConfirmReservation_catalogue ReleaseSeat_catalogue WaitingList_catalogue(1)
      split: sum.splits prod.splits option.splits)

lemma sent_writeError [simp]: "sent_status (writeError h err) = fst (statusForError err)"
  by (simp add: writeError_def writeAPIError_def case_prod_unfold Let_def)

lemma sent_writeJSON [simp]: "sent_status (writeJSON h status body) = status"
  by (simp add: writeJSON_def)

lemma auth_statuses [simp]:
  "statusForError (Handler errUnauthenticated) = (401, ''unauthenticated'')"
  "statusForError (Domain ErrNotPermitted) = (403, ''not_permitted'')"
  by (simp_all add: statusForError_def errorMapping_def)

definition caller_is_admin :: "string \<Rightarrow> Server \<Rightarrow> bool" where
  "caller_is_admin userID s \<longleftrightarrow> userID \<noteq> '''' \<and> (\<exists>role. Account_Role userID (accounts_of s) = Inr role \<and> IsAdmin role)"

lemma admin_route_refused:
  assumes "\<not> caller_is_admin (C_user r) s" "admin_route route"
  shows "run_route h route d r s =
    (s, writeError h (if C_user r = '''' then Handler errUnauthenticated else Domain ErrNotPermitted))"
proof -
  have "requireAdmin h next d r s =
      (s, writeError h (if C_user r = '''' then Handler errUnauthenticated else Domain ErrNotPermitted))" for "next"
    using assms(1) by (auto simp: requireAdmin_def userIDFrom_def caller_is_admin_def split: sum.split)
  with assms(2) show ?thesis by (cases route) simp_all
qed

text \<open>C22. Only administrators run the catalogue. Whatever a caller who is not one sends, no event is created, changed,
  withdrawn or deleted and no seat is added or removed; on the administrative routes nothing at all
  changes, and the answer is 401 for a caller without a token and 403 for everybody else.\<close>

theorem only_admins_run_the_catalogue:
  assumes "\<not> caller_is_admin (Req_User r) s" and "ServeHTTP h d claims body r s = (s', cs)"
  shows "same_catalogue (S_world s) (S_world s') \<and>
    (\<forall>route values. mux_Handler (Routes h) (Req_Method r) (Req_Path r) = Some (route, values) \<longrightarrow> admin_route route \<longrightarrow>
       s' = s \<and> sent_status cs = (if Req_User r = '''' then 401 else 403))"
proof (cases "mux_Handler (Routes h) (Req_Method r) (Req_Path r)")
  case None
  then show ?thesis using assms(2) by (simp add: ServeHTTP_def)
next
  case (Some found)
  obtain route vs where f: "found = (route, vs)" by force
  let ?c = "\<lparr>C_user = Req_User r, C_claims = claims, C_body = body, C_path = vs, C_url = Req_Path r\<rparr>"
  have run: "run_route h route d ?c s = (s', cs)" using assms(2) Some f by (simp add: ServeHTTP_def)
  show ?thesis
  proof (cases "admin_route route")
    case True
    then show ?thesis using admin_route_refused [of ?c s route h d] run assms(1) Some f by (auto split: if_splits)
  next
    case False
    then show ?thesis using customer_route_catalogue [OF run] Some f by simp
  qed
qed

definition small_handler :: Handler where
  "small_handler =
     \<lparr>H_json = (\<lambda>_. ''{}''), H_Error = (\<lambda>_. ''error''), H_service = small_cfg, H_verifier = Some Hour, H_waiting = True,
      H_inventory = Some full_cfg, H_notifier = True, H_push = Some ''key'', H_prober = None, H_web = None,
      H_metrics = None, H_stream = (\<lambda>_ _. []), H_docsPage = ''<script nonce={{nonce}}>'', H_openAPISpec = ''openapi: 3.1.0'', H_unmatched = (\<lambda>_. [WriteHeader 404]),
      H_bodyLimit = 0, H_url_Parse = (\<lambda>_. None), H_lower = (\<lambda>s. s), H_Compare = (\<lambda>_ _. Inr ()),
      H_NeedsRehash = (\<lambda>_. False), H_sign = (\<lambda>s. s), H_tokenTTL = Hour, H_qrcode = (\<lambda>c. Inr c),
      D_credentials = (\<lambda>_ _. (Inl False, False)), D_event = (\<lambda>_ _. (Inl False, False)),
      D_addSeats = (\<lambda>_ _. (Inl False, False)), D_subscribe = (\<lambda>_ _. (Inl False, False)),
      D_endpoint = (\<lambda>_ b. (Inr b, True)), D_token = (\<lambda>_ b. (Inr b, True))\<rparr>"

definition small_draws :: "time \<Rightarrow> Draws" where
  "small_draws now = \<lparr>tick = (\<lambda>n. now), newID = (\<lambda>n. ''ABCDEFGHJ''), rand_Text = ''token'', Hash = (\<lambda>p. Inr p)\<rparr>"

definition held_server :: Server where
  "held_server = \<lparr>S_world = held_world, S_revoked = Some [], S_links = []\<rparr>"

definition request_of :: "string \<Rightarrow> string \<Rightarrow> string \<Rightarrow> Request" where
  "request_of m path user = \<lparr>Req_Method = m, Req_Path = path, Req_Key = '''', Req_User = user\<rparr>"

lemmas sample_requests = small_handler_def small_draws_def held_server_def request_of_def Routes_def mux_Handler_def
  path_segments_def takes_method_def

lemma delete_route:
  "mux_Handler (Routes small_handler) ''DELETE'' ''/admin/events/event-1'' = Some (R_deleteEvent, [(''eventID'', ''event-1'')])"
  by (simp add: sample_requests)

theorem only_admins_run_the_catalogue_witness:
  "sent_status (snd (ServeHTTP small_handler (small_draws 399) None ''''
     (request_of ''DELETE'' ''/admin/events/event-1'' ''bob'') held_server)) = 403"
proof -
  let ?r = "request_of ''DELETE'' ''/admin/events/event-1'' ''bob''"
  have "\<not> caller_is_admin (Req_User ?r) held_server"
    by (simp add: caller_is_admin_def request_of_def Account_Role_def GetUserByID_def held_server_def held_world_def
        small_world_def accounts_of_def)
  from only_admins_run_the_catalogue [OF this, of small_handler "small_draws 399" None "''''"] delete_route show ?thesis
    by (cases "ServeHTTP small_handler (small_draws 399) None '''' ?r held_server") (simp add: request_of_def)
qed

section \<open>Callers without a token\<close>

lemma account_revocations:
  "Register lower v hashed i now email password a = (a', res1) \<Longrightarrow> A_revoked a' = A_revoked a"
  "Login lower C N sign ttl hashed rt now email password a = (a', res2) \<Longrightarrow> A_revoked a' = A_revoked a"
  "Verification_Verify token now a = (a', res3) \<Longrightarrow> A_revoked a' = A_revoked a"
proof -
  have issue: "A_revoked (fst (Verification_Issue ttl token issued u e a1)) = A_revoked a1" for ttl token issued u e a1
    by (auto simp: Verification_Issue_def split: sum.split)
  show "Register lower v hashed i now email password a = (a', res1) \<Longrightarrow> A_revoked a' = A_revoked a"
    by (auto simp: Register_def Let_def issue split: sum.splits option.splits)
  show "Login lower C N sign ttl hashed rt now email password a = (a', res2) \<Longrightarrow> A_revoked a' = A_revoked a"
    by (auto simp: Login_def Let_def upgradeHash_def split: sum.splits if_splits)
  show "Verification_Verify token now a = (a', res3) \<Longrightarrow> A_revoked a' = A_revoked a"
    by (auto simp: Verification_Verify_def split: sum.splits prod.splits if_splits)
qed

lemma accounts_of_revoked [simp]: "A_revoked (accounts_of s) = S_revoked s"
  by (simp add: accounts_of_def)

lemma with_accounts_revoked [simp]: "S_revoked (with_accounts a s) = A_revoked a"
  by (simp add: with_accounts_def)

fun public_route :: "route \<Rightarrow> bool" where
  "public_route (R_web _) = True"
| "public_route R_health = True"
| "public_route R_ready = True"
| "public_route (R_metrics _) = True"
| "public_route R_docs = True"
| "public_route R_openAPI = True"
| "public_route R_register = True"
| "public_route R_login = True"
| "public_route R_verifyEmail = True"
| "public_route R_listEvents = True"
| "public_route R_showEvent = True"
| "public_route R_seatMap = True"
| "public_route R_stream = True"
| "public_route (R_pushKey _) = True"
| "public_route _ = False"

definition users_only :: "Server \<Rightarrow> Server \<Rightarrow> bool" where
  "users_only s s' \<longleftrightarrow> S_world s' = (S_world s)\<lparr>W_users := W_users (S_world s')\<rparr>"

lemma users_only_refl [simp]: "users_only s s"
  by (simp add: users_only_def)

lemma users_only_accounts [simp]: "users_only s (with_accounts a s)"
  by (simp add: users_only_def)

lemma public_route_users_only:
  assumes "run_route h route d r s = (s', cs)" "public_route route"
  shows "users_only s s' \<and> S_revoked s' = S_revoked s"
  using assms
  by (cases route) (auto simp: health_def ready_def listEvents_def showEvent_def seatMap_def pushKey_def register_def
      login_def verifyEmail_def Let_def dest: account_revocations split: sum.splits prod.splits option.splits)

lemma private_route_refused:
  assumes "C_user r = ''''" "C_claims r = None" "\<not> public_route route"
  shows "run_route h route d r s = (s, writeError h (Handler errUnauthenticated))"
  using assms
  by (cases route) (simp_all add: logout_def resendVerification_def waitingListPosition_def joinWaitingList_def
      leaveWaitingList_def holdSeat_def account_def myTickets_def ticketQR_def notifications_def markNotificationsRead_def
      subscribeToPush_def unsubscribeFromPush_def confirmReservation_def releaseSeat_def requireAdmin_def userIDFrom_def)

text \<open>A caller without a token can read what is public, register, sign in and follow a link, and that is all: no
  seat, event, queue or notice changes and nobody is signed out, and every other route answers 401 and
  changes nothing.\<close>

theorem anonymous_touches_only_accounts:
  assumes "Req_User r = ''''" and "ServeHTTP h d None body r s = (s', cs)"
  shows "users_only s s' \<and> S_revoked s' = S_revoked s \<and>
    (\<forall>route values. mux_Handler (Routes h) (Req_Method r) (Req_Path r) = Some (route, values) \<longrightarrow> \<not> public_route route \<longrightarrow>
       s' = s \<and> sent_status cs = 401)"
proof (cases "mux_Handler (Routes h) (Req_Method r) (Req_Path r)")
  case None
  then show ?thesis using assms(2) by (simp add: ServeHTTP_def)
next
  case (Some found)
  obtain route vs where f: "found = (route, vs)" by force
  let ?c = "\<lparr>C_user = Req_User r, C_claims = None, C_body = body, C_path = vs, C_url = Req_Path r\<rparr>"
  have run: "run_route h route d ?c s = (s', cs)" using assms(2) Some f by (simp add: ServeHTTP_def)
  show ?thesis
  proof (cases "public_route route")
    case True
    then show ?thesis using public_route_users_only [OF run] Some f by simp
  next
    case False
    then show ?thesis using private_route_refused [of ?c route h d s] run assms(1) Some f by auto
  qed
qed

theorem anonymous_touches_only_accounts_witness:
  "sent_status (snd (ServeHTTP small_handler (small_draws 399) None ''''
     (request_of ''POST'' ''/holds/h1/confirm'' '''') held_server)) = 401"
proof -
  let ?r = "request_of ''POST'' ''/holds/h1/confirm'' ''''"
  have "mux_Handler (Routes small_handler) (Req_Method ?r) (Req_Path ?r) = Some (R_confirmReservation, [(''holdID'', ''h1'')])"
    by (simp add: sample_requests)
  with anonymous_touches_only_accounts [of ?r small_handler "small_draws 399" "''''" held_server] show ?thesis
    by (cases "ServeHTTP small_handler (small_draws 399) None '''' ?r held_server") (simp add: request_of_def)
qed

section \<open>Refused requests\<close>

lemma HoldSeat_some: "HoldSeat cfg now at i e j u w = (w', Inr hold) \<Longrightarrow> hold \<noteq> None"
  by (auto simp: HoldSeat_def UpdateSeat_def Let_def seat_ops CurrentHold_def go_time simp del: map_of_eq_Some_iff
      split: sum.splits option.splits if_splits)

lemma calls_failed:
  "WaitingList_Join cfg now i e u w = (w', Inl err) \<Longrightarrow> w' = w"
  "Inventory_CreateEvent p i n v t details w = (w', Inl err) \<Longrightarrow> w' = w"
  "Inventory_UpdateEvent p e n v t change w = (w', Inl err) \<Longrightarrow> w' = w"
  "CancelEvent icfg ids t1 t2 t3 t4 e w = (w', Inl err) \<Longrightarrow> w' = w"
  "Inventory_DeleteEvent e w = (w', Inl err) \<Longrightarrow> w' = w"
  "AddSeats e rows m w = (w', Inl err) \<Longrightarrow> w' = w"
  "MarkNotificationsRead u now inbox = (inbox', Inl err) \<Longrightarrow> inbox' = inbox"
  "Service_Subscribe i now u ep k au subs = (subs', Inl err) \<Longrightarrow> subs' = subs"
  "Service_Unsubscribe u ep subs = (subs', Inl err) \<Longrightarrow> subs' = subs"
  by (auto simp: WaitingList_Join_def Inventory_CreateEvent_def Inventory_UpdateEvent_def CancelEvent_def
      Inventory_DeleteEvent_def AddSeats_def MarkNotificationsRead_def Service_Subscribe_def Service_Unsubscribe_def Let_def
      dest!: UpdateEvent_Inl split: sum.splits prod.splits if_splits)

lemmas handler_defs = health_def ready_def listEvents_def showEvent_def seatMap_def myTickets_def holdSeat_def
  confirmReservation_def releaseSeat_def ticketQR_def register_def login_def logout_def account_def verifyEmail_def
  resendVerification_def joinWaitingList_def leaveWaitingList_def waitingListPosition_def place_in_queue_def
  notifications_def markNotificationsRead_def pushKey_def subscribeToPush_def unsubscribeFromPush_def createEvent_def
  addSeats_def updateEvent_def cancelEvent_def deleteEvent_def docs_def openAPI_def Let_def

lemmas failed_calls = calls_failed HoldSeat_failed ConfirmReservation_failed ReleaseSeat_failed

lemma users_only_world [simp]: "users_only s (s\<lparr>S_world := S_world s\<rparr>)"
  "users_only s (s\<lparr>S_world := (S_world s)\<lparr>W_inbox := W_inbox (S_world s)\<rparr>\<rparr>)"
  "users_only s (s\<lparr>S_world := (S_world s)\<lparr>W_push := W_push (S_world s)\<rparr>\<rparr>)"
  by simp_all



section \<open>What the answers say\<close>

lemma listed_wf: "world_inv w \<Longrightarrow> x \<in> set (ListSeats e (W_seats w)) \<Longrightarrow> seat_wf x"
proof -
  assume inv: "world_inv w" and "x \<in> set (ListSeats e (W_seats w))"
  then have "x \<in> set (vals (W_seats w))" by (simp add: ListSeats_def sortSeats_def)
  then obtain k where "map_of (W_seats w) k = Some x"
    using vals_conv [OF seats_invD(1) [OF world_invD(1) [OF inv]]] by blast
  from seats_invD(2) [OF world_invD(1) [OF inv] this] show "seat_wf x" by (simp add: seat_filed_def)
qed

text \<open>The number of seats left that the page of an event leads on is the number of seats its seat map shows as
  available, and both are the seats of the event that somebody could take at that instant, holds that
  have run out included.\<close>

theorem seats_left_are_takeable:
  assumes "world_inv (S_world s)" and "GetEvent (PathValue ''eventID'' r) (W_events (S_world s)) = Inr event"
  shows "\<exists>seats. mset seats = filter_mset (\<lambda>x. Seat_EventID x = PathValue ''eventID'' r) (mset (vals (W_seats (S_world s)))) \<and>
      seatMap h d r s = (s, writeJSON h 200 (SeatMapBody
        \<lparr>SM_EventID = PathValue ''eventID'' r, SM_Seats = map (\<lambda>x. newSeatResponse x (tick d 0)) seats\<rparr>)) \<and>
      showEvent h d r s = (s, writeJSON h 200 (EventDetailBody
        \<lparr>ED_event = newEventResponse event (tick d 0), ED_Available = int (length (filter (\<lambda>x. CanHold x (tick d 0)) seats)),
         ED_Total = int (length seats)\<rparr>)) \<and>
      list_all (\<lambda>x. (SR_Status (newSeatResponse x (tick d 0)) = ''available'') = CanHold x (tick d 0)) seats"
proof (intro exI conjI)
  let ?e = "PathValue ''eventID'' r" and ?w = "S_world s" and ?now = "tick d 0"
  let ?seats = "ListSeats ?e (W_seats ?w)"
  show "mset ?seats = filter_mset (\<lambda>x. Seat_EventID x = ?e) (mset (vals (W_seats ?w)))"
    by (simp add: ListSeats_def sortSeats_def)
  show "seatMap h d r s = (s, writeJSON h 200 (SeatMapBody
      \<lparr>SM_EventID = ?e, SM_Seats = map (\<lambda>x. newSeatResponse x ?now) ?seats\<rparr>))"
    using assms(2) by (simp add: seatMap_def SeatMap_def Let_def)
  have "filter (\<lambda>x. Seat_Status x = StatusAvailable \<or> IsHoldExpired x ?now) ?seats = filter (\<lambda>x. CanHold x ?now) ?seats"
    by (rule filter_cong) (auto simp: seat_ops split: SeatStatus.splits)
  then show "showEvent h d r s = (s, writeJSON h 200 (EventDetailBody
      \<lparr>ED_event = newEventResponse event ?now, ED_Available = int (length (filter (\<lambda>x. CanHold x ?now) ?seats)),
       ED_Total = int (length ?seats)\<rparr>))"
    using assms(2) by (simp add: showEvent_def SeatMap_def Let_def)
  show "list_all (\<lambda>x. (SR_Status (newSeatResponse x ?now) = ''available'') = CanHold x ?now) ?seats"
    using shown_available_iff listed_wf [OF assms(1)] by (auto simp: list_all_iff)
qed

theorem seats_left_are_takeable_witness:
  "snd (showEvent small_handler (small_draws 400) \<lparr>C_user = '''', C_claims = None, C_body = '''',
     C_path = [(''eventID'', ''event-1'')], C_url = ''/events/event-1''\<rparr> held_server) =
   writeJSON small_handler 200 (EventDetailBody
     \<lparr>ED_event = newEventResponse gala 400, ED_Available = 1, ED_Total = 1\<rparr>)"
proof -
  let ?r = "\<lparr>C_user = '''', C_claims = None, C_body = '''', C_path = [(''eventID'', ''event-1'')], C_url = ''/events/event-1''\<rparr>"
  have inv: "world_inv (S_world held_server)" using held_world_inv by (simp add: held_server_def)
  have path: "PathValue ''eventID'' ?r = ''event-1''" by (simp add: PathValue_def)
  have ev: "GetEvent (PathValue ''eventID'' ?r) (W_events (S_world held_server)) = Inr gala"
    unfolding path by (simp add: GetEvent_def held_server_def held_world_def small_world_def)
  have "vals (W_seats (S_world held_server)) = [held_A1]" "Seat_EventID held_A1 = ''event-1''" "CanHold held_A1 400"
    by (simp_all add: held_server_def held_world_def store_A1_def sample_seats seat_ops)
  with seats_left_are_takeable [OF inv ev, of small_handler "small_draws 400"] show ?thesis
    by (auto simp: path small_draws_def)
qed

subsection \<open>One's own tickets\<close>

definition sees :: "EventStore \<Rightarrow> Event gomap \<Rightarrow> bool" where
  "sees store seen \<longleftrightarrow> (\<forall>e event. map_of seen e = Some event \<longrightarrow> GetEvent e store = Inr event)"

lemma tickets_loop_all:
  assumes "\<forall>x \<in> set seats. \<exists>event. GetEvent (Seat_EventID x) store = Inr event" "sees store seen"
  shows "\<exists>ts. tickets_loop store seen seats = Inr ts \<and> map snd ts = seats \<and>
    (\<forall>t \<in> set ts. GetEvent (Seat_EventID (snd t)) store = Inr (fst t))"
  using assms
proof (induction seats arbitrary: seen)
  case (Cons x seats)
  then obtain event where ev: "GetEvent (Seat_EventID x) store = Inr event" by auto
  show ?case
  proof (cases "map_of seen (Seat_EventID x)")
    case None
    have "sees store (AList.update (Seat_EventID x) event seen)"
      using Cons.prems(2) ev by (auto simp: sees_def update_conv' simp del: map_of_eq_Some_iff)
    from Cons.IH [OF _ this] Cons.prems(1) ev None show ?thesis by auto
  next
    case (Some event')
    then have "event' = event" using Cons.prems(2) ev by (simp add: sees_def)
    with Cons.IH [OF _ Cons.prems(2)] Cons.prems(1) ev Some show ?thesis by auto
  qed
qed simp

lemma sort_tickets_filters:
  "sort_tickets now ts body =
     body\<lparr>TS_Holds := TS_Holds body @ map (\<lambda>t. newTicketResponse t now)
            (filter (\<lambda>t. Seat_Status (snd t) = StatusHeld \<and> \<not> IsHoldExpired (snd t) now) ts),
          TS_Reservations := TS_Reservations body @ map (\<lambda>t. newTicketResponse t now)
            (filter (\<lambda>t. Seat_Status (snd t) = StatusReserved) ts)\<rparr>"
  by (induction now ts body rule: sort_tickets.induct) auto



end
