(* ===== verification/Rate_Limit.thy ===== *)
theory Rate_Limit
  imports Accounts Http_Answers Http_Shapes
begin

text \<open>
  The rate limiter: \<open>internal/handler/ratelimit.go\<close>. The token bucket of \<open>golang.org/x/time/rate\<close> is a parameter; what the
  limiter does around it (one bucket per caller and policy, the clock it notes, the eviction of idle buckets, the answer to
  a refused caller) is written out.
\<close>

section \<open>Policies\<close>

record Policy =
  Policy_Name :: string
  Every :: duration
  Burst :: int

definition AuthPolicy :: Policy where
  "AuthPolicy = \<lparr>Policy_Name = ''auth'', Every = 6 * Second, Burst = 5\<rparr>"

definition DefaultPolicy :: Policy where
  "DefaultPolicy = \<lparr>Policy_Name = ''default'', Every = Second, Burst = 30\<rparr>"

record Policies =
  Policies_Auth :: Policy
  Policies_Default :: Policy

definition DefaultPolicies :: Policies where
  "DefaultPolicies = \<lparr>Policies_Auth = AuthPolicy, Policies_Default = DefaultPolicy\<rparr>"

definition forRequest :: "Policies \<Rightarrow> string \<Rightarrow> Policy" where
  "forRequest p path = (if prefix ''/auth/'' path then Policies_Auth p else Policies_Default p)"

section \<open>The limiter\<close>

text \<open>
  The package: \<open>NewLimiter(rate.Every(every), burst)\<close>, \<open>ReserveN(now, 1)\<close> with the bucket it leaves, and the reservation's
  \<open>OK\<close>, \<open>DelayFrom(now)\<close> and \<open>CancelAt(now)\<close>.
\<close>

record ('l, 'r) rate_package =
  NewLimiter :: "duration \<Rightarrow> int \<Rightarrow> 'l"
  ReserveN :: "'l \<Rightarrow> time \<Rightarrow> 'l \<times> 'r"
  OK :: "'r \<Rightarrow> bool"
  DelayFrom :: "'r \<Rightarrow> time \<Rightarrow> duration"
  CancelAt :: "'r \<Rightarrow> time \<Rightarrow> 'l \<Rightarrow> 'l"

record 'l visitor =
  limiter :: 'l
  lastSeen :: time

record 'l RateLimiter =
  visitors :: "'l visitor gomap"
  Limiter_ttl :: duration

definition visitorTTL :: duration where "visitorTTL = 10 * Minute"

definition NewRateLimiter :: "duration \<Rightarrow> 'l RateLimiter" where
  "NewRateLimiter ttl = \<lparr>visitors = [], Limiter_ttl = (if ttl \<le> 0 then visitorTTL else ttl)\<rparr>"

definition bucketKey :: "Policy \<Rightarrow> string \<Rightarrow> string" where
  "bucketKey policy key = Policy_Name policy @ [CHR 0x00] @ key"

definition ask_bucket :: "('l, 'r) rate_package \<Rightarrow> Policy \<Rightarrow> time \<Rightarrow> 'l \<Rightarrow> 'l \<times> bool \<times> duration" where
  "ask_bucket pkg policy now bucket =
     (let (bucket1, reservation) = ReserveN pkg bucket now in
      if \<not> OK pkg reservation then (bucket1, False, Every policy)
      else let delay = DelayFrom pkg reservation now in
           if 0 < delay then (CancelAt pkg reservation now bucket1, False, delay)
           else (bucket1, True, 0))"

definition Allow :: "('l, 'r) rate_package \<Rightarrow> Policy \<Rightarrow> string \<Rightarrow> time \<Rightarrow> 'l RateLimiter \<Rightarrow> 'l RateLimiter \<times> bool \<times> duration" where
  "Allow pkg policy key now l =
     (let k = bucketKey policy key;
          bucket = (case map_of (visitors l) k of
                      None \<Rightarrow> NewLimiter pkg (Every policy) (Burst policy)
                    | Some v \<Rightarrow> limiter v);
          (bucket1, allowed, retryAfter) = ask_bucket pkg policy now bucket
      in (l\<lparr>visitors := AList.update k \<lparr>limiter = bucket1, lastSeen = now\<rparr> (visitors l)\<rparr>, allowed, retryAfter))"

definition Cleanup :: "time \<Rightarrow> 'l RateLimiter \<Rightarrow> 'l RateLimiter \<times> int" where
  "Cleanup now l =
     (let kept = filter (\<lambda>(key, bucket). \<not> time_Sub now (lastSeen bucket) > Limiter_ttl l) (visitors l)
      in (l\<lparr>visitors := kept\<rparr>, int (length (visitors l)) - int (length kept)))"

definition Size :: "'l RateLimiter \<Rightarrow> int" where
  "Size l = int (length (visitors l))"

section \<open>Who is limited, and the answer\<close>

text \<open>\<open>SplitHostPort\<close> is \<open>net.SplitHostPort\<close>'s host.\<close>

definition clientIP :: "(string \<Rightarrow> string option) \<Rightarrow> string \<Rightarrow> string" where
  "clientIP SplitHostPort remoteAddr = (case SplitHostPort remoteAddr of None \<Rightarrow> remoteAddr | Some host \<Rightarrow> host)"

definition limitKey :: "(string \<Rightarrow> string option) \<Rightarrow> string \<Rightarrow> string \<Rightarrow> string" where
  "limitKey SplitHostPort userID remoteAddr =
     (if userID \<noteq> '''' then ''user:'' @ userID else ''ip:'' @ clientIP SplitHostPort remoteAddr)"

definition retry_seconds :: "duration \<Rightarrow> int" where
  "retry_seconds retryAfter =
     (let seconds = whole_seconds retryAfter;
          seconds1 = (if retryAfter > seconds * Second then seconds + 1 else seconds)
      in max seconds1 1)"

definition too_many :: "(string \<Rightarrow> string \<Rightarrow> string) \<Rightarrow> (goerror \<Rightarrow> string) \<Rightarrow> duration \<Rightarrow> answer_calls" where
  "too_many Encode Error retryAfter =
     SetHeader ''Retry-After'' (Itoa (retry_seconds retryAfter)) # writeAPIError Encode Error (Handler errTooManyRequests)"

section \<open>Callers do not share an allowance\<close>

lemma bucketKey_inj:
  assumes "CHR 0x00 \<notin> set (Policy_Name p)" "CHR 0x00 \<notin> set (Policy_Name q)" "bucketKey p k = bucketKey q j"
  shows "Policy_Name p = Policy_Name q \<and> k = j"
proof -
  have cut: "Cut (bucketKey x l) CHR 0x00 = Some (Policy_Name x, l)" if "CHR 0x00 \<notin> set (Policy_Name x)" for x l
    using Cut_append [OF that] by (simp add: bucketKey_def)
  show ?thesis using cut [OF assms(1), of k] cut [OF assms(2), of j] assms(3) by simp
qed

lemma limitKey_inj:
  "limitKey sp u a = limitKey sp v b \<longleftrightarrow> u = v \<and> (u = '''' \<longrightarrow> clientIP sp a = clientIP sp b)"
  by (auto simp: limitKey_def)

lemma Allow_visitors:
  "map_of (visitors (fst (Allow pkg p key now l))) k =
     (if k = bucketKey p key
      then Some \<lparr>limiter = fst (ask_bucket pkg p now (case map_of (visitors l) k of
                   None \<Rightarrow> NewLimiter pkg (Every p) (Burst p) | Some v \<Rightarrow> limiter v)), lastSeen = now\<rparr>
      else map_of (visitors l) k)"
  by (simp add: Allow_def Let_def case_prod_unfold)

lemma Allow_answer:
  "snd (Allow pkg p key now l) = snd (ask_bucket pkg p now (case map_of (visitors l) (bucketKey p key) of
     None \<Rightarrow> NewLimiter pkg (Every p) (Burst p) | Some v \<Rightarrow> limiter v))"
  by (simp add: Allow_def Let_def case_prod_unfold)

lemma Allow_ttl [simp]: "Limiter_ttl (fst (Allow pkg p key now l)) = Limiter_ttl l"
  by (simp add: Allow_def Let_def case_prod_unfold)

text \<open>Nobody spends another caller's allowance. What one caller asks under a policy changes neither the answer nor
  the wait of a request under the other policy, by another account, or, among callers who are not signed in, from
  another address.\<close>

theorem callers_limited_apart:
  assumes "CHR 0x00 \<notin> set (Policy_Name p)" and "CHR 0x00 \<notin> set (Policy_Name q)"
    and "Policy_Name p \<noteq> Policy_Name q \<or> u \<noteq> v \<or> u = '''' \<and> clientIP sp a \<noteq> clientIP sp b"
  shows "snd (Allow pkg q (limitKey sp v b) now' (fst (Allow pkg p (limitKey sp u a) now l))) =
    snd (Allow pkg q (limitKey sp v b) now' l)"
proof -
  have "bucketKey q (limitKey sp v b) \<noteq> bucketKey p (limitKey sp u a)"
    using bucketKey_inj [OF assms(1,2), of "limitKey sp u a" "limitKey sp v b"] assms(3)
    unfolding limitKey_inj by metis
  then show ?thesis by (simp add: Allow_answer Allow_visitors)
qed

section \<open>The wait that is announced\<close>

lemma retry_seconds_bounds:
  "retryAfter \<le> retry_seconds retryAfter * Second \<and> 1 \<le> retry_seconds retryAfter \<and>
   (retry_seconds retryAfter = 1 \<or> (retry_seconds retryAfter - 1) * Second < retryAfter)"
proof (cases "0 \<le> retryAfter")
  case True
  have "retryAfter = Second * (retryAfter div Second) + retryAfter mod Second" "0 \<le> retryAfter mod Second"
    "retryAfter mod Second < Second" by simp_all
  then show ?thesis using True by (auto simp: retry_seconds_def whole_seconds_def Let_def max_def algebra_simps)
next
  case False
  have "- retryAfter = Second * (- retryAfter div Second) + - retryAfter mod Second" "0 \<le> - retryAfter mod Second"
    "- retryAfter mod Second < Second" by simp_all
  moreover have "0 \<le> - retryAfter div Second" using False by (simp add: pos_imp_zdiv_nonneg_iff)
  ultimately show ?thesis using False
    by (auto simp: retry_seconds_def whole_seconds_def Let_def max_def algebra_simps)
qed

section \<open>Eviction\<close>

text \<open>The buckets the limiter can hold: asked at a time that is noted, and asked again later.\<close>

inductive bucket_used :: "('l, 'r) rate_package \<Rightarrow> Policy \<Rightarrow> time \<Rightarrow> 'l \<Rightarrow> bool" for pkg p where
  used_first: "bucket_used pkg p t (fst (ask_bucket pkg p t (NewLimiter pkg (Every p) (Burst p))))"
| used_again: "bucket_used pkg p t b \<Longrightarrow> t \<le> t' \<Longrightarrow> bucket_used pkg p t' (fst (ask_bucket pkg p t' b))"

text \<open>What the package documents: a bucket starts full and fills up again at its rate, so that one left alone for longer
  than its whole burst takes is as a new one.\<close>

definition refills :: "('l, 'r) rate_package \<Rightarrow> Policy \<Rightarrow> bool" where
  "refills pkg p \<longleftrightarrow> (\<forall>t b now. bucket_used pkg p t b \<longrightarrow> t + Every p * Burst p < now \<longrightarrow>
     ReserveN pkg b now = ReserveN pkg (NewLimiter pkg (Every p) (Burst p)) now)"

definition limiter_inv :: "('l, 'r) rate_package \<Rightarrow> Policy set \<Rightarrow> time \<Rightarrow> 'l RateLimiter \<Rightarrow> bool" where
  "limiter_inv pkg ps now l \<longleftrightarrow> gomap_ok (visitors l) \<and> 0 < Limiter_ttl l \<and>
     (\<forall>k v. map_of (visitors l) k = Some v \<longrightarrow> lastSeen v \<le> now \<and>
        (\<exists>p \<in> ps. \<exists>key. k = bucketKey p key \<and> bucket_used pkg p (lastSeen v) (limiter v)))"

definition policies_apart :: "Policy set \<Rightarrow> bool" where
  "policies_apart ps \<longleftrightarrow> inj_on Policy_Name ps \<and> (\<forall>p \<in> ps. CHR 0x00 \<notin> set (Policy_Name p))"

lemma limiter_invD:
  "limiter_inv pkg ps now l \<Longrightarrow> gomap_ok (visitors l)"
  "limiter_inv pkg ps now l \<Longrightarrow> 0 < Limiter_ttl l"
  "limiter_inv pkg ps now l \<Longrightarrow> map_of (visitors l) k = Some v \<Longrightarrow> lastSeen v \<le> now"
  unfolding limiter_inv_def by blast+

lemma policies_apart_key:
  assumes "policies_apart ps" "p \<in> ps" "q \<in> ps" "bucketKey p k = bucketKey q j"
  shows "p = q"
  using assms bucketKey_inj [of p q k j] unfolding policies_apart_def inj_on_def by blast

lemma limiter_inv_bucket:
  assumes "limiter_inv pkg ps now l" "policies_apart ps" "p \<in> ps" "map_of (visitors l) (bucketKey p key) = Some v"
  shows "bucket_used pkg p (lastSeen v) (limiter v)"
proof -
  obtain q j where "q \<in> ps" "bucketKey p key = bucketKey q j" "bucket_used pkg q (lastSeen v) (limiter v)"
    using assms(1,4) unfolding limiter_inv_def by blast
  then show ?thesis using policies_apart_key [OF assms(2,3)] by blast
qed

lemma Allow_inv:
  assumes "limiter_inv pkg ps now l" "policies_apart ps" "p \<in> ps" "now \<le> now'"
  shows "limiter_inv pkg ps now' (fst (Allow pkg p key now' l))"
proof -
  have used: "bucket_used pkg p now' (fst (ask_bucket pkg p now' (case map_of (visitors l) (bucketKey p key) of
       None \<Rightarrow> NewLimiter pkg (Every p) (Burst p) | Some v \<Rightarrow> limiter v)))"
  proof (cases "map_of (visitors l) (bucketKey p key)")
    case (Some v)
    then show ?thesis
      using used_again [OF limiter_inv_bucket [OF assms(1-3) Some], of now'] limiter_invD(3) [OF assms(1) Some] assms(4)
      by simp
  qed (simp add: used_first)
  have ok: "gomap_ok (visitors (fst (Allow pkg p key now' l)))"
    using limiter_invD(1) [OF assms(1)] by (simp add: Allow_def Let_def case_prod_unfold gomap_ok_update)
  show ?thesis unfolding limiter_inv_def Allow_visitors Allow_ttl
  proof (intro conjI allI impI ok limiter_invD(2) [OF assms(1)])
    fix k v
    assume v: "(if k = bucketKey p key
      then Some \<lparr>limiter = fst (ask_bucket pkg p now' (case map_of (visitors l) k of
                   None \<Rightarrow> NewLimiter pkg (Every p) (Burst p) | Some v \<Rightarrow> limiter v)), lastSeen = now'\<rparr>
      else map_of (visitors l) k) = Some v"
    show "lastSeen v \<le> now'" using v limiter_invD(3) [OF assms(1), of k v] assms(4) by (auto split: if_splits)
    show "\<exists>p\<in>ps. \<exists>key. k = bucketKey p key \<and> bucket_used pkg p (lastSeen v) (limiter v)"
    proof (cases "k = bucketKey p key")
      case True
      then show ?thesis using v used assms(3) by auto
    next
      case False
      then show ?thesis using v assms(1) unfolding limiter_inv_def by simp
    qed
  qed
qed

text \<open>One limiter has lost buckets that were idle for the whole of \<open>ttl\<close> at \<open>T\<close>; the other has kept them.\<close>

definition evicted :: "time \<Rightarrow> 'l RateLimiter \<Rightarrow> 'l RateLimiter \<Rightarrow> bool" where
  "evicted T a b \<longleftrightarrow> Limiter_ttl b = Limiter_ttl a \<and>
     (\<forall>k. map_of (visitors b) k = map_of (visitors a) k \<or>
        map_of (visitors b) k = None \<and> (\<exists>v. map_of (visitors a) k = Some v \<and> lastSeen v + Limiter_ttl a < T))"

lemma Cleanup_evicted:
  assumes "limiter_inv pkg ps now l"
  shows "evicted T l (fst (Cleanup T l))"
proof -
  have sub: "lastSeen v + Limiter_ttl l < T" if "time_Sub T (lastSeen v) > Limiter_ttl l" for v :: "'a visitor"
    using that limiter_invD(2) [OF assms] by (auto simp: time_Sub_def)
  have "map_of (visitors (fst (Cleanup T l))) k = (case map_of (visitors l) k of None \<Rightarrow> None
      | Some v \<Rightarrow> if \<not> time_Sub T (lastSeen v) > Limiter_ttl l then Some v else None)" for k
    unfolding Cleanup_def Let_def
    by (simp add: map_of_filter_val [OF limiter_invD(1) [OF assms], where P = "\<lambda>v. \<not> time_Sub T (lastSeen v) > Limiter_ttl l"])
  moreover have "Limiter_ttl (fst (Cleanup T l)) = Limiter_ttl l" by (simp add: Cleanup_def Let_def)
  ultimately show ?thesis unfolding evicted_def using sub by (auto split: option.split)
qed

lemma ask_bucket_same: "ReserveN pkg b now = ReserveN pkg c now \<Longrightarrow> ask_bucket pkg p now b = ask_bucket pkg p now c"
  by (simp add: ask_bucket_def)

lemma Allow_evicted:
  assumes "limiter_inv pkg ps now a" "policies_apart ps" "p \<in> ps" "T \<le> now'" "evicted T a b"
    and "refills pkg p" "Every p * Burst p \<le> Limiter_ttl a"
  shows "snd (Allow pkg p key now' b) = snd (Allow pkg p key now' a)"
    and "evicted T (fst (Allow pkg p key now' a)) (fst (Allow pkg p key now' b))"
proof -
  let ?k = "bucketKey p key"
  let ?at = "\<lambda>l. case map_of (visitors l) ?k of None \<Rightarrow> NewLimiter pkg (Every p) (Burst p) | Some v \<Rightarrow> limiter v"
  have same: "ask_bucket pkg p now' (?at b) = ask_bucket pkg p now' (?at a)"
  proof (cases "map_of (visitors b) ?k = map_of (visitors a) ?k")
    case False
    then obtain v where v: "map_of (visitors b) ?k = None" "map_of (visitors a) ?k = Some v" "lastSeen v + Limiter_ttl a < T"
      using assms(5) unfolding evicted_def by blast
    have "bucket_used pkg p (lastSeen v) (limiter v)" by (rule limiter_inv_bucket [OF assms(1-3) v(2)])
    moreover have "lastSeen v + Every p * Burst p < now'" using v(3) assms(4,7) by linarith
    ultimately have "ReserveN pkg (limiter v) now' = ReserveN pkg (NewLimiter pkg (Every p) (Burst p)) now'"
      using assms(6) unfolding refills_def by blast
    then show ?thesis using v(1,2) ask_bucket_same [of pkg "limiter v" now'] by (simp del: map_of_eq_Some_iff)
  qed simp
  then show "snd (Allow pkg p key now' b) = snd (Allow pkg p key now' a)" by (simp add: Allow_answer)
  show "evicted T (fst (Allow pkg p key now' a)) (fst (Allow pkg p key now' b))"
    using same assms(5) unfolding evicted_def Allow_visitors Allow_ttl by auto
qed

text \<open>A sequence of callers, each at its time.\<close>

fun allow_all :: "('l, 'r) rate_package \<Rightarrow> (Policy \<times> string \<times> time) list \<Rightarrow> 'l RateLimiter \<Rightarrow> (bool \<times> duration) list" where
  "allow_all pkg [] l = []"
| "allow_all pkg ((p, key, now) # qs) l = (let (l', answer) = Allow pkg p key now l in answer # allow_all pkg qs l')"

lemma allow_all_evicted:
  assumes "policies_apart ps" "\<forall>p \<in> ps. refills pkg p \<and> Every p * Burst p \<le> ttl"
  shows "limiter_inv pkg ps now a \<Longrightarrow> evicted T a b \<Longrightarrow> Limiter_ttl a = ttl \<Longrightarrow>
     sorted (now # T # map (\<lambda>q. snd (snd q)) qs) \<Longrightarrow> fst ` set qs \<subseteq> ps \<Longrightarrow> allow_all pkg qs b = allow_all pkg qs a"
proof (induction qs arbitrary: now T a b)
  case (Cons q qs)
  obtain p key t where q: "q = (p, key, t)" by (cases q)
  have t: "now \<le> t" "T \<le> t" and p: "p \<in> ps" using Cons.prems(4,5) q by auto
  note step = Allow_evicted [OF Cons.prems(1) assms(1) p t(2) Cons.prems(2)]
  have law: "refills pkg p" "Every p * Burst p \<le> Limiter_ttl a" using assms(2) p Cons.prems(3) by auto
  have "limiter_inv pkg ps t (fst (Allow pkg p key t a))" by (rule Allow_inv [OF Cons.prems(1) assms(1) p t(1)])
  moreover have "evicted t (fst (Allow pkg p key t a)) (fst (Allow pkg p key t b))"
    using step(2) [OF law] t(2) unfolding evicted_def by fastforce
  moreover have "sorted (t # t # map (\<lambda>q. snd (snd q)) qs)" using Cons.prems(4) q by auto
  ultimately show ?case using Cons.IH [of t] Cons.prems(3,5) step(1) [OF law, of key]
    by (simp add: q case_prod_unfold Let_def)
qed simp

text \<open>Dropping idle buckets loosens nothing. Where a bucket is kept idle for at least as long as its whole burst takes
  to come back, every caller after an eviction is answered, and told to wait, exactly as without it.\<close>

theorem eviction_is_unseen:
  assumes "limiter_inv pkg ps now l" and "policies_apart ps"
    and "\<forall>p \<in> ps. refills pkg p \<and> Every p * Burst p \<le> Limiter_ttl l"
    and "sorted (now # T # map (\<lambda>q. snd (snd q)) qs)" and "fst ` set qs \<subseteq> ps"
  shows "allow_all pkg qs (fst (Cleanup T l)) = allow_all pkg qs l"
  by (rule allow_all_evicted [OF assms(2,3,1) Cleanup_evicted [OF assms(1)] refl assms(4,5)])

text \<open>A bucket that counts in exact nanoseconds.\<close>

type_synonym exact_bucket = "int \<times> int \<times> (time \<times> int) option"

definition exact_credit :: "exact_bucket \<Rightarrow> time \<Rightarrow> int" where
  "exact_credit b now = (case b of (every, burst, st) \<Rightarrow>
     case st of None \<Rightarrow> burst * every | Some (t, c) \<Rightarrow> min (burst * every) (c + (now - t)))"

definition exact_package :: "(exact_bucket, int) rate_package" where
  "exact_package =
     \<lparr>NewLimiter = (\<lambda>every burst. (every, burst, None)),
      ReserveN = (\<lambda>b now. case b of (every, burst, st) \<Rightarrow>
        ((every, burst, Some (now, exact_credit b now - every)), - (exact_credit b now - every))),
      OK = (\<lambda>r. True), DelayFrom = (\<lambda>r now. max 0 r),
      CancelAt = (\<lambda>r now b. case b of (every, burst, st) \<Rightarrow> (every, burst, map_option (\<lambda>(t, c). (t, c + every)) st))\<rparr>"

lemma exact_used:
  assumes "0 \<le> Every p" "0 \<le> Burst p"
  shows "bucket_used exact_package p t b \<Longrightarrow> \<exists>c. b = (Every p, Burst p, Some (t, c)) \<and> 0 \<le> c"
proof (induction rule: bucket_used.induct)
  case (used_first t)
  then show ?case using assms
    by (auto simp: ask_bucket_def exact_package_def exact_credit_def Let_def)
next
  case (used_again t b t')
  then show ?case using assms
    by (auto simp: ask_bucket_def exact_package_def exact_credit_def Let_def min_def)
qed

lemma exact_refills:
  assumes "0 \<le> Every p" "0 \<le> Burst p"
  shows "refills exact_package p"
  unfolding refills_def
proof (intro allI impI)
  fix t b now assume "bucket_used exact_package p t b" and later: "t + Every p * Burst p < now"
  then obtain c where "b = (Every p, Burst p, Some (t, c))" "0 \<le> c" using exact_used [OF assms] by blast
  then show "ReserveN exact_package b now = ReserveN exact_package (NewLimiter exact_package (Every p) (Burst p)) now"
    using later by (simp add: exact_package_def exact_credit_def min_def mult.commute)
qed

definition busy_limiter :: "exact_bucket RateLimiter" where
  "busy_limiter = fst (Allow exact_package AuthPolicy (limitKey (\<lambda>a. None) '''' ''10.0.0.1'') 0 (NewRateLimiter 0))"

theorem eviction_is_unseen_witness:
  "allow_all exact_package [(AuthPolicy, ''ip:10.0.0.1'', 700 * Second)] (fst (Cleanup (650 * Second) busy_limiter)) =
   allow_all exact_package [(AuthPolicy, ''ip:10.0.0.1'', 700 * Second)] busy_limiter"
proof -
  have ps: "policies_apart {AuthPolicy}" by (simp add: policies_apart_def AuthPolicy_def)
  have "limiter_inv exact_package {AuthPolicy} 0 (NewRateLimiter 0)"
    by (simp add: limiter_inv_def NewRateLimiter_def visitorTTL_def)
  then have inv: "limiter_inv exact_package {AuthPolicy} 0 busy_limiter"
    unfolding busy_limiter_def by (rule Allow_inv [OF _ ps]) simp_all
  have "Limiter_ttl busy_limiter = visitorTTL" by (simp add: busy_limiter_def NewRateLimiter_def)
  then have "\<forall>p \<in> {AuthPolicy}. refills exact_package p \<and> Every p * Burst p \<le> Limiter_ttl busy_limiter"
    using exact_refills [of AuthPolicy] by (simp add: AuthPolicy_def visitorTTL_def)
  from eviction_is_unseen [OF inv ps this, of "650 * Second" "[(AuthPolicy, ''ip:10.0.0.1'', 700 * Second)]"]
  show ?thesis by simp
qed

theorem callers_limited_apart_witness:
  "snd (Allow exact_package AuthPolicy (limitKey (\<lambda>a. None) '''' ''10.0.0.2'') 5
      (fst (Allow exact_package AuthPolicy (limitKey (\<lambda>a. None) '''' ''10.0.0.1'') 0 (NewRateLimiter 0)))) = (True, 0)"
proof -
  have "snd (Allow exact_package AuthPolicy (limitKey (\<lambda>a. None) '''' ''10.0.0.2'') 5 (NewRateLimiter 0)) = (True, 0)"
    by (simp add: Allow_answer NewRateLimiter_def exact_package_def ask_bucket_def exact_credit_def AuthPolicy_def)
  then show ?thesis
    using callers_limited_apart [of AuthPolicy AuthPolicy "''''" "''''" "\<lambda>a. None" "''10.0.0.1''" "''10.0.0.2''" exact_package 5 0
        "NewRateLimiter 0"] by (simp add: AuthPolicy_def clientIP_def)
qed

end
