(* ===== verification/Middleware.thy ===== *)
theory Middleware
  imports Http_Server Rate_Limit
begin

text \<open>
  The chain around the routes: \<open>internal/handler/middleware.go\<close>, \<open>security.go\<close>, \<open>metrics.go\<close>, and the chain as
  \<open>cmd/server/main.go\<close> builds it. A handler is a function of the request, of what the context carries and of the state of the
  process; it gives the calls it made on its writer and whether it panicked. Every middleware is one function from handlers
  to handlers. The durations that are only logged or measured are left out.
\<close>

section \<open>Requests, handlers, the process\<close>

text \<open>The headers a middleware reads; a header that is missing is empty, as \<open>Header.Get\<close> has it.\<close>

record HttpRequest =
  In_Method :: string
  In_Path :: string
  In_Authorization :: string
  In_RequestID :: string
  In_IdempotencyKey :: string
  In_RemoteAddr :: string
  In_Body :: string

record Context =
  Ctx_RequestID :: string
  Ctx_User :: string
  Ctx_Claims :: "Claims option"

definition Background :: Context where
  "Background = \<lparr>Ctx_RequestID = '''', Ctx_User = '''', Ctx_Claims = None\<rparr>"

record log_line =
  Log_method :: string
  Log_path :: string
  Log_status :: int
  Log_bytes :: int
  Log_requestId :: string

record 'l Process =
  P_server :: Server
  P_keys :: IdempotencyStore
  P_limiter :: "'l RateLimiter"
  P_log :: "log_line list"
  P_requests :: "(string \<times> string \<times> int) list"
  P_failures :: "string list"
  P_inFlight :: int

type_synonym 'l http_handler = "HttpRequest \<Rightarrow> Context \<Rightarrow> 'l Process \<Rightarrow> 'l Process \<times> answer_calls \<times> bool"

type_synonym 'l http_middleware = "'l http_handler \<Rightarrow> 'l http_handler"

text \<open>\<open>for i := len(middleware) - 1; i >= 0; i--\<close>.\<close>

definition Chain :: "'l http_handler \<Rightarrow> 'l http_middleware list \<Rightarrow> 'l http_handler" where
  "Chain h middleware = fold (\<lambda>m h. m h) (rev middleware) h"

section \<open>The status recorder\<close>

record statusRecorder =
  sr_status :: int
  sr_bytes :: int

fun status_call :: "writer_call \<Rightarrow> statusRecorder \<Rightarrow> statusRecorder" where
  "status_call (SetHeader _ _) w = w"
| "status_call (WriteHeader status) w = w\<lparr>sr_status := status\<rparr>"
| "status_call (Write b) w =
     w\<lparr>sr_status := (if sr_status w = 0 then 200 else sr_status w), sr_bytes := sr_bytes w + int (length b)\<rparr>"
| "status_call (NoteFailure _) w = w"

definition status_of :: "answer_calls \<Rightarrow> statusRecorder" where
  "status_of calls = fold status_call calls \<lparr>sr_status = 0, sr_bytes = 0\<rparr>"

section \<open>The middleware\<close>

text \<open>\<open>text\<close> is the draw of \<open>rand.Text\<close>.\<close>

definition RequestID :: "string \<Rightarrow> 'l http_middleware" where
  "RequestID text next r ctx p =
     (let id = (if In_RequestID r = '''' then text else In_RequestID r);
          (p', calls, panicked) = next r (ctx\<lparr>Ctx_RequestID := id\<rparr>) p
      in (p', SetHeader ''X-Request-ID'' id # calls, panicked))"

text \<open>A panic passes through before the line is written.\<close>

definition Logging :: "'l http_middleware" where
  "Logging next r ctx p =
     (let (p', calls, panicked) = next r ctx p in
      if panicked then (p', calls, True)
      else let recorder = status_of calls
           in (p'\<lparr>P_log := P_log p' @ [\<lparr>Log_method = In_Method r, Log_path = In_Path r,
                 Log_status = sr_status recorder, Log_bytes = sr_bytes recorder, Log_requestId = Ctx_RequestID ctx\<rparr>]\<rparr>,
               calls, False))"

definition recovered_answer :: "(string \<Rightarrow> string \<Rightarrow> string) \<Rightarrow> answer_calls" where
  "recovered_answer Encode =
     [NoteFailure ''internal_error'', SetHeader ''Content-Type'' ''application/json'', WriteHeader 500,
      Write (Encode ''internal_error'' ''internal error'')]"

definition Recovery :: "(string \<Rightarrow> string \<Rightarrow> string) \<Rightarrow> 'l http_middleware" where
  "Recovery Encode next r ctx p =
     (let (p', calls, panicked) = next r ctx p in
      if \<not> panicked then (p', calls, False) else (p', calls @ recovered_answer Encode, False))"

definition contentSecurityPolicy :: string where
  "contentSecurityPolicy = Join
     [''default-src '' @ quoted ''self'', ''script-src '' @ quoted ''self'', ''style-src '' @ quoted ''self'',
      ''img-src '' @ quoted ''self'' @ '' data: https:'', ''connect-src '' @ quoted ''self'', ''form-action '' @ quoted ''self'',
      ''frame-ancestors '' @ quoted ''none'', ''base-uri '' @ quoted ''none'', ''object-src '' @ quoted ''none''] ''; ''"

definition security_headers :: answer_calls where
  "security_headers =
     [SetHeader ''Content-Security-Policy'' contentSecurityPolicy, SetHeader ''X-Content-Type-Options'' ''nosniff'',
      SetHeader ''X-Frame-Options'' ''DENY'', SetHeader ''Referrer-Policy'' ''no-referrer'']"

definition SecurityHeaders :: "'l http_middleware" where
  "SecurityHeaders next r ctx p =
     (let (p', calls, panicked) = next r ctx p in (p', security_headers @ calls, panicked))"

text \<open>The text of the pattern a request matches, as \<open>ServeMux.Handler\<close> gives it; empty where none does.\<close>

fun segment_text :: "segment \<Rightarrow> string" where
  "segment_text (Lit s) = s"
| "segment_text (Wild n) = ''{'' @ n @ ''}''"

fun pattern_text :: "string \<Rightarrow> path_pattern \<Rightarrow> string" where
  "pattern_text m (Exact segments) = m @ '' /'' @ Join (map segment_text segments) ''/''"
| "pattern_text m Subtree = m @ '' /''"

fun exact_pattern :: "mux \<Rightarrow> string \<Rightarrow> string list \<Rightarrow> string option" where
  "exact_pattern [] m xs = None"
| "exact_pattern ((_, Subtree, _) # rs) m xs = exact_pattern rs m xs"
| "exact_pattern ((pm, Exact ps, _) # rs) m xs =
     (if takes_method pm m \<and> match_segments ps xs \<noteq> None then Some (pattern_text pm (Exact ps)) else exact_pattern rs m xs)"

fun subtree_pattern :: "mux \<Rightarrow> string \<Rightarrow> string option" where
  "subtree_pattern [] m = None"
| "subtree_pattern ((_, Exact _, _) # rs) m = subtree_pattern rs m"
| "subtree_pattern ((pm, Subtree, _) # rs) m = (if takes_method pm m then Some (pattern_text pm Subtree) else subtree_pattern rs m)"

definition mux_pattern :: "mux \<Rightarrow> string \<Rightarrow> string \<Rightarrow> string" where
  "mux_pattern mx m path =
     (case exact_pattern mx m (path_segments path) of
        Some pattern \<Rightarrow> pattern
      | None \<Rightarrow> (case subtree_pattern mx m of Some pattern \<Rightarrow> pattern | None \<Rightarrow> ''''))"

text \<open>The notes: the last code that was noted.\<close>

fun noted :: "answer_calls \<Rightarrow> string \<Rightarrow> string" where
  "noted [] code = code"
| "noted (NoteFailure c # cs) code = noted cs c"
| "noted (_ # cs) code = noted cs code"

definition Measure :: "mux \<Rightarrow> 'l http_middleware" where
  "Measure routes next r ctx p =
     (let p1 = p\<lparr>P_inFlight := P_inFlight p + 1\<rparr>;
          pattern = mux_pattern routes (In_Method r) (In_Path r);
          route = (if pattern \<noteq> '''' then pattern else ''unmatched'');
          (p2, calls, panicked) = next r ctx p1;
          finished = (\<lambda>q. q\<lparr>P_inFlight := P_inFlight q - 1\<rparr>)
      in if panicked then (finished p2, calls, True)
         else let p3 = p2\<lparr>P_requests := P_requests p2 @ [(In_Method r, route, sr_status (status_of calls))]\<rparr>;
                  code = noted calls '''';
                  p4 = (if code \<noteq> '''' then p3\<lparr>P_failures := P_failures p3 @ [code]\<rparr> else p3)
              in (finished p4, calls, False))"

text \<open>The bearer token is looked at by \<open>Authenticate\<close> of the theory \<open>Accounts\<close>; \<open>now\<close> is the reading of the clock.\<close>

definition Authenticate_layer ::
  "(string \<Rightarrow> string \<Rightarrow> string) \<Rightarrow> (goerror \<Rightarrow> string) \<Rightarrow> (string \<Rightarrow> string) \<Rightarrow> time \<Rightarrow> 'l http_middleware" where
  "Authenticate_layer Encode Error sign now next r ctx p =
     (case Authenticate sign now (In_Authorization r) (accounts_of (P_server p)) of
        Inl err \<Rightarrow> (p, writeAPIError Encode Error err, False)
      | Inr None \<Rightarrow> next r ctx p
      | Inr (Some claims) \<Rightarrow> next r (ctx\<lparr>Ctx_User := Claims_UserID claims, Ctx_Claims := Some claims\<rparr>) p)"

definition RateLimit ::
  "(string \<Rightarrow> string \<Rightarrow> string) \<Rightarrow> (goerror \<Rightarrow> string) \<Rightarrow> (string \<Rightarrow> string option) \<Rightarrow> ('l, 'r) rate_package \<Rightarrow> Policies \<Rightarrow>
   time \<Rightarrow> 'l http_middleware" where
  "RateLimit Encode Error SplitHostPort pkg policies now next r ctx p =
     (let policy = forRequest policies (In_Path r);
          key = limitKey SplitHostPort (Ctx_User ctx) (In_RemoteAddr r);
          (limiter1, allowed, retryAfter) = Allow pkg policy key now (P_limiter p);
          p1 = p\<lparr>P_limiter := limiter1\<rparr>
      in if allowed then next r ctx p1
         else (p1, too_many Encode Error retryAfter, False))"

definition idem_request :: "HttpRequest \<Rightarrow> Context \<Rightarrow> Request" where
  "idem_request r ctx =
     \<lparr>Req_Method = In_Method r, Req_Path = In_Path r, Req_Key = In_IdempotencyKey r, Req_User = Ctx_User ctx\<rparr>"

text \<open>A panic passes through before the key is completed or given up.\<close>

definition Idempotency_layer ::
  "(string \<Rightarrow> string \<Rightarrow> string) \<Rightarrow> (goerror \<Rightarrow> string) \<Rightarrow> duration \<Rightarrow> time \<Rightarrow> 'l http_middleware" where
  "Idempotency_layer Encode Error ttl now next r ctx p =
     (let q = idem_request r ctx in
      if \<not> covered q then next r ctx p
      else case Idempotency_Claim (claim_record ttl now q) (P_keys p) of
        (keys1, existing, claimed) \<Rightarrow>
          if \<not> claimed then (p\<lparr>P_keys := keys1\<rparr>, replay Encode Error existing (request_fingerprint q), False)
          else let (p1, calls, panicked) = next r ctx (p\<lparr>P_keys := keys1\<rparr>) in
               if panicked then (p1, calls, True)
               else (p1\<lparr>P_keys := finish (Req_User q) (Req_Key q) (recorded_answer calls) (P_keys p1)\<rparr>, calls, False))"

section \<open>The server as it is wired\<close>

definition mux_serve :: "Handler \<Rightarrow> Draws \<Rightarrow> 'l http_handler" where
  "mux_serve h d r ctx p =
     (let (server, calls) = ServeHTTP h d (Ctx_Claims ctx) (In_Body r) (idem_request r ctx) (P_server p)
      in (p\<lparr>P_server := server\<rparr>, calls, False))"

text \<open>What one request reads and draws on its way in.\<close>

record Readings =
  Rd_text :: string
  Rd_auth :: time
  Rd_limit :: time
  Rd_idem :: time
  Rd_draws :: Draws

record ('l, 'r) Wiring =
  Wi_api :: Handler
  Wi_package :: "('l, 'r) rate_package"
  Wi_policies :: Policies
  Wi_SplitHostPort :: "string \<Rightarrow> string option"
  Wi_idempotencyTTL :: duration

definition error_json :: "Handler \<Rightarrow> string \<Rightarrow> string \<Rightarrow> string" where
  "error_json h code message = H_json h (ErrorBody code message)"

definition middleware :: "('l, 'r) Wiring \<Rightarrow> Readings \<Rightarrow> 'l http_middleware list" where
  "middleware w rd =
     (let h = Wi_api w; Encode = error_json h; Error = H_Error h in
      [Measure (Routes h), SecurityHeaders, RequestID (Rd_text rd), Logging, Recovery Encode,
       Authenticate_layer Encode Error (H_sign h) (Rd_auth rd),
       RateLimit Encode Error (Wi_SplitHostPort w) (Wi_package w) (Wi_policies w) (Rd_limit rd),
       Idempotency_layer Encode Error (Wi_idempotencyTTL w) (Rd_idem rd)])"

definition root :: "('l, 'r) Wiring \<Rightarrow> Readings \<Rightarrow> HttpRequest \<Rightarrow> 'l Process \<Rightarrow> 'l Process \<times> answer_calls \<times> bool" where
  "root w rd r p = Chain (mux_serve (Wi_api w) (Rd_draws rd)) (middleware w rd) r Background p"

end
