(* ===== verification/Purchase.thy ===== *)
theory Purchase
  imports Http_Server
begin

text \<open>
  Buying a seat, request by request: a caller holds a seat, the rest of the world goes on, and the caller confirms.
  Between the two requests everybody else may send whatever they like and the sweeper, the handoff and the
  workers run as they please; while the hold runs, none of it moves the seat, and the confirmation sells it.
\<close>

section \<open>A running hold is safe from everybody else\<close>

text \<open>A seat that somebody holds until \<open>D\<close>.\<close>

definition held_until :: "string \<Rightarrow> time \<Rightarrow> Seat \<Rightarrow> bool" where
  "held_until u D x \<longleftrightarrow> Seat_Status x = StatusHeld \<and> HeldBy x = u \<and> HoldExpiresAt x = D"

definition stays :: "string \<Rightarrow> Seat \<Rightarrow> SeatStore \<Rightarrow> SeatStore \<Rightarrow> bool" where
  "stays k x r r' \<longleftrightarrow> (map_of r k = Some x \<longrightarrow> map_of r' k = Some x)"

lemma stays_refl [simp]: "stays k x r r"
  by (simp add: stays_def)

lemma held_refuses:
  assumes "held_until u D x"
  shows "now < D \<Longrightarrow> failed (Seat_Hold h v d now x)" "v \<noteq> u \<Longrightarrow> failed (Seat_Confirm v c now x)"
    "v \<noteq> u \<Longrightarrow> failed (Seat_Release v x)" "now < D \<Longrightarrow> fst (ExpireHold now x) = x"
  using assms by (auto simp: held_until_def seat_ops)

lemma UpdateSeat_stays: "failed (f x) \<Longrightarrow> stays k x r (fst (UpdateSeat e i f r))"
  by (auto simp: stays_def UpdateSeat_def Let_def update_conv' simp del: map_of_eq_Some_iff split: option.split sum.split)

lemma UpdateSeatByHoldID_stays:
  assumes "gomap_ok r" "failed (f x)"
  shows "stays k x r (fst (UpdateSeatByHoldID h f r))"
proof (cases "find_hold h r")
  case (Some p)
  then have "map_of r (fst p) = Some (snd p)" using find_hold_Some [OF assms(1), of h "fst p" "snd p"] by simp
  with Some assms(2) show ?thesis
    by (cases p) (auto simp: stays_def UpdateSeatByHoldID_def update_conv' simp del: map_of_eq_Some_iff split: sum.split)
qed (simp add: UpdateSeatByHoldID_def)

lemma HoldSeat_stays:
  assumes "held_until u D x" "now < D"
  shows "stays k x (W_seats w) (W_seats (fst (HoldSeat cfg now at h e i v w)))"
  using UpdateSeat_stays [of "Seat_Hold h v (HoldTTL cfg) now" x k "W_seats w" e i] held_refuses(1) [OF assms]
  by (auto simp: HoldSeat_def announceSeatChange_def Let_def case_prod_unfold split: sum.split option.split)

lemma ConfirmReservation_stays:
  assumes "held_until u D x" "v \<noteq> u" "gomap_ok (W_seats w)"
  shows "stays k x (W_seats w) (W_seats (fst (ConfirmReservation cfg now at n h v w)))"
  using UpdateSeatByHoldID_stays [of "W_seats w" "Seat_Confirm v (FormatTicketCode (take 8 n)) now" x k h] assms(3)
    held_refuses(2) [OF assms(1,2)]
  by (auto simp: ConfirmReservation_def announceSeatChange_def Let_def case_prod_unfold split: sum.split)

lemma ReleaseSeat_stays:
  assumes "held_until u D x" "v \<noteq> u" "gomap_ok (W_seats w)"
  shows "stays k x (W_seats w) (W_seats (fst (ReleaseSeat cfg at h v w)))"
  using UpdateSeatByHoldID_stays [of "W_seats w" "Seat_Release v" x k h] assms(3) held_refuses(3) [OF assms(1,2)]
  by (auto simp: ReleaseSeat_def announceSeatChange_def Let_def case_prod_unfold split: sum.split)

lemma AddSeats_stays: "stays k x (W_seats w) (W_seats (fst (AddSeats e rows n w)))"
  by (auto simp: AddSeats_def stays_def CreateSeats_def map_of_create_loop Let_def case_prod_unfold
      simp del: map_of_eq_Some_iff split: sum.split)

lemma Sweep_stays:
  assumes "held_until u D x" "now < D"
  shows "stays k x (W_seats w) (W_seats (fst (Sweep cfg now w)))"
  using held_refuses(4) [OF assms]
  by (simp add: Sweep_def Let_def case_prod_unfold stays_def map_of_ExpireHolds del: map_of_eq_Some_iff)

lemma hand_next_stays:
  assumes "held_until u D x" "now < D"
  shows "stays k x (W_seats w) (W_seats (hand_next cfg now at1 at2 h w))"
  using HoldSeat_stays [OF assms, of k "w\<lparr>W_freed := rest, W_waiting := q\<rparr>" cfg at1 h for rest q]
  by (auto simp: hand_next_def hand_def split: list.split prod.split sum.split)

lemma call_stays:
  assumes "held_until u D x"
  shows "HoldSeat cfg now at h e i v w = (w', res1) \<Longrightarrow> now < D \<Longrightarrow> stays k x (W_seats w) (W_seats w')"
    "ConfirmReservation cfg now at n h v w = (w', res2) \<Longrightarrow> v \<noteq> u \<Longrightarrow> gomap_ok (W_seats w) \<Longrightarrow> stays k x (W_seats w) (W_seats w')"
    "ReleaseSeat cfg at h v w = (w', res3) \<Longrightarrow> v \<noteq> u \<Longrightarrow> gomap_ok (W_seats w) \<Longrightarrow> stays k x (W_seats w) (W_seats w')"
    "AddSeats e rows m w = (w', res4) \<Longrightarrow> stays k x (W_seats w) (W_seats w')"
    "WaitingList_Join cfg now n e v w = (w', res5) \<Longrightarrow> stays k x (W_seats w) (W_seats w')"
    "Inventory_CreateEvent p n a b t details w = (w', res6) \<Longrightarrow> stays k x (W_seats w) (W_seats w')"
    "Inventory_UpdateEvent p e a b t change w = (w', res7) \<Longrightarrow> stays k x (W_seats w) (W_seats w')"
    "CancelEvent icfg ids t1 t2 t3 t4 e w = (w', res8) \<Longrightarrow> stays k x (W_seats w) (W_seats w')"
    "Inventory_DeleteEvent e w = (w', res9) \<Longrightarrow> stays k x (W_seats w) (W_seats w')"
  using HoldSeat_stays [OF assms, of now k w cfg at h e i v] ConfirmReservation_stays [OF assms, of v w k cfg now at n h]
    ReleaseSeat_stays [OF assms, of v w k cfg at h] AddSeats_stays [of k x w e rows m]
    WaitingList_Join_seats [of cfg now n e v w] inventory_seats(1) [of p n a b t details w]
    inventory_seats(2) [of p e a b t change w] inventory_seats(3) [of icfg ids t1 t2 t3 t4 e w] inventory_seats(4) [of e w]
  by auto

abbreviation seat_stays :: "string \<Rightarrow> Seat \<Rightarrow> Server \<Rightarrow> Server \<Rightarrow> bool" where
  "seat_stays k x s s' \<equiv> stays k x (W_seats (S_world s)) (W_seats (S_world s'))"

lemma admin_stays:
  assumes "held_until u D x"
  shows "createEvent h d r s = (s', cs) \<Longrightarrow> seat_stays k x s s'" "addSeats h d r s = (s', cs) \<Longrightarrow> seat_stays k x s s'"
    "updateEvent h d r s = (s', cs) \<Longrightarrow> seat_stays k x s s'" "cancelEvent icfg h d r s = (s', cs) \<Longrightarrow> seat_stays k x s s'"
    "deleteEvent h d r s = (s', cs) \<Longrightarrow> seat_stays k x s s'"
  using call_stays(4-) [OF assms, where k = k]
  by (auto simp: createEvent_def addSeats_def updateEvent_def cancelEvent_def deleteEvent_def Let_def
      split: sum.splits prod.splits)

lemma run_route_stays:
  assumes "run_route h route d r s = (s', cs)" "held_until u D x" "C_user r \<noteq> u" "tick d 0 < D" "gomap_ok (W_seats (S_world s))"
  shows "seat_stays k x s s'"
proof (cases "admin_route route")
  case True
  then show ?thesis using assms(1) admin_routes admin_stays [OF assms(2)] by (cases route) fastforce+
next
  case False
  have user: "userIDFrom r = Inr v \<Longrightarrow> v \<noteq> u" for v using assms(3) by (auto simp: userIDFrom_def split: if_splits)
  show ?thesis using False assms(1,4,5)
    by (cases route) (auto simp: handler_defs WaitingList_Leave_def dest!: user quiet_worlds register_world login_world verifyEmail_world
        intro: call_stays [OF assms(2)] split: sum.splits prod.splits option.splits)
qed

lemma ServeHTTP_stays:
  assumes "ServeHTTP h d claims body r s = (s', cs)" "held_until u D x" "Req_User r \<noteq> u" "tick d 0 < D"
    "gomap_ok (W_seats (S_world s))"
  shows "seat_stays k x s s'"
  using assms run_route_stays [OF _ assms(2) _ assms(4,5)]
  by (auto simp: ServeHTTP_def split: option.splits prod.splits)

section \<open>What goes on between two requests of a caller\<close>

text \<open>Anything that happens before \<open>D\<close> and is not a request of \<open>u\<close>: requests of everybody else, sweeps, turns of the
  handoff, passes of the delivery worker and of the other workers.\<close>

inductive others_step :: "Handler \<Rightarrow> string \<Rightarrow> time \<Rightarrow> Server \<Rightarrow> Server \<Rightarrow> bool" for h u D where
  other_request: "Req_User r \<noteq> u \<Longrightarrow> fresh_draws d (S_world s) \<Longrightarrow> tick d 0 < D \<Longrightarrow>
    others_step h u D s (fst (ServeHTTP h d claims body r s))"
| other_sweep: "now < D \<Longrightarrow> others_step h u D s (s\<lparr>S_world := fst (Sweep (H_service h) now (S_world s))\<rparr>)"
| other_hand: "hold_is_new (W_seats (S_world s)) i \<Longrightarrow> now < D \<Longrightarrow>
    others_step h u D s (s\<lparr>S_world := hand_next (H_service h) now at1 at2 i (S_world s)\<rparr>)"
| other_deliver: "others_step h u D s
    (s\<lparr>S_world := (S_world s)\<lparr>W_inbox := inbox, W_outbox := outbox, W_push := subs\<rparr>\<rparr>)"
| other_workers: "others_step h u D s (s\<lparr>S_revoked := revoked, S_links := links\<rparr>)"

abbreviation others_steps :: "Handler \<Rightarrow> string \<Rightarrow> time \<Rightarrow> Server \<Rightarrow> Server \<Rightarrow> bool" where
  "others_steps h u D \<equiv> (others_step h u D)\<^sup>*\<^sup>*"

lemma others_step_service:
  "others_step h u D s s' \<Longrightarrow> S_world s' = S_world s \<or>
     service_step (H_service h) (the (H_inventory h)) (H_url_Parse h) (S_world s) (S_world s')"
proof (induction rule: others_step.induct)
  case (other_request r d s claims body)
  then show ?case using ServeHTTP_step [of h d claims body r s "fst (ServeHTTP h d claims body r s)"]
    by (metis prod.collapse)
qed (auto intro: does_sweep does_hand does_deliver)

lemma others_step_stays:
  assumes "others_step h u D s s'" "held_until u D x" "gomap_ok (W_seats (S_world s))"
  shows "seat_stays k x s s'"
  using assms(1,3)
proof (induction rule: others_step.induct)
  case (other_request r d s claims body)
  then show ?case
    using ServeHTTP_stays [OF prod.collapse [symmetric] assms(2), where r = r and d = d and s = s and k = k] by simp
qed (auto intro: Sweep_stays [OF assms(2)] hand_next_stays [OF assms(2)])

lemma others_steps_stays:
  assumes "others_steps h u D s s'" "held_until u D x" "service_inv (S_world s)" "map_of (W_seats (S_world s)) k = Some x"
  shows "map_of (W_seats (S_world s')) k = Some x \<and> service_inv (S_world s') \<and>
    (MayTakeSeat g v (W_users (S_world s)) = Inr () \<longrightarrow> MayTakeSeat g v (W_users (S_world s')) = Inr ())"
  using assms(1)
proof (induction rule: rtranclp_induct)
  case (step s1 s2)
  have inv: "service_inv (S_world s1)" using step.IH by blast
  then have "gomap_ok (W_seats (S_world s1))" by (simp add: service_inv_def world_inv_def seats_inv_def)
  from others_step_stays [OF step.hyps(2) assms(2) this, of k] have "map_of (W_seats (S_world s2)) k = Some x"
    using step.IH by (simp add: stays_def)
  moreover have "service_inv (S_world s2)" using others_step_service [OF step.hyps(2)] service_step_inv inv by auto
  moreover have "MayTakeSeat g v (W_users (S_world s2)) = Inr ()" if "MayTakeSeat g v (W_users (S_world s1)) = Inr ()"
  proof (cases g)
    case VerifiedOnly
    then have "verified_account (W_users (S_world s1)) v" using that may_take_verified by blast
    then have "verified_account (W_users (S_world s2)) v"
      using others_step_service [OF step.hyps(2)] service_step_verified inv by auto
    then show ?thesis using VerifiedOnly by (auto simp: verified_account_def MayTakeSeat_def split: sum.splits)
  qed (simp add: MayTakeSeat_def)
  ultimately show ?case using step.IH by blast
qed (use assms in auto)

section \<open>Holding and confirming\<close>

text \<open>C5. A hold can be turned into its ticket. When a caller's request for a seat is answered with a hold, then
  whatever everybody else does while the hold runs, the caller's confirmation before the deadline is
  answered with the reservation of that seat in their name, and the seat is sold to them.\<close>

theorem purchase_completes:
  assumes "service_inv (S_world s)" and "fresh_draws d (S_world s)" and "newID d 0 \<noteq> ''''"
    and "holdSeat h d r s = (s1, cs)" and "sent_status cs = 201"
    and "others_steps h (C_user r) (tick d 0 + HoldTTL (H_service h)) s1 s2"
    and "C_user r2 = C_user r" and "PathValue ''holdID'' r2 = newID d 0"
    and "tick d2 0 < tick d 0 + HoldTTL (H_service h)" and "8 \<le> length (newID d2 0)"
  shows "\<exists>s3. confirmReservation h d2 r2 s2 = (s3, writeJSON h 200 (ReservationBody
        \<lparr>RR_EventID = PathValue ''eventID'' r, RR_SeatID = PathValue ''seatID'' r, RR_UserID = C_user r,
         RR_Status = ''reserved'', RR_TicketCode = FormatTicketCode (take 8 (newID d2 0))\<rparr>)) \<and>
      ledger (W_seats (S_world s3)) (seatKey (PathValue ''eventID'' r) (PathValue ''seatID'' r)) =
        Some (Sold (C_user r) (FormatTicketCode (take 8 (newID d2 0))))"
proof -
  let ?e = "PathValue ''eventID'' r" and ?i = "PathValue ''seatID'' r" and ?u = "C_user r" and ?w = "S_world s"
  let ?cfg = "H_service h" and ?D = "tick d 0 + HoldTTL (H_service h)" and ?code = "FormatTicketCode (take 8 (newID d2 0))"
  have not_created: "fst (statusForError err) \<noteq> 201" for err using statusForError_error [of err] by simp
  obtain hold where hold: "?u \<noteq> ''''" "HoldSeat ?cfg (tick d 0) (tick d 1) (newID d 0) ?e ?i ?u ?w = (S_world s1, Inr (Some hold))"
    using assms(4,5) not_created
    by (auto simp: holdSeat_def userIDFrom_def split: sum.splits prod.splits option.splits if_splits)
  obtain ev x x1 where o: "MayTakeSeat (Gate ?cfg) ?u (W_users ?w) = Inr ()" "map_of (W_events ?w) ?e = Some ev"
    "map_of (W_seats ?w) (seatKey ?e ?i) = Some x" "Seat_Hold (newID d 0) ?u (HoldTTL ?cfg) (tick d 0) x = Inr x1"
    "S_world s1 = publish (seat_changed (tick d 1) ?e ?i) (?w\<lparr>W_seats := AList.update (seatKey ?e ?i) x1 (W_seats ?w)\<rparr>)"
    using HoldSeat_ok [OF hold(2)] by metis
  have slash: "slash_free ?e" using assms(1) o(2) by (auto simp: service_inv_def event_ids_ok_def)
  have "seat_filed (seatKey ?e ?i) x" using seats_invD(2) [OF _ o(3)] assms(1) by (simp add: service_inv_def world_inv_def)
  then have id: "Seat_EventID x = ?e" "Seat_ID x = ?i"
    using seatKey_inj [OF slash, of "Seat_EventID x"] by (auto simp: seat_filed_def slash_free_def)
  have x1: "held_until ?u ?D x1" "HoldID x1 = newID d 0" "Seat_EventID x1 = ?e" "Seat_ID x1 = ?i"
    using o(4) id by (auto simp: held_until_def seat_ops split: if_splits)
  have inv1: "service_inv (S_world s1)"
    using does_hold [of ?w "newID d 0"] service_step_inv assms(1,2) hold(2) by (metis fresh_draws_def fst_conv)
  have at1: "map_of (W_seats (S_world s1)) (seatKey ?e ?i) = Some x1" using o(5) by (simp add: update_conv')
  have gate1: "MayTakeSeat (Gate ?cfg) ?u (W_users (S_world s1)) = Inr ()" using o(1,5) by simp
  from others_steps_stays [OF assms(6) x1(1) inv1 at1, of "Gate ?cfg" ?u]
  have at2: "map_of (W_seats (S_world s2)) (seatKey ?e ?i) = Some x1" and inv2: "service_inv (S_world s2)"
    and gate2: "MayTakeSeat (Gate ?cfg) ?u (W_users (S_world s2)) = Inr ()" using gate1 by blast+
  have seats2: "seats_inv (W_seats (S_world s2))" using inv2 by (simp add: service_inv_def world_inv_def)
  have found: "find_hold (newID d 0) (W_seats (S_world s2)) = Some (seatKey ?e ?i, x1)"
    by (rule find_hold_unique [OF seats2 at2 x1(2) assms(3)])
  have confirm: "Seat_Confirm ?u ?code (tick d2 0) x1 =
      Inr (clearHold (x1\<lparr>Seat_Status := StatusReserved, ReservedBy := ?u, TicketCode := ?code\<rparr>))"
    using x1(1) hold(1) assms(9) by (auto simp: Seat_Confirm_def held_until_def IsHoldExpired_def reached_def Before_def)
  then show ?thesis
    using assms(7,8,10) hold(1) gate2 found x1(3,4)
    by (simp add: confirmReservation_def userIDFrom_def ConfirmReservation_def UpdateSeatByHoldID_def announceSeatChange_def
        newReservationResponse_def clearHold_def ledger_def update_conv')
qed

definition free_server :: Server where
  "free_server = \<lparr>S_world = small_world, S_revoked = Some [], S_links = []\<rparr>"

definition call_of :: "string \<Rightarrow> (string \<times> string) list \<Rightarrow> Call" where
  "call_of user values = \<lparr>C_user = user, C_claims = None, C_body = '''', C_path = values, C_url = ''''\<rparr>"

theorem purchase_completes_witness:
  "\<exists>s1 s3. fst (holdSeat small_handler (small_draws 100) (call_of ''alice'' [(''eventID'', ''event-1''), (''seatID'', ''A1'')]) free_server) = s1 \<and>
     fst (confirmReservation small_handler (small_draws 399) (call_of ''alice'' [(''holdID'', ''ABCDEFGHJ'')])
       (s1\<lparr>S_world := fst (Sweep small_cfg 399 (S_world s1))\<rparr>)) = s3 \<and>
     ledger (W_seats (S_world s3)) (seatKey ''event-1'' ''A1'') = Some (Sold ''alice'' (FormatTicketCode ''ABCDEFGH''))"
proof -
  let ?r = "call_of ''alice'' [(''eventID'', ''event-1''), (''seatID'', ''A1'')]"
  let ?r2 = "call_of ''alice'' [(''holdID'', ''ABCDEFGHJ'')]"
  obtain s1 cs where h: "holdSeat small_handler (small_draws 100) ?r free_server = (s1, cs)" by force
  have "sent_status (snd (holdSeat small_handler (small_draws 100) ?r free_server)) = 201"
    by (simp add: holdSeat_def userIDFrom_def call_of_def PathValue_def HoldSeat_cases small_handler_def small_draws_def
        free_server_def small)
  then have st: "sent_status cs = 201" using h by simp
  have inv: "service_inv (S_world free_server)"
    using small_world_inv by (simp add: service_inv_def free_server_def event_ids_ok_def small_world_def slash_free_def)
  have fresh: "fresh_draws (small_draws 100) (S_world free_server)"
    by (simp add: fresh_draws_def small_draws_def free_server_def small_world_def hold_is_new_def user_id_new_def slash_free_def
        sample_seats)
  have steps: "others_steps small_handler (C_user ?r) (tick (small_draws 100) 0 + HoldTTL (H_service small_handler)) s1
      (s1\<lparr>S_world := fst (Sweep small_cfg 399 (S_world s1))\<rparr>)"
    using other_sweep [of 399 "tick (small_draws 100) 0 + HoldTTL (H_service small_handler)" small_handler "C_user ?r" s1]
    by (auto simp: small_draws_def small_handler_def small_cfg_def)
  from purchase_completes [OF inv fresh _ h st steps, of ?r2 "small_draws 399"] h show ?thesis
    by (auto simp: call_of_def PathValue_def small_draws_def small_handler_def small_cfg_def)
qed

end
