(* ===== verification/Site.thy ===== *)
theory Site
  imports Middleware Purchase
begin

text \<open>
  What the chain of middleware and the routes promise together: what every answer carries, what a panic, a refusal and a
  retry come to, and that the invariants of the services survive any sequence of requests.
\<close>

section \<open>The chain, unfolded\<close>

lemma Chain_simps [simp]: "Chain h [] = h" "Chain h (m # ms) = m (Chain h ms)"
  by (simp_all add: Chain_def)

text \<open>The handler leaves the books of the middleware alone.\<close>

definition books :: "'l Process \<Rightarrow> log_line list \<times> (string \<times> string \<times> int) list \<times> string list \<times> int" where
  "books p = (P_log p, P_requests p, P_failures p, P_inFlight p)"

lemma books_simps [simp]:
  "books (p\<lparr>P_keys := ks\<rparr>) = books p" "books (p\<lparr>P_limiter := l\<rparr>) = books p" "books (p\<lparr>P_server := s\<rparr>) = books p"
  by (simp_all add: books_def)

definition leaves_books :: "'l http_handler \<Rightarrow> bool" where
  "leaves_books next \<longleftrightarrow> (\<forall>r ctx p. books (fst (next r ctx p)) = books p)"

lemma leaves_booksD: "leaves_books next \<Longrightarrow> books (fst (next r ctx p)) = books p"
  by (simp add: leaves_books_def)

lemma leaves_books_mux: "leaves_books (mux_serve h d)"
  by (simp add: leaves_books_def mux_serve_def Let_def case_prod_unfold)

lemma leaves_books_layers:
  assumes "leaves_books next"
  shows "leaves_books (Idempotency_layer Encode Error ttl now next)"
    and "leaves_books (RateLimit Encode Error sp pkg policies now next)"
    and "leaves_books (Authenticate_layer Encode Error sign now next)"
    and "leaves_books (Recovery Encode next)"
  unfolding leaves_books_def Idempotency_layer_def RateLimit_def Authenticate_layer_def Recovery_def Let_def case_prod_unfold
  using leaves_booksD [OF assms] by (simp_all split: option.split sum.split)

section \<open>Every request is accounted for\<close>

lemma Recovery_never_panics: "\<not> snd (snd (Recovery Encode next r ctx p))"
  by (simp add: Recovery_def case_prod_unfold Let_def)

text \<open>The outer five layers around a handler that does not panic.\<close>

definition books_of :: "mux \<Rightarrow> HttpRequest \<Rightarrow> string \<Rightarrow> answer_calls \<Rightarrow> log_line \<times> (string \<times> string \<times> int) \<times> string list" where
  "books_of routes r rid calls =
     (\<lparr>Log_method = In_Method r, Log_path = In_Path r, Log_status = sr_status (status_of calls),
       Log_bytes = sr_bytes (status_of calls), Log_requestId = rid\<rparr>,
      (In_Method r, (let pattern = mux_pattern routes (In_Method r) (In_Path r) in
         if pattern \<noteq> '''' then pattern else ''unmatched''), sr_status (status_of calls)),
      (if noted calls '''' \<noteq> '''' then [noted calls ''''] else []))"

definition id_of :: "Readings \<Rightarrow> HttpRequest \<Rightarrow> string" where
  "id_of rd r = (if In_RequestID r = '''' then Rd_text rd else In_RequestID r)"

abbreviation front_headers :: "Readings \<Rightarrow> HttpRequest \<Rightarrow> answer_calls" where
  "front_headers rd r \<equiv> security_headers @ [SetHeader ''X-Request-ID'' (id_of rd r)]"

lemma status_of_front [simp]: "status_of (front_headers rd r @ calls) = status_of calls"
  by (simp add: status_of_def security_headers_def)

lemma status_of_front1 [simp]: "status_of (SetHeader a b # calls) = status_of calls"
  by (simp add: status_of_def)

lemma noted_front [simp]: "noted (front_headers rd r @ calls) c = noted calls c"
  by (simp add: security_headers_def)

lemma outer_layers:
  assumes "inner r (Background\<lparr>Ctx_RequestID := id_of rd r\<rparr>) (p\<lparr>P_inFlight := P_inFlight p + 1\<rparr>) = (p1, calls, False)"
    and "books p1 = books (p\<lparr>P_inFlight := P_inFlight p + 1\<rparr>)"
  shows "Chain inner [Measure routes, SecurityHeaders, RequestID (Rd_text rd), Logging] r Background p =
    (p1\<lparr>P_log := P_log p @ [fst (books_of routes r (id_of rd r) calls)],
        P_requests := P_requests p @ [fst (snd (books_of routes r (id_of rd r) calls))],
        P_failures := P_failures p @ snd (snd (books_of routes r (id_of rd r) calls)),
        P_inFlight := P_inFlight p\<rparr>, front_headers rd r @ calls, False)"
  using assms noted_front [of rd r calls "''''"] status_of_front [of rd r calls]
  by (simp add: Measure_def SecurityHeaders_def RequestID_def Logging_def books_of_def Let_def id_of_def [symmetric] books_def)

definition inner_layers :: "('l, 'r) Wiring \<Rightarrow> Readings \<Rightarrow> 'l http_middleware" where
  "inner_layers w rd next =
     (let h = Wi_api w; Encode = error_json h; Error = H_Error h in
      Chain next [Authenticate_layer Encode Error (H_sign h) (Rd_auth rd),
        RateLimit Encode Error (Wi_SplitHostPort w) (Wi_package w) (Wi_policies w) (Rd_limit rd),
        Idempotency_layer Encode Error (Wi_idempotencyTTL w) (Rd_idem rd)])"

lemma middleware_layers:
  "Chain next (middleware w rd) =
     Chain (Recovery (error_json (Wi_api w)) (inner_layers w rd next))
       [Measure (Routes (Wi_api w)), SecurityHeaders, RequestID (Rd_text rd), Logging]"
  by (simp add: middleware_def inner_layers_def Let_def)

lemma leaves_books_inner: "leaves_books next \<Longrightarrow> leaves_books (inner_layers w rd next)"
  by (simp add: inner_layers_def Let_def leaves_books_layers)

definition entered :: "Readings \<Rightarrow> HttpRequest \<Rightarrow> Context" where
  "entered rd r = Background\<lparr>Ctx_RequestID := id_of rd r\<rparr>"

definition counted :: "'l Process \<Rightarrow> 'l Process" where
  "counted p = p\<lparr>P_inFlight := P_inFlight p + 1\<rparr>"

definition kept_books :: "'l Process \<Rightarrow> log_line \<times> (string \<times> string \<times> int) \<times> string list \<Rightarrow> 'l Process \<Rightarrow> 'l Process" where
  "kept_books p b p1 =
     p1\<lparr>P_log := P_log p @ [fst b], P_requests := P_requests p @ [fst (snd b)], P_failures := P_failures p @ snd (snd b),
        P_inFlight := P_inFlight p\<rparr>"

text \<open>What the caller gets and what is written down, from what the inside did.\<close>

definition contained :: "('l, 'r) Wiring \<Rightarrow> answer_calls \<Rightarrow> bool \<Rightarrow> answer_calls" where
  "contained w calls panicked = (if panicked then calls @ recovered_answer (error_json (Wi_api w)) else calls)"

lemma whole_chain:
  assumes "leaves_books next" and "inner_layers w rd next r (entered rd r) (counted p) = (p1, calls, panicked)"
  shows "Chain next (middleware w rd) r Background p =
    (kept_books p (books_of (Routes (Wi_api w)) r (id_of rd r) (contained w calls panicked)) p1,
     front_headers rd r @ contained w calls panicked, False)"
proof -
  have rec: "Recovery (error_json (Wi_api w)) (inner_layers w rd next) r (entered rd r) (counted p) = (p1, contained w calls panicked, False)"
    using assms(2) by (simp add: Recovery_def contained_def)
  have "books p1 = books (counted p)"
    using leaves_booksD [OF leaves_books_inner [OF assms(1)], of w rd r "entered rd r" "counted p"] assms(2) by simp
  then show ?thesis
    unfolding middleware_layers kept_books_def
    by (intro outer_layers) (use rec in \<open>simp_all add: entered_def counted_def\<close>)
qed

lemma status_disciplined: "disciplined cs \<Longrightarrow> sr_status (status_of cs) = sent_status cs"
proof -
  have later: "only_writes cs \<Longrightarrow> sr_status w \<noteq> 0 \<Longrightarrow> sr_status (fold status_call cs w) = sr_status w" for cs w
    by (induction cs arbitrary: w rule: only_writes.induct) auto
  have "disciplined cs \<Longrightarrow> sr_status w = 0 \<Longrightarrow> sr_status (fold status_call cs w) = sent_status cs" for w
    by (induction cs arbitrary: w rule: disciplined.induct) (auto simp: later)
  then show "disciplined cs \<Longrightarrow> sr_status (status_of cs) = sent_status cs" by (simp add: status_of_def)
qed

lemma disciplined_front [simp]: "disciplined (front_headers rd r @ cs) = disciplined cs"
  by (simp add: security_headers_def)

lemma sent_front [simp]: "sent_status (front_headers rd r @ cs) = sent_status cs" "sent_body (front_headers rd r @ cs) = sent_body cs"
  by (simp_all add: security_headers_def)

lemma exact_pattern_in: "exact_pattern mx m xs = Some s \<Longrightarrow> \<exists>(pm, pat, route) \<in> set mx. s = pattern_text pm pat"
  by (induction mx m xs rule: exact_pattern.induct) (auto split: if_splits)

lemma subtree_pattern_in: "subtree_pattern mx m = Some s \<Longrightarrow> \<exists>(pm, pat, route) \<in> set mx. s = pattern_text pm pat"
  by (induction mx m rule: subtree_pattern.induct) (auto split: if_splits)

lemma mux_pattern_in: "mux_pattern mx m path = '''' \<or> (\<exists>(pm, pat, route) \<in> set mx. mux_pattern mx m path = pattern_text pm pat)"
  by (auto simp: mux_pattern_def dest!: exact_pattern_in subtree_pattern_in split: option.splits)

lemma every_answer_no_panic:
  assumes "leaves_books next" "Chain next (middleware w rd) r Background p = (p', calls, panicked)"
  shows "\<not> panicked"
proof -
  obtain p1 inside pan where "inner_layers w rd next r (entered rd r) (counted p) = (p1, inside, pan)"
    by (metis prod_cases3)
  from whole_chain [OF assms(1) this] assms(2) show ?thesis by simp
qed

text \<open>C30. Every request is accounted for, whatever the handler inside does, a panic included: the chain itself never panics;
  it leaves one line in the log and one measurement, under the same status, with the pattern of a route and never the path,
  and the count of requests under way is as before. The status written down is the one the caller was sent, wherever the
  answer set one status before its body.\<close>

theorem every_request_is_accounted:
  assumes "leaves_books next" and "Chain next (middleware w rd) r Background p = (p', calls, panicked)"
  shows "\<not> panicked \<and> P_inFlight p' = P_inFlight p \<and>
    (\<exists>status bytes route. P_log p' = P_log p @ [\<lparr>Log_method = In_Method r, Log_path = In_Path r, Log_status = status,
        Log_bytes = bytes, Log_requestId = id_of rd r\<rparr>] \<and>
      P_requests p' = P_requests p @ [(In_Method r, route, status)] \<and>
      (route = ''unmatched'' \<or> (\<exists>(pm, pat, handler) \<in> set (Routes (Wi_api w)). route = pattern_text pm pat)) \<and>
      (disciplined calls \<longrightarrow> status = sent_status calls))"
proof -
  obtain p1 inside pan where i: "inner_layers w rd next r (entered rd r) (counted p) = (p1, inside, pan)"
    by (metis prod_cases3)
  note c = whole_chain [OF assms(1) i]
  let ?cs = "contained w inside pan"
  have out: "calls = front_headers rd r @ ?cs" "\<not> panicked"
    and p': "p' = kept_books p (books_of (Routes (Wi_api w)) r (id_of rd r) ?cs) p1"
    using c assms(2) by simp_all
  have "disciplined calls \<Longrightarrow> sr_status (status_of ?cs) = sent_status calls"
    unfolding out(1) disciplined_front sent_front by (rule status_disciplined)
  then show ?thesis
    using out(2) mux_pattern_in [of "Routes (Wi_api w)" "In_Method r" "In_Path r"]
    unfolding p' kept_books_def books_of_def by (auto simp: Let_def)
qed

section \<open>A small server\<close>

definition small_wiring :: "(exact_bucket, int) Wiring" where
  "small_wiring = \<lparr>Wi_api = small_handler, Wi_package = exact_package, Wi_policies = DefaultPolicies,
     Wi_SplitHostPort = (\<lambda>a. None), Wi_idempotencyTTL = Hour\<rparr>"

definition small_readings :: "time \<Rightarrow> Readings" where
  "small_readings now = \<lparr>Rd_text = ''r1'', Rd_auth = now, Rd_limit = now, Rd_idem = now, Rd_draws = small_draws now\<rparr>"

definition plain_request :: "string \<Rightarrow> string \<Rightarrow> HttpRequest" where
  "plain_request m path = \<lparr>In_Method = m, In_Path = path, In_Authorization = '''', In_RequestID = '''', In_IdempotencyKey = '''',
     In_RemoteAddr = ''10.0.0.1'', In_Body = ''''\<rparr>"

lemma plain_request_simps [simp]:
  "In_Method (plain_request m path) = m" "In_Path (plain_request m path) = path" "In_RemoteAddr (plain_request m path) = ''10.0.0.1''"
  by (simp_all add: plain_request_def)

definition small_process :: "exact_bucket Process" where
  "small_process = \<lparr>P_server = held_server, P_keys = [], P_limiter = NewRateLimiter 0, P_log = [], P_requests = [],
     P_failures = [], P_inFlight = 0\<rparr>"

definition panicking :: "exact_bucket http_handler" where
  "panicking r ctx p = (p, [], True)"

lemma leaves_books_panicking: "leaves_books panicking"
  by (simp add: leaves_books_def panicking_def)

lemma anonymous_inner:
  "inner_layers small_wiring (small_readings now) next (plain_request m path) ctx p =
     RateLimit (error_json small_handler) (H_Error small_handler) (\<lambda>a. None) exact_package DefaultPolicies now
       (Idempotency_layer (error_json small_handler) (H_Error small_handler) Hour now next) (plain_request m path) ctx p"
  by (simp add: inner_layers_def small_wiring_def small_readings_def Let_def Authenticate_layer_def Authenticate_def
      bearerToken_def plain_request_def)

lemma first_call_allowed:
  "Allow exact_package (forRequest DefaultPolicies path) key now (NewRateLimiter 0) = (l, ok, wait) \<Longrightarrow> ok"
  using Allow_answer [of exact_package "forRequest DefaultPolicies path" key now "NewRateLimiter 0"]
  by (simp add: forRequest_def DefaultPolicies_def AuthPolicy_def DefaultPolicy_def NewRateLimiter_def exact_package_def
      ask_bucket_def exact_credit_def split: if_splits)

lemma not_covered_plain: "\<not> covered (idem_request (plain_request m path) ctx)"
  by (simp add: covered_def idem_request_def plain_request_def)

lemma small_inner:
  "\<exists>l. inner_layers small_wiring (small_readings now) next (plain_request m path) ctx (counted small_process) =
     next (plain_request m path) ctx ((counted small_process)\<lparr>P_limiter := l\<rparr>)"
proof -
  obtain l ok wait where a: "Allow exact_package (forRequest DefaultPolicies path)
      (limitKey (\<lambda>a. None) (Ctx_User ctx) ''10.0.0.1'') now (NewRateLimiter 0) = (l, ok, wait)" by (metis prod_cases3)
  then have ok by (rule first_call_allowed)
  then have "inner_layers small_wiring (small_readings now) next (plain_request m path) ctx (counted small_process) =
     next (plain_request m path) ctx ((counted small_process)\<lparr>P_limiter := l\<rparr>)"
    using a not_covered_plain
    by (simp add: anonymous_inner RateLimit_def Idempotency_layer_def Let_def small_process_def counted_def)
  then show ?thesis by blast
qed

theorem every_request_is_accounted_witness:
  "P_inFlight (fst (Chain panicking (middleware small_wiring (small_readings 9)) (plain_request ''GET'' ''/health'') Background small_process)) = 0 \<and>
   length (P_log (fst (Chain panicking (middleware small_wiring (small_readings 9)) (plain_request ''GET'' ''/health'') Background small_process))) = 1"
  using every_request_is_accounted [OF leaves_books_panicking,
      of small_wiring "small_readings 9" "plain_request ''GET'' ''/health''" small_process]
  by (cases "Chain panicking (middleware small_wiring (small_readings 9)) (plain_request ''GET'' ''/health'') Background small_process")
    (auto simp: small_process_def)

section \<open>A panic\<close>

fun begun :: "answer_calls \<Rightarrow> bool" where
  "begun [] = False"
| "begun (SetHeader _ _ # cs) = begun cs"
| "begun (NoteFailure _ # cs) = begun cs"
| "begun (_ # cs) = True"

lemma sent_append: "begun cs \<Longrightarrow> sent_status (cs @ ds) = sent_status cs"
  "\<not> begun cs \<Longrightarrow> sent_status (cs @ ds) = sent_status ds"
  by (induction cs rule: begun.induct) auto

lemma sent_body_append: "sent_body (cs @ ds) = sent_body cs @ sent_body ds"
  by (induction cs rule: sent_body.induct) auto

lemma not_begun_body: "\<not> begun cs \<Longrightarrow> sent_body cs = ''''"
  by (induction cs rule: begun.induct) auto

lemma noted_append: "noted (cs @ ds) c = noted ds (noted cs c)"
  by (induction cs c rule: noted.induct) auto



text \<open>A panic leaves its idempotency key in progress. Until the key expires every retry is answered with a conflict and
  nothing runs, though the first attempt is over: the key is neither completed nor given up.\<close>

theorem panicked_key_stays_in_progress:
  assumes "covered (idem_request r ctx)" and "free_key now (request_key (idem_request r ctx)) (P_keys p)"
    and "next r ctx (p\<lparr>P_keys := fst (Idempotency_Claim (claim_record ttl now (idem_request r ctx)) (P_keys p))\<rparr>) = (p1, written, True)"
    and "P_keys p1 = fst (Idempotency_Claim (claim_record ttl now (idem_request r ctx)) (P_keys p))"
    and "now' < now + ttl"
  shows "Idempotency_layer Encode Error ttl now next r ctx p = (p1, written, True) \<and>
    Idempotency_layer Encode Error ttl now' next' r ctx p1 =
      (p1, writeAPIError Encode Error (Handler errIdempotencyInProgress), False)"
proof -
  let ?q = "idem_request r ctx"
  note first = claim_granted [OF assms(2), of ttl]
  have "map_of (P_keys p1) (request_key ?q) = Some (claim_record ttl now ?q)" using assms(4) first by simp
  moreover have "now' < I_ExpiresAt (claim_record ttl now ?q)" using assms(5) by (simp add: claim_record_def time_Add_def)
  ultimately have second: "Idempotency_Claim (claim_record ttl now' ?q) (P_keys p1) = (P_keys p1, claim_record ttl now ?q, False)"
    by (rule claim_refused)
  have "Fingerprint (claim_record ttl now ?q) = request_fingerprint ?q" "\<not> IsCompleted (claim_record ttl now ?q)"
    by (simp_all add: claim_record_def IsCompleted_def)
  then show ?thesis using assms(1,3) first second by (simp add: Idempotency_layer_def Let_def replay_def)
qed

definition keyed_request :: "string \<Rightarrow> string \<Rightarrow> HttpRequest" where
  "keyed_request m path = (plain_request m path)\<lparr>In_IdempotencyKey := ''k1''\<rparr>"

theorem panicked_key_stays_in_progress_witness:
  "\<exists>p1. Idempotency_layer (\<lambda>c m. c) (\<lambda>e. '''') Hour 9 panicking (keyed_request ''POST'' ''/x'')
      (Background\<lparr>Ctx_User := ''u1''\<rparr>) small_process = (p1, [], True) \<and>
    sent_status (fst (snd (Idempotency_layer (\<lambda>c m. c) (\<lambda>e. '''') Hour 10 (mux_serve small_handler (small_draws 10))
      (keyed_request ''POST'' ''/x'') (Background\<lparr>Ctx_User := ''u1''\<rparr>) p1))) = 409"
proof -
  let ?r = "keyed_request ''POST'' ''/x''" and ?ctx = "Background\<lparr>Ctx_User := ''u1''\<rparr>"
  have c: "covered (idem_request ?r ?ctx)"
    by (simp add: covered_def idem_request_def keyed_request_def plain_request_def isRepeatable_def)
  have f: "free_key 9 (request_key (idem_request ?r ?ctx)) (P_keys small_process)" by (simp add: free_key_def small_process_def)
  have "fst (statusForError (Handler errIdempotencyInProgress)) = 409" by (simp add: statusForError_def errorMapping_def)
  moreover have "sent_status (writeAPIError E e err) = fst (statusForError err)" for E e err
    by (simp add: writeAPIError_def case_prod_unfold Let_def)
  ultimately show ?thesis
    using panicked_key_stays_in_progress [OF c f, of panicking Hour _ "[]" 10 "\<lambda>c m. c" "\<lambda>e. ''''" "mux_serve small_handler (small_draws 10)"]
    by (simp add: panicking_def)
qed

section \<open>What every answer carries\<close>

text \<open>The value of a header when the answer begins.\<close>

fun sent_header :: "string \<Rightarrow> answer_calls \<Rightarrow> string option \<Rightarrow> string option" where
  "sent_header n [] v = v"
| "sent_header n (SetHeader k x # cs) v = sent_header n cs (if k = n then Some x else v)"
| "sent_header n (NoteFailure _ # cs) v = sent_header n cs v"
| "sent_header n (_ # cs) v = v"

definition sets :: "string \<Rightarrow> answer_calls \<Rightarrow> bool" where
  "sets name cs \<longleftrightarrow> (\<exists>v. SetHeader name v \<in> set cs)"

lemma sets_simps [simp]:
  "\<not> sets n []" "sets n (SetHeader k x # cs) \<longleftrightarrow> k = n \<or> sets n cs" "sets n (WriteHeader s # cs) = sets n cs"
  "sets n (Write b # cs) = sets n cs" "sets n (NoteFailure c # cs) = sets n cs" "sets n (cs @ ds) \<longleftrightarrow> sets n cs \<or> sets n ds"
  by (auto simp: sets_def)

lemma sent_header_kept: "\<not> sets n cs \<Longrightarrow> sent_header n cs v = v"
  by (induction n cs v rule: sent_header.induct) auto

text \<open>The headers a route may set, apart from the documentation page's own policy.\<close>

definition content_headers :: "string set" where
  "content_headers = {''Content-Type'', ''Location'', ''Cache-Control'', ''Idempotent-Replay'', ''Retry-After''}"

text \<open>What is served from outside the handlers leaves the header alone.\<close>

definition pages_leave :: "string \<Rightarrow> Handler \<Rightarrow> bool" where
  "pages_leave n h \<longleftrightarrow> (\<forall>r. \<not> sets n (H_unmatched h r)) \<and> (\<forall>web u. H_web h = Some web \<longrightarrow> \<not> sets n (web u)) \<and>
     (\<forall>page. H_metrics h = Some page \<longrightarrow> \<not> sets n page) \<and> (\<forall>e u. \<not> sets n (H_stream h e u))"

lemma writers_leave:
  assumes "n \<notin> content_headers"
  shows "\<not> sets n (writeJSON h status body)" "\<not> sets n (writeAPIError E e err)" "\<not> sets n (writeError h err)"
  using assms by (auto simp: content_headers_def writeJSON_def writeError_def writeAPIError_def case_prod_unfold Let_def)

lemma web_route: "(pm, pat, R_web web) \<in> set (Routes h) \<Longrightarrow> H_web h = Some web"
  by (auto simp: Routes_def split: option.splits if_splits)

lemma metrics_route: "(pm, pat, R_metrics page) \<in> set (Routes h) \<Longrightarrow> H_metrics h = Some page"
  by (auto simp: Routes_def split: option.splits if_splits)

lemma admin_leaves:
  assumes "n \<notin> content_headers" "requireAdmin h next d r s = (s', cs)" "next d r s = (s', cs) \<Longrightarrow> \<not> sets n cs"
  shows "\<not> sets n cs"
  using assms writers_leave [OF assms(1)] by (auto simp: requireAdmin_def split: sum.splits if_splits)

lemma run_route_leaves:
  assumes "n \<notin> content_headers" "pages_leave n h" "(pm, pat, route) \<in> set (Routes h)" "n = ''Content-Security-Policy'' \<Longrightarrow> route \<noteq> R_docs"
    and run: "run_route h route d r s = (s', cs)"
  shows "\<not> sets n cs"
proof -
  note leave = writers_leave [OF assms(1)]
  have n: "n \<noteq> ''Content-Type''" "n \<noteq> ''Location''" "n \<noteq> ''Cache-Control''" using assms(1) by (auto simp: content_headers_def)
  show ?thesis
  proof (cases route)
    case (R_web web)
    then show ?thesis using web_route assms(2,3) run by (auto simp: pages_leave_def)
  next
    case (R_metrics page)
    then show ?thesis using metrics_route assms(2,3) run by (auto simp: pages_leave_def)
  next
    case R_stream
    then show ?thesis using assms(2) run by (auto simp: pages_leave_def)
  next
    case R_docs
    then show ?thesis using assms(4) n run by (auto simp: docs_def Let_def)
  qed (use n leave run in \<open>auto simp: handler_defs elim!: admin_leaves [OF assms(1)] split: sum.splits prod.splits option.splits if_splits\<close>)
qed

lemma mux_serve_leaves:
  assumes "n \<notin> content_headers" "pages_leave n h"
    and "\<And>vs. n = ''Content-Security-Policy'' \<Longrightarrow> mux_Handler (Routes h) (In_Method r) (In_Path r) \<noteq> Some (R_docs, vs)"
    and "mux_serve h d r ctx p = (p', cs, pan)"
  shows "\<not> sets n cs"
proof -
  obtain s' where serve: "ServeHTTP h d (Ctx_Claims ctx) (In_Body r) (idem_request r ctx) (P_server p) = (s', cs)"
    using assms(4) by (auto simp: mux_serve_def Let_def split: prod.splits)
  show ?thesis
  proof (cases "mux_Handler (Routes h) (In_Method r) (In_Path r)")
    case None
    then show ?thesis using serve assms(2) by (auto simp: ServeHTTP_def idem_request_def pages_leave_def)
  next
    case (Some found)
    obtain route vs where f: "found = (route, vs)" by force
    obtain pm pat where "(pm, pat, route) \<in> set (Routes h)" using mux_in Some f by blast
    moreover have "n = ''Content-Security-Policy'' \<Longrightarrow> route \<noteq> R_docs" using assms(3) Some f by blast
    ultimately show ?thesis
      using run_route_leaves [OF assms(1,2)] serve Some f by (simp add: ServeHTTP_def idem_request_def)
  qed
qed

lemma inner_layers_leave:
  assumes "n \<notin> content_headers" "\<And>ctx p p' cs pan. next r ctx p = (p', cs, pan) \<Longrightarrow> \<not> sets n cs"
    and "inner_layers w rd next r ctx p = (p', cs, pan)"
  shows "\<not> sets n cs"
proof -
  note leave = writers_leave [OF assms(1)]
  have n: "n \<noteq> ''Content-Type''" "n \<noteq> ''Idempotent-Replay''" "n \<noteq> ''Retry-After''"
    using assms(1) by (auto simp: content_headers_def)
  have replayed: "\<not> sets n (replay E e x fp)" for E e x fp using leave n by (auto simp: replay_def)
  have idem: "\<not> sets n cs" if "Idempotency_layer E e ttl now next r ctx p = (p', cs, pan)" for E e ttl now ctx p p' cs pan
    using that assms(2) replayed by (auto simp: Idempotency_layer_def Let_def split: prod.splits if_splits)
  have limit: "\<not> sets n cs" if "RateLimit E e sp pkg ps now1 (Idempotency_layer E e ttl now next) r ctx p = (p', cs, pan)"
    for E e sp ps ttl now now1 ctx p p' cs pan and pkg :: "('a, 'b) rate_package"
    using that idem leave n by (auto simp: RateLimit_def too_many_def Let_def split: prod.splits if_splits)
  show ?thesis using assms(3) limit leave
    by (auto simp: inner_layers_def Let_def Authenticate_layer_def split: sum.splits option.splits)
qed

lemma sent_header_append: "\<not> sets n ds \<Longrightarrow> sent_header n (cs @ ds) v = sent_header n cs v"
proof (induction n cs v rule: sent_header.induct)
  case (1 n v)
  then show ?case by (simp add: sent_header_kept)
qed auto



section \<open>Requests are steps of the services\<close>

lemma inner_server:
  assumes "inner_layers w rd (mux_serve h d) r ctx p = (p', cs, pan)"
  shows "P_server p' = P_server p \<or> (\<exists>claims body q cs'. ServeHTTP h d claims body q (P_server p) = (P_server p', cs'))"
proof -
  have mux: "\<exists>cs'. ServeHTTP h d (Ctx_Claims ctx) (In_Body r) (idem_request r ctx) (P_server p) = (P_server p', cs')"
    if "mux_serve h d r ctx p = (p', cs, pan)" for ctx cs pan and p p' :: "'a Process"
    using that by (auto simp: mux_serve_def Let_def split: prod.splits)
  have idem: "P_server p' = P_server p \<or> (\<exists>claims body q cs'. ServeHTTP h d claims body q (P_server p) = (P_server p', cs'))"
    if "Idempotency_layer E e ttl now (mux_serve h d) r ctx p = (p', cs, pan)" for E e ttl now ctx cs pan and p p' :: "'a Process"
    using that by (auto simp: Idempotency_layer_def Let_def split: prod.splits if_splits dest!: mux) 
  have limit: "P_server p' = P_server p \<or> (\<exists>claims body q cs'. ServeHTTP h d claims body q (P_server p) = (P_server p', cs'))"
    if "RateLimit E e sp pkg ps now1 (Idempotency_layer E e ttl now (mux_serve h d)) r ctx p = (p', cs, pan)"
    for E e sp ps ttl now now1 ctx cs pan and p p' :: "'a Process" and pkg :: "('a, 'b) rate_package"
    using that by (auto simp: RateLimit_def Let_def split: prod.splits if_splits dest!: idem)
  show ?thesis using assms limit
    by (auto simp: inner_layers_def Let_def Authenticate_layer_def split: sum.splits option.splits)
qed

abbreviation world_of :: "'l Process \<Rightarrow> World" where
  "world_of p \<equiv> S_world (P_server p)"

lemma root_server:
  assumes "root w rd r p = (p', cs, pan)"
  obtains (same) "P_server p' = P_server p"
  | (served) claims body q cs' where "ServeHTTP (Wi_api w) (Rd_draws rd) claims body q (P_server p) = (P_server p', cs')"
proof -
  obtain p1 inside pan1 where i: "inner_layers w rd (mux_serve (Wi_api w) (Rd_draws rd)) r (entered rd r) (counted p) = (p1, inside, pan1)"
    by (metis prod_cases3)
  have "P_server p' = P_server p1" using whole_chain [OF leaves_books_mux i] assms by (auto simp: root_def kept_books_def)
  moreover have "P_server (counted p) = P_server p" by (simp add: counted_def)
  ultimately show ?thesis using inner_server [OF i] that by metis
qed

lemma root_step:
  assumes "root w rd r p = (p', cs, pan)" "fresh_draws (Rd_draws rd) (world_of p)"
  shows "world_of p' = world_of p \<or>
    service_step (H_service (Wi_api w)) (the (H_inventory (Wi_api w))) (H_url_Parse (Wi_api w)) (world_of p) (world_of p')"
proof (rule root_server [OF assms(1)])
  fix claims body q cs' assume "ServeHTTP (Wi_api w) (Rd_draws rd) claims body q (P_server p) = (P_server p', cs')"
  then show ?thesis using ServeHTTP_step assms(2) by blast
qed simp

text \<open>The process: requests in any order, one after another, with the sweepers, the handoff and the workers of the
  services in between, and the limiter's eviction.\<close>

inductive site_step :: "('l, 'r) Wiring \<Rightarrow> 'l Process \<Rightarrow> 'l Process \<Rightarrow> bool" for w where
  site_request: "fresh_draws (Rd_draws rd) (world_of p) \<Longrightarrow> site_step w p (fst (root w rd r p))"
| site_background: "service_step (H_service (Wi_api w)) (the (H_inventory (Wi_api w))) (H_url_Parse (Wi_api w)) (world_of p) world \<Longrightarrow>
    site_step w p (p\<lparr>P_server := (P_server p)\<lparr>S_world := world\<rparr>\<rparr>)"
| site_sweep_tokens: "site_step w p (p\<lparr>P_server := with_accounts (fst (TokenSweeper_Sweep now (accounts_of (P_server p)))) (P_server p)\<rparr>)"
| site_sweep_links: "site_step w p (p\<lparr>P_server := with_accounts (fst (SweepVerifications now (accounts_of (P_server p)))) (P_server p)\<rparr>)"
| site_evict: "site_step w p (p\<lparr>P_limiter := fst (Cleanup now (P_limiter p))\<rparr>)"

abbreviation site_steps :: "('l, 'r) Wiring \<Rightarrow> 'l Process \<Rightarrow> 'l Process \<Rightarrow> bool" where
  "site_steps w \<equiv> (site_step w)\<^sup>*\<^sup>*"

lemma sweeps_keep_users:
  "A_users (fst (TokenSweeper_Sweep now a)) = A_users a" "A_users (fst (SweepVerifications now a)) = A_users a"
  by (auto simp: TokenSweeper_Sweep_def SweepRevocations_def SweepVerifications_def Let_def case_prod_unfold split: option.split)

lemma site_step_services:
  "site_step w p p' \<Longrightarrow> service_steps (H_service (Wi_api w)) (the (H_inventory (Wi_api w))) (H_url_Parse (Wi_api w)) (world_of p) (world_of p')"
proof (induction rule: site_step.induct)
  case (site_request rd p r)
  obtain p' cs pan where r: "root w rd r p = (p', cs, pan)" by (metis prod_cases3)
  then show ?case using root_step [OF r] site_request by auto
qed (auto simp: sweeps_keep_users with_accounts_world)

lemma site_steps_services:
  "site_steps w p p' \<Longrightarrow> service_steps (H_service (Wi_api w)) (the (H_inventory (Wi_api w))) (H_url_Parse (Wi_api w)) (world_of p) (world_of p')"
  by (induction rule: rtranclp_induct) (auto intro: rtranclp_trans dest: site_step_services)

text \<open>C1. Whatever requests arrive, in whatever order, through whatever of the middleware, with the workers at work in
  between, a seat that was sold stays sold under the same ticket to the same account, and where buying is for confirmed
  addresses its owner's address is confirmed.\<close>

theorem requests_sell_once:
  assumes "service_inv (world_of p0)" and "site_steps w p0 p1" and "site_steps w p1 p2"
    and "ledger (W_seats (world_of p1)) k = Some (Sold u c)"
  shows "service_inv (world_of p2) \<and> ledger (W_seats (world_of p2)) k = Some (Sold u c) \<and>
    (Gate (H_service (Wi_api w)) = VerifiedOnly \<longrightarrow> owners_verified (world_of p0) \<longrightarrow>
      verified_account (W_users (world_of p2)) u)"
  by (rule sales_are_final [OF assms(1) site_steps_services [OF assms(2)] site_steps_services [OF assms(3)] assms(4)])

definition strict_wiring :: "(exact_bucket, int) Wiring" where
  "strict_wiring = small_wiring\<lparr>Wi_api := small_handler\<lparr>H_service := strict_cfg\<rparr>\<rparr>"

definition buying_process :: "exact_bucket Process" where
  "buying_process = small_process\<lparr>P_server := held_server\<lparr>S_world := buying_world\<rparr>\<rparr>"

theorem requests_sell_once_witness:
  "verified_account (W_users (world_of (fst (root strict_wiring (small_readings 500) (plain_request ''GET'' ''/health'')
     (buying_process\<lparr>P_server := (P_server buying_process)\<lparr>S_world :=
        fst (ConfirmReservation strict_cfg 399 400 ''ABCDEFGHJ'' ''h1'' ''alice'' buying_world)\<rparr>\<rparr>))))) ''alice''"
proof -
  let ?w1 = "fst (ConfirmReservation strict_cfg 399 400 ''ABCDEFGHJ'' ''h1'' ''alice'' buying_world)"
  let ?p1 = "buying_process\<lparr>P_server := (P_server buying_process)\<lparr>S_world := ?w1\<rparr>\<rparr>"
  have cfg: "H_service (Wi_api strict_wiring) = strict_cfg" "H_inventory (Wi_api strict_wiring) = Some full_cfg"
    "H_url_Parse (Wi_api strict_wiring) = (\<lambda>_. None)"
    by (simp_all add: strict_wiring_def small_wiring_def small_handler_def)
  have p0: "world_of buying_process = buying_world" by (simp add: buying_process_def)
  have "service_step strict_cfg full_cfg (\<lambda>_. None) (world_of buying_process) ?w1" unfolding p0 by (rule does_confirm)
  then have s1: "site_step strict_wiring buying_process ?p1" by (intro site_background) (simp add: cfg)
  have "hold_is_new (W_seats ?w1) ''ABCDEFGHJ'' \<and> user_id_new (W_users ?w1) ''ABCDEFGHJ''"
    by (auto simp: ConfirmReservation_def UpdateSeatByHoldID_def buying_world_def strict_cfg_def held_world_def store_A1_def small
      Let_def GetUserByID_def alice_account_def NewUser_def EmailVerified_def announceSeatChange_def hold_is_new_def user_id_new_def)
  then have "fresh_draws (Rd_draws (small_readings 500)) (world_of ?p1)"
    by (simp add: fresh_draws_def small_readings_def small_draws_def slash_free_def go_time)
  then have s2: "site_step strict_wiring ?p1 (fst (root strict_wiring (small_readings 500) (plain_request ''GET'' ''/health'') ?p1))"
    by (rule site_request)
  have t1: "site_steps strict_wiring buying_process ?p1" by (rule r_into_rtranclp) (rule s1)
  have t2: "site_steps strict_wiring ?p1 (fst (root strict_wiring (small_readings 500) (plain_request ''GET'' ''/health'') ?p1))"
    by (rule r_into_rtranclp) (rule s2)
  have "owners_verified buying_world"
    by (simp add: owners_verified_def ledger_def buying_world_def held_world_def store_A1_def sample_seats split: if_splits)
  moreover have "Gate strict_cfg = VerifiedOnly" by (simp add: strict_cfg_def)
  ultimately show ?thesis
    using requests_sell_once [of buying_process strict_wiring, OF _ t1 t2] buying_world_inv buying_world_sale
    unfolding p0 cfg by simp
qed

section \<open>Turned away, admitted, retried\<close>

definition with_claims :: "Claims option \<Rightarrow> Context \<Rightarrow> Context" where
  "with_claims who ctx = (case who of None \<Rightarrow> ctx
     | Some claims \<Rightarrow> ctx\<lparr>Ctx_User := Claims_UserID claims, Ctx_Claims := Some claims\<rparr>)"

definition asked :: "('l, 'r) Wiring \<Rightarrow> Readings \<Rightarrow> HttpRequest \<Rightarrow> 'l Process \<Rightarrow> Claims option \<Rightarrow> 'l RateLimiter \<times> bool \<times> duration" where
  "asked w rd r p who = Allow (Wi_package w) (forRequest (Wi_policies w) (In_Path r))
     (limitKey (Wi_SplitHostPort w) (case who of None \<Rightarrow> '''' | Some claims \<Rightarrow> Claims_UserID claims) (In_RemoteAddr r))
     (Rd_limit rd) (P_limiter p)"

definition believed :: "('l, 'r) Wiring \<Rightarrow> Readings \<Rightarrow> HttpRequest \<Rightarrow> 'l Process \<Rightarrow> Claims option \<Rightarrow> bool" where
  "believed w rd r p who \<longleftrightarrow>
     Authenticate (H_sign (Wi_api w)) (Rd_auth rd) (In_Authorization r) (accounts_of (P_server p)) = Inr who"

lemma inner_asked:
  assumes "believed w rd r p who" "asked w rd r p who = (l, allowed, wait)"
  shows "inner_layers w rd next r (entered rd r) (counted p) =
    (if allowed then Idempotency_layer (error_json (Wi_api w)) (H_Error (Wi_api w)) (Wi_idempotencyTTL w) (Rd_idem rd) next r
        (with_claims who (entered rd r)) ((counted p)\<lparr>P_limiter := l\<rparr>)
     else ((counted p)\<lparr>P_limiter := l\<rparr>, too_many (error_json (Wi_api w)) (H_Error (Wi_api w)) wait, False))"
  using assms
  by (cases who) (simp_all add: believed_def asked_def inner_layers_def Let_def Authenticate_layer_def RateLimit_def
      counted_def entered_def Background_def with_claims_def)

text \<open>C33. A caller who asks too often is told how long to wait, and that wait is right to the second: the answer is 429, the
  header names the fewest whole seconds, at least one, that cover the wait of the bucket, and neither the state of the
  services nor the remembered requests have changed.\<close>

theorem limited_caller_is_told_to_wait:
  assumes "believed w rd r p who" and "asked w rd r p who = (l, False, wait)" and "root w rd r p = (p', calls, panicked)"
  shows "P_server p' = P_server p \<and> P_keys p' = P_keys p \<and> P_limiter p' = l \<and> sent_status calls = 429 \<and>
    (\<exists>n. sent_header ''Retry-After'' calls None = Some (Itoa n) \<and> 1 \<le> n \<and> wait \<le> n * Second \<and>
      (n = 1 \<or> (n - 1) * Second < wait))"
proof -
  let ?t = "too_many (error_json (Wi_api w)) (H_Error (Wi_api w)) wait"
  have "inner_layers w rd (mux_serve (Wi_api w) (Rd_draws rd)) r (entered rd r) (counted p) =
      ((counted p)\<lparr>P_limiter := l\<rparr>, ?t, False)"
    using inner_asked [OF assms(1,2)] by simp
  note c = whole_chain [OF leaves_books_mux this]
  have calls: "calls = front_headers rd r @ ?t" and p': "P_server p' = P_server p" "P_keys p' = P_keys p" "P_limiter p' = l"
    using c assms(3) by (auto simp: root_def contained_def kept_books_def counted_def)
  have "sent_status ?t = 429"
    by (simp add: too_many_def writeAPIError_def statusForError_def errorMapping_def case_prod_unfold Let_def)
  then have "sent_status calls = 429" unfolding calls sent_front .
  moreover have "sent_header ''Retry-After'' calls None = Some (Itoa (retry_seconds wait))"
    unfolding calls by (simp add: security_headers_def too_many_def writeAPIError_def case_prod_unfold Let_def)
  ultimately show ?thesis using p' retry_seconds_bounds [of wait] by blast
qed

text \<open>The state in which a caller has just used the whole of an allowance of one.\<close>

definition tight_wiring :: "(exact_bucket, int) Wiring" where
  "tight_wiring = small_wiring\<lparr>Wi_policies := \<lparr>Policies_Auth = AuthPolicy\<lparr>Burst := 1\<rparr>, Policies_Default = DefaultPolicy\<rparr>\<rparr>"

definition spent_process :: "exact_bucket Process" where
  "spent_process = small_process\<lparr>P_limiter := fst (Allow exact_package (AuthPolicy\<lparr>Burst := 1\<rparr>) ''ip:10.0.0.1'' 9 (NewRateLimiter 0))\<rparr>"

theorem limited_caller_is_told_to_wait_witness:
  "sent_status (fst (snd (root tight_wiring (small_readings 10) (plain_request ''POST'' ''/auth/login'') spent_process))) = 429 \<and>
   P_server (fst (root tight_wiring (small_readings 10) (plain_request ''POST'' ''/auth/login'') spent_process)) = held_server"
proof -
  let ?r = "plain_request ''POST'' ''/auth/login''"
  have b: "believed tight_wiring (small_readings 10) ?r spent_process None"
    by (simp add: believed_def Authenticate_def bearerToken_def plain_request_def)
  have "\<not> fst (snd (asked tight_wiring (small_readings 10) ?r spent_process None))"
    by (simp add: asked_def Allow_answer Allow_visitors tight_wiring_def small_wiring_def small_readings_def spent_process_def
        forRequest_def limitKey_def clientIP_def exact_package_def ask_bucket_def exact_credit_def NewRateLimiter_def AuthPolicy_def)
  then obtain l wait where a: "asked tight_wiring (small_readings 10) ?r spent_process None = (l, False, wait)"
    by (metis (full_types) prod.collapse)
  obtain p' calls pan where root: "root tight_wiring (small_readings 10) ?r spent_process = (p', calls, pan)" by (metis prod_cases3)
  have "P_server spent_process = held_server" by (simp add: spent_process_def small_process_def)
  then show ?thesis using limited_caller_is_told_to_wait [OF b a root] unfolding root fst_conv snd_conv by simp
qed

lemma admitted_first:
  assumes "believed w rd r p who" "asked w rd r p who = (l, True, wait)"
    and "covered (idem_request r (with_claims who (entered rd r)))"
    and "free_key (Rd_idem rd) (request_key (idem_request r (with_claims who (entered rd r)))) (P_keys p)"
    and "ServeHTTP (Wi_api w) (Rd_draws rd) who (In_Body r) (idem_request r (with_claims who (entered rd r))) (P_server p) = (server, inside)"
  shows "inner_layers w rd (mux_serve (Wi_api w) (Rd_draws rd)) r (entered rd r) (counted p) =
    ((counted p)\<lparr>P_limiter := l, P_server := server, P_keys := finish (Req_User (idem_request r (with_claims who (entered rd r)))) (In_IdempotencyKey r)
        (recorded_answer inside) (AList.update (request_key (idem_request r (with_claims who (entered rd r))))
          (claim_record (Wi_idempotencyTTL w) (Rd_idem rd) (idem_request r (with_claims who (entered rd r)))) (P_keys p))\<rparr>, inside, False)"
proof -
  let ?q = "idem_request r (with_claims who (entered rd r))"
  have claims: "Ctx_Claims (with_claims who (entered rd r)) = who"
    by (cases who) (simp_all add: with_claims_def entered_def Background_def)
  have key: "Req_Key ?q = In_IdempotencyKey r" by (simp add: idem_request_def)
  note g = claim_granted [OF assms(4), of "Wi_idempotencyTTL w"]
  show ?thesis
    unfolding inner_asked [OF assms(1,2)] if_True Idempotency_layer_def Let_def
    using assms(3) g assms(5) by (simp add: counted_def mux_serve_def claims key)
qed

text \<open>C4. A retry through the whole server. A caller who repeats a request under the same key, once the first was answered
  with less than 500 and before the key expires, gets the status and the body of the first answer, and the services are left
  as they were, whatever has happened in between to anything but the record of that key.\<close>

theorem retry_through_the_server:
  assumes "believed w rd r p who" and "asked w rd r p who = (l, True, wait)"
    and "covered (idem_request r (with_claims who (entered rd r)))"
    and "free_key (Rd_idem rd) (request_key (idem_request r (with_claims who (entered rd r)))) (P_keys p)"
    and "ServeHTTP (Wi_api w) (Rd_draws rd) who (In_Body r) (idem_request r (with_claims who (entered rd r))) (P_server p) = (server, inside)"
    and "disciplined inside" and "sent_status inside < 500"
    and "root w rd r p = (p1, calls, panicked)"
    and "believed w rd2 r q who" and "asked w rd2 r q who = (l2, True, wait2)"
    and "map_of (P_keys q) (request_key (idem_request r (with_claims who (entered rd r)))) =
      map_of (P_keys p1) (request_key (idem_request r (with_claims who (entered rd r))))"
    and "Rd_idem rd2 < Rd_idem rd + Wi_idempotencyTTL w"
    and "root w rd2 r q = (q1, calls2, panicked2)"
  shows "P_server p1 = server \<and> sent calls = sent inside \<and> sent calls2 = sent calls \<and> P_server q1 = P_server q \<and> P_keys q1 = P_keys q"
proof -
  let ?q = "idem_request r (with_claims who (entered rd r))" and ?ttl = "Wi_idempotencyTTL w"
  let ?x = "(claim_record ?ttl (Rd_idem rd) ?q)\<lparr>I_State := IdempotencyCompleted, StatusCode := sent_status inside, I_Response := sent_body inside\<rparr>"
  note first = whole_chain [OF leaves_books_mux admitted_first [OF assms(1-5)]]
  have same: "idem_request r (with_claims who (entered rd2 r)) = ?q"
    by (cases who) (simp_all add: idem_request_def with_claims_def entered_def Background_def)
  have key: "In_IdempotencyKey r = Req_Key ?q" by (simp add: idem_request_def)
  have calls: "calls = front_headers rd r @ inside" "P_server p1 = server"
    and keys: "P_keys p1 = finish (Req_User ?q) (Req_Key ?q) (recorded_answer inside)
        (AList.update (request_key ?q) (claim_record ?ttl (Rd_idem rd) ?q) (P_keys p))"
    using first assms(8) by (auto simp: root_def contained_def kept_books_def key)
  have "map_of (P_keys q) (request_key ?q) = Some ?x"
    using assms(7,11) by (simp add: keys map_of_finish update_conv' recorder_exact [OF assms(6)])
  moreover have live: "Rd_idem rd2 < I_ExpiresAt ?x" using assms(12) by (simp add: claim_record_def time_Add_def)
  ultimately have second: "Idempotency_Claim (claim_record ?ttl (Rd_idem rd2) ?q) (P_keys q) = (P_keys q, ?x, False)"
    by (rule claim_refused)
  have x: "Fingerprint ?x = request_fingerprint ?q" "IsCompleted ?x" by (simp_all add: claim_record_def IsCompleted_def)
  let ?again = "[SetHeader ''Content-Type'' ''application/json'', SetHeader ''Idempotent-Replay'' ''true'',
      WriteHeader (sent_status inside), Write (sent_body inside)]"
  have "inner_layers w rd2 (mux_serve (Wi_api w) (Rd_draws rd2)) r (entered rd2 r) (counted q) =
      ((counted q)\<lparr>P_limiter := l2\<rparr>, ?again, False)"
    unfolding inner_asked [OF assms(9,10)] if_True Idempotency_layer_def Let_def same
    using assms(3) second x by (simp add: counted_def replay_def)
  note again = whole_chain [OF leaves_books_mux this]
  have "calls2 = front_headers rd2 r @ ?again" "P_server q1 = P_server q" "P_keys q1 = P_keys q"
    using again assms(13) by (auto simp: root_def contained_def kept_books_def counted_def)
  then show ?thesis using calls by (simp add: sent_def security_headers_def)
qed

text \<open>A stranger with a valid session tries, twice, to confirm somebody else's hold.\<close>

definition signed_wiring :: "(exact_bucket, int) Wiring" where
  "signed_wiring = small_wiring\<lparr>Wi_api := small_handler\<lparr>H_sign := (\<lambda>_. ''sig'')\<rparr>\<rparr>"

definition signed_request :: HttpRequest where
  "signed_request = (keyed_request ''POST'' ''/holds/h1/confirm'')\<lparr>In_Authorization := ''Bearer '' @ some_token\<rparr>"

definition some_claims :: Claims where
  "some_claims = \<lparr>Claims_UserID = ''u1'', Claims_TokenID = ''t1'', Claims_ExpiresAt = 10 * Second\<rparr>"

lemma signed_believed: "S_revoked (P_server p) = Some [] \<Longrightarrow> believed signed_wiring (small_readings (9 * Second)) signed_request p (Some some_claims)"
  unfolding believed_def Authenticate_def
  by (simp add: signed_request_def signed_wiring_def small_readings_def some_header [simplified] some_token_verified [simplified]
      IsTokenRevoked_def IsRevoked_def some_claims_def)

lemma signed_asked:
  assumes "P_limiter p = NewRateLimiter 0"
  obtains l wait where "asked signed_wiring (small_readings (9 * Second)) signed_request p (Some some_claims) = (l, True, wait)"
proof -
  obtain l ok wait where a: "asked signed_wiring (small_readings (9 * Second)) signed_request p (Some some_claims) = (l, ok, wait)"
    by (metis prod_cases3)
  then have "Allow exact_package (forRequest DefaultPolicies (In_Path signed_request))
      (limitKey (\<lambda>a. None) ''u1'' (In_RemoteAddr signed_request)) (9 * Second) (NewRateLimiter 0) = (l, ok, wait)"
    using assms by (simp add: asked_def signed_wiring_def small_wiring_def small_readings_def some_claims_def)
  then have ok by (rule first_call_allowed)
  with a that show ?thesis by simp
qed

lemma confirm_route:
  "mux_Handler (Routes (small_handler\<lparr>H_sign := sg\<rparr>)) ''POST'' ''/holds/h1/confirm'' = Some (R_confirmReservation, [(''holdID'', ''h1'')])"
proof -
  have "Routes (small_handler\<lparr>H_sign := sg\<rparr>) = Routes small_handler" by (simp add: Routes_def)
  then show ?thesis by (simp add: sample_requests)
qed

lemma strangers_confirm:
  "ServeHTTP (small_handler\<lparr>H_sign := sg\<rparr>) (small_draws now) who body
     \<lparr>Req_Method = ''POST'', Req_Path = ''/holds/h1/confirm'', Req_Key = ''k1'', Req_User = ''u1''\<rparr> held_server =
   (held_server, writeError (small_handler\<lparr>H_sign := sg\<rparr>) (Domain ErrNotHoldOwner))"
proof -
  have "ConfirmReservation small_cfg t1 t2 ''ABCDEFGHJ'' ''h1'' ''u1'' held_world = (held_world, Inl (Domain ErrNotHoldOwner))" for t1 t2
    by (simp add: ConfirmReservation_def small_cfg_def MayTakeSeat_def held_world_def store_A1_def UpdateSeatByHoldID_def seat_ops
        sample_seats)
  moreover have "H_service (small_handler\<lparr>H_sign := sg\<rparr>) = small_cfg" by (simp add: small_handler_def)
  ultimately show ?thesis
    by (simp add: ServeHTTP_def confirm_route confirmReservation_def userIDFrom_def PathValue_def held_server_def small_draws_def)
qed

theorem retry_through_the_server_witness:
  "\<exists>p1 calls calls2 q1. root signed_wiring (small_readings (9 * Second)) signed_request small_process = (p1, calls, False) \<and>
     root signed_wiring (small_readings (9 * Second)) signed_request (p1\<lparr>P_limiter := NewRateLimiter 0\<rparr>) = (q1, calls2, False) \<and>
     sent calls2 = sent calls \<and> sent_status calls = 403"
proof -
  let ?r = "signed_request" and ?rd = "small_readings (9 * Second)"
  let ?q = "idem_request ?r (with_claims (Some some_claims) (entered ?rd ?r))"
  have q: "?q = \<lparr>Req_Method = ''POST'', Req_Path = ''/holds/h1/confirm'', Req_Key = ''k1'', Req_User = ''u1''\<rparr>"
    by (simp add: idem_request_def with_claims_def some_claims_def signed_request_def keyed_request_def plain_request_def)
  have b: "believed signed_wiring ?rd ?r small_process (Some some_claims)"
    by (rule signed_believed) (simp add: small_process_def held_server_def)
  obtain l wait where a: "asked signed_wiring ?rd ?r small_process (Some some_claims) = (l, True, wait)"
    by (rule signed_asked [of small_process]) (simp add: small_process_def)
  have c: "covered ?q" unfolding q by (simp add: covered_def isRepeatable_def)
  have f: "free_key (Rd_idem ?rd) (request_key ?q) (P_keys small_process)" by (simp add: free_key_def small_process_def)
  obtain server inside where s: "ServeHTTP (Wi_api signed_wiring) (Rd_draws ?rd) (Some some_claims) (In_Body ?r) ?q (P_server small_process) = (server, inside)"
    by force
  have api: "Wi_api signed_wiring = small_handler\<lparr>H_sign := (\<lambda>_. ''sig'')\<rparr>" by (simp add: signed_wiring_def)
  have in403: "server = held_server \<and> inside = writeError (Wi_api signed_wiring) (Domain ErrNotHoldOwner)"
    using s strangers_confirm unfolding q api by (simp add: small_process_def small_readings_def)
  have st: "sent_status inside = 403" using in403 by (simp add: statusForError_def errorMapping_def)
  have d: "disciplined inside" using in403 writeAPIError_disciplined by (simp add: writeError_def)
  obtain p1 calls pan where r1: "root signed_wiring ?rd ?r small_process = (p1, calls, pan)" by (metis prod_cases3)
  let ?p2 = "p1\<lparr>P_limiter := NewRateLimiter 0\<rparr>"
  obtain q1 calls2 pan2 where r2: "root signed_wiring ?rd ?r ?p2 = (q1, calls2, pan2)" by (metis prod_cases3)
  have "P_server p1 = server"
    using whole_chain [OF leaves_books_mux admitted_first [OF b a c f s]] r1 by (auto simp: root_def kept_books_def)
  then have b2: "believed signed_wiring ?rd ?r ?p2 (Some some_claims)"
    using in403 by (intro signed_believed) (simp add: held_server_def)
  obtain l2 wait2 where a2: "asked signed_wiring ?rd ?r ?p2 (Some some_claims) = (l2, True, wait2)"
    by (rule signed_asked [of ?p2]) simp
  have "sent_status inside < 500" using st by simp
  note again = retry_through_the_server [OF b a c f s d this r1 b2 a2 _ _ r2]
  have "sent calls2 = sent calls \<and> sent calls = sent inside" using again
    by (simp add: signed_wiring_def small_wiring_def small_readings_def)
  moreover have "\<not> pan" "\<not> pan2"
    using r1 r2 unfolding root_def by (metis every_answer_no_panic leaves_books_mux)+
  ultimately show ?thesis using r1 r2 st by (auto simp: sent_def)
qed

end
