(* ===== verification/Seat_Table.thy ===== *)
theory Seat_Table
  imports Seat_Machine
begin

text \<open>
  The Postgres seat stores: \<open>internal/repository/postgres_seat_row.go\<close>, \<open>postgres_seat_repository.go\<close> and
  \<open>optimistic_seat_repository.go\<close>. The table \<open>seats\<close> is an association list from its primary key to
  its rows; each SQL statement of the sources is a function on it, with the constraints of
  \<open>migrations/00001_init.sql\<close>: a write that breaks one is rejected and changes nothing. A transaction that
  locks its row is one step. The database keeps instants to some precision: \<open>keep\<close> says what becomes of
  an instant that is written. A database that cannot be reached is not modelled.
\<close>

section \<open>Rows\<close>

record seatRow =
  row_event_id :: string
  row_id :: string
  row_label :: string
  row_number :: int
  row_status :: string
  row_hold_id :: "string option"
  row_held_by :: "string option"
  row_hold_created_at :: "time option"
  row_hold_expires_at :: "time option"
  row_reserved_by :: "string option"
  row_ticket_code :: "string option"
  row_version :: int

definition nullText :: "string \<Rightarrow> string option" where
  "nullText value = (if value = '''' then None else Some value)"

definition nullInstant :: "time \<Rightarrow> time option" where
  "nullInstant value = (if IsZero value then None else Some value)"

definition text_of :: "string option \<Rightarrow> string" where
  "text_of value = (case value of None \<Rightarrow> '''' | Some v \<Rightarrow> v)"

definition instant :: "time option \<Rightarrow> time" where
  "instant value = (case value of None \<Rightarrow> zero_time | Some v \<Rightarrow> v)"

definition toDomain :: "seatRow \<Rightarrow> Seat result" where
  "toDomain r =
     (case ParseSeatStatus (row_status r) of
        Inl err \<Rightarrow> Inl (Wrapf ''seat'' [err])
      | Inr status \<Rightarrow>
          Inr \<lparr>Seat_ID = row_id r, Seat_EventID = row_event_id r, Seat_Row = row_label r, Seat_Number = row_number r,
               Seat_Status = status, HoldID = text_of (row_hold_id r), HeldBy = text_of (row_held_by r),
               HoldCreatedAt = instant (row_hold_created_at r), HoldExpiresAt = instant (row_hold_expires_at r),
               ReservedBy = text_of (row_reserved_by r), TicketCode = text_of (row_ticket_code r)\<rparr>)"

section \<open>The statements\<close>

type_synonym SeatTable = "((string \<times> string) \<times> seatRow) list"

definition selectSeat :: "string \<Rightarrow> string \<Rightarrow> SeatTable \<Rightarrow> seatRow option" where
  "selectSeat eventID seatID t = map_of t (eventID, seatID)"

definition selectSeatByHold :: "string \<Rightarrow> SeatTable \<Rightarrow> seatRow option" where
  "selectSeatByHold holdID t = find (\<lambda>r. row_hold_id r = Some holdID) (map snd t)"

text \<open>The check constraints of the table, and its unique indexes, on hold ids and on ticket codes.\<close>

definition row_checks :: "seatRow \<Rightarrow> bool" where
  "row_checks r \<longleftrightarrow>
     row_status r \<in> {''available'', ''held'', ''reserved''} \<and>
     (if row_status r = ''held''
      then row_hold_id r \<noteq> None \<and> row_held_by r \<noteq> None \<and> row_hold_created_at r \<noteq> None \<and> row_hold_expires_at r \<noteq> None
      else row_hold_id r = None \<and> row_held_by r = None \<and> row_hold_created_at r = None \<and> row_hold_expires_at r = None) \<and>
     (row_status r = ''reserved'') = (row_reserved_by r \<noteq> None)"

definition index_accepts :: "(seatRow \<Rightarrow> string option) \<Rightarrow> (string \<times> string) \<Rightarrow> seatRow \<Rightarrow> SeatTable \<Rightarrow> bool" where
  "index_accepts column key r t \<longleftrightarrow> column r = None \<or> (\<forall>(k, q) \<in> set t. k \<noteq> key \<longrightarrow> column q \<noteq> column r)"

definition row_unique :: "(string \<times> string) \<Rightarrow> seatRow \<Rightarrow> SeatTable \<Rightarrow> bool" where
  "row_unique key r t \<longleftrightarrow> index_accepts row_hold_id key r t \<and> index_accepts row_ticket_code key r t"

text \<open>The columns that \<open>updateSeatSQL\<close> sets.\<close>

definition set_columns :: "(time \<Rightarrow> time) \<Rightarrow> Seat \<Rightarrow> seatRow \<Rightarrow> seatRow" where
  "set_columns keep seat r =
     r\<lparr>row_status := SeatStatus_String (Seat_Status seat), row_hold_id := nullText (HoldID seat),
       row_held_by := nullText (HeldBy seat), row_hold_created_at := map_option keep (nullInstant (HoldCreatedAt seat)),
       row_hold_expires_at := map_option keep (nullInstant (HoldExpiresAt seat)),
       row_reserved_by := nullText (ReservedBy seat), row_ticket_code := nullText (TicketCode seat),
       row_version := row_version r + 1\<rparr>"

text \<open>Writing a row: the new table and the number of rows it touched, or the violation.\<close>

definition write_row :: "(string \<times> string) \<Rightarrow> seatRow \<Rightarrow> SeatTable \<Rightarrow> (SeatTable \<times> int) result" where
  "write_row key r t =
     (if row_checks r \<and> row_unique key r t then Inr (AList.update key r t, 1)
      else Inl (Wrapf ''writing seat'' [Opaque ''constraint violation'']))"

definition writeSeat :: "(time \<Rightarrow> time) \<Rightarrow> Seat \<Rightarrow> SeatTable \<Rightarrow> (SeatTable \<times> int) result" where
  "writeSeat keep seat t =
     (case map_of t (Seat_EventID seat, Seat_ID seat) of
        None \<Rightarrow> Inr (t, 0)
      | Some r \<Rightarrow> write_row (Seat_EventID seat, Seat_ID seat) (set_columns keep seat r) t)"

definition updateSeatIfUnchanged :: "(time \<Rightarrow> time) \<Rightarrow> Seat \<Rightarrow> int \<Rightarrow> SeatTable \<Rightarrow> (SeatTable \<times> int) result" where
  "updateSeatIfUnchanged keep seat version t =
     (case map_of t (Seat_EventID seat, Seat_ID seat) of
        None \<Rightarrow> Inr (t, 0)
      | Some r \<Rightarrow>
          if row_version r \<noteq> version then Inr (t, 0)
          else write_row (Seat_EventID seat, Seat_ID seat) (set_columns keep seat r) t)"

section \<open>The store that locks rows\<close>

definition Postgres_GetSeat :: "string \<Rightarrow> string \<Rightarrow> SeatTable \<Rightarrow> Seat result" where
  "Postgres_GetSeat eventID seatID t =
     (case selectSeat eventID seatID t of
        None \<Rightarrow> Inl (Repository ErrSeatNotFound)
      | Some row \<Rightarrow> toDomain row)"

text \<open>An error rolls the transaction back.\<close>

definition applyMutation ::
  "(time \<Rightarrow> time) \<Rightarrow> seatRow \<Rightarrow> (Seat \<Rightarrow> Seat result) \<Rightarrow> SeatTable \<Rightarrow> SeatTable \<times> Seat result" where
  "applyMutation keep row mutate t =
     (case toDomain row of
        Inl err \<Rightarrow> (t, Inl err)
      | Inr seat \<Rightarrow>
          (case mutate seat of
             Inl err \<Rightarrow> (t, Inl err)
           | Inr seat' \<Rightarrow>
               (case writeSeat keep seat' t of
                  Inl err \<Rightarrow> (t, Inl err)
                | Inr (t', _) \<Rightarrow> (t', Inr seat'))))"

definition Postgres_UpdateSeat ::
  "(time \<Rightarrow> time) \<Rightarrow> string \<Rightarrow> string \<Rightarrow> (Seat \<Rightarrow> Seat result) \<Rightarrow> SeatTable \<Rightarrow> SeatTable \<times> Seat result" where
  "Postgres_UpdateSeat keep eventID seatID mutate t =
     (case selectSeat eventID seatID t of
        None \<Rightarrow> (t, Inl (Repository ErrSeatNotFound))
      | Some row \<Rightarrow> applyMutation keep row mutate t)"

definition Postgres_UpdateSeatByHoldID ::
  "(time \<Rightarrow> time) \<Rightarrow> string \<Rightarrow> (Seat \<Rightarrow> Seat result) \<Rightarrow> SeatTable \<Rightarrow> SeatTable \<times> Seat result" where
  "Postgres_UpdateSeatByHoldID keep holdID mutate t =
     (case selectSeatByHold holdID t of
        None \<Rightarrow> (t, Inl (Repository ErrHoldNotFound))
      | Some row \<Rightarrow> applyMutation keep row mutate t)"

text \<open>\<open>expireHoldsSQL\<close>: a comparison with a null is not true.\<close>

definition row_expired :: "time \<Rightarrow> seatRow \<Rightarrow> bool" where
  "row_expired now r \<longleftrightarrow> row_status r = ''held'' \<and>
     (case row_hold_expires_at r of None \<Rightarrow> False | Some at \<Rightarrow> at \<le> now)"

definition expire_row :: "seatRow \<Rightarrow> seatRow" where
  "expire_row r =
     r\<lparr>row_status := ''available'', row_hold_id := None, row_held_by := None, row_hold_created_at := None,
       row_hold_expires_at := None, row_version := row_version r + 1\<rparr>"

definition expireHolds :: "time \<Rightarrow> SeatTable \<Rightarrow> SeatTable \<times> SeatRef list" where
  "expireHolds now t =
     (map (\<lambda>(k, r). (k, if row_expired now r then expire_row r else r)) t,
      map (\<lambda>(k, r). \<lparr>Ref_EventID = row_event_id r, Ref_SeatID = row_id r\<rparr>) (filter (\<lambda>(k, r). row_expired now r) t))"

definition new_row :: "Seat \<Rightarrow> seatRow" where
  "new_row seat =
     \<lparr>row_event_id = Seat_EventID seat, row_id = Seat_ID seat, row_label = Seat_Row seat, row_number = Seat_Number seat,
      row_status = SeatStatus_String (Seat_Status seat), row_hold_id = None, row_held_by = None,
      row_hold_created_at = None, row_hold_expires_at = None, row_reserved_by = None, row_ticket_code = None,
      row_version = 1\<rparr>"

text \<open>A batch runs as one transaction: a row that breaks a constraint takes the whole batch back.\<close>

fun insert_loop :: "Seat list \<Rightarrow> int \<Rightarrow> SeatTable \<Rightarrow> (SeatTable \<times> int) result" where
  "insert_loop [] created t = Inr (t, created)"
| "insert_loop (seat # seats) created t =
     (if map_of t (Seat_EventID seat, Seat_ID seat) \<noteq> None then insert_loop seats created t
      else if \<not> row_checks (new_row seat) then Inl (Wrapf ''inserting seats'' [Opaque ''constraint violation''])
      else insert_loop seats (created + 1) (AList.update (Seat_EventID seat, Seat_ID seat) (new_row seat) t))"

definition insertSeats :: "Seat list \<Rightarrow> SeatTable \<Rightarrow> SeatTable \<times> int result" where
  "insertSeats seats t =
     (if length seats = 0 then (t, Inr 0)
      else case insert_loop seats 0 t of Inl err \<Rightarrow> (t, Inl err) | Inr (t', created) \<Rightarrow> (t', Inr created))"

section \<open>The store that retries\<close>

datatype attempt_outcome = Retry | Stored Seat | Failed goerror

text \<open>What other clients of the database do between the read and the write is \<open>others\<close>.\<close>

definition applyIfUnchanged ::
  "(time \<Rightarrow> time) \<Rightarrow> seatRow \<Rightarrow> (Seat \<Rightarrow> Seat result) \<Rightarrow> (SeatTable \<Rightarrow> SeatTable) \<Rightarrow> SeatTable \<Rightarrow> SeatTable \<times> attempt_outcome"
where
  "applyIfUnchanged keep row mutate others t =
     (case toDomain row of
        Inl err \<Rightarrow> (t, Failed err)
      | Inr seat \<Rightarrow>
          (case mutate seat of
             Inl err \<Rightarrow> (t, Failed err)
           | Inr seat' \<Rightarrow>
               (case updateSeatIfUnchanged keep seat' (row_version row) (others t) of
                  Inl err \<Rightarrow> (others t, Failed err)
                | Inr (t', affected) \<Rightarrow> (t', if affected = 0 then Retry else Stored seat'))))"

text \<open>
  \<open>others (2 * k)\<close> is what others do before the read of the \<open>k\<close>-th attempt and \<open>others (2 * k + 1)\<close> what they do
  between that read and the write; \<open>ctx_Err k\<close> is the answer of \<open>ctx.Err()\<close> before it. The answer counts
  the attempts that were lost.
\<close>

fun withRetries ::
  "(nat \<Rightarrow> goerror option) \<Rightarrow> (nat \<Rightarrow> SeatTable \<Rightarrow> SeatTable \<times> attempt_outcome) \<Rightarrow> nat \<Rightarrow> nat \<Rightarrow> SeatTable \<Rightarrow>
   SeatTable \<times> Seat result \<times> nat" where
  "withRetries ctx_Err run 0 k t = (t, Inl (Wrapf ''after attempts'' [Repository ErrConcurrentUpdate]), k)"
| "withRetries ctx_Err run (Suc left) k t =
     (case ctx_Err k of
        Some err \<Rightarrow> (t, Inl err, k)
      | None \<Rightarrow>
          (case run k t of
             (t', Failed err) \<Rightarrow> (t', Inl err, k)
           | (t', Stored seat) \<Rightarrow> (t', Inr seat, k)
           | (t', Retry) \<Rightarrow> withRetries ctx_Err run left (k + 1) t'))"

definition DefaultUpdateAttempts :: nat where "DefaultUpdateAttempts = 5"

definition update_attempts :: "int \<Rightarrow> nat" where
  "update_attempts configured = (if configured \<le> 0 then DefaultUpdateAttempts else nat configured)"

definition Optimistic_UpdateSeat ::
  "(time \<Rightarrow> time) \<Rightarrow> (nat \<Rightarrow> goerror option) \<Rightarrow> (nat \<Rightarrow> SeatTable \<Rightarrow> SeatTable) \<Rightarrow> nat \<Rightarrow> string \<Rightarrow> string \<Rightarrow>
   (Seat \<Rightarrow> Seat result) \<Rightarrow> SeatTable \<Rightarrow> SeatTable \<times> Seat result \<times> nat" where
  "Optimistic_UpdateSeat keep ctx_Err others attempts eventID seatID mutate =
     withRetries ctx_Err
       (\<lambda>k t. let t = others (2 * k) t in
          case selectSeat eventID seatID t of
            None \<Rightarrow> (t, Failed (Repository ErrSeatNotFound))
          | Some row \<Rightarrow> applyIfUnchanged keep row mutate (others (2 * k + 1)) t)
       attempts 0"

definition Optimistic_UpdateSeatByHoldID ::
  "(time \<Rightarrow> time) \<Rightarrow> (nat \<Rightarrow> goerror option) \<Rightarrow> (nat \<Rightarrow> SeatTable \<Rightarrow> SeatTable) \<Rightarrow> nat \<Rightarrow> string \<Rightarrow>
   (Seat \<Rightarrow> Seat result) \<Rightarrow> SeatTable \<Rightarrow> SeatTable \<times> Seat result \<times> nat" where
  "Optimistic_UpdateSeatByHoldID keep ctx_Err others attempts holdID mutate =
     withRetries ctx_Err
       (\<lambda>k t. let t = others (2 * k) t in
          case selectSeatByHold holdID t of
            None \<Rightarrow> (t, Failed (Repository ErrHoldNotFound))
          | Some row \<Rightarrow> applyIfUnchanged keep row mutate (others (2 * k + 1)) t)
       attempts 0"

section \<open>Reading lists\<close>

text \<open>The order of two texts is the collation of the database.\<close>

fun scan_seats :: "seatRow list \<Rightarrow> Seat list result" where
  "scan_seats [] = Inr []"
| "scan_seats (row # rows) =
     (case toDomain row of
        Inl err \<Rightarrow> Inl err
      | Inr seat \<Rightarrow> (case scan_seats rows of Inl err \<Rightarrow> Inl err | Inr seats \<Rightarrow> Inr (seat # seats)))"

definition row_order :: "(string \<Rightarrow> string \<Rightarrow> int) \<Rightarrow> seatRow \<Rightarrow> seatRow \<Rightarrow> int" where
  "row_order collate a b =
     (let label = collate (row_label a) (row_label b) in
      if label \<noteq> 0 then label
      else if row_number a < row_number b then -1 else if row_number b < row_number a then 1 else 0)"

definition listSeats :: "(string \<Rightarrow> string \<Rightarrow> int) \<Rightarrow> string \<Rightarrow> SeatTable \<Rightarrow> Seat list result" where
  "listSeats collate eventID t =
     scan_seats (SortFunc (row_order collate) (filter (\<lambda>r. row_event_id r = eventID) (map snd t)))"

definition seatsForUser :: "(string \<Rightarrow> string \<Rightarrow> int) \<Rightarrow> string \<Rightarrow> SeatTable \<Rightarrow> Seat list result" where
  "seatsForUser collate userID t =
     scan_seats (SortFunc (\<lambda>a b. let event = collate (row_event_id a) (row_event_id b) in
            if event \<noteq> 0 then event else row_order collate a b)
       (filter (\<lambda>r. row_held_by r = Some userID \<or> row_reserved_by r = Some userID) (map snd t)))"

section \<open>Rows and seats\<close>

text \<open>What the database makes of a seat that is written: the instants at its precision.\<close>

definition kept :: "(time \<Rightarrow> time) \<Rightarrow> Seat \<Rightarrow> Seat" where
  "kept keep s = s\<lparr>HoldCreatedAt := (if IsZero (HoldCreatedAt s) then zero_time else keep (HoldCreatedAt s)),
                  HoldExpiresAt := (if IsZero (HoldExpiresAt s) then zero_time else keep (HoldExpiresAt s))\<rparr>"

lemma kept_id [simp]: "kept (\<lambda>t. t) s = s"
  by (simp add: kept_def IsZero_def)

lemma text_nullText [simp]: "text_of (nullText v) = v"
  by (simp add: text_of_def nullText_def)

lemma instant_nullInstant [simp]: "instant (map_option keep (nullInstant v)) = (if IsZero v then zero_time else keep v)"
  by (simp add: instant_def nullInstant_def)

lemma nullText_None [simp]: "nullText v = None \<longleftrightarrow> v = ''''" "nullText v = Some u \<longleftrightarrow> v = u \<and> u \<noteq> ''''"
  "Some u = nullText v \<longleftrightarrow> v = u \<and> u \<noteq> ''''"
  by (auto simp: nullText_def)

lemma ParseSeatStatus_simps [simp]:
  "ParseSeatStatus ''available'' = Inr StatusAvailable" "ParseSeatStatus ''held'' = Inr StatusHeld"
  "ParseSeatStatus ''reserved'' = Inr StatusReserved"
  by (simp_all add: ParseSeatStatus_def)

lemma status_string_cases:
  "SeatStatus_String st \<in> {''available'', ''held'', ''reserved''} \<longleftrightarrow> st \<in> {StatusAvailable, StatusHeld, StatusReserved}"
  by (cases st) auto

lemma ParseSeatStatus_String: "SeatStatus_String st \<in> {''available'', ''held'', ''reserved''} \<Longrightarrow> ParseSeatStatus (SeatStatus_String st) = Inr st"
  unfolding status_string_cases by auto

lemma row_checks_status: "row_checks r \<Longrightarrow> row_status r \<in> {''available'', ''held'', ''reserved''}"
  unfolding row_checks_def by (rule conjunct1)

lemma set_columns_simps [simp]:
  "row_status (set_columns keep s r) = SeatStatus_String (Seat_Status s)" "row_hold_id (set_columns keep s r) = nullText (HoldID s)"
  "row_event_id (set_columns keep s r) = row_event_id r" "row_id (set_columns keep s r) = row_id r"
  "row_version (set_columns keep s r) = row_version r + 1"
  by (simp_all add: set_columns_def)

lemma toDomain_checked:
  assumes "row_checks r"
  obtains s where "toDomain r = Inr s" "Seat_EventID s = row_event_id r" "Seat_ID s = row_id r"
    "HoldID s = text_of (row_hold_id r)"
  using assms by (auto simp: toDomain_def row_checks_def)

lemma toDomain_written:
  assumes "toDomain r = Inr s" "same_seat s s'" "row_checks (set_columns keep s' r)"
  shows "toDomain (set_columns keep s' r) = Inr (kept keep s')"
proof -
  have "ParseSeatStatus (SeatStatus_String (Seat_Status s')) = Inr (Seat_Status s')"
    using ParseSeatStatus_String row_checks_status [OF assms(3)] by simp
  then show ?thesis using assms(1,2)
    by (cases s') (auto simp: toDomain_def set_columns_def kept_def same_seat_def split: sum.splits)
qed

text \<open>Whether a row can be written depends on the seat alone.\<close>

lemma row_checks_columns: "row_checks (set_columns keep s r) = row_checks (set_columns keep s q)"
  by (simp add: row_checks_def set_columns_def)

lemma unique_columns: "row_unique k (set_columns keep s r) t = row_unique k (set_columns keep s q) t"
  by (simp add: row_unique_def index_accepts_def set_columns_def)

text \<open>A well-formed seat passes the check constraints unless one of its instants is the zero time.\<close>

lemma row_checks_wf:
  "seat_wf s \<Longrightarrow> (Seat_Status s = StatusHeld \<Longrightarrow> HoldCreatedAt s \<noteq> zero_time \<and> HoldExpiresAt s \<noteq> zero_time) \<Longrightarrow>
     row_checks (set_columns keep s r)"
  by (cases "Seat_Status s") (auto simp: row_checks_def set_columns_def seat_wf_def no_hold_def nullInstant_def IsZero_def
      nullText_def)

section \<open>The invariant of the table\<close>

definition indexed :: "(seatRow \<Rightarrow> string option) \<Rightarrow> SeatTable \<Rightarrow> bool" where
  "indexed column t \<longleftrightarrow> (\<forall>k r k' r'. map_of t k = Some r \<longrightarrow> map_of t k' = Some r' \<longrightarrow> column r = column r' \<longrightarrow>
     column r \<noteq> None \<longrightarrow> k = k')"

definition table_inv :: "SeatTable \<Rightarrow> bool" where
  "table_inv t \<longleftrightarrow> distinct (map fst t) \<and>
     (\<forall>k r. map_of t k = Some r \<longrightarrow> k = (row_event_id r, row_id r) \<and> row_checks r \<and> row_hold_id r \<noteq> Some '''') \<and>
     indexed row_hold_id t \<and> indexed row_ticket_code t"

lemma table_invD:
  "table_inv t \<Longrightarrow> distinct (map fst t)"
  "table_inv t \<Longrightarrow> map_of t k = Some r \<Longrightarrow> k = (row_event_id r, row_id r) \<and> row_checks r \<and> row_hold_id r \<noteq> Some ''''"
  "table_inv t \<Longrightarrow> map_of t k = Some r \<Longrightarrow> map_of t k' = Some r' \<Longrightarrow> row_hold_id r = row_hold_id r' \<Longrightarrow>
     row_hold_id r \<noteq> None \<Longrightarrow> k = k'"
  "table_inv t \<Longrightarrow> indexed row_hold_id t" "table_inv t \<Longrightarrow> indexed row_ticket_code t"
  unfolding table_inv_def indexed_def by blast+

lemma in_table: "distinct (map fst t) \<Longrightarrow> (k, r) \<in> set t \<longleftrightarrow> map_of t k = Some r"
  by (simp add: map_of_eq_Some_iff)

lemma index_accepts_iff: "table_inv t \<Longrightarrow> index_accepts column key r t \<longleftrightarrow>
    column r = None \<or> (\<forall>k q. map_of t k = Some q \<longrightarrow> k \<noteq> key \<longrightarrow> column q \<noteq> column r)"
  unfolding index_accepts_def Ball_def split_paired_All by (simp only: in_table [OF table_invD(1)] prod.case)

lemma indexed_update:
  assumes "table_inv t" "indexed column t" "index_accepts column key q t"
  shows "indexed column (AList.update key q t)"
  unfolding indexed_def update_conv'
proof (intro allI impI)
  have other: "k = key" if "map_of t k = Some x" "column x = column q" "column q \<noteq> None" for k x
    using assms(3) that unfolding index_accepts_iff [OF assms(1)] by blast
  fix k x k' x' assume x: "((map_of t)(key \<mapsto> q)) k = Some x" "((map_of t)(key \<mapsto> q)) k' = Some x'"
    "column x = column x'" "column x \<noteq> None"
  have old: "map_of t k = Some x \<Longrightarrow> map_of t k' = Some x' \<Longrightarrow> k = k'" using assms(2) x(3,4) unfolding indexed_def by blast
  show "k = k'"
    using x old other [of k x] other [of k' x'] by (auto split: if_splits)
qed

definition table_seat :: "SeatTable \<Rightarrow> string \<Rightarrow> string \<Rightarrow> Seat option" where
  "table_seat t e i =
     (case map_of t (e, i) of
        None \<Rightarrow> None
      | Some r \<Rightarrow> (case toDomain r of Inl _ \<Rightarrow> None | Inr s \<Rightarrow> Some s))"

text \<open>The seats the table agrees to hold, next to its other rows.\<close>

definition row_accepts :: "(time \<Rightarrow> time) \<Rightarrow> SeatTable \<Rightarrow> Seat \<Rightarrow> bool" where
  "row_accepts keep t s \<longleftrightarrow> row_checks (set_columns keep s (new_row s)) \<and>
     row_unique (Seat_EventID s, Seat_ID s) (set_columns keep s (new_row s)) t"

lemma table_row:
  assumes "table_inv t" "map_of t (e, i) = Some r"
  obtains s where "toDomain r = Inr s" "row_event_id r = e" "row_id r = i" "row_checks r"
    "Seat_EventID s = e" "Seat_ID s = i" "row_hold_id r = nullText (HoldID s)"
proof -
  have c: "row_event_id r = e" "row_id r = i" "row_checks r" "row_hold_id r \<noteq> Some ''''"
    using table_invD(2) [OF assms] by auto
  obtain s where s: "toDomain r = Inr s" "Seat_EventID s = row_event_id r" "Seat_ID s = row_id r" "HoldID s = text_of (row_hold_id r)"
    by (rule toDomain_checked [OF c(3)])
  have "row_hold_id r = nullText (HoldID s)" using s(4) c(4) by (cases "row_hold_id r") (auto simp: text_of_def nullText_def)
  then show ?thesis using that s c by simp
qed

lemma table_seat_Some:
  assumes "table_inv t" "table_seat t e i = Some s"
  obtains r where "map_of t (e, i) = Some r" "toDomain r = Inr s" "row_checks r"
    "Seat_EventID s = e" "Seat_ID s = i" "row_hold_id r = nullText (HoldID s)"
proof -
  obtain r where r: "map_of t (e, i) = Some r" "toDomain r = Inr s"
    using assms(2) by (auto simp: table_seat_def split: option.splits sum.splits)
  show ?thesis by (rule table_row [OF assms(1) r(1)]) (use that r in auto)
qed

lemma table_seat_None: "table_inv t \<Longrightarrow> table_seat t e i = None \<longleftrightarrow> map_of t (e, i) = None"
  by (cases "map_of t (e, i)") (auto simp: table_seat_def elim: table_row)

lemma applyMutation_writes:
  assumes "table_inv t" "map_of t (e, i) = Some r" "toDomain r = Inr s" "f s = Inr s'" "same_seat s s'"
  shows "applyMutation keep r f t =
    (if row_accepts keep t s' then (AList.update (e, i) (set_columns keep s' r) t, Inr s')
     else (t, Inl (Wrapf ''writing seat'' [Opaque ''constraint violation''])))"
proof -
  have ids: "Seat_EventID s' = e" "Seat_ID s' = i"
    using table_row [OF assms(1,2)] assms(3,5) by (auto simp: same_seat_def)
  then have "row_accepts keep t s' \<longleftrightarrow> row_checks (set_columns keep s' r) \<and> row_unique (e, i) (set_columns keep s' r) t"
    using row_checks_columns [of keep s' "new_row s'" r] unique_columns [of "(e, i)" keep s' "new_row s'" t r] by (simp add: row_accepts_def)
  then show ?thesis using assms(2-4) ids by (simp add: applyMutation_def writeSeat_def write_row_def)
qed

lemma applyMutation_fails: "toDomain r = Inr s \<Longrightarrow> f s = Inl err \<Longrightarrow> applyMutation keep r f t = (t, Inl err)"
  by (simp add: applyMutation_def)

lemma find_SomeD: "find P xs = Some x \<Longrightarrow> x \<in> set xs \<and> P x"
  by (induction xs) (auto split: if_splits)

lemma selectSeatByHold_row:
  assumes "table_inv t" "selectSeatByHold h t = Some r"
  shows "map_of t (row_event_id r, row_id r) = Some r \<and> row_hold_id r = Some h"
proof -
  have "r \<in> set (map snd t)" and h: "row_hold_id r = Some h"
    using find_SomeD assms(2) unfolding selectSeatByHold_def by fastforce+
  then obtain k where "(k, r) \<in> set t" by auto
  then have "map_of t k = Some r" using in_table [OF table_invD(1) [OF assms(1)]] by blast
  then show ?thesis using table_invD(2) [OF assms(1)] h by metis
qed

lemma selectSeatByHold_Some:
  assumes "table_inv t" "map_of t k = Some r" "row_hold_id r = Some h"
  shows "selectSeatByHold h t = Some r"
proof -
  have "r \<in> set (map snd t)" using assms(2) by (force dest: map_of_SomeD)
  then have "selectSeatByHold h t \<noteq> None" using assms(3) by (auto simp: selectSeatByHold_def find_None_iff)
  then obtain q where q: "selectSeatByHold h t = Some q" by blast
  note row = selectSeatByHold_row [OF assms(1) q]
  then have "(row_event_id q, row_id q) = k" using table_invD(3) [OF assms(1) _ assms(2)] assms(3) by simp
  then show ?thesis using q row assms(2) by simp
qed

lemma update_inv:
  assumes "table_inv t" "map_of t (e, i) = Some r" "row_accepts keep t s" "Seat_EventID s = e" "Seat_ID s = i"
  shows "table_inv (AList.update (e, i) (set_columns keep s r) t)"
proof -
  let ?q = "set_columns keep s r"
  have ids: "row_event_id r = e" "row_id r = i" using table_invD(2) [OF assms(1,2)] by auto
  have c: "row_checks ?q" using assms(3) row_checks_columns [of keep s r "new_row s"] by (simp add: row_accepts_def)
  have u: "row_unique (e, i) ?q t"
    using assms(3-5) unique_columns [of "(e, i)" keep s r t "new_row s"] by (simp add: row_accepts_def)
  show ?thesis unfolding table_inv_def
  proof (intro conjI allI impI)
    show "distinct (map fst (AList.update (e, i) ?q t))" using table_invD(1) [OF assms(1)] by (rule distinct_update)
    show "indexed row_hold_id (AList.update (e, i) ?q t)" "indexed row_ticket_code (AList.update (e, i) ?q t)"
      using u indexed_update [OF assms(1) table_invD(4) [OF assms(1)]] indexed_update [OF assms(1) table_invD(5) [OF assms(1)]]
      by (simp_all add: row_unique_def)
    fix k q assume q: "map_of (AList.update (e, i) ?q t) k = Some q"
    show "k = (row_event_id q, row_id q)" "row_checks q" "row_hold_id q \<noteq> Some ''''"
      using q ids c table_invD(2) [OF assms(1), of k q] by (auto simp: update_conv' nullText_def split: if_splits)
  qed
qed

section \<open>The store keeps the contract\<close>

lemma Postgres_UpdateSeat_row:
  "map_of t (e, i) = Some r \<Longrightarrow> Postgres_UpdateSeat keep e i f t = applyMutation keep r f t"
  by (simp add: Postgres_UpdateSeat_def selectSeat_def)

lemma map_of_expireHolds:
  "map_of (fst (expireHolds now t)) k = map_option (\<lambda>r. if row_expired now r then expire_row r else r) (map_of t k)"
  by (induction t) (auto simp: expireHolds_def)

lemma row_expired_seat:
  assumes "toDomain r = Inr s" "row_checks r"
  shows "row_expired now r \<longleftrightarrow> IsHoldExpired s now"
    "row_expired now r \<Longrightarrow> toDomain (expire_row r) = Inr (fst (ExpireHold now s))"
proof -
  have st: "row_status r \<in> {''available'', ''held'', ''reserved''}" by (rule row_checks_status [OF assms(2)])
  show "row_expired now r \<longleftrightarrow> IsHoldExpired s now"
    using assms st by (auto simp: toDomain_def row_expired_def IsHoldExpired_def reached_def Before_def row_checks_def instant_def
        split: sum.splits option.splits)
  then show "toDomain (expire_row r) = Inr (fst (ExpireHold now s))" if "row_expired now r"
    using that assms by (auto simp: toDomain_def expire_row_def ExpireHold_def clearHold_def text_of_def instant_def split: sum.splits)
qed

lemma table_seat_expire:
  assumes "table_inv t"
  shows "table_seat (fst (expireHolds now t)) e i = map_option (\<lambda>s. fst (ExpireHold now s)) (table_seat t e i)"
proof (cases "map_of t (e, i)")
  case None
  then show ?thesis by (simp add: table_seat_def map_of_expireHolds)
next
  case (Some r)
  obtain s where s: "toDomain r = Inr s" "row_checks r" by (rule table_row [OF assms Some])
  show ?thesis using Some s row_expired_seat [OF s, of now]
    by (cases "row_expired now r") (auto simp: table_seat_def map_of_expireHolds ExpireHold_def)
qed

text \<open>Where the database keeps instants exactly, the store keeps the contract that the memory store keeps.\<close>

interpretation postgres_seats: seat_repository table_inv "\<lambda>e. True" table_seat "row_accepts (\<lambda>t. t)"
  "Postgres_UpdateSeat (\<lambda>t. t)" "Postgres_UpdateSeatByHoldID (\<lambda>t. t)" expireHolds
proof (unfold_locales, goal_cases)
  case (1 t e i f)
  then show ?case by (simp add: table_seat_None Postgres_UpdateSeat_def selectSeat_def)
next
  case (2 t e i s f err)
  obtain r where "map_of t (e, i) = Some r" "toDomain r = Inr s" by (rule table_seat_Some [OF 2(1,3)])
  then show ?case using 2 by (simp add: Postgres_UpdateSeat_row applyMutation_fails)
next
  case (3 t e i s f s')
  obtain r where r: "map_of t (e, i) = Some r" "toDomain r = Inr s" by (rule table_seat_Some [OF 3(1,3)])
  show ?case using 3 r applyMutation_writes [of t e i r s f s', OF 3(1) r 3(4,5)] by (simp add: Postgres_UpdateSeat_row)
next
  case (4 t e i s f s')
  obtain r where r: "map_of t (e, i) = Some r" "toDomain r = Inr s" by (rule table_seat_Some [OF 4(1,3)])
  show ?case using 4 r applyMutation_writes [of t e i r s f s', OF 4(1) r 4(4,5)] by (simp add: Postgres_UpdateSeat_row)
next
  case (5 t e i s f s' e' i')
  obtain r where r: "map_of t (e, i) = Some r" "toDomain r = Inr s" by (rule table_seat_Some [OF 5(1,3)])
  have "row_checks (set_columns (\<lambda>t. t) s' r)"
    using 5(6) row_checks_columns [of "\<lambda>t. t" s' r "new_row s'"] by (simp add: row_accepts_def)
  then have "toDomain (set_columns (\<lambda>t. t) s' r) = Inr s'" using toDomain_written [OF r(2) 5(5)] by simp
  then show ?case using 5 r applyMutation_writes [of t e i r s f s', OF 5(1) r 5(4,5)]
    by (simp add: Postgres_UpdateSeat_row table_seat_def update_conv')
next
  case (6 t h f)
  have "selectSeatByHold h t = None"
  proof (rule ccontr)
    assume "selectSeatByHold h t \<noteq> None"
    then obtain r where r: "selectSeatByHold h t = Some r" by blast
    note row = selectSeatByHold_row [OF 6(1) r]
    obtain s where "toDomain r = Inr s" "row_hold_id r = nullText (HoldID s)" by (rule table_row [OF 6(1) row [THEN conjunct1]])
    then show False using 6(2) [of "row_event_id r" "row_id r" s] row by (simp add: table_seat_def)
  qed
  then show ?case by (simp add: Postgres_UpdateSeatByHoldID_def)
next
  case (7 t e i s h f)
  obtain r where r: "map_of t (e, i) = Some r" "row_hold_id r = nullText (HoldID s)" by (rule table_seat_Some [OF 7(1,3)])
  then have "selectSeatByHold h t = Some r" using 7 by (intro selectSeatByHold_Some [OF 7(1)]) auto
  then show ?case using r by (simp add: Postgres_UpdateSeatByHoldID_def Postgres_UpdateSeat_row)
next
  case (8 t e now i)
  show ?case by (rule table_seat_expire [OF 8(1)])
qed

section \<open>Both stores answer alike\<close>

text \<open>The second store holds the seats of the first, under the event ids the first can tell apart.\<close>

definition agree ::
  "(string \<Rightarrow> bool) \<Rightarrow> ('a \<Rightarrow> string \<Rightarrow> string \<Rightarrow> Seat option) \<Rightarrow> ('b \<Rightarrow> string \<Rightarrow> string \<Rightarrow> Seat option) \<Rightarrow> 'a \<Rightarrow> 'b \<Rightarrow> bool" where
  "agree ok at1 at2 x y \<longleftrightarrow> (\<forall>e i. at2 y e i = (if ok e then at1 x e i else None))"

locale two_seat_repositories =
  a: seat_repository inv1 ok1 at1 acc1 update1 by_hold1 expire1 +
  b: seat_repository inv2 ok2 at2 acc2 update2 by_hold2 expire2
  for inv1 :: "'a \<Rightarrow> bool" and ok1 at1 acc1 update1 by_hold1 expire1
    and inv2 :: "'b \<Rightarrow> bool" and ok2 at2 acc2 update2 by_hold2 expire2 +
  assumes all_ok: "ok2 e"
begin

lemma update_agrees:
  assumes "inv1 x" "inv2 y" "agree ok1 at1 at2 x y" "ok1 e" "keeps_seat f"
    and acc: "\<And>s s'. at1 x e i = Some s \<Longrightarrow> f s = Inr s' \<Longrightarrow> acc1 x s' \<and> acc2 y s'"
  shows "snd (update1 e i f x) = snd (update2 e i f y) \<and> agree ok1 at1 at2 (fst (update1 e i f x)) (fst (update2 e i f y))"
proof (rule a.update_cases [OF assms(1,4,5), of i])
  assume "at1 x e i = None" "update1 e i f x = (x, Inl (Repository ErrSeatNotFound))"
  then show ?thesis using b.update_missing [OF assms(2) all_ok, of e i f] assms(3,4) by (simp add: agree_def)
next
  fix s err
  assume s: "at1 x e i = Some s" "update1 e i f x = (x, Inl err)" "f s = Inl err \<or> (\<exists>s'. f s = Inr s' \<and> \<not> acc1 x s')"
  then have "f s = Inl err" using acc by blast
  then show ?thesis using b.update_refused [of y e i s f err, OF assms(2) all_ok] s assms(3,4) by (simp add: agree_def)
next
  fix s s'
  assume s: "at1 x e i = Some s" "f s = Inr s'" "same_seat s s'" "acc1 x s'" "snd (update1 e i f x) = Inr s'"
  then have s2: "at2 y e i = Some s" "acc2 y s'" using acc assms(3,4) by (simp_all add: agree_def)
  have "snd (update2 e i f y) = Inr s'" by (rule b.update_result [of y e i s f s', OF assms(2) all_ok s2(1) s(2,3) s2(2)])
  moreover have "at2 (fst (update2 e i f y)) e' i' = (if ok1 e' then at1 (fst (update1 e i f x)) e' i' else None)" for e' i'
    using assms(3,4) a.update_stores [of x e i s f s' e' i', OF assms(1,4) s(1-4)]
      b.update_stores [of y e i s f s' e' i', OF assms(2) all_ok s2(1) s(2,3) s2(2) all_ok]
    by (cases "ok1 e'") (auto simp: agree_def)
  ultimately show ?thesis using s(5) by (simp add: agree_def)
qed

lemma by_hold_agrees:
  assumes "inv1 x" "inv2 y" "agree ok1 at1 at2 x y" "keeps_seat f" "h \<noteq> ''''"
    and acc: "\<And>e i s s'. at1 x e i = Some s \<Longrightarrow> f s = Inr s' \<Longrightarrow> acc1 x s' \<and> acc2 y s'"
  shows "snd (by_hold1 h f x) = snd (by_hold2 h f y) \<and> agree ok1 at1 at2 (fst (by_hold1 h f x)) (fst (by_hold2 h f y))"
proof (cases "\<exists>e i s. ok1 e \<and> at1 x e i = Some s \<and> HoldID s = h")
  case True
  then obtain e i s where s: "ok1 e" "at1 x e i = Some s" "HoldID s = h" by blast
  then have "at2 y e i = Some s" using assms(3) by (simp add: agree_def)
  then show ?thesis
    using a.hold_is_update [OF assms(1) s assms(5)] b.hold_is_update [OF assms(2) all_ok _ s(3) assms(5), of e i f]
      update_agrees [OF assms(1-3) s(1) assms(4) acc, of i] by simp
next
  case False
  then have "by_hold1 h f x = (x, Inl (Repository ErrHoldNotFound))" by (intro a.hold_missing [OF assms(1)]) blast
  moreover have "by_hold2 h f y = (y, Inl (Repository ErrHoldNotFound))"
    using False assms(3) by (intro b.hold_missing [OF assms(2)]) (auto simp: agree_def split: if_splits)
  ultimately show ?thesis using assms(3) by simp
qed

lemma expire_agrees:
  assumes "inv1 x" "inv2 y" "agree ok1 at1 at2 x y"
  shows "agree ok1 at1 at2 (fst (expire1 now x)) (fst (expire2 now y))"
  using assms(3) a.expire_each [OF assms(1)] b.expire_each [OF assms(2) all_ok] by (simp add: agree_def)

end

interpretation both: two_seat_repositories seats_inv slash_free "\<lambda>st e i. map_of st (seatKey e i)" "\<lambda>st s. True"
  UpdateSeat UpdateSeatByHoldID ExpireHolds
  table_inv "\<lambda>e. True" table_seat "row_accepts (\<lambda>t. t)"
  "Postgres_UpdateSeat (\<lambda>t. t)" "Postgres_UpdateSeatByHoldID (\<lambda>t. t)" expireHolds
  by unfold_locales simp

definition same_seats :: "SeatStore \<Rightarrow> SeatTable \<Rightarrow> bool" where
  "same_seats r t \<longleftrightarrow> agree slash_free (\<lambda>st e i. map_of st (seatKey e i)) table_seat r t"

lemma same_seats_row:
  assumes "table_inv t" "same_seats r t" "map_of t (e, i) = Some q"
  obtains s where "map_of r (seatKey e i) = Some s" "row_hold_id q = nullText (HoldID s)" "row_ticket_code q \<noteq> None \<Longrightarrow>
    row_ticket_code q = Some (TicketCode s)"
proof -
  obtain s where s: "toDomain q = Inr s" "row_hold_id q = nullText (HoldID s)" by (rule table_row [OF assms(1,3)])
  then have "table_seat t e i = Some s" using assms(3) by (simp add: table_seat_def)
  then have "map_of r (seatKey e i) = Some s" using assms(2) by (auto simp: same_seats_def agree_def split: if_splits)
  moreover have "TicketCode s = text_of (row_ticket_code q)" using s(1) by (auto simp: toDomain_def split: sum.splits)
  ultimately show ?thesis using that s(2) by (cases "row_ticket_code q") (auto simp: text_of_def)
qed

definition code_is_new :: "SeatStore \<Rightarrow> string \<Rightarrow> bool" where
  "code_is_new r c \<longleftrightarrow> (\<forall>k s. map_of r k = Some s \<longrightarrow> TicketCode s \<noteq> c)"

lemma row_accepts_free:
  assumes "seat_wf s" "Seat_Status s = StatusAvailable"
  shows "row_accepts keep t s"
proof -
  have "HoldID s = ''''" "TicketCode s = ''''" using assms by (auto simp: seat_wf_def no_hold_def)
  then show ?thesis using assms row_checks_wf [OF assms(1), of keep "new_row s"]
    by (simp add: row_accepts_def row_unique_def index_accepts_def set_columns_def)
qed

lemma row_accepts_sold:
  assumes "table_inv t" "same_seats r t" "code_is_new r (TicketCode s)" "seat_wf s" "Seat_Status s = StatusReserved"
  shows "row_accepts keep t s"
proof -
  have h: "HoldID s = ''''" using assms(4,5) by (auto simp: seat_wf_def no_hold_def)
  have "row_ticket_code q \<noteq> Some (TicketCode s)" if "map_of t k = Some q" for k q
  proof (rule same_seats_row [OF assms(1,2), of "fst k" "snd k" q])
    show "map_of t (fst k, snd k) = Some q" using that by simp
    fix s' assume "map_of r (seatKey (fst k) (snd k)) = Some s'"
      and code: "row_ticket_code q \<noteq> None \<Longrightarrow> row_ticket_code q = Some (TicketCode s')"
    then have "TicketCode s' \<noteq> TicketCode s" using assms(3) unfolding code_is_new_def by blast
    then show ?thesis using code by auto
  qed
  then have "index_accepts row_ticket_code k (set_columns keep s q) t" for k q
    unfolding index_accepts_iff [OF assms(1)] by (auto simp: set_columns_def nullText_def)
  then show ?thesis using h assms(5) row_checks_wf [OF assms(4), of keep]
    by (simp add: row_accepts_def row_unique_def index_accepts_def [of row_hold_id])
qed

lemma row_accepts_hold:
  assumes "table_inv t" "same_seats r t" "hold_is_new r h" "seat_wf s" "Seat_Status s = StatusHeld" "HoldID s = h"
    and "HoldCreatedAt s \<noteq> zero_time" "HoldExpiresAt s \<noteq> zero_time"
  shows "row_accepts keep t s"
proof -
  have "row_hold_id q \<noteq> nullText h" if "map_of t k = Some q" "h \<noteq> ''''" for k q
  proof (rule same_seats_row [OF assms(1,2), of "fst k" "snd k" q])
    show "map_of t (fst k, snd k) = Some q" using that by simp
    fix s' assume "map_of r (seatKey (fst k) (snd k)) = Some s'" and row: "row_hold_id q = nullText (HoldID s')"
    then have "HoldID s' \<noteq> h" using assms(3) unfolding hold_is_new_def by blast
    then show ?thesis using row that(2) by (auto simp: nullText_def)
  qed
  then have "index_accepts row_hold_id k (set_columns keep s q) t" for k q
    using assms(6) unfolding index_accepts_iff [OF assms(1)] by (cases "h = ''''") (auto simp: nullText_def)
  moreover have "TicketCode s = ''''" using assms(4,5) by (simp add: seat_wf_def)
  ultimately show ?thesis using row_checks_wf [OF assms(4), of keep] assms(7,8)
    by (simp add: row_accepts_def row_unique_def index_accepts_def [of row_ticket_code] set_columns_def)
qed

lemma seats_stored_wf: "seats_inv r \<Longrightarrow> map_of r k = Some s \<Longrightarrow> seat_wf s"
  using seats_invD(2) by (auto simp: seat_filed_def)

lemma confirm_accepted:
  assumes "seats_inv r" "table_inv t" "same_seats r t" "code_is_new r c" "map_of r k = Some s" "Seat_Confirm u c now s = Inr s'"
  shows "row_accepts keep t s'"
proof (rule row_accepts_sold [OF assms(2,3)])
  show "seat_wf s'" by (rule Seat_Confirm_wf [OF seats_stored_wf [OF assms(1,5)] assms(6)])
  show "Seat_Status s' = StatusReserved" "code_is_new r (TicketCode s')"
    using assms(4,6) by (auto simp: seat_ops split: if_splits)
qed

lemma release_accepted:
  assumes "seats_inv r" "map_of r k = Some s" "Seat_Release u s = Inr s'"
  shows "row_accepts keep t s'"
proof (rule row_accepts_free)
  show "seat_wf s'" by (rule Seat_Release_wf [OF seats_stored_wf [OF assms(1,2)] assms(3)])
  show "Seat_Status s' = StatusAvailable" using assms(3) by (auto simp: seat_ops split: if_splits)
qed

lemma hold_accepted:
  assumes "seats_inv r" "table_inv t" "same_seats r t" "hold_is_new r h" "now \<noteq> zero_time" "now + d \<noteq> zero_time"
    and "map_of r k = Some s" "Seat_Hold h u d now s = Inr s'"
  shows "row_accepts keep t s'"
proof (rule row_accepts_hold [OF assms(2,3,4)])
  show "seat_wf s'" by (rule Seat_Hold_wf [OF seats_stored_wf [OF assms(1,7)] assms(8)])
  show "Seat_Status s' = StatusHeld" "HoldID s' = h" "HoldCreatedAt s' \<noteq> zero_time" "HoldExpiresAt s' \<noteq> zero_time"
    using assms(5,6,8) by (auto simp: seat_ops split: if_splits)
qed

definition same_outcome :: "SeatStore \<times> Seat result \<Rightarrow> SeatTable \<times> Seat result \<Rightarrow> bool" where
  "same_outcome a b \<longleftrightarrow> snd a = snd b \<and> same_seats (fst a) (fst b)"


definition table_A1 :: SeatTable where
  "table_A1 = [((''event-1'', ''A1''), set_columns (\<lambda>t. t) held_A1 (new_row seat_A1))]"

lemma table_A1_inv: "table_inv table_A1"
proof -
  have "row_checks (set_columns (\<lambda>t. t) held_A1 (new_row seat_A1))" by (rule row_checks_wf) (simp_all add: sample_seats)
  then show ?thesis by (simp add: table_inv_def indexed_def table_A1_def new_row_def sample_seats nullText_def split: if_splits)
qed

lemma table_A1_same: "same_seats store_A1 table_A1"
  unfolding same_seats_def agree_def
proof (intro allI)
  fix e i
  have row: "toDomain (set_columns (\<lambda>t. t) held_A1 (new_row seat_A1)) = Inr held_A1"
    by (simp add: toDomain_def set_columns_def new_row_def sample_seats text_of_def instant_def nullText_def nullInstant_def go_time)
  have sf: "slash_free ''event-1''" by (simp add: slash_free_def)
  show "table_seat table_A1 e i = (if slash_free e then map_of store_A1 (seatKey e i) else None)"
  proof (cases "e = ''event-1'' \<and> i = ''A1''")
    case True
    then show ?thesis using sf row by (simp add: table_seat_def table_A1_def store_A1_def)
  next
    case False
    then have "table_seat table_A1 e i = None" by (auto simp: table_seat_def table_A1_def)
    moreover have "map_of store_A1 (seatKey e i) = None" if "slash_free e"
      using False seatKey_inj [OF that sf, of i "''A1''"] by (auto simp: store_A1_def)
    ultimately show ?thesis by simp
  qed
qed


section \<open>Steps of the table\<close>

text \<open>What the clients of the database do, each in one statement or one locked transaction.\<close>

inductive table_step :: "(time \<Rightarrow> time) \<Rightarrow> SeatTable \<Rightarrow> SeatTable \<Rightarrow> bool" for keep where
  t_update: "keeps_seat f \<Longrightarrow> table_step keep t (fst (Postgres_UpdateSeat keep e i f t))"
| t_by_hold: "keeps_seat f \<Longrightarrow> table_step keep t (fst (Postgres_UpdateSeatByHoldID keep h f t))"
| t_unchanged: "updateSeatIfUnchanged keep s version t = Inr (t', n) \<Longrightarrow> table_step keep t t'"
| t_expire: "table_step keep t (fst (expireHolds now t))"
| t_insert: "table_step keep t (fst (insertSeats seats t))"

abbreviation table_steps :: "(time \<Rightarrow> time) \<Rightarrow> SeatTable \<Rightarrow> SeatTable \<Rightarrow> bool" where
  "table_steps keep \<equiv> (table_step keep)\<^sup>*\<^sup>*"

text \<open>Rows stay, and every change of a row raises its version.\<close>

definition evolves :: "SeatTable \<Rightarrow> SeatTable \<Rightarrow> bool" where
  "evolves t t' \<longleftrightarrow> (\<forall>k r. map_of t k = Some r \<longrightarrow>
     (\<exists>r'. map_of t' k = Some r' \<and> (r' = r \<or> row_version r < row_version r')))"

lemma evolves_refl [simp]: "evolves t t"
  by (simp add: evolves_def)

lemma evolvesE:
  assumes "evolves t t'" "map_of t k = Some r"
  obtains r' where "map_of t' k = Some r'" "r' = r \<or> row_version r < row_version r'"
  using assms unfolding evolves_def by blast

lemma evolves_trans: "evolves t u \<Longrightarrow> evolves u v \<Longrightarrow> evolves t v"
  unfolding evolves_def [of t v]
proof (intro allI impI)
  fix k r assume uv: "evolves t u" "evolves u v" and r: "map_of t k = Some r"
  obtain r1 where r1: "map_of u k = Some r1" "r1 = r \<or> row_version r < row_version r1" by (rule evolvesE [OF uv(1) r])
  obtain r2 where r2: "map_of v k = Some r2" "r2 = r1 \<or> row_version r1 < row_version r2" by (rule evolvesE [OF uv(2) r1(1)])
  then have "r2 = r \<or> row_version r < row_version r2" using r1(2) by auto
  then show "\<exists>r'. map_of v k = Some r' \<and> (r' = r \<or> row_version r < row_version r')" using r2(1) by blast
qed

lemma evolves_update: "map_of t k = Some r \<Longrightarrow> evolves t (AList.update k (set_columns keep s r) t)"
  by (auto simp: evolves_def update_conv' simp del: map_of_eq_Some_iff)

lemma evolves_new: "map_of t k = None \<Longrightarrow> evolves t (AList.update k r t)"
  by (auto simp: evolves_def update_conv' simp del: map_of_eq_Some_iff)

lemma writeSeat_steps:
  assumes "table_inv t" "writeSeat keep s t = Inr (t', n)"
  shows "table_inv t' \<and> evolves t t'"
proof (cases "map_of t (Seat_EventID s, Seat_ID s)")
  case None
  then show ?thesis using assms by (simp add: writeSeat_def)
next
  case (Some r)
  then have t': "t' = AList.update (Seat_EventID s, Seat_ID s) (set_columns keep s r) t" "row_checks (set_columns keep s r)"
    "row_unique (Seat_EventID s, Seat_ID s) (set_columns keep s r) t"
    using assms(2) by (auto simp: writeSeat_def write_row_def split: if_splits)
  then have "row_accepts keep t s"
    using row_checks_columns [of keep s r "new_row s"] unique_columns [of _ keep s r t "new_row s"] by (simp add: row_accepts_def)
  then show ?thesis using update_inv [OF assms(1) Some] evolves_update [OF Some] t'(1) by simp
qed

lemma unchanged_is_write:
  "updateSeatIfUnchanged keep s version t = (case map_of t (Seat_EventID s, Seat_ID s) of
     None \<Rightarrow> Inr (t, 0) | Some r \<Rightarrow> if row_version r \<noteq> version then Inr (t, 0) else writeSeat keep s t)"
  by (simp add: updateSeatIfUnchanged_def writeSeat_def split: option.split)

lemma applyMutation_steps: "table_inv t \<Longrightarrow> table_inv (fst (applyMutation keep r f t)) \<and> evolves t (fst (applyMutation keep r f t))"
  using writeSeat_steps [of t keep] by (auto simp: applyMutation_def split: sum.split prod.split)

lemma expire_row_checks: "row_checks r \<Longrightarrow> row_expired now r \<Longrightarrow> row_checks (expire_row r)"
  by (auto simp: row_checks_def expire_row_def row_expired_def)

lemma expire_row_simps [simp]:
  "row_event_id (expire_row r) = row_event_id r" "row_id (expire_row r) = row_id r" "row_hold_id (expire_row r) = None"
  "row_version (expire_row r) = row_version r + 1"
  by (simp_all add: expire_row_def)

lemma map_of_expireHolds_Some:
  assumes "map_of (fst (expireHolds now t)) k = Some q"
  obtains r where "map_of t k = Some r" "q = r \<or> row_expired now r \<and> q = expire_row r"
proof -
  obtain r where "map_of t k = Some r" "q = (if row_expired now r then expire_row r else r)"
    using assms unfolding map_of_expireHolds by (cases "map_of t k") auto
  then show ?thesis using that by (simp split: if_splits)
qed

lemma expireHolds_steps:
  assumes "table_inv t"
  shows "table_inv (fst (expireHolds now t)) \<and> evolves t (fst (expireHolds now t))"
proof -
  have "map fst (fst (expireHolds now t)) = map fst t" by (auto simp: expireHolds_def)
  moreover have "k = (row_event_id q, row_id q) \<and> row_checks q \<and> row_hold_id q \<noteq> Some ''''"
    if q: "map_of (fst (expireHolds now t)) k = Some q" for k q
  proof (rule map_of_expireHolds_Some [OF q])
    fix r assume r: "map_of t k = Some r" "q = r \<or> row_expired now r \<and> q = expire_row r"
    then show ?thesis using table_invD(2) [OF assms r(1)] expire_row_checks [of r now] by auto
  qed
  moreover have "indexed column (fst (expireHolds now t))"
    if "indexed column t" and keeps: "\<And>r. column (expire_row r) = None \<or> column (expire_row r) = column r" for column
    unfolding indexed_def
  proof (intro allI impI)
    fix k q k' q'
    assume q: "map_of (fst (expireHolds now t)) k = Some q" "map_of (fst (expireHolds now t)) k' = Some q'"
      "column q = column q'" "column q \<noteq> None"
    obtain r r' where "map_of t k = Some r" "q = r \<or> q = expire_row r" "map_of t k' = Some r'" "q' = r' \<or> q' = expire_row r'"
      using map_of_expireHolds_Some [OF q(1)] map_of_expireHolds_Some [OF q(2)] by metis
    moreover have "column r = column r'" "column r \<noteq> None" using calculation q(3,4) keeps [of r] keeps [of r'] by auto
    ultimately show "k = k'" using \<open>indexed column t\<close> unfolding indexed_def by blast
  qed
  then have "indexed row_hold_id (fst (expireHolds now t))" "indexed row_ticket_code (fst (expireHolds now t))"
    using table_invD(4,5) [OF assms] by (simp_all add: expire_row_def)
  moreover have "evolves t (fst (expireHolds now t))" unfolding evolves_def map_of_expireHolds by simp
  ultimately show ?thesis using table_invD(1) [OF assms] unfolding table_inv_def by simp
qed

lemma new_row_simps [simp]:
  "row_event_id (new_row s) = Seat_EventID s" "row_id (new_row s) = Seat_ID s" "row_hold_id (new_row s) = None"
  "row_ticket_code (new_row s) = None"
  by (simp_all add: new_row_def)

lemma table_inv_new:
  assumes "table_inv t" "map_of t (Seat_EventID s, Seat_ID s) = None" "row_checks (new_row s)"
  shows "table_inv (AList.update (Seat_EventID s, Seat_ID s) (new_row s) t)"
  unfolding table_inv_def
proof (intro conjI allI impI)
  let ?k = "(Seat_EventID s, Seat_ID s)"
  show "distinct (map fst (AList.update ?k (new_row s) t))" using table_invD(1) [OF assms(1)] by (rule distinct_update)
  show "indexed row_hold_id (AList.update ?k (new_row s) t)" "indexed row_ticket_code (AList.update ?k (new_row s) t)"
    by (rule indexed_update [OF assms(1)]; simp add: table_invD(4,5) [OF assms(1)] index_accepts_def)+
  fix k q assume q: "map_of (AList.update ?k (new_row s) t) k = Some q"
  show "k = (row_event_id q, row_id q)" "row_checks q" "row_hold_id q \<noteq> Some ''''"
    using q assms(3) table_invD(2) [OF assms(1), of k q] by (auto simp: update_conv' split: if_splits)
qed

lemma insert_loop_steps: "table_inv t \<Longrightarrow> insert_loop seats n t = Inr (t', m) \<Longrightarrow> table_inv t' \<and> evolves t t'"
proof (induction seats n t rule: insert_loop.induct)
  case (2 seat seats created t)
  show ?case
  proof (cases "map_of t (Seat_EventID seat, Seat_ID seat)")
    case None
    then have c: "row_checks (new_row seat)" using 2(4) by (auto split: if_splits)
    then show ?thesis
      using 2(2) [OF _ _ table_inv_new [OF 2(3) None c]] 2(4) None evolves_trans [OF evolves_new [OF None]] by (simp; blast)
  next
    case (Some r)
    then show ?thesis using 2 by simp
  qed
qed simp

lemma table_step_steps: "table_step keep t t' \<Longrightarrow> table_inv t \<Longrightarrow> table_inv t' \<and> evolves t t'"
proof (induction rule: table_step.induct)
  case (t_update f t e i)
  then show ?case by (auto simp: Postgres_UpdateSeat_def applyMutation_steps split: option.split)
next
  case (t_by_hold f t h)
  then show ?case by (auto simp: Postgres_UpdateSeatByHoldID_def applyMutation_steps split: option.split)
next
  case (t_unchanged s version t t' n)
  then show ?case using writeSeat_steps [of t keep s t' n] unfolding unchanged_is_write by (auto split: option.splits if_splits)
next
  case (t_expire t now)
  then show ?case by (rule expireHolds_steps)
next
  case (t_insert t seats)
  then show ?case using insert_loop_steps [of t seats 0] by (auto simp: insertSeats_def split: sum.split prod.split)
qed

lemma table_steps_inv: "table_steps keep t t' \<Longrightarrow> table_inv t \<Longrightarrow> table_inv t' \<and> evolves t t'"
proof (induction rule: rtranclp_induct)
  case (step u v)
  then show ?case using table_step_steps [OF step.hyps(2)] evolves_trans by blast
qed simp

section \<open>Retrying is atomic\<close>

text \<open>An attempt against a call \<open>atomic\<close> that would do the same in one step: it stored what the call stores at the
  moment of its write, or failed as the call fails at some moment of the attempt, or wrote nothing.\<close>

fun attempt_ok ::
  "(time \<Rightarrow> time) \<Rightarrow> (SeatTable \<Rightarrow> SeatTable \<times> Seat result) \<Rightarrow> SeatTable \<Rightarrow> SeatTable \<times> attempt_outcome \<Rightarrow> bool" where
  "attempt_ok keep atomic t (t', Retry) = table_steps keep t t'"
| "attempt_ok keep atomic t (t', Stored s) = (\<exists>t0. table_steps keep t t0 \<and> atomic t0 = (t', Inr s))"
| "attempt_ok keep atomic t (t', Failed err) =
     (\<exists>t0. table_steps keep t t0 \<and> table_steps keep t0 t' \<and> snd (atomic t0) = Inl err)"

lemma applyIfUnchanged_ok:
  assumes "table_inv t" "map_of t (e, i) = Some r" "keeps_seat f" "table_steps keep t (others t)"
    and at: "\<And>u. table_inv u \<Longrightarrow> map_of u (e, i) = Some r \<Longrightarrow> atomic u = applyMutation keep r f u"
  shows "attempt_ok keep atomic t (applyIfUnchanged keep r f others t)"
proof -
  obtain s where s: "toDomain r = Inr s" "Seat_EventID s = e" "Seat_ID s = i" by (rule table_row [OF assms(1,2)])
  have later: "table_inv (others t)" "evolves t (others t)" using table_steps_inv [OF assms(4,1)] by auto
  obtain r' where r': "map_of (others t) (e, i) = Some r'" "r' = r \<or> row_version r < row_version r'"
    by (rule evolvesE [OF later(2) assms(2)])
  show ?thesis
  proof (cases "f s")
    case (Inl err)
    then show ?thesis using s at [OF assms(1,2)] by (auto simp: applyIfUnchanged_def applyMutation_def)
  next
    case (Inr s')
    then have ids: "Seat_EventID s' = e" "Seat_ID s' = i" using assms(3) s by (auto simp: keeps_seat_def same_seat_def)
    show ?thesis
    proof (cases "r' = r")
      case False
      then show ?thesis using s Inr ids r' assms(4) by (auto simp: applyIfUnchanged_def updateSeatIfUnchanged_def)
    next
      case True
      have one: "writeSeat keep s' (others t) = Inr (t', n) \<Longrightarrow> n = 1" for t' n
        using r'(1) ids by (auto simp: writeSeat_def write_row_def split: if_splits)
      have u: "updateSeatIfUnchanged keep s' (row_version r) (others t) = writeSeat keep s' (others t)"
        using r'(1) True ids by (simp add: unchanged_is_write)
      have "atomic (others t) = applyMutation keep r f (others t)" using at [OF later(1)] r'(1) True by simp
      then show ?thesis using s Inr u assms(4) one
        by (cases "writeSeat keep s' (others t)") (auto simp: applyIfUnchanged_def applyMutation_def)
    qed
  qed
qed

lemma attempt_ok_before: "table_steps keep t u \<Longrightarrow> attempt_ok keep atomic u a \<Longrightarrow> attempt_ok keep atomic t a"
  by (induction keep atomic u a rule: attempt_ok.induct) (auto intro: rtranclp_trans)

lemma withRetries_ok:
  assumes run: "\<And>k u. table_inv u \<Longrightarrow> attempt_ok keep atomic u (run k u)"
  shows "table_inv t \<Longrightarrow> withRetries ctx_Err run n k t = (t', res, lost) \<Longrightarrow>
    (case res of
       Inr s \<Rightarrow> \<exists>t0. table_steps keep t t0 \<and> atomic t0 = (t', Inr s)
     | Inl err \<Rightarrow> table_steps keep t t' \<and>
         ((\<exists>t0. table_steps keep t t0 \<and> table_steps keep t0 t' \<and> snd (atomic t0) = Inl err) \<or>
          ctx_Err lost = Some err \<or> lost = k + n \<and> errors_Is err (Repository ErrConcurrentUpdate)))"
proof (induction n arbitrary: k t)
  case 0
  then show ?case by auto
next
  case (Suc n)
  show ?case
  proof (cases "ctx_Err k")
    case (Some err)
    then show ?thesis using Suc.prems by auto
  next
    case None
    obtain u o1 where u: "run k t = (u, o1)" by force
    note ok = run [OF Suc.prems(1), of k, unfolded u]
    show ?thesis
    proof (cases o1)
      case Retry
      then have tu: "table_steps keep t u" using ok by simp
      then have "table_inv u" using table_steps_inv Suc.prems(1) by blast
      moreover have "withRetries ctx_Err run n (k + 1) u = (t', res, lost)" using Suc.prems(2) None u Retry by simp
      ultimately show ?thesis using Suc.IH [of u "k + 1"] rtranclp_trans [OF tu]
        by (cases res) (auto; blast)+
    next
      case (Stored s)
      then show ?thesis using Suc.prems(2) None u ok by auto
    next
      case (Failed err)
      then obtain t0 where t0: "table_steps keep t t0" "table_steps keep t0 u" "snd (atomic t0) = Inl err"
        using ok by auto
      have "t' = u" "res = Inl err" using Suc.prems(2) None u Failed by simp_all
      with t0 rtranclp_trans [OF t0(1,2)] show ?thesis by simp blast
    qed
  qed
qed

text \<open>One attempt of an update by seat, as \<^const>\<open>Optimistic_UpdateSeat\<close> runs it.\<close>

definition seat_attempt ::
  "(time \<Rightarrow> time) \<Rightarrow> (nat \<Rightarrow> SeatTable \<Rightarrow> SeatTable) \<Rightarrow> string \<Rightarrow> string \<Rightarrow> (Seat \<Rightarrow> Seat result) \<Rightarrow> nat \<Rightarrow> SeatTable \<Rightarrow>
   SeatTable \<times> attempt_outcome" where
  "seat_attempt keep others e i f k t =
     (let t = others (2 * k) t in
      case selectSeat e i t of
        None \<Rightarrow> (t, Failed (Repository ErrSeatNotFound))
      | Some row \<Rightarrow> applyIfUnchanged keep row f (others (2 * k + 1)) t)"

lemma Optimistic_UpdateSeat_attempts:
  "Optimistic_UpdateSeat keep ctx_Err others attempts e i f = withRetries ctx_Err (seat_attempt keep others e i f) attempts 0"
  by (simp add: Optimistic_UpdateSeat_def seat_attempt_def [abs_def])

lemma seat_attempt_ok:
  assumes "keeps_seat f" "\<forall>n u. table_inv u \<longrightarrow> table_steps keep u (others n u)" "table_inv u"
  shows "attempt_ok keep (Postgres_UpdateSeat keep e i f) u (seat_attempt keep others e i f k u)"
proof -
  let ?v = "others (2 * k) u"
  have uv: "table_steps keep u ?v" and v: "table_inv ?v" using assms(2,3) table_steps_inv by blast+
  have "attempt_ok keep (Postgres_UpdateSeat keep e i f) ?v (seat_attempt keep others e i f k u)"
  proof (cases "map_of ?v (e, i)")
    case None
    then show ?thesis by (auto simp: selectSeat_def Postgres_UpdateSeat_def seat_attempt_def)
  next
    case (Some r)
    then show ?thesis using applyIfUnchanged_ok [OF v Some assms(1), of keep "others (2 * k + 1)"] assms(2) v
      by (simp add: selectSeat_def Postgres_UpdateSeat_row seat_attempt_def)
  qed
  then show ?thesis by (rule attempt_ok_before [OF uv])
qed

lemmas optimistic_update_ok =
  withRetries_ok [where run = "seat_attempt keep others e i f" and atomic = "Postgres_UpdateSeat keep e i f" and k = 0
      and keep = keep for keep others e i f,
    folded Optimistic_UpdateSeat_attempts, unfolded add_0]


definition confirm_A1 :: "Seat \<Rightarrow> Seat result" where
  "confirm_A1 = Seat_Confirm ''alice'' ''SH-1'' 399"

lemma confirm_A1_runs:
  "\<exists>t s. Optimistic_UpdateSeat (\<lambda>t. t) (\<lambda>k. None) (\<lambda>n u. u) 5 ''event-1'' ''A1'' confirm_A1 table_A1 = (t, Inr s, 0)"
  by (simp add: Optimistic_UpdateSeat_def applyIfUnchanged_def selectSeat_def table_A1_def confirm_A1_def numeral_eq_Suc
      toDomain_def set_columns_def new_row_def sample_seats text_of_def instant_def nullText_def nullInstant_def go_time
      updateSeatIfUnchanged_def write_row_def seat_ops row_checks_def row_unique_def index_accepts_def)


section \<open>Retrying ends\<close>

lemma applyIfUnchanged_quiet:
  assumes "table_inv t" "map_of t (e, i) = Some r" "keeps_seat f"
  shows "snd (applyIfUnchanged keep r f (\<lambda>u. u) t) \<noteq> Retry"
proof -
  obtain s where s: "toDomain r = Inr s" "Seat_EventID s = e" "Seat_ID s = i" by (rule table_row [OF assms(1,2)])
  show ?thesis
  proof (cases "f s")
    case (Inl err)
    then show ?thesis using s by (simp add: applyIfUnchanged_def)
  next
    case (Inr s')
    then have ids: "Seat_EventID s' = e" "Seat_ID s' = i" using assms(3) s by (auto simp: keeps_seat_def same_seat_def)
    then show ?thesis using s Inr assms(2)
      by (auto simp: applyIfUnchanged_def unchanged_is_write writeSeat_def write_row_def split: sum.splits if_splits)
  qed
qed

lemma withRetries_lost:
  assumes run: "\<And>k u. table_inv u \<Longrightarrow> attempt_ok keep atomic u (run k u)"
    and quiet: "\<And>k u. m \<le> k \<Longrightarrow> table_inv u \<Longrightarrow> snd (run k u) \<noteq> Retry"
  shows "table_inv t \<Longrightarrow> withRetries ctx_Err run n k t = (t', res, lost) \<Longrightarrow> k \<le> m \<Longrightarrow> m < k + n \<Longrightarrow> lost \<le> m"
proof (induction n arbitrary: k t)
  case (Suc n)
  obtain u o1 where u: "run k t = (u, o1)" by force
  show ?case
  proof (cases "ctx_Err k = None \<and> o1 = Retry")
    case True
    then have "k < m" using quiet [OF _ Suc.prems(1), of k] u Suc.prems(3) by (cases "k = m") auto
    moreover have "table_steps keep t u" using run [OF Suc.prems(1), of k] u True by simp
    then have "table_inv u" using table_steps_inv Suc.prems(1) by blast
    ultimately show ?thesis using Suc.IH [of u "k + 1"] Suc.prems u True by simp
  next
    case False
    then show ?thesis using Suc.prems u by (cases o1) (auto split: option.splits)
  qed
qed simp

text \<open>C37. Retrying ends. Once the other clients of the seat store stay quiet from some attempt on, and the caller is still there,
  an update with an attempt left loses no further one: it answers what the locking store answers, a
  stored seat or its refusal, and not that it lost every attempt.\<close>

theorem quiet_database_ends_retries:
  assumes "table_inv t" and "keeps_seat f" and "\<forall>n u. table_inv u \<longrightarrow> table_steps keep u (others n u)"
    and "\<forall>n. 2 * m \<le> n \<longrightarrow> others n = (\<lambda>u. u)" and "m < attempts" and "\<forall>k. ctx_Err k = None"
  shows "\<exists>t' res lost t0. Optimistic_UpdateSeat keep ctx_Err others attempts e i f t = (t', res, lost) \<and> lost \<le> m \<and>
    table_steps keep t t0 \<and> snd (Postgres_UpdateSeat keep e i f t0) = res"
proof -
  obtain t' res lost where run: "Optimistic_UpdateSeat keep ctx_Err others attempts e i f t = (t', res, lost)"
    by (metis prod_cases3)
  have "snd (seat_attempt keep others e i f k u) \<noteq> Retry" if "m \<le> k" "table_inv u" for k u
    using that assms(4) applyIfUnchanged_quiet [OF that(2) _ assms(2), of e i _ keep]
    by (auto simp: seat_attempt_def selectSeat_def split: option.split)
  from withRetries_lost [where run = "seat_attempt keep others e i f" and k = 0, OF seat_attempt_ok [OF assms(2,3)] this assms(1)]
  have "lost \<le> m" using assms(5) run unfolding Optimistic_UpdateSeat_attempts by simp
  moreover have "\<exists>t0. table_steps keep t t0 \<and> snd (Postgres_UpdateSeat keep e i f t0) = res"
    using optimistic_update_ok [OF seat_attempt_ok [OF assms(2,3)] assms(1) run] calculation assms(5,6)
    by (cases res) auto
  ultimately show ?thesis using run by blast
qed

theorem quiet_database_ends_retries_witness:
  "\<exists>t' res lost t0.
     Optimistic_UpdateSeat (\<lambda>t. t) (\<lambda>k. None) (\<lambda>n. if n = 1 then \<lambda>u. fst (expireHolds 400 u) else (\<lambda>u. u)) 5 ''event-1'' ''A1''
       (Seat_Hold ''h2'' ''bob'' 300 401) table_A1 = (t', res, lost) \<and> lost \<le> 1 \<and>
     table_steps (\<lambda>t. t) table_A1 t0 \<and> snd (Postgres_UpdateSeat (\<lambda>t. t) ''event-1'' ''A1'' (Seat_Hold ''h2'' ''bob'' 300 401) t0) = res"
  by (rule quiet_database_ends_retries [OF table_A1_inv])
    (auto intro: domain_ops_keep_seat table_step.intros)

end
