(* ===== verification/Same_Store.thy ===== *)
theory Same_Store
  imports Errors
begin

text \<open>
  Two implementations of one store interface, compared from outside. Every store of the program is written twice, in
  memory and over SQL; a caller sees only what the calls answer. The locale asks for a relation between the two states
  that every permitted call keeps, answering alike, and derives that whole sequences of calls are answered alike.
\<close>

text \<open>The answers to a sequence of calls, one after the other.\<close>

primrec answers :: "('c \<Rightarrow> 's \<Rightarrow> 's \<times> 'r) \<Rightarrow> 'c list \<Rightarrow> 's \<Rightarrow> 'r list" where
  "answers call [] st = []"
| "answers call (c # cs) st = (case call c st of (st', r) \<Rightarrow> r # answers call cs st')"

text \<open>A condition that every call meets in the state it is made in.\<close>

primrec along :: "('s \<Rightarrow> 'c \<Rightarrow> bool) \<Rightarrow> ('c \<Rightarrow> 's \<Rightarrow> 's \<times> 'r) \<Rightarrow> 'c list \<Rightarrow> 's \<Rightarrow> bool" where
  "along P call [] st \<longleftrightarrow> True"
| "along P call (c # cs) st \<longleftrightarrow> P st c \<and> along P call cs (fst (call c st))"

lemma along_always [simp]: "along (\<lambda>_. P) call cs st = list_all P cs"
  by (induction cs arbitrary: st) simp_all

locale same_store =
  fixes same :: "'a \<Rightarrow> 'b \<Rightarrow> bool"
    and permitted :: "'a \<Rightarrow> 'c \<Rightarrow> bool"
    and memory :: "'c \<Rightarrow> 'a \<Rightarrow> 'a \<times> 'r"
    and table :: "'c \<Rightarrow> 'b \<Rightarrow> 'b \<times> 'r"
    and alike :: "'r \<Rightarrow> 'r \<Rightarrow> bool"
  assumes call_alike: "same a b \<Longrightarrow> permitted a c \<Longrightarrow> memory c a = (a', r) \<Longrightarrow> table c b = (b', s) \<Longrightarrow>
    same a' b' \<and> alike r s"
begin

lemma answers_alike:
  "same a b \<Longrightarrow> along permitted memory cs a \<Longrightarrow> list_all2 alike (answers memory cs a) (answers table cs b)"
proof (induction cs arbitrary: a b)
  case (Cons c cs)
  obtain a' r b' s where m: "memory c a = (a', r)" and t: "table c b = (b', s)" by (meson surj_pair)
  have "same a' b' \<and> alike r s" using call_alike [OF Cons.prems(1) _ m t] Cons.prems(2) by simp
  then show ?case using Cons.IH [of a' b'] Cons.prems(2) by (simp add: m t)
qed simp

end

text \<open>Where alike means equal, the answers are the same list.\<close>

locale equal_store = same_store same permitted memory table "(=)"
  for same :: "'a \<Rightarrow> 'b \<Rightarrow> bool" and permitted :: "'a \<Rightarrow> 'c \<Rightarrow> bool"
    and memory :: "'c \<Rightarrow> 'a \<Rightarrow> 'a \<times> 'r" and table :: "'c \<Rightarrow> 'b \<Rightarrow> 'b \<times> 'r"
begin

lemma answers_equal: "same a b \<Longrightarrow> along permitted memory cs a \<Longrightarrow> answers table cs b = answers memory cs a"
  using answers_alike [of a b cs] by (simp add: list.rel_eq)

end

section \<open>Statements over rows\<close>

text \<open>\<open>update ... where\<close>, with the number of rows it touched, and \<open>delete ... where\<close>.\<close>

definition update_where :: "('r \<Rightarrow> bool) \<Rightarrow> ('r \<Rightarrow> 'r) \<Rightarrow> 'r list \<Rightarrow> 'r list \<times> nat" where
  "update_where P f rows = (map (\<lambda>row. if P row then f row else row) rows, length (filter P rows))"

definition delete_where :: "('r \<Rightarrow> bool) \<Rightarrow> 'r list \<Rightarrow> 'r list \<times> nat" where
  "delete_where P rows = (filter (\<lambda>row. \<not> P row) rows, length (filter P rows))"

lemma find_map: "find P (map g xs) = map_option g (find (P \<circ> g) xs)"
  by (induction xs) simp_all

lemma find_update_where:
  assumes "\<And>row. P row \<Longrightarrow> Q (f row) = Q row"
  shows "find Q (fst (update_where P f rows)) = map_option (\<lambda>row. if P row then f row else row) (find Q rows)"
proof -
  have "Q \<circ> (\<lambda>row. if P row then f row else row) = Q" using assms by (auto simp: fun_eq_iff)
  then show ?thesis by (simp add: update_where_def find_map)
qed

lemma touched_none: "snd (update_where P f rows) = 0 \<longleftrightarrow> find P rows = None"
  by (auto simp: update_where_def filter_empty_conv find_None_iff)

lemma update_where_map: "(\<And>row. P row \<Longrightarrow> g (f row) = g row) \<Longrightarrow> map g (fst (update_where P f rows)) = map g rows"
  by (simp add: update_where_def)

lemma find_key:
  "distinct (map g rows) \<Longrightarrow> find (\<lambda>row. g row = k) rows = Some row \<longleftrightarrow> row \<in> set rows \<and> g row = k"
  by (induction rows) (auto simp: rev_image_eqI)

lemma find_unique:
  "row \<in> set rows \<Longrightarrow> P row \<Longrightarrow> (\<And>x. x \<in> set rows \<Longrightarrow> P x \<Longrightarrow> x = row) \<Longrightarrow> find P rows = Some row"
proof (induction rows)
  case (Cons y ys)
  show ?case
  proof (cases "P y")
    case True
    then have "y = row" by (intro Cons.prems(3)) simp_all
    then show ?thesis using True by simp
  next
    case False
    then have "row \<in> set ys" using Cons.prems(1,2) by auto
    then have "find P ys = Some row" by (rule Cons.IH [OF _ Cons.prems(2)]) (simp add: Cons.prems(3))
    then show ?thesis using False by simp
  qed
qed simp

lemma find_found: "find P xs = Some x \<Longrightarrow> x \<in> set xs \<and> P x"
  by (induction xs) (auto split: if_splits)

lemma find_key_and:
  assumes "distinct (map g rows)"
  shows "find (\<lambda>row. Q row \<and> g row = k) rows =
    (case find (\<lambda>row. g row = k) rows of None \<Rightarrow> None | Some row \<Rightarrow> if Q row then Some row else None)"
proof (cases "find (\<lambda>row. g row = k) rows")
  case None
  then have "find (\<lambda>row. Q row \<and> g row = k) rows = None" by (simp add: find_None_iff)
  then show ?thesis using None by simp
next
  case (Some row)
  have row: "row \<in> set rows" "g row = k" using find_found [OF Some] by simp_all
  have only: "x = row" if "x \<in> set rows" "g x = k" for x
    using that row assms by (auto simp: distinct_map dest: inj_onD)
  show ?thesis
  proof (cases "Q row")
    case True
    have "find (\<lambda>row. Q row \<and> g row = k) rows = Some row"
      by (rule find_unique) (use row True only in blast)+
    then show ?thesis using Some True by simp
  next
    case False
    then have "find (\<lambda>row. Q row \<and> g row = k) rows = None" using only by (auto simp: find_None_iff)
    then show ?thesis using Some False by simp
  qed
qed

end
