(* ===== verification/Waiting_Table.thy ===== *)
theory Waiting_Table
  imports Waiting_Store Same_Store
begin

text \<open>
  The waiting lists in Postgres: \<open>internal/repository/postgres_waiting_list_repository.go\<close> over the rows of the table
  \<open>waiting_list\<close> (\<open>migrations/00004_waiting_list.sql\<close>), with its key, its unique constraint and its reference to the
  events. \<open>events\<close> are the ids the table \<open>events\<close> holds, \<open>collate\<close> is the order the database compares text in.
  Rows come in no particular order unless a statement asks for one. Nothing else holds a lock on the rows.
\<close>

section \<open>The statements\<close>

type_synonym WaitingRows = "WaitingEntry list"

definition queue_order :: "(string \<Rightarrow> string \<Rightarrow> int) \<Rightarrow> WaitingEntry \<Rightarrow> WaitingEntry \<Rightarrow> int" where
  "queue_order collate a b =
     (let c = time_Compare (JoinedAt a) (JoinedAt b) in if c \<noteq> 0 then c else collate (Entry_ID a) (Entry_ID b))"

definition place_of :: "string \<Rightarrow> string \<Rightarrow> WaitingEntry \<Rightarrow> bool" where
  "place_of eventID userID row \<longleftrightarrow> Entry_EventID row = eventID \<and> Entry_UserID row = userID"

text \<open>The update writes what the row already has; the key of the rows and the reference are checked for a new row.\<close>

definition joinWaitingListSQL :: "string list \<Rightarrow> WaitingEntry \<Rightarrow> WaitingRows \<Rightarrow> (WaitingRows \<times> WaitingEntry) result" where
  "joinWaitingListSQL events entry rows =
     (case find (place_of (Entry_EventID entry) (Entry_UserID entry)) rows of
        Some row \<Rightarrow> Inr (rows, row)
      | None \<Rightarrow>
          if list_ex (\<lambda>row. Entry_ID row = Entry_ID entry) rows then Inl (Opaque ''duplicate key'')
          else if Entry_EventID entry \<notin> set events then Inl (Opaque ''foreign key violation'')
          else Inr (rows @ [entry], entry))"

definition takeNextWaitingSQL ::
  "(string \<Rightarrow> string \<Rightarrow> int) \<Rightarrow> string \<Rightarrow> WaitingRows \<Rightarrow> WaitingRows \<times> WaitingEntry option" where
  "takeNextWaitingSQL collate eventID rows =
     (case SortFunc (queue_order collate) (filter (\<lambda>row. Entry_EventID row = eventID) rows) of
        [] \<Rightarrow> (rows, None)
      | next_row # _ \<Rightarrow> (filter (\<lambda>row. Entry_ID row \<noteq> Entry_ID next_row) rows, Some next_row))"

definition rejoinWaitingListSQL :: "string list \<Rightarrow> WaitingEntry \<Rightarrow> WaitingRows \<Rightarrow> WaitingRows result" where
  "rejoinWaitingListSQL events entry rows =
     (if list_ex (\<lambda>row. Entry_ID row = Entry_ID entry \<or> place_of (Entry_EventID entry) (Entry_UserID entry) row) rows
      then Inr rows
      else if Entry_EventID entry \<notin> set events then Inl (Opaque ''foreign key violation'')
      else Inr (rows @ [entry]))"

text \<open>Every row of the event against every row that is \<open>me\<close>.\<close>

definition waitingPositionSQL :: "(string \<Rightarrow> string \<Rightarrow> int) \<Rightarrow> string \<Rightarrow> string \<Rightarrow> WaitingRows \<Rightarrow> nat" where
  "waitingPositionSQL collate eventID userID rows =
     length (filter (\<lambda>(w, me). queue_order collate w me \<le> 0)
       (List.product (filter (\<lambda>row. Entry_EventID row = eventID) rows) (filter (place_of eventID userID) rows)))"

section \<open>The operations\<close>

definition Postgres_Join ::
  "(string \<Rightarrow> string \<Rightarrow> int) \<Rightarrow> string list \<Rightarrow> WaitingEntry \<Rightarrow> WaitingRows \<Rightarrow> WaitingRows \<times> (WaitingEntry \<times> nat) result" where
  "Postgres_Join collate events entry rows =
     (case joinWaitingListSQL events entry rows of
        Inl err \<Rightarrow> (rows, Inl (Wrapf ''joining the waiting list'' [err]))
      | Inr (rows', joined) \<Rightarrow>
          (rows', Inr (joined, waitingPositionSQL collate (Entry_EventID entry) (Entry_UserID entry) rows')))"

definition Postgres_Leave :: "string \<Rightarrow> string \<Rightarrow> WaitingRows \<Rightarrow> WaitingRows" where
  "Postgres_Leave eventID userID rows = filter (\<lambda>row. \<not> place_of eventID userID row) rows"

definition Postgres_TakeNext ::
  "(string \<Rightarrow> string \<Rightarrow> int) \<Rightarrow> string \<Rightarrow> WaitingRows \<Rightarrow> WaitingRows \<times> WaitingEntry result" where
  "Postgres_TakeNext collate eventID rows =
     (case takeNextWaitingSQL collate eventID rows of
        (rows', None) \<Rightarrow> (rows', Inl (Repository ErrWaitingListEmpty))
      | (rows', Some taken) \<Rightarrow> (rows', Inr taken))"

definition Postgres_Drain :: "string \<Rightarrow> WaitingRows \<Rightarrow> WaitingRows \<times> WaitingEntry list" where
  "Postgres_Drain eventID rows =
     (filter (\<lambda>row. Entry_EventID row \<noteq> eventID) rows, filter (\<lambda>row. Entry_EventID row = eventID) rows)"

definition Postgres_Rejoin :: "string list \<Rightarrow> WaitingEntry \<Rightarrow> WaitingRows \<Rightarrow> WaitingRows \<times> unit result" where
  "Postgres_Rejoin events entry rows =
     (case rejoinWaitingListSQL events entry rows of
        Inl err \<Rightarrow> (rows, Inl (Wrapf ''rejoining the waiting list'' [err]))
      | Inr rows' \<Rightarrow> (rows', Inr ()))"

definition Postgres_Position :: "(string \<Rightarrow> string \<Rightarrow> int) \<Rightarrow> string \<Rightarrow> string \<Rightarrow> WaitingRows \<Rightarrow> nat result" where
  "Postgres_Position collate eventID userID rows =
     (let position = waitingPositionSQL collate eventID userID rows in
      if position = 0 then Inl (Repository ErrNotWaiting) else Inr position)"

section \<open>Rows and lines\<close>

text \<open>The constraints of the table; ids are never given twice, so an id has one owner.\<close>

definition rows_inv :: "(string \<Rightarrow> string \<times> string) \<Rightarrow> WaitingRows \<Rightarrow> bool" where
  "rows_inv owner rows \<longleftrightarrow> distinct (map (\<lambda>r. (Entry_EventID r, Entry_UserID r)) rows) \<and>
     (\<forall>r \<in> set rows. owner (Entry_ID r) = (Entry_EventID r, Entry_UserID r))"

definition same_lines :: "(string \<Rightarrow> string \<times> string) \<Rightarrow> WaitingStore \<Rightarrow> WaitingRows \<Rightarrow> bool" where
  "same_lines owner r rows \<longleftrightarrow> queues_inv r \<and> rows_inv owner rows \<and>
     (\<forall>e. set (queue_of r e) = {row \<in> set rows. Entry_EventID row = e})"

lemma same_linesD:
  "same_lines owner r rows \<Longrightarrow> queue_wf e (queue_of r e)"
  "same_lines owner r rows \<Longrightarrow> rows_inv owner rows"
  "same_lines owner r rows \<Longrightarrow> set (queue_of r e) = {row \<in> set rows. Entry_EventID row = e}"
  by (auto simp: same_lines_def queues_inv_def)

lemma queue_order_le: "queue_order strings_Compare a b \<le> 0 \<longleftrightarrow> \<not> Entry_Before b a"
  by (auto simp: queue_order_def Let_def time_Compare_def strings_Compare_def Entry_Before_iff)

lemma rows_inv_place:
  "rows_inv owner rows \<Longrightarrow> a \<in> set rows \<Longrightarrow> b \<in> set rows \<Longrightarrow> Entry_EventID a = Entry_EventID b \<Longrightarrow>
     Entry_UserID a = Entry_UserID b \<Longrightarrow> a = b"
  by (auto simp: rows_inv_def distinct_map dest: inj_onD)

lemma rows_inv_id:
  assumes "rows_inv owner rows" "a \<in> set rows" "b \<in> set rows" "Entry_ID a = Entry_ID b"
  shows "a = b"
proof -
  have "(Entry_EventID a, Entry_UserID a) = (Entry_EventID b, Entry_UserID b)"
    using assms unfolding rows_inv_def by metis
  then show ?thesis using rows_inv_place [OF assms(1-3)] by simp
qed

lemma rows_inv_filter: "rows_inv owner rows \<Longrightarrow> rows_inv owner (filter P rows)"
  by (auto simp: rows_inv_def distinct_map_filter)

lemma rows_total:
  assumes "rows_inv owner rows"
  shows "total_comparator (queue_order strings_Compare) (set rows)"
proof (unfold_locales, goal_cases)
  case (3 x y)
  then show ?case using rows_inv_id [OF assms 3(1,2)] by (auto simp: queue_order_le Entry_Before_iff)
qed (auto simp: queue_order_le Entry_Before_iff)

lemma same_lines_mset:
  assumes "same_lines owner r rows"
  shows "mset (queue_of r e) = mset (filter (\<lambda>row. Entry_EventID row = e) rows)"
proof -
  have "distinct (queue_of r e)" using same_linesD(1) [OF assms, of e] by (simp add: queue_wf_def distinct_map)
  moreover have "distinct rows" using same_linesD(2) [OF assms] by (simp add: rows_inv_def distinct_map)
  ultimately show ?thesis using same_linesD(3) [OF assms, of e] by (intro set_eq_iff_mset_eq_distinct [THEN iffD1]) auto
qed

text \<open>What a statement reads of an event in order is its line.\<close>

lemma rows_in_line:
  assumes "same_lines owner r rows"
  shows "SortFunc (queue_order strings_Compare) (filter (\<lambda>row. Entry_EventID row = e) rows) = queue_of r e"
proof -
  note total = rows_total [OF same_linesD(2) [OF assms]]
  have "comparator (queue_order strings_Compare) (set rows)" using total by (rule total_comparator.axioms(1))
  from comparator.SortFunc_sorted [OF this] have
    "sorted_wrt (\<lambda>x y. queue_order strings_Compare x y \<le> 0)
       (SortFunc (queue_order strings_Compare) (filter (\<lambda>row. Entry_EventID row = e) rows))" by auto
  moreover have "sorted_wrt (\<lambda>x y. queue_order strings_Compare x y \<le> 0) (queue_of r e)"
    using same_linesD(1) [OF assms, of e] by (simp add: queue_wf_def queue_order_le)
  ultimately show ?thesis
    using total_comparator.sorted_unique [OF total] same_lines_mset [OF assms, of e] by simp
qed

text \<open>Counting everybody at or ahead of somebody gives their place.\<close>

lemma count_ahead:
  "queue_sorted q \<Longrightarrow> distinct (map Entry_ID q) \<Longrightarrow> i < length q \<Longrightarrow>
     length (filter (\<lambda>w. \<not> Entry_Before (q ! i) w) q) = Suc i"
proof (induction q arbitrary: i)
  case (Cons x q)
  show ?case
  proof (cases i)
    case 0
    have "Entry_Before x y" if "y \<in> set q" for y
      using Cons.prems(1,2) that Entry_Before_total [of x y] by (auto simp: entry_key_def)
    then show ?thesis using 0 by (simp add: filter_empty_conv)
  next
    case (Suc j)
    then have "\<not> Entry_Before (q ! j) x" using Cons.prems by auto
    then show ?thesis using Suc Cons by simp
  qed
qed simp

lemma pairs_with_one: "length (filter (\<lambda>(w, m). P w m) (List.product xs [y])) = length (filter (\<lambda>w. P w y) xs)"
  by (induction xs) auto

lemma same_count: "mset xs = mset ys \<Longrightarrow> length (filter P xs) = length (filter P ys)"
  by (metis mset_filter size_mset)

lemma position_in_line:
  assumes "same_lines owner r rows"
  shows "waitingPositionSQL strings_Compare e u rows = (case indexOfUser (queue_of r e) u of None \<Rightarrow> 0 | Some i \<Rightarrow> i + 1)"
proof (cases "indexOfUser (queue_of r e) u")
  case None
  then have "u \<notin> Entry_UserID ` {row \<in> set rows. Entry_EventID row = e}"
    using same_linesD(3) [OF assms, of e] by (simp add: indexOfUser_None)
  then have "filter (place_of e u) rows = []" by (auto simp: filter_empty_conv place_of_def)
  then show ?thesis using None by (simp add: waitingPositionSQL_def)
next
  case (Some i)
  let ?q = "queue_of r e" and ?ahead = "\<lambda>me w. \<not> Entry_Before me w"
  have i: "i < length ?q" "Entry_UserID (?q ! i) = u" using indexOfUser_Some [OF Some] by simp_all
  have "?q ! i \<in> {row \<in> set rows. Entry_EventID row = e}"
    unfolding same_linesD(3) [OF assms, symmetric] by (rule nth_mem [OF i(1)])
  then have me: "?q ! i \<in> set rows" "place_of e u (?q ! i)" using i(2) by (simp_all add: place_of_def)
  have "filter (place_of e u) rows = [?q ! i]"
  proof -
    have "distinct rows" using same_linesD(2) [OF assms] by (simp add: rows_inv_def distinct_map)
    moreover have "set (filter (place_of e u) rows) = set [?q ! i]"
      using me rows_inv_place [OF same_linesD(2) [OF assms]] by (auto simp: place_of_def)
    ultimately have "mset (filter (place_of e u) rows) = mset [?q ! i]"
      by (intro set_eq_iff_mset_eq_distinct [THEN iffD1]) auto
    then have "mset (filter (place_of e u) rows) = {#?q ! i#}" by simp
    then show ?thesis unfolding mset_single_iff .
  qed
  then have "waitingPositionSQL strings_Compare e u rows =
      length (filter (?ahead (?q ! i)) (filter (\<lambda>row. Entry_EventID row = e) rows))"
    by (simp add: waitingPositionSQL_def pairs_with_one queue_order_le)
  also have "\<dots> = length (filter (?ahead (?q ! i)) ?q)"
    by (rule same_count [OF same_lines_mset [OF assms, symmetric]])
  also have "\<dots> = Suc i"
  proof (rule count_ahead [OF _ _ i(1)])
    show "queue_sorted ?q" using same_linesD(1) [OF assms, of e] by (simp add: queue_wf_def)
    have "distinct ?q" using same_linesD(1) [OF assms, of e] by (simp add: queue_wf_def distinct_map)
    moreover have "inj_on Entry_ID (set ?q)"
      using same_linesD(3) [OF assms, of e] rows_inv_id [OF same_linesD(2) [OF assms]] by (auto intro!: inj_onI)
    ultimately show "distinct (map Entry_ID ?q)" by (simp add: distinct_map)
  qed
  finally show ?thesis using Some by simp
qed

section \<open>One call\<close>

lemma rows_inv_new:
  assumes "rows_inv owner rows" "owner (Entry_ID x) = (Entry_EventID x, Entry_UserID x)"
    and "\<forall>r \<in> set rows. \<not> place_of (Entry_EventID x) (Entry_UserID x) r"
  shows "rows_inv owner (rows @ [x])" "\<not> list_ex (\<lambda>r. Entry_ID r = Entry_ID x) rows"
proof -
  show "rows_inv owner (rows @ [x])" using assms by (auto simp: rows_inv_def place_of_def)
  have "Entry_ID r \<noteq> Entry_ID x" if "r \<in> set rows" for r
  proof
    assume "Entry_ID r = Entry_ID x"
    then have "(Entry_EventID r, Entry_UserID r) = (Entry_EventID x, Entry_UserID x)"
      using assms(1,2) that unfolding rows_inv_def by metis
    then show False using assms(3) that by (auto simp: place_of_def)
  qed
  then show "\<not> list_ex (\<lambda>r. Entry_ID r = Entry_ID x) rows" by (auto simp: list_ex_iff)
qed

lemma in_line_place:
  assumes "same_lines owner r rows"
  shows "u \<in> Entry_UserID ` set (queue_of r e) \<longleftrightarrow> (\<exists>row \<in> set rows. place_of e u row)"
  unfolding same_linesD(3) [OF assms] place_of_def by auto

lemma same_lines_insert:
  assumes "same_lines owner r rows" "owner (Entry_ID x) = (Entry_EventID x, Entry_UserID x)"
    and "queues_inv r'" "\<forall>row \<in> set rows. \<not> place_of (Entry_EventID x) (Entry_UserID x) row"
    and "\<And>e. queue_of r' e = (if e = Entry_EventID x then insertInOrder (queue_of r e) x else queue_of r e)"
  shows "same_lines owner r' (rows @ [x])"
  using assms(1-4) rows_inv_new(1) [OF same_linesD(2) [OF assms(1)] assms(2,4)]
  by (auto simp: same_lines_def assms(5))

lemma same_lines_filter:
  assumes "same_lines owner r rows" "queues_inv r'"
    and "\<And>e. set (queue_of r' e) = {row \<in> set (queue_of r e). P row}"
  shows "same_lines owner r' (filter P rows)"
  using assms(1,2) same_linesD(3) [OF assms(1)] rows_inv_filter [OF same_linesD(2) [OF assms(1)], of P]
  by (auto simp: same_lines_def assms(3))

lemma Leave_set:
  assumes "queue_wf e (queue_of r e)"
  shows "set (queue_of (Waiting_Leave e u r) e') = {row \<in> set (queue_of r e'). \<not> (e' = e \<and> Entry_UserID row = u)}"
proof (cases "indexOfUser (queue_of r e) u")
  case None
  then show ?thesis using indexOfUser_None [of "queue_of r e" u] by (auto simp: Waiting_Leave_def)
next
  case (Some i)
  have i: "i < length (queue_of r e)" "Entry_UserID (queue_of r e ! i) = u"
    using indexOfUser_Some [OF Some] by simp_all
  obtain a x b where split: "queue_of r e = a @ x # b" "length a = i"
    using id_take_nth_drop [OF i(1)] i(1) by (metis length_take min.absorb2 order_less_imp_le)
  have x: "Entry_UserID x = u" using i(2) split by (metis nth_append_length)
  moreover have "distinct (map Entry_UserID (a @ x # b))" using assms split by (simp add: queue_wf_def)
  ultimately have "Entry_UserID y \<noteq> u" if "y \<in> set (a @ b)" for y using that by (auto simp: rev_image_eqI)
  then have "set (a @ b) = {row \<in> set (queue_of r e). Entry_UserID row \<noteq> u}" using x unfolding split by auto
  moreover have "slices_Delete1 (queue_of r e) i = a @ b" using split by (auto simp: slices_Delete1_def)
  ultimately show ?thesis using Some by (simp add: Waiting_Leave_def)
qed

lemma leave_alike: "same_lines owner r rows \<Longrightarrow> same_lines owner (Waiting_Leave e u r) (Postgres_Leave e u rows)"
  unfolding Postgres_Leave_def
proof (rule same_lines_filter)
  fix e' assume same: "same_lines owner r rows"
  have "Entry_EventID row = e'" if "row \<in> set (queue_of r e')" for row
    using same_linesD(1) [OF same] that by (auto simp: queue_wf_def)
  then show "set (queue_of (Waiting_Leave e u r) e') = {row \<in> set (queue_of r e'). \<not> place_of e u row}"
    using Leave_set [OF same_linesD(1) [OF same], of e u] by (auto simp: place_of_def)
qed (auto simp: same_lines_def Waiting_Leave_inv)

lemma take_alike:
  assumes "same_lines owner r rows" "TakeNext e r = (r', res)"
  obtains rows' where "Postgres_TakeNext strings_Compare e rows = (rows', res)" "same_lines owner r' rows'"
proof (cases "queue_of r e")
  case Nil
  then show ?thesis
    using that [of rows] assms TakeNext_empty [OF Nil] rows_in_line [OF assms(1), of e]
    by (simp add: Postgres_TakeNext_def takeNextWaitingSQL_def)
next
  case (Cons x q)
  let ?rows = "filter (\<lambda>row. Entry_ID row \<noteq> Entry_ID x) rows"
  have front: "res = Inr x" "\<And>e'. queue_of r' e' = (if e' = e then q else queue_of r e')"
    using TakeNext_front [OF Cons] assms(2) by auto
  have mem: "row \<in> set (queue_of r e') \<longleftrightarrow> row \<in> set rows \<and> Entry_EventID row = e'" for row e'
    using same_linesD(3) [OF assms(1), of e'] by auto
  have "x \<notin> set q" using Cons same_linesD(1) [OF assms(1), of e] by (auto simp: queue_wf_def)
  moreover have x: "x \<in> set rows" "Entry_EventID x = e" using mem [of x e] Cons by simp_all
  moreover have "row = x" if "row \<in> set rows" "Entry_ID row = Entry_ID x" for row
    using rows_inv_id [OF same_linesD(2) [OF assms(1)] that(1) x(1) that(2)] .
  ultimately have "row \<in> set (queue_of r' e') \<longleftrightarrow> row \<in> set (queue_of r e') \<and> Entry_ID row \<noteq> Entry_ID x" for row e'
    using mem [of row e'] Cons by (cases "e' = e") (auto simp: front(2))
  then have "set (queue_of r' e') = {row \<in> set (queue_of r e'). Entry_ID row \<noteq> Entry_ID x}" for e' by blast
  then have "same_lines owner r' ?rows"
    using TakeNext_inv [of r e] assms by (intro same_lines_filter [OF assms(1)]) (simp_all add: same_lines_def)
  then show ?thesis
    using that [of ?rows] front(1) rows_in_line [OF assms(1), of e] Cons
    by (simp add: Postgres_TakeNext_def takeNextWaitingSQL_def)
qed

lemma join_alike:
  assumes "same_lines owner r rows" "owner (Entry_ID x) = (Entry_EventID x, Entry_UserID x)" "Entry_EventID x \<in> set events"
    and "Waiting_Join x r = (r', y, p)"
  obtains rows' where "Postgres_Join strings_Compare events x rows = (rows', Inr (y, p))" "same_lines owner r' rows'"
proof -
  let ?e = "Entry_EventID x" and ?u = "Entry_UserID x"
  have inv: "queues_inv r" using assms(1) by (simp add: same_lines_def)
  have place: "Position ?e ?u r' = Inr p" and there: "y \<in> set (queue_of r' ?e)" "Entry_UserID y = ?u"
    and again: "\<exists>row \<in> set rows. place_of ?e ?u row \<Longrightarrow> r' = r"
    and new: "\<not> (\<exists>row \<in> set rows. place_of ?e ?u row) \<Longrightarrow> y = x"
    using join_gives_place [OF inv assms(4)] unfolding in_line_place [OF assms(1)] by auto
  have p: "waitingPositionSQL strings_Compare ?e ?u rows' = p" if "same_lines owner r' rows'" for rows'
    using place by (auto simp: position_in_line [OF that] Position_def split: option.splits)
  show ?thesis
  proof (cases "find (place_of ?e ?u) rows")
    case (Some row)
    then have row: "row \<in> set rows" "place_of ?e ?u row" by (auto simp: find_Some_iff)
    then have r': "r' = r" using again by blast
    have "y \<in> set rows" "Entry_EventID y = ?e" using there(1) same_linesD(3) [OF assms(1), of ?e] by (auto simp: r')
    then have "y = row"
      using rows_inv_place [OF same_linesD(2) [OF assms(1)] _ row(1)] row(2) there(2) by (simp add: place_of_def)
    then show ?thesis using that [of rows] Some p assms(1) r' by (simp add: Postgres_Join_def joinWaitingListSQL_def)
  next
    case None
    then have none: "\<forall>row \<in> set rows. \<not> place_of ?e ?u row" by (simp add: find_None_iff)
    have "same_lines owner r' (rows @ [x])"
    proof (rule same_lines_insert [OF assms(1,2) _ none])
      show "queues_inv r'" using Waiting_Join_inv [OF inv, of x] assms(4) by simp
      show "queue_of r' e = (if e = ?e then insertInOrder (queue_of r e) x else queue_of r e)" for e
        using Waiting_Join_new [of x r e] none in_line_place [OF assms(1), of ?u ?e] assms(4) by simp
    qed
    moreover have "\<not> list_ex (\<lambda>row. Entry_ID row = Entry_ID x) rows"
      by (rule rows_inv_new(2) [OF same_linesD(2) [OF assms(1)] assms(2) none])
    ultimately show ?thesis
      using that [of "rows @ [x]"] None p new none assms(3)
      by (simp add: Postgres_Join_def joinWaitingListSQL_def)
  qed
qed

lemma rejoin_alike:
  assumes "same_lines owner r rows" "owner (Entry_ID x) = (Entry_EventID x, Entry_UserID x)" "Entry_EventID x \<in> set events"
  obtains rows' where "Postgres_Rejoin events x rows = (rows', Inr ())" "same_lines owner (Rejoin x r) rows'"
proof (cases "\<exists>row \<in> set rows. place_of (Entry_EventID x) (Entry_UserID x) row")
  case True
  then have "indexOfUser (queue_of r (Entry_EventID x)) (Entry_UserID x) \<noteq> None"
    unfolding indexOfUser_None in_line_place [OF assms(1)] by simp
  then have "Rejoin x r = r" by (simp add: Rejoin_def Let_def)
  moreover have "Postgres_Rejoin events x rows = (rows, Inr ())"
    using True by (auto simp: Postgres_Rejoin_def rejoinWaitingListSQL_def list_ex_iff)
  ultimately show ?thesis using that assms(1) by simp
next
  case False
  then have none: "\<forall>row \<in> set rows. \<not> place_of (Entry_EventID x) (Entry_UserID x) row" by blast
  have "same_lines owner (Rejoin x r) (rows @ [x])"
  proof (rule same_lines_insert [OF assms(1,2) _ none])
    show "queues_inv (Rejoin x r)" using assms(1) by (simp add: Rejoin_inv same_lines_def)
    show "queue_of (Rejoin x r) e = (if e = Entry_EventID x then insertInOrder (queue_of r e) x else queue_of r e)" for e
      using none in_line_place [OF assms(1), of "Entry_UserID x" "Entry_EventID x"] by (simp add: queue_of_Rejoin)
  qed
  moreover have "Postgres_Rejoin events x rows = (rows @ [x], Inr ())"
    using none rows_inv_new(2) [OF same_linesD(2) [OF assms(1)] assms(2) none] assms(3)
    by (auto simp: Postgres_Rejoin_def rejoinWaitingListSQL_def list_ex_iff)
  ultimately show ?thesis using that by blast
qed

lemma drain_alike:
  assumes "same_lines owner r rows"
  shows "same_lines owner (fst (Drain e r)) (fst (Postgres_Drain e rows)) \<and>
    mset (snd (Drain e r)) = mset (snd (Postgres_Drain e rows))"
proof
  have "Entry_EventID row = e'" if "row \<in> set (queue_of r e')" for row e'
    using same_linesD(1) [OF assms] that by (auto simp: queue_wf_def)
  then show "same_lines owner (fst (Drain e r)) (fst (Postgres_Drain e rows))"
    using assms unfolding Postgres_Drain_def fst_conv
    by (intro same_lines_filter [OF assms]) (auto simp: Drain_inv same_lines_def)
  show "mset (snd (Drain e r)) = mset (snd (Postgres_Drain e rows))"
    using same_lines_mset [OF assms] by (simp add: Postgres_Drain_def)
qed

lemma place_alike: "same_lines owner r rows \<Longrightarrow> Postgres_Position strings_Compare e u rows = Position e u r"
  by (simp add: Postgres_Position_def position_in_line Position_def Let_def split: option.split)

section \<open>What callers see\<close>

datatype waiting_call =
    JoinLine WaitingEntry | LeaveLine string string | TakeFromLine string | RejoinLine WaitingEntry
  | DrainLine string | AskPlace string string

datatype waiting_answer =
    Joined "(WaitingEntry \<times> nat) result" | GoneFromLine | Taken "WaitingEntry result" | Rejoined "unit result"
  | Drained "WaitingEntry list" | Place "nat result"

primrec memory_lines :: "waiting_call \<Rightarrow> WaitingStore \<Rightarrow> WaitingStore \<times> waiting_answer" where
  "memory_lines (JoinLine x) r = (case Waiting_Join x r of (r', y, p) \<Rightarrow> (r', Joined (Inr (y, p))))"
| "memory_lines (LeaveLine e u) r = (Waiting_Leave e u r, GoneFromLine)"
| "memory_lines (TakeFromLine e) r = (case TakeNext e r of (r', res) \<Rightarrow> (r', Taken res))"
| "memory_lines (RejoinLine x) r = (Rejoin x r, Rejoined (Inr ()))"
| "memory_lines (DrainLine e) r = (case Drain e r of (r', xs) \<Rightarrow> (r', Drained xs))"
| "memory_lines (AskPlace e u) r = (r, Place (Position e u r))"

primrec table_lines ::
  "(string \<Rightarrow> string \<Rightarrow> int) \<Rightarrow> string list \<Rightarrow> waiting_call \<Rightarrow> WaitingRows \<Rightarrow> WaitingRows \<times> waiting_answer" where
  "table_lines collate events (JoinLine x) rows =
     (case Postgres_Join collate events x rows of (rows', res) \<Rightarrow> (rows', Joined res))"
| "table_lines collate events (LeaveLine e u) rows = (Postgres_Leave e u rows, GoneFromLine)"
| "table_lines collate events (TakeFromLine e) rows =
     (case Postgres_TakeNext collate e rows of (rows', res) \<Rightarrow> (rows', Taken res))"
| "table_lines collate events (RejoinLine x) rows =
     (case Postgres_Rejoin events x rows of (rows', res) \<Rightarrow> (rows', Rejoined res))"
| "table_lines collate events (DrainLine e) rows = (case Postgres_Drain e rows of (rows', xs) \<Rightarrow> (rows', Drained xs))"
| "table_lines collate events (AskPlace e u) rows = (rows, Place (Postgres_Position collate e u rows))"

text \<open>The same answer, but that nothing says in which order a drained line comes back.\<close>

definition same_waiting_answer :: "waiting_answer \<Rightarrow> waiting_answer \<Rightarrow> bool" where
  "same_waiting_answer a b \<longleftrightarrow>
     (case (a, b) of (Drained xs, Drained ys) \<Rightarrow> mset xs = mset ys | _ \<Rightarrow> a = b)"

lemma same_waiting_answer_refl [simp]: "same_waiting_answer a a"
  by (cases a) (simp_all add: same_waiting_answer_def)

definition for_known_event :: "string list \<Rightarrow> (string \<Rightarrow> string \<times> string) \<Rightarrow> WaitingEntry \<Rightarrow> bool" where
  "for_known_event events owner x \<longleftrightarrow>
     Entry_EventID x \<in> set events \<and> owner (Entry_ID x) = (Entry_EventID x, Entry_UserID x)"

primrec permitted_wait :: "string list \<Rightarrow> (string \<Rightarrow> string \<times> string) \<Rightarrow> waiting_call \<Rightarrow> bool" where
  "permitted_wait events owner (JoinLine x) = for_known_event events owner x"
| "permitted_wait events owner (RejoinLine x) = for_known_event events owner x"
| "permitted_wait events owner (LeaveLine _ _) = True"
| "permitted_wait events owner (TakeFromLine _) = True"
| "permitted_wait events owner (DrainLine _) = True"
| "permitted_wait events owner (AskPlace _ _) = True"

interpretation line_stores: same_store "same_lines owner" "\<lambda>_. permitted_wait events owner" memory_lines
  "table_lines strings_Compare events" same_waiting_answer for events owner
proof (unfold_locales, goal_cases)
  case (1 r rows c r' a rows' b)
  show ?case
  proof (cases c)
    case (JoinLine x)
    obtain r1 y p where m: "Waiting_Join x r = (r1, y, p)" by (metis prod_cases3)
    have x: "Entry_EventID x \<in> set events" "owner (Entry_ID x) = (Entry_EventID x, Entry_UserID x)"
      using 1(2) by (simp_all add: JoinLine for_known_event_def)
    obtain rows1 where "Postgres_Join strings_Compare events x rows = (rows1, Inr (y, p))" "same_lines owner r1 rows1"
      using join_alike [OF 1(1) x(2,1) m] .
    then show ?thesis using 1(3,4) by (simp add: JoinLine m)
  next
    case (TakeFromLine e)
    obtain r1 res where m: "TakeNext e r = (r1, res)" by (meson surj_pair)
    obtain rows1 where "Postgres_TakeNext strings_Compare e rows = (rows1, res)" "same_lines owner r1 rows1"
      using take_alike [OF 1(1) m] .
    then show ?thesis using 1(3,4) by (simp add: TakeFromLine m)
  next
    case (RejoinLine x)
    have x: "Entry_EventID x \<in> set events" "owner (Entry_ID x) = (Entry_EventID x, Entry_UserID x)"
      using 1(2) by (simp_all add: RejoinLine for_known_event_def)
    obtain rows1 where "Postgres_Rejoin events x rows = (rows1, Inr ())" "same_lines owner (Rejoin x r) rows1"
      using rejoin_alike [OF 1(1) x(2,1)] .
    then show ?thesis using 1(3,4) by (simp add: RejoinLine)
  next
    case (DrainLine e)
    then show ?thesis using 1 drain_alike [OF 1(1), of e] by (auto simp: same_waiting_answer_def simp del: Drain_simps split: prod.splits)
  qed (use 1 leave_alike place_alike in auto)
qed



end
