(* ===== verification/Event_Table.thy ===== *)
theory Event_Table
  imports Event_Store Seat_Table Waiting_Table
begin

text \<open>
  The events in Postgres: \<open>internal/repository/postgres_event_repository.go\<close> over the rows of the table \<open>events\<close>
  (\<open>migrations/00001_init.sql\<close>, \<open>00008_event_cancellation.sql\<close>, \<open>00014_event_details.sql\<close>, \<open>00015_event_category.sql\<close>). Deleting a row
  takes the seats and the places in line that refer to it along. The database keeps the instants it is given, and fails
  only by its constraints.
\<close>

section \<open>Rows and statements\<close>

record eventRow =
  er_id :: string
  er_name :: string
  er_venue :: string
  er_starts_at :: time
  er_cancelled_at :: "time option"
  er_city :: string
  er_category :: string
  er_image_url :: string
  er_description :: string
  er_rules :: string

type_synonym EventTable = "eventRow gomap"

definition scanEvent :: "eventRow \<Rightarrow> Event result" where
  "scanEvent row =
     (case ParseCategory (er_category row) of
        Inl err \<Rightarrow> Inl (Wrapf ''reading event'' [err])
      | Inr category \<Rightarrow>
          Inr \<lparr>Event_ID = er_id row, Event_Name = er_name row, Event_Venue = er_venue row,
               Event_StartsAt = er_starts_at row,
               Event_Details = \<lparr>City = er_city row, Details_Category = category, ImageURL = er_image_url row,
                                Description = er_description row, Rules = er_rules row\<rparr>,
               Event_CancelledAt = instant (er_cancelled_at row)\<rparr>)"

text \<open>The columns an event is written to; the stamp of a withdrawal is not among them.\<close>

definition eventValues :: "Event \<Rightarrow> eventRow" where
  "eventValues event =
     (let details = WithDefaults (Event_Details event) in
      \<lparr>er_id = Event_ID event, er_name = Event_Name event, er_venue = Event_Venue event,
       er_starts_at = Event_StartsAt event, er_cancelled_at = None, er_city = City details,
       er_category = Details_Category details, er_image_url = ImageURL details,
       er_description = Description details, er_rules = Rules details\<rparr>)"

definition event_checks :: "eventRow \<Rightarrow> bool" where
  "event_checks row \<longleftrightarrow>
     er_category row \<in> {''concert'', ''theatre'', ''comedy'', ''festival'', ''sport'', ''family'', ''other''}"

definition insertEventSQL :: "Event \<Rightarrow> EventTable \<Rightarrow> (EventTable \<times> int) result" where
  "insertEventSQL event t =
     (if \<not> event_checks (eventValues event) then Inl (Opaque ''constraint violation'')
      else if map_of t (Event_ID event) \<noteq> None then Inr (t, 0)
      else Inr (AList.update (Event_ID event) (eventValues event) t, 1))"

definition updateEventSQL :: "Event \<Rightarrow> EventTable \<Rightarrow> EventTable result" where
  "updateEventSQL event t =
     (let row = (eventValues event)\<lparr>er_cancelled_at := nullInstant (Event_CancelledAt event)\<rparr> in
      case map_of t (Event_ID event) of
        None \<Rightarrow> Inr t
      | Some _ \<Rightarrow>
          if \<not> event_checks row then Inl (Opaque ''constraint violation'')
          else Inr (AList.update (Event_ID event) row t))"

text \<open>The three tables after the delete, and how many events went.\<close>

definition deleteEventSQL ::
  "string \<Rightarrow> EventTable \<times> SeatTable \<times> WaitingRows \<Rightarrow> (EventTable \<times> SeatTable \<times> WaitingRows) \<times> int" where
  "deleteEventSQL eventID db =
     (let (t, seats, lines) = db in
      if map_of t eventID = None
         \<or> list_ex (\<lambda>(k, seat). row_event_id seat = eventID \<and> row_status seat \<noteq> ''available'') seats
      then (db, 0)
      else ((AList.delete eventID t, filter (\<lambda>(k, seat). row_event_id seat \<noteq> eventID) seats,
             filter (\<lambda>row. Entry_EventID row \<noteq> eventID) lines), 1))"

definition listing_order :: "(string \<Rightarrow> string \<Rightarrow> int) \<Rightarrow> eventRow \<Rightarrow> eventRow \<Rightarrow> int" where
  "listing_order collate a b =
     (let when = time_Compare (er_starts_at a) (er_starts_at b) in if when \<noteq> 0 then when else collate (er_id a) (er_id b))"

section \<open>The operations\<close>

definition Postgres_GetEvent :: "string \<Rightarrow> EventTable \<Rightarrow> Event result" where
  "Postgres_GetEvent eventID t =
     (case map_of t eventID of
        None \<Rightarrow> Inl (Repository ErrEventNotFound)
      | Some row \<Rightarrow>
          (case scanEvent row of Inl err \<Rightarrow> Inl (Wrapf ''reading event'' [err]) | Inr event \<Rightarrow> Inr event))"

fun scan_events :: "eventRow list \<Rightarrow> Event list result" where
  "scan_events [] = Inr []"
| "scan_events (row # rows) =
     (case scanEvent row of
        Inl err \<Rightarrow> Inl (Wrapf ''scanning an event'' [err])
      | Inr event \<Rightarrow> (case scan_events rows of Inl err \<Rightarrow> Inl err | Inr events \<Rightarrow> Inr (event # events)))"

definition Postgres_ListEvents :: "(string \<Rightarrow> string \<Rightarrow> int) \<Rightarrow> EventTable \<Rightarrow> Event list result" where
  "Postgres_ListEvents collate t = scan_events (SortFunc (listing_order collate) (vals t))"

definition Postgres_UpdateEvent ::
  "string \<Rightarrow> (Event \<Rightarrow> Event result) \<Rightarrow> EventTable \<Rightarrow> EventTable \<times> Event result" where
  "Postgres_UpdateEvent eventID mutate t =
     (case map_of t eventID of
        None \<Rightarrow> (t, Inl (Repository ErrEventNotFound))
      | Some row \<Rightarrow>
          (case scanEvent row of
             Inl err \<Rightarrow> (t, Inl (Wrapf ''updating event'' [err]))
           | Inr stored \<Rightarrow>
               (case mutate stored of
                  Inl err \<Rightarrow> (t, Inl err)
                | Inr event \<Rightarrow>
                    (case updateEventSQL event t of
                       Inl err \<Rightarrow> (t, Inl (Wrapf ''updating event'' [err]))
                     | Inr t' \<Rightarrow> (t', Inr event)))))"

definition Postgres_DeleteEvent ::
  "string \<Rightarrow> EventTable \<times> SeatTable \<times> WaitingRows \<Rightarrow> (EventTable \<times> SeatTable \<times> WaitingRows) \<times> unit result" where
  "Postgres_DeleteEvent eventID db =
     (let (db', affected) = deleteEventSQL eventID db in
      if affected = 0 then
        (case Postgres_GetEvent eventID (fst db') of
           Inl err \<Rightarrow> (db', Inl err)
         | Inr _ \<Rightarrow> (db', Inl (Repository ErrEventInUse)))
      else (db', Inr ()))"

definition Postgres_CreateEvent :: "Event \<Rightarrow> EventTable \<Rightarrow> EventTable \<times> unit result" where
  "Postgres_CreateEvent event t =
     (case insertEventSQL event t of
        Inl err \<Rightarrow> (t, Inl (Wrapf ''creating an event'' [err]))
      | Inr (t', affected) \<Rightarrow> if affected = 0 then (t', Inl (Repository ErrEventExists)) else (t', Inr ()))"

text \<open>A batch is one transaction.\<close>

fun insert_each :: "Event list \<Rightarrow> EventTable \<Rightarrow> EventTable result" where
  "insert_each [] t = Inr t"
| "insert_each (event # events) t =
     (case insertEventSQL event t of Inl err \<Rightarrow> Inl err | Inr (t', _) \<Rightarrow> insert_each events t')"

definition Postgres_InsertEvents :: "Event list \<Rightarrow> EventTable \<Rightarrow> EventTable \<times> unit result" where
  "Postgres_InsertEvents events t =
     (case insert_each events t of
        Inl err \<Rightarrow> (t, Inl (Wrapf ''inserting events'' [err]))
      | Inr t' \<Rightarrow> (t', Inr ()))"

section \<open>Rows and events\<close>

text \<open>What a row that meets its constraint is read as.\<close>

definition event_of :: "eventRow \<Rightarrow> Event" where
  "event_of row =
     \<lparr>Event_ID = er_id row, Event_Name = er_name row, Event_Venue = er_venue row, Event_StartsAt = er_starts_at row,
      Event_Details = \<lparr>City = er_city row, Details_Category = er_category row, ImageURL = er_image_url row,
                       Description = er_description row, Rules = er_rules row\<rparr>,
      Event_CancelledAt = instant (er_cancelled_at row)\<rparr>"

lemma scanEvent_checked: "event_checks row \<Longrightarrow> scanEvent row = Inr (event_of row)"
  by (auto simp: scanEvent_def event_of_def event_checks_def Categories_def ParseCategory_def)

definition writable :: "Event \<Rightarrow> bool" where
  "writable event \<longleftrightarrow> Details_Category (Event_Details event) \<in> insert '''' (set Categories)"

lemma eventValues_checked: "writable event \<Longrightarrow> event_checks (eventValues event)"
  by (auto simp: writable_def event_checks_def eventValues_def Let_def WithDefaults_def Categories_def DefaultCategory_def)

lemma event_checks_stamp [simp]: "event_checks (row\<lparr>er_cancelled_at := s\<rparr>) = event_checks row"
  by (simp add: event_checks_def)

lemma event_of_written:
  "event_of ((eventValues event)\<lparr>er_cancelled_at := nullInstant (Event_CancelledAt event)\<rparr>) = storable event"
  by (cases event) (auto simp: event_of_def eventValues_def storable_def Let_def instant_def nullInstant_def IsZero_def)

lemma event_of_inserted: "\<not> IsCancelled event \<Longrightarrow> event_of (eventValues event) = storable event"
  by (cases event) (auto simp: event_of_def eventValues_def storable_def Let_def instant_def IsCancelled_def IsZero_def)

definition event_table_inv :: "EventTable \<Rightarrow> bool" where
  "event_table_inv t \<longleftrightarrow> gomap_ok t \<and> (\<forall>k row. map_of t k = Some row \<longrightarrow> er_id row = k \<and> event_checks row)"

definition same_events :: "EventStore \<Rightarrow> EventTable \<Rightarrow> bool" where
  "same_events r t \<longleftrightarrow> gomap_ok r \<and> event_table_inv t \<and> (\<forall>k. map_of r k = map_option event_of (map_of t k))"

lemma same_eventsD:
  "same_events r t \<Longrightarrow> gomap_ok r" "same_events r t \<Longrightarrow> gomap_ok t"
  "same_events r t \<Longrightarrow> map_of t k = Some row \<Longrightarrow> er_id row = k \<and> event_checks row"
  "same_events r t \<Longrightarrow> map_of r k = map_option event_of (map_of t k)"
  by (auto simp: same_events_def event_table_inv_def)

lemma event_of_id [simp]: "Event_ID (event_of row) = er_id row"
  by (simp add: event_of_def)

lemma event_of_starts: "Event_StartsAt (event_of row) = er_starts_at row"
  by (simp add: event_of_def)

lemma eventValues_id [simp]: "er_id (eventValues event) = Event_ID event"
  by (simp add: eventValues_def Let_def)

lemma same_events_update:
  assumes "same_events r t" "event_checks row" "er_id row = k" "event_of row = e"
  shows "same_events (AList.update k e r) (AList.update k row t)"
  using assms same_eventsD(3) [OF assms(1)]
  by (auto simp: same_events_def event_table_inv_def simp del: map_of_eq_Some_iff split: if_splits)

lemma same_events_delete: "same_events r t \<Longrightarrow> same_events (AList.delete k r) (AList.delete k t)"
  by (auto simp: same_events_def event_table_inv_def simp del: map_of_eq_Some_iff split: if_splits)

lemma create_alike:
  assumes "same_events r t" "writable event" "\<not> IsCancelled event"
  shows "case CreateEvent event r of
      Inl err \<Rightarrow> Postgres_CreateEvent event t = (t, Inl err)
    | Inr r' \<Rightarrow> \<exists>t'. Postgres_CreateEvent event t = (t', Inr ()) \<and> same_events r' t'"
  using eventValues_checked [OF assms(2)] same_eventsD(4) [OF assms(1), of "Event_ID event"]
    same_events_update [OF assms(1) eventValues_checked [OF assms(2)] eventValues_id event_of_inserted [OF assms(3)]]
  by (cases "map_of t (Event_ID event)") (simp_all add: CreateEvent_def Postgres_CreateEvent_def insertEventSQL_def)

lemma get_alike: "same_events r t \<Longrightarrow> Postgres_GetEvent k t = GetEvent k r"
  using same_eventsD(3,4) [of r t k]
  by (cases "map_of t k") (simp_all add: Postgres_GetEvent_def GetEvent_def scanEvent_checked del: map_of_eq_Some_iff)

definition keeps_writable :: "(Event \<Rightarrow> Event result) \<Rightarrow> bool" where
  "keeps_writable f \<longleftrightarrow> (\<forall>e e'. writable e \<longrightarrow> f e = Inr e' \<longrightarrow> Event_ID e' = Event_ID e \<and> writable e')"

lemma event_of_writable: "event_checks row \<Longrightarrow> writable (event_of row)"
  by (auto simp: writable_def event_of_def event_checks_def Categories_def)

lemma update_alike:
  assumes "same_events r t" "keeps_writable f" "UpdateEvent k f r = (r', res)"
  obtains t' where "Postgres_UpdateEvent k f t = (t', res)" "same_events r' t'"
proof (cases "map_of t k")
  case None
  then show ?thesis
    using that [of t] assms(1,3) same_eventsD(4) [OF assms(1), of k]
    by (simp add: UpdateEvent_def Postgres_UpdateEvent_def)
next
  case (Some row)
  have row: "er_id row = k" "event_checks row" using same_eventsD(3) [OF assms(1) Some] by simp_all
  have stored: "map_of r k = Some (event_of row)" using same_eventsD(4) [OF assms(1), of k] Some by simp
  show ?thesis
  proof (cases "f (event_of row)")
    case (Inl err)
    then show ?thesis
      using that [of t] assms(1,3) Some stored
      by (simp add: UpdateEvent_def Postgres_UpdateEvent_def scanEvent_checked [OF row(2)] del: map_of_eq_Some_iff)
  next
    case (Inr event)
    have "Event_ID event = Event_ID (event_of row) \<and> writable event"
      using assms(2) event_of_writable [OF row(2)] Inr unfolding keeps_writable_def by blast
    then have e: "Event_ID event = k" "writable event" using row(1) by simp_all
    let ?row = "(eventValues event)\<lparr>er_cancelled_at := nullInstant (Event_CancelledAt event)\<rparr>"
    have "same_events (AList.update k (storable event) r) (AList.update k ?row t)"
      by (rule same_events_update [OF assms(1) _ _ event_of_written]) (simp_all add: eventValues_checked [OF e(2)] e(1))
    moreover have "UpdateEvent k f r = (AList.update k (storable event) r, Inr event)"
      by (simp only: UpdateEvent_def stored option.case Inr sum.case)
    moreover have "updateEventSQL event t = Inr (AList.update k ?row t)"
      by (simp only: updateEventSQL_def e(1) Some option.case Let_def event_checks_stamp eventValues_checked [OF e(2)]
          not_True_eq_False if_False)
    then have "Postgres_UpdateEvent k f t = (AList.update k ?row t, Inr event)"
      by (simp only: Postgres_UpdateEvent_def Some option.case scanEvent_checked [OF row(2)] sum.case Inr)
    ultimately show ?thesis using that assms(3) by simp
  qed
qed

lemma same_values:
  assumes "gomap_ok a" "gomap_ok b" "\<And>k. map_of a k = map_option f (map_of b k)"
  shows "mset (vals a) = mset (map f (vals b))"
proof -
  let ?b = "map (\<lambda>(k, v). (k, f v)) b"
  have "map_of a = map_of ?b" using assms(3) by (simp add: fun_eq_iff map_of_map)
  moreover have keys: "keys ?b = keys b" by (simp add: case_prod_unfold comp_def)
  ultimately have "set a = set ?b" using assms(1,2) map_of_inject_set by metis
  moreover have "distinct a" "distinct ?b" using assms(1,2) keys by (metis distinct_map)+
  ultimately have "mset a = mset ?b" by (simp only: set_eq_iff_mset_eq_distinct)
  then have "image_mset snd (mset a) = image_mset snd (mset ?b)" by simp
  then show ?thesis by (simp add: case_prod_unfold comp_def image_mset.compositionality)
qed

lemma SortFunc_map: "(\<And>x y. cmp (f x) (f y) = cmp' x y) \<Longrightarrow> map f (SortFunc cmp' xs) = SortFunc cmp (map f xs)"
proof (induction xs)
  case (Cons x xs)
  have "map f (insert_by cmp' x ys) = insert_by cmp (f x) (map f ys)" for ys
    using Cons.prems by (induction ys) simp_all
  then show ?case using Cons by simp
qed simp

lemma scan_events_checked: "list_all event_checks rows \<Longrightarrow> scan_events rows = Inr (map event_of rows)"
  by (induction rows) (simp_all add: scanEvent_checked)

lemma event_cmp_antisym: "event_cmp a b \<le> 0 \<Longrightarrow> event_cmp b a \<le> 0 \<Longrightarrow> Event_ID a = Event_ID b"
  by (auto simp: event_cmp_def Let_def time_Compare_def strings_Compare_def split: if_splits)

lemma list_alike:
  assumes "same_events r t"
  shows "Postgres_ListEvents strings_Compare t = Inr (ListEvents r)"
proof -
  have rows: "event_checks row \<and> map_of t (er_id row) = Some row" if row: "row \<in> set (vals t)" for row
  proof -
    obtain k where "map_of t k = Some row" using row unfolding vals_conv [OF same_eventsD(2) [OF assms]] by blast
    then show ?thesis using same_eventsD(3) [OF assms, of k] by auto
  qed
  then have "Postgres_ListEvents strings_Compare t = Inr (map event_of (SortFunc (listing_order strings_Compare) (vals t)))"
    unfolding Postgres_ListEvents_def by (intro scan_events_checked) (simp add: list_all_iff)
  also have "\<dots> = Inr (SortFunc event_cmp (map event_of (vals t)))"
    by (subst SortFunc_map [of event_cmp]) (simp_all add: event_cmp_def listing_order_def Let_def event_of_starts)
  also have "SortFunc event_cmp (map event_of (vals t)) = ListEvents r"
    unfolding ListEvents_def
  proof (rule total_comparator.SortFunc_order_free [OF _ _ same_values [OF same_eventsD(1,2) [OF assms], symmetric], of event_cmp])
    show "total_comparator event_cmp (set (map event_of (vals t)))"
    proof (unfold_locales, goal_cases)
      case (1 x y)
      show ?case by (rule event_order.cmp_total) simp_all
    next
      case (2 x y z)
      show ?case by (rule event_order.cmp_trans [OF _ _ _ 2(4,5)]) simp_all
    next
      case (3 x y)
      obtain a b where ab: "a \<in> set (vals t)" "b \<in> set (vals t)" "x = event_of a" "y = event_of b"
        using 3(1,2) unfolding set_map by blast
      have "Event_ID x = Event_ID y" using 3(3,4) by (rule event_cmp_antisym)
      then have "er_id a = er_id b" by (simp only: ab(3,4) event_of_id)
      then have "a = b" using rows [OF ab(1)] rows [OF ab(2)] by (metis option.inject)
      then show ?case by (simp only: ab(3,4))
    qed
  qed (rule subset_refl, rule same_eventsD(4) [OF assms])
  finally show ?thesis .
qed

section \<open>Deleting\<close>

text \<open>Both stores see the same seats of an event taken.\<close>

definition taken_memory :: "SeatStore \<Rightarrow> string \<Rightarrow> bool" where
  "taken_memory seats e \<longleftrightarrow> \<not> all_available (ListSeats e seats)"

definition taken_rows :: "SeatTable \<Rightarrow> string \<Rightarrow> bool" where
  "taken_rows seats e \<longleftrightarrow> list_ex (\<lambda>(k, seat). row_event_id seat = e \<and> row_status seat \<noteq> ''available'') seats"

lemma toDomain_status: "toDomain row = Inr s \<Longrightarrow> Seat_Status s = StatusAvailable \<longleftrightarrow> row_status row = ''available''"
  by (auto simp: toDomain_def ParseSeatStatus_def split: sum.splits if_splits)

lemma same_taken:
  assumes "seats_inv seats" "table_inv st" "same_seats seats st" "slash_free e"
  shows "taken_memory seats e = taken_rows st e"
proof
  have at: "table_seat st e i = map_of seats (seatKey e i)" for i
    using assms(3,4) by (simp add: same_seats_def agree_def)
  {
    assume "taken_memory seats e"
    then obtain s where s: "s \<in> set (vals seats)" "Seat_EventID s = e" "Seat_Status s \<noteq> StatusAvailable"
      by (auto simp: taken_memory_def all_available_iff set_ListSeats)
    then obtain k where k: "map_of seats k = Some s" using assms(1) vals_conv [of seats s] by (auto simp: seats_inv_def)
    then have "k = seatKey e (Seat_ID s)" using assms(1) s(2) by (auto simp: seats_inv_def seat_filed_def)
    then have "table_seat st e (Seat_ID s) = Some s" using at k by simp
    then obtain row where row: "map_of st (e, Seat_ID s) = Some row" "toDomain row = Inr s"
      by (rule table_seat_Some [OF assms(2)])
    then have "row_event_id row = e" "row_status row \<noteq> ''available''"
      using table_invD(2) [OF assms(2) row(1)] toDomain_status [OF row(2)] s(3) by auto
    then show "taken_rows st e" using map_of_SomeD [OF row(1)] by (auto simp: taken_rows_def list_ex_iff)
  }
  {
    assume "taken_rows st e"
    then obtain k row where row: "(k, row) \<in> set st" "row_event_id row = e" "row_status row \<noteq> ''available''"
      by (auto simp: taken_rows_def list_ex_iff)
    then have m: "map_of st k = Some row" using in_table [OF table_invD(1) [OF assms(2)]] by simp
    then have k: "k = (e, row_id row)" using table_invD(2) [OF assms(2) m] row(2) by simp
    obtain s where s: "toDomain row = Inr s" "Seat_EventID s = e"
      using table_row [OF assms(2), of e "row_id row" row] m k by metis
    then have "map_of seats (seatKey e (row_id row)) = Some s"
      using at [of "row_id row"] m k by (simp add: table_seat_def)
    then have "s \<in> set (vals seats)" using map_of_SomeD by force
    then show "taken_memory seats e"
      using s toDomain_status [OF s(1)] row(3) by (auto simp: taken_memory_def all_available_iff set_ListSeats)
  }
qed

text \<open>The memory store next to its seats, the tables next to each other. A delete takes the rows of free seats only.\<close>

definition same_catalogue :: "EventStore \<times> SeatStore \<Rightarrow> EventTable \<times> SeatTable \<times> WaitingRows \<Rightarrow> bool" where
  "same_catalogue m db \<longleftrightarrow> same_events (fst m) (fst db) \<and>
     (\<forall>e. slash_free e \<longrightarrow> taken_memory (snd m) e = taken_rows (fst (snd db)) e)"

lemma delete_alike:
  assumes "same_catalogue (r, seats) db" "slash_free e"
  shows "case DeleteEvent e (Some seats) r of
      Inl err \<Rightarrow> Postgres_DeleteEvent e db = (db, Inl err)
    | Inr r' \<Rightarrow> \<exists>db'. Postgres_DeleteEvent e db = (db', Inr ()) \<and> same_catalogue (r', seats) db'"
proof -
  obtain t st lines where db: "db = (t, st, lines)" by (metis prod_cases3)
  have ev: "same_events r t" and taken: "\<And>e. slash_free e \<Longrightarrow> taken_memory seats e = taken_rows st e"
    using assms(1) by (simp_all add: same_catalogue_def db)
  show ?thesis
  proof (cases "map_of t e")
    case None
    have "map_of r e = None" using same_eventsD(4) [OF ev, of e] None by simp
    then have "DeleteEvent e (Some seats) r = Inl (Repository ErrEventNotFound)" by (simp only: DeleteEvent_def simp_thms if_True)
    moreover have "Postgres_DeleteEvent e db = (db, Inl (Repository ErrEventNotFound))"
      by (simp only: Postgres_DeleteEvent_def deleteEventSQL_def db None Postgres_GetEvent_def Let_def prod.case
          option.case sum.case fst_conv simp_thms if_True)
    ultimately show ?thesis by simp
  next
    case (Some row)
    have there: "map_of r e \<noteq> None" using same_eventsD(4) [OF ev, of e] Some by simp
    show ?thesis
    proof (cases "taken_memory seats e")
      case True
      have "DeleteEvent e (Some seats) r = Inl (Repository ErrEventInUse)"
        using there True by (simp add: DeleteEvent_def taken_memory_def del: map_of_eq_Some_iff)
      moreover have "GetEvent e r = Inr (event_of row)"
        using same_eventsD(4) [OF ev, of e] Some by (simp add: GetEvent_def del: map_of_eq_Some_iff)
      then have "Postgres_DeleteEvent e db = (db, Inl (Repository ErrEventInUse))"
        using taken [OF assms(2)] True get_alike [OF ev, of e]
        by (simp add: Postgres_DeleteEvent_def deleteEventSQL_def db taken_rows_def del: map_of_eq_Some_iff)
      ultimately show ?thesis by simp
    next
      case False
      let ?st = "filter (\<lambda>(k, seat). row_event_id seat \<noteq> e) st"
      have "DeleteEvent e (Some seats) r = Inr (AList.delete e r)"
        using there False by (simp add: DeleteEvent_def taken_memory_def del: map_of_eq_Some_iff)
      moreover have "Postgres_DeleteEvent e db =
          ((AList.delete e t, ?st, filter (\<lambda>row. Entry_EventID row \<noteq> e) lines), Inr ())"
        using taken [OF assms(2)] False Some
        by (simp add: Postgres_DeleteEvent_def deleteEventSQL_def db taken_rows_def del: map_of_eq_Some_iff)
      moreover have "taken_rows ?st e' = taken_memory seats e'" if "slash_free e'" for e'
      proof (cases "e' = e")
        case True
        then show ?thesis using False by (auto simp: taken_rows_def list_ex_iff)
      next
        case other: False
        then have "taken_rows ?st e' = taken_rows st e'" by (auto simp: taken_rows_def list_ex_iff)
        then show ?thesis using taken [OF that] by simp
      qed
      ultimately show ?thesis using same_events_delete [OF ev] by (simp add: same_catalogue_def)
    qed
  qed
qed

section \<open>What callers see\<close>

datatype event_call =
    AddEvent Event | ChangeEvent string "Event \<Rightarrow> Event result" | RemoveEvent string | ReadEvent string | ReadCatalogue

datatype event_answer = EventDone "unit result" | EventRead "Event result" | Catalogue "Event list result"

primrec memory_catalogue :: "event_call \<Rightarrow> EventStore \<times> SeatStore \<Rightarrow> (EventStore \<times> SeatStore) \<times> event_answer" where
  "memory_catalogue (AddEvent event) m =
     (case CreateEvent event (fst m) of
        Inl err \<Rightarrow> (m, EventDone (Inl err)) | Inr r' \<Rightarrow> ((r', snd m), EventDone (Inr ())))"
| "memory_catalogue (ChangeEvent e f) m = (case UpdateEvent e f (fst m) of (r', res) \<Rightarrow> ((r', snd m), EventRead res))"
| "memory_catalogue (RemoveEvent e) m =
     (case DeleteEvent e (Some (snd m)) (fst m) of
        Inl err \<Rightarrow> (m, EventDone (Inl err)) | Inr r' \<Rightarrow> ((r', snd m), EventDone (Inr ())))"
| "memory_catalogue (ReadEvent e) m = (m, EventRead (GetEvent e (fst m)))"
| "memory_catalogue ReadCatalogue m = (m, Catalogue (Inr (ListEvents (fst m))))"

primrec table_catalogue :: "(string \<Rightarrow> string \<Rightarrow> int) \<Rightarrow> event_call \<Rightarrow>
    EventTable \<times> SeatTable \<times> WaitingRows \<Rightarrow> (EventTable \<times> SeatTable \<times> WaitingRows) \<times> event_answer" where
  "table_catalogue collate (AddEvent event) db =
     (case Postgres_CreateEvent event (fst db) of (t', res) \<Rightarrow> ((t', snd db), EventDone res))"
| "table_catalogue collate (ChangeEvent e f) db =
     (case Postgres_UpdateEvent e f (fst db) of (t', res) \<Rightarrow> ((t', snd db), EventRead res))"
| "table_catalogue collate (RemoveEvent e) db = (case Postgres_DeleteEvent e db of (db', res) \<Rightarrow> (db', EventDone res))"
| "table_catalogue collate (ReadEvent e) db = (db, EventRead (Postgres_GetEvent e (fst db)))"
| "table_catalogue collate ReadCatalogue db = (db, Catalogue (Postgres_ListEvents collate (fst db)))"

primrec permitted_event :: "event_call \<Rightarrow> bool" where
  "permitted_event (AddEvent event) \<longleftrightarrow> writable event \<and> \<not> IsCancelled event"
| "permitted_event (ChangeEvent _ f) \<longleftrightarrow> keeps_writable f"
| "permitted_event (RemoveEvent e) \<longleftrightarrow> slash_free e"
| "permitted_event (ReadEvent _) \<longleftrightarrow> True"
| "permitted_event ReadCatalogue \<longleftrightarrow> True"

interpretation catalogues: equal_store same_catalogue "\<lambda>_. permitted_event" memory_catalogue "table_catalogue strings_Compare"
proof (unfold_locales, goal_cases)
  case (1 m db c m' a db' b)
  have ev: "same_events (fst m) (fst db)" using 1(1) by (simp add: same_catalogue_def)
  have keep: "same_catalogue (r', snd m) (t', snd db)" if "same_events r' t'" for r' t'
    using 1(1) that by (simp add: same_catalogue_def)
  show ?case
  proof (cases c)
    case (AddEvent event)
    have "writable event" "\<not> IsCancelled event" using 1(2) by (simp_all add: AddEvent)
    from create_alike [OF ev this] show ?thesis
      using 1(1,3,4) keep by (cases "CreateEvent event (fst m)") (auto simp: AddEvent)
  next
    case (ChangeEvent e f)
    obtain r1 res where m: "UpdateEvent e f (fst m) = (r1, res)" by (meson surj_pair)
    obtain t1 where "Postgres_UpdateEvent e f (fst db) = (t1, res)" "same_events r1 t1"
      using update_alike [OF ev _ m] 1(2) by (auto simp: ChangeEvent)
    then show ?thesis using 1(3,4) keep by (auto simp: ChangeEvent m)
  next
    case (RemoveEvent e)
    have "same_catalogue (fst m, snd m) db" "slash_free e" using 1(1,2) by (simp_all add: RemoveEvent)
    from delete_alike [OF this] show ?thesis
      using 1(1,3,4) by (cases "DeleteEvent e (Some (snd m)) (fst m)") (auto simp: RemoveEvent)
  next
    case (ReadEvent e)
    then show ?thesis using 1 get_alike [OF ev, of e] by auto
  next
    case ReadCatalogue
    then show ?thesis using 1 list_alike [OF ev] by auto
  qed
qed

text \<open>C11. The two event stores cannot be told apart: as long as both see the same seats taken, every sequence of creating,
  changing, deleting, reading and listing events is answered the same by the SQL statements as by the store in memory.
  The events have a category the domain knows, are on sale when they are created, and keep their id when they change.\<close>

theorem event_table_like_memory:
  assumes "same_events r t" "seats_inv seats" "table_inv st" "same_seats seats st" "list_all permitted_event cs"
  shows "answers (table_catalogue strings_Compare) cs (t, st, lines) = answers memory_catalogue cs (r, seats)"
  by (rule catalogues.answers_equal) (simp_all add: same_catalogue_def assms(1,5) same_taken [OF assms(2-4)])

definition table_concert :: Event where
  "table_concert = \<lparr>Event_ID = ''e'', Event_Name = ''Concert'', Event_Venue = ''Hall'', Event_StartsAt = 5,
     Event_Details = \<lparr>City = ''Izmir'', Details_Category = '''', ImageURL = '''', Description = '''', Rules = ''''\<rparr>,
     Event_CancelledAt = zero_time\<rparr>"

theorem event_table_like_memory_witness:
  "answers (table_catalogue strings_Compare)
     [AddEvent table_concert, ChangeEvent ''e'' (Event_Cancel 7), AddEvent table_concert, RemoveEvent ''e'', ReadCatalogue]
     ([], [], []) =
   answers memory_catalogue
     [AddEvent table_concert, ChangeEvent ''e'' (Event_Cancel 7), AddEvent table_concert, RemoveEvent ''e'', ReadCatalogue]
     ([], [])"
proof (rule event_table_like_memory)
  show "same_events [] []" by (simp add: same_events_def event_table_inv_def)
  show "seats_inv []" by (simp add: seats_inv_def)
  show "table_inv []" by (simp add: table_inv_def indexed_def)
  show "same_seats [] []" by (simp add: same_seats_def agree_def table_seat_def)
  have "keeps_writable (Event_Cancel 7)"
    by (auto simp: keeps_writable_def Event_Cancel_def writable_def split: if_splits)
  then show "list_all permitted_event
      [AddEvent table_concert, ChangeEvent ''e'' (Event_Cancel 7), AddEvent table_concert, RemoveEvent ''e'', ReadCatalogue]"
    by (simp add: table_concert_def writable_def IsCancelled_def IsZero_def slash_free_def)
qed

end
