(* ===== verification/Idempotency_Table.thy ===== *)
theory Idempotency_Table
  imports Seat_Table Handlers Same_Store
begin

text \<open>
  The remembered requests in Postgres: \<open>internal/repository/postgres_idempotency_repository.go\<close> over the rows of the table
  \<open>idempotency_keys\<close> (\<open>migrations/00002_idempotency.sql\<close>), what each statement does to them written out. The database
  keeps the instants it is given and never fails but by its constraints.
\<close>

section \<open>The table\<close>

record keyRow =
  kr_user :: string
  kr_key :: string
  kr_fingerprint :: string
  kr_state :: string
  kr_status :: "int option"
  kr_response :: "string option"
  kr_created :: time
  kr_expires :: time

type_synonym KeyTable = "((string \<times> string) \<times> keyRow) list"

definition key_checks :: "keyRow \<Rightarrow> bool" where
  "key_checks r \<longleftrightarrow> kr_state r \<in> {''in_progress'', ''completed''} \<and>
     (kr_state r = ''completed'' \<and> kr_status r \<noteq> None \<and> kr_response r \<noteq> None \<or>
      kr_state r = ''in_progress'' \<and> kr_status r = None \<and> kr_response r = None)"

text \<open>The state is read as it stands in the column; a response that is null is read as no bytes.\<close>

definition scanIdempotency :: "keyRow \<Rightarrow> IdempotencyRecord" where
  "scanIdempotency r =
     \<lparr>I_UserID = kr_user r, I_Key = kr_key r, Fingerprint = kr_fingerprint r,
      I_State = (if kr_state r = ''completed'' then IdempotencyCompleted else IdempotencyInProgress),
      StatusCode = (case kr_status r of None \<Rightarrow> 0 | Some s \<Rightarrow> s), I_Response = text_of (kr_response r),
      I_CreatedAt = kr_created r, I_ExpiresAt = kr_expires r\<rparr>"

definition claimed_row :: "IdempotencyRecord \<Rightarrow> keyRow" where
  "claimed_row record =
     \<lparr>kr_user = I_UserID record, kr_key = I_Key record, kr_fingerprint = Fingerprint record, kr_state = ''in_progress'',
      kr_status = None, kr_response = None, kr_created = I_CreatedAt record, kr_expires = I_ExpiresAt record\<rparr>"

text \<open>\<open>claimIdempotencySQL\<close>: the table after it, and the row that comes back.\<close>

definition claimIdempotencySQL :: "IdempotencyRecord \<Rightarrow> KeyTable \<Rightarrow> KeyTable \<times> keyRow option" where
  "claimIdempotencySQL record t =
     (let key = (I_UserID record, I_Key record); row = claimed_row record in
      case map_of t key of
        None \<Rightarrow> (AList.update key row t, Some row)
      | Some r \<Rightarrow> if kr_expires r \<le> I_CreatedAt record then (AList.update key row t, Some row) else (t, None))"

definition Postgres_Claim :: "IdempotencyRecord \<Rightarrow> KeyTable \<Rightarrow> KeyTable \<times> (IdempotencyRecord \<times> bool) result" where
  "Postgres_Claim record t =
     (case claimIdempotencySQL record t of
        (t', Some row) \<Rightarrow> (t', Inr (scanIdempotency row, True))
      | (t', None) \<Rightarrow>
          (case map_of t' (I_UserID record, I_Key record) of
             None \<Rightarrow> (t, Inl (Wrapf ''reading the holder of an idempotency key'' [Opaque ''no rows'']))
           | Some holder \<Rightarrow> (t', Inr (scanIdempotency holder, False))))"

text \<open>The response is a slice of bytes, and a slice that is \<open>nil\<close> is written as null.\<close>

definition Postgres_Complete :: "string \<Rightarrow> string \<Rightarrow> int \<Rightarrow> string option \<Rightarrow> KeyTable \<Rightarrow> KeyTable result" where
  "Postgres_Complete userID key statusCode response t =
     (case map_of t (userID, key) of
        None \<Rightarrow> Inl (Repository ErrIdempotencyKeyNotFound)
      | Some r \<Rightarrow>
          let row = r\<lparr>kr_state := ''completed'', kr_status := Some statusCode, kr_response := response\<rparr>
          in if key_checks row then Inr (AList.update (userID, key) row t)
             else Inl (Wrapf ''completing idempotency key'' [Opaque ''constraint violation'']))"

definition Postgres_Release :: "string \<Rightarrow> string \<Rightarrow> KeyTable \<Rightarrow> KeyTable" where
  "Postgres_Release userID key t = AList.delete (userID, key) t"

text \<open>\<open>recorder.body.Bytes()\<close>: a buffer nothing was written to has no bytes to give, \<open>nil\<close>.\<close>

definition buffer_bytes :: "string \<Rightarrow> string option" where
  "buffer_bytes body = (if body = '''' then None else Some body)"

text \<open>\<open>finish\<close> over this store; a failure to complete is only logged.\<close>

definition Postgres_finish :: "string \<Rightarrow> string \<Rightarrow> recordingWriter \<Rightarrow> KeyTable \<Rightarrow> KeyTable" where
  "Postgres_finish userID key recorder t =
     (if 500 \<le> rec_status recorder then Postgres_Release userID key t
      else case Postgres_Complete userID key (rec_status recorder) (buffer_bytes (rec_body recorder)) t of
        Inl _ \<Rightarrow> t
      | Inr t' \<Rightarrow> t')"

section \<open>The same store, seen from outside\<close>

definition key_table_inv :: "KeyTable \<Rightarrow> bool" where
  "key_table_inv t \<longleftrightarrow> distinct (map fst t) \<and>
     (\<forall>u k r. map_of t (u, k) = Some r \<longrightarrow> kr_user r = u \<and> kr_key r = k \<and> key_checks r)"

text \<open>A user id has no NUL byte; the database takes none in any text.\<close>

definition same_keys :: "IdempotencyStore \<Rightarrow> KeyTable \<Rightarrow> bool" where
  "same_keys store t \<longleftrightarrow> (\<forall>u k. CHR 0x00 \<notin> set u \<longrightarrow>
     map_of store (idempotencyKey u k) = map_option scanIdempotency (map_of t (u, k)))"

lemma idempotencyKey_eq:
  "CHR 0x00 \<notin> set u \<Longrightarrow> CHR 0x00 \<notin> set v \<Longrightarrow> idempotencyKey u k = idempotencyKey v l \<longleftrightarrow> u = v \<and> k = l"
  using idempotencyKey_inj by blast

lemma same_keys_update:
  "same_keys store t \<Longrightarrow> CHR 0x00 \<notin> set u \<Longrightarrow> scanIdempotency row = x \<Longrightarrow>
     same_keys (AList.update (idempotencyKey u k) x store) (AList.update (u, k) row t)"
  by (auto simp: same_keys_def update_conv' idempotencyKey_eq)

lemma same_keys_delete:
  "same_keys store t \<Longrightarrow> CHR 0x00 \<notin> set u \<Longrightarrow>
     same_keys (AList.delete (idempotencyKey u k) store) (AList.delete (u, k) t)"
  by (auto simp: same_keys_def delete_conv' idempotencyKey_eq)

lemma key_table_invD: "key_table_inv t \<Longrightarrow> map_of t (u, k) = Some r \<Longrightarrow> kr_user r = u \<and> kr_key r = k \<and> key_checks r"
  unfolding key_table_inv_def by blast

lemma key_table_inv_update:
  assumes "key_table_inv t" "kr_user row = u" "kr_key row = k" "key_checks row"
  shows "key_table_inv (AList.update (u, k) row t)"
  using assms by (auto simp: key_table_inv_def update_conv' distinct_update split: if_splits)

lemma key_table_inv_delete: "key_table_inv t \<Longrightarrow> key_table_inv (AList.delete (u, k) t)"
  by (auto simp: key_table_inv_def delete_conv' distinct_delete split: if_splits)

lemma claimed_row_checks: "key_checks (claimed_row x)"
  by (simp add: key_checks_def claimed_row_def)

lemma scan_claimed:
  "scanIdempotency (claimed_row x) = x\<lparr>I_State := IdempotencyInProgress, StatusCode := 0, I_Response := ''''\<rparr>"
  by (cases x) (simp add: scanIdempotency_def claimed_row_def text_of_def)

lemma claim_agrees:
  assumes "same_keys store t" "key_table_inv t" "CHR 0x00 \<notin> set (I_UserID x)" "Idempotency_Claim x store = (store', y, claimed)"
  obtains t' where "Postgres_Claim x t = (t', Inr (y, claimed))" "same_keys store' t'" "key_table_inv t'"
proof -
  let ?u = "I_UserID x" and ?k = "I_Key x"
  let ?t = "AList.update (?u, ?k) (claimed_row x) t"
    and ?store = "AList.update (idempotencyKey ?u ?k) (x\<lparr>I_State := IdempotencyInProgress, StatusCode := 0, I_Response := ''''\<rparr>) store"
  have row: "map_of store (idempotencyKey ?u ?k) = map_option scanIdempotency (map_of t (?u, ?k))"
    using assms(1,3) by (simp add: same_keys_def)
  have taken: "same_keys ?store ?t" by (rule same_keys_update [OF assms(1,3) scan_claimed])
  have kept: "key_table_inv ?t"
    by (rule key_table_inv_update [OF assms(2)]) (simp_all add: claimed_row_checks, simp_all add: claimed_row_def)
  have expires: "I_ExpiresAt (scanIdempotency r) = kr_expires r" for r by (simp add: scanIdempotency_def)
  show ?thesis
  proof (cases "map_of t (?u, ?k)")
    case None
    then show ?thesis
      using that [of ?t] taken kept assms(4) row
      by (auto simp: Postgres_Claim_def claimIdempotencySQL_def Idempotency_Claim_def Let_def scan_claimed)
  next
    case (Some r)
    show ?thesis
    proof (cases "kr_expires r \<le> I_CreatedAt x")
      case True
      then show ?thesis
        using that [of ?t] taken kept assms(4) row Some
        by (auto simp: Postgres_Claim_def claimIdempotencySQL_def Idempotency_Claim_def Let_def scan_claimed expires After_def)
    next
      case False
      then show ?thesis
        using that [of t] assms row Some
        by (simp add: Postgres_Claim_def claimIdempotencySQL_def Idempotency_Claim_def Let_def expires After_def)
    qed
  qed
qed

lemma complete_agrees:
  assumes "same_keys store t" "key_table_inv t" "CHR 0x00 \<notin> set u"
  shows "case Idempotency_Complete u k status body store of
      Inl e \<Rightarrow> Postgres_Complete u k status (Some body) t = Inl e
    | Inr store' \<Rightarrow> \<exists>t'. Postgres_Complete u k status (Some body) t = Inr t' \<and> same_keys store' t' \<and> key_table_inv t'"
proof (cases "map_of t (u, k)")
  case None
  then show ?thesis
    using assms(1,3) by (simp add: Idempotency_Complete_def Postgres_Complete_def same_keys_def)
next
  case (Some r)
  let ?row = "r\<lparr>kr_state := ''completed'', kr_status := Some status, kr_response := Some body\<rparr>"
  have "scanIdempotency ?row =
      (scanIdempotency r)\<lparr>I_State := IdempotencyCompleted, StatusCode := status, I_Response := body\<rparr>"
    by (simp add: scanIdempotency_def text_of_def)
  moreover have "key_checks ?row" by (simp add: key_checks_def)
  moreover have "kr_user r = u" "kr_key r = k" using key_table_invD [OF assms(2) Some] by simp_all
  moreover have "map_of store (idempotencyKey u k) = Some (scanIdempotency r)"
    using assms(1,3) Some by (simp add: same_keys_def)
  ultimately show ?thesis
    using Some same_keys_update [OF assms(1,3)] key_table_inv_update [OF assms(2), of ?row u k]
    by (simp add: Idempotency_Complete_def Postgres_Complete_def Let_def)
qed

lemma finish_agrees:
  assumes "same_keys store t" "key_table_inv t" "CHR 0x00 \<notin> set u" "500 \<le> rec_status w \<or> rec_body w \<noteq> ''''"
  shows "same_keys (finish u k w store) (Postgres_finish u k w t) \<and> key_table_inv (Postgres_finish u k w t)"
proof (cases "500 \<le> rec_status w")
  case True
  then show ?thesis
    using assms(1-3) same_keys_delete key_table_inv_delete
    by (simp add: finish_def Postgres_finish_def Idempotency_Release_def Postgres_Release_def)
next
  case False
  then have "buffer_bytes (rec_body w) = Some (rec_body w)" using assms(4) by (simp add: buffer_bytes_def)
  then show ?thesis
    using False assms(1,2) complete_agrees [OF assms(1-3), of k "rec_status w" "rec_body w"]
    by (auto simp: finish_def Postgres_finish_def split: sum.splits)
qed

section \<open>What callers see\<close>

text \<open>What the middleware asks of its store, one request after the other.\<close>

datatype key_call = ClaimKey IdempotencyRecord | FinishKey string string recordingWriter

datatype key_answer = Claimed "(IdempotencyRecord \<times> bool) result" | Finished

primrec memory_keys :: "key_call \<Rightarrow> IdempotencyStore \<Rightarrow> IdempotencyStore \<times> key_answer" where
  "memory_keys (ClaimKey x) store =
     (case Idempotency_Claim x store of (store', y, claimed) \<Rightarrow> (store', Claimed (Inr (y, claimed))))"
| "memory_keys (FinishKey u k w) store = (finish u k w store, Finished)"

primrec table_keys :: "key_call \<Rightarrow> KeyTable \<Rightarrow> KeyTable \<times> key_answer" where
  "table_keys (ClaimKey x) t = (case Postgres_Claim x t of (t', y) \<Rightarrow> (t', Claimed y))"
| "table_keys (FinishKey u k w) t = (Postgres_finish u k w t, Finished)"

definition answers_with_a_body :: "key_call \<Rightarrow> bool" where
  "answers_with_a_body c = (case c of
      ClaimKey x \<Rightarrow> CHR 0x00 \<notin> set (I_UserID x)
    | FinishKey u k w \<Rightarrow> CHR 0x00 \<notin> set u \<and> (500 \<le> rec_status w \<or> rec_body w \<noteq> ''''))"

interpretation key_stores: equal_store "\<lambda>store t. same_keys store t \<and> key_table_inv t" "\<lambda>_. answers_with_a_body" memory_keys table_keys
proof (unfold_locales, goal_cases)
  case (1 store t c store' r t' s)
  show ?case
  proof (cases c)
    case (ClaimKey x)
    obtain store1 y claimed where m: "Idempotency_Claim x store = (store1, y, claimed)" by (metis prod_cases3)
    have "CHR 0x00 \<notin> set (I_UserID x)" using 1(2) ClaimKey by (simp add: answers_with_a_body_def)
    then obtain t1 where "Postgres_Claim x t = (t1, Inr (y, claimed))" "same_keys store1 t1" "key_table_inv t1"
      using 1(1) claim_agrees [OF _ _ _ m] by blast
    then show ?thesis using 1(3,4) by (simp add: ClaimKey m)
  next
    case (FinishKey u k w)
    then show ?thesis using 1 finish_agrees [of store t u w k] by (simp add: answers_with_a_body_def)
  qed
qed


definition sample_claim :: "time \<Rightarrow> IdempotencyRecord" where
  "sample_claim now = claim_record 100 now \<lparr>Req_Method = ''POST'', Req_Path = ''/holds'', Req_Key = ''k'', Req_User = ''u''\<rparr>"

lemma sample_claim_simps [simp]:
  "I_UserID (sample_claim now) = ''u''" "I_Key (sample_claim now) = ''k''" "Fingerprint (sample_claim now) = ''POST /holds''"
  "I_CreatedAt (sample_claim now) = now" "I_ExpiresAt (sample_claim now) = now + 100"
  by (simp_all add: sample_claim_def claim_record_def request_fingerprint_def time_Add_def)


text \<open>C39. An answer without a body is not kept by the Postgres store: the empty buffer is written as null, which a
  constraint of the table refuses, so the key stays with the request that is over. Until the key expires a retry is
  refused as a request still running, where the memory store would give it its answer.\<close>

theorem empty_answers_are_not_kept:
  assumes "key_table_inv t" "same_keys store t" "CHR 0x00 \<notin> set u"
    and "map_of t (u, k) = Some r" "kr_state r = ''in_progress''"
    and "rec_status w < 500" "rec_body w = ''''"
    and "I_UserID again = u" "I_Key again = k" "Fingerprint again = kr_fingerprint r" "I_CreatedAt again < kr_expires r"
  shows "Postgres_Claim again (Postgres_finish u k w t) = (t, Inr (scanIdempotency r, False))
    \<and> replay Encode Error (scanIdempotency r) (Fingerprint again) = writeAPIError Encode Error (Handler errIdempotencyInProgress)
    \<and> (\<exists>x. Idempotency_Claim again (finish u k w store) = (finish u k w store, x, False) \<and>
        replay Encode Error x (Fingerprint again) =
          [SetHeader ''Content-Type'' ''application/json'', SetHeader ''Idempotent-Replay'' ''true'',
           WriteHeader (rec_status w), Write ''''])"
proof (intro conjI)
  have "Postgres_finish u k w t = t"
    using assms(4,6,7) by (simp add: Postgres_finish_def Postgres_Complete_def buffer_bytes_def key_checks_def Let_def)
  then show "Postgres_Claim again (Postgres_finish u k w t) = (t, Inr (scanIdempotency r, False))"
    using assms(4,8,9,11) by (simp add: Postgres_Claim_def claimIdempotencySQL_def Let_def)
  show "replay Encode Error (scanIdempotency r) (Fingerprint again) = writeAPIError Encode Error (Handler errIdempotencyInProgress)"
    using assms(5,10) by (simp add: replay_def scanIdempotency_def IsCompleted_def)
  let ?x = "(scanIdempotency r)\<lparr>I_State := IdempotencyCompleted, StatusCode := rec_status w, I_Response := ''''\<rparr>"
  have "map_of (finish u k w store) (idempotencyKey u k) = Some ?x"
    using assms(2-4,6,7) by (simp add: map_of_finish same_keys_def)
  then have "Idempotency_Claim again (finish u k w store) = (finish u k w store, ?x, False)"
    using assms(8,9,11) by (simp add: Idempotency_Claim_def Let_def After_def scanIdempotency_def)
  moreover have "replay Encode Error ?x (Fingerprint again) =
      [SetHeader ''Content-Type'' ''application/json'', SetHeader ''Idempotent-Replay'' ''true'', WriteHeader (rec_status w), Write '''']"
    using assms(10) by (simp add: replay_def IsCompleted_def scanIdempotency_def)
  ultimately show "\<exists>x. Idempotency_Claim again (finish u k w store) = (finish u k w store, x, False) \<and>
      replay Encode Error x (Fingerprint again) =
        [SetHeader ''Content-Type'' ''application/json'', SetHeader ''Idempotent-Replay'' ''true'', WriteHeader (rec_status w), Write '''']"
    by blast
qed

lemma sample_key_held:
  "key_table_inv [((''u'', ''k''), claimed_row (sample_claim 1))]"
  "same_keys [(idempotencyKey ''u'' ''k'', (sample_claim 1)\<lparr>I_State := IdempotencyInProgress, StatusCode := 0, I_Response := ''''\<rparr>)]
     [((''u'', ''k''), claimed_row (sample_claim 1))]"
proof -
  show "key_table_inv [((''u'', ''k''), claimed_row (sample_claim 1))]"
    using claimed_row_checks [of "sample_claim 1"] by (auto simp: key_table_inv_def split: if_splits) (simp_all add: claimed_row_def)
  have "same_keys [] []" by (simp add: same_keys_def)
  from same_keys_update [OF this _ scan_claimed, of "''u''" "''k''" "sample_claim 1"]
  show "same_keys [(idempotencyKey ''u'' ''k'', (sample_claim 1)\<lparr>I_State := IdempotencyInProgress, StatusCode := 0, I_Response := ''''\<rparr>)]
      [((''u'', ''k''), claimed_row (sample_claim 1))]"
    by simp
qed

theorem empty_answers_are_not_kept_witness:
  "Postgres_Claim (sample_claim 2)
      (Postgres_finish ''u'' ''k'' (recorded_answer [WriteHeader 204]) [((''u'', ''k''), claimed_row (sample_claim 1))]) =
    ([((''u'', ''k''), claimed_row (sample_claim 1))], Inr (scanIdempotency (claimed_row (sample_claim 1)), False))"
proof -
  have row: "map_of [((''u'', ''k''), claimed_row (sample_claim 1))] (''u'', ''k'') = Some (claimed_row (sample_claim 1))" by simp
  show ?thesis
    using empty_answers_are_not_kept [OF sample_key_held(1) sample_key_held(2) _ row, of "recorded_answer [WriteHeader 204]" "sample_claim 2"]
    by (simp add: recorded_answer_def new_recorder_def claimed_row_def)
qed

end
