(* ===== verification/Row_Maps.thy ===== *)
theory Row_Maps
  imports Claim_Queue Same_Store
begin

text \<open>
  A table read as a map: the rows filed under a key, in the order they stand. What a store in memory does to the map is
  then what a statement does to the rows; claiming work from a queue is shown so once for both queues of the program.
\<close>

definition as_map :: "('r \<Rightarrow> string) \<Rightarrow> ('r \<Rightarrow> 'v) \<Rightarrow> 'r list \<Rightarrow> 'v gomap" where
  "as_map key val t = map (\<lambda>row. (key row, val row)) t"

lemma as_map_simps [simp]:
  "as_map key val [] = []" "keys (as_map key val t) = map key t" "vals (as_map key val t) = map val t"
  "as_map key val (t @ u) = as_map key val t @ as_map key val u"
  "as_map key val [row] = [(key row, val row)]"
  by (simp_all add: as_map_def comp_def)

lemma map_of_as_map: "map_of (as_map key val t) k = map_option val (find (\<lambda>row. key row = k) t)"
  by (induction t) (auto simp: as_map_def)

lemma update_new: "map_of r k = None \<Longrightarrow> AList.update k v r = r @ [(k, v)]"
  by (induction r) (auto split: if_splits)

lemma in_keys: "list_ex (\<lambda>(k, _). k = i) r \<longleftrightarrow> map_of r i \<noteq> None"
  by (induction r) auto

lemma no_row: "map_of (as_map key val t) k = None \<longleftrightarrow> \<not> list_ex (\<lambda>row. key row = k) t"
  by (auto simp: map_of_as_map find_None_iff list_ex_iff)

lemma update_in_place:
  "gomap_ok r \<Longrightarrow> k \<in> set (keys r) \<Longrightarrow> AList.update k v r = map (\<lambda>(k', v'). if k' = k then (k, v) else (k', v')) r"
proof (induction r)
  case (Cons p r)
  have "map (\<lambda>(k', v'). if k' = k then (k, v) else (k', v')) r = r" if "k \<notin> set (keys r)"
    using that by (intro map_idI) (auto simp: rev_image_eqI)
  then show ?case using Cons by (cases p) auto
qed simp

lemma as_map_update:
  assumes "distinct (map key t)" "k \<in> key ` set t" "\<And>row. row \<in> set t \<Longrightarrow> P row \<longleftrightarrow> key row = k"
    and "\<And>row. row \<in> set t \<Longrightarrow> key row = k \<Longrightarrow> key (f row) = k \<and> val (f row) = v"
  shows "AList.update k v (as_map key val t) = as_map key val (fst (update_where P f t))"
proof -
  have "AList.update k v (as_map key val t) = map (\<lambda>(k', v'). if k' = k then (k, v) else (k', v')) (as_map key val t)"
    by (rule update_in_place) (use assms(1,2) in auto)
  also have "\<dots> = as_map key val (fst (update_where P f t))" using assms(3,4) by (auto simp: as_map_def update_where_def)
  finally show ?thesis .
qed

lemma as_map_delete: "AList.delete k (as_map key val t) = as_map key val (filter (\<lambda>row. key row \<noteq> k) t)"
  by (simp add: as_map_def AList.delete_eq filter_map comp_def eq_commute [of k])

lemma distinct_map_mset: "distinct (map f xs) \<Longrightarrow> mset xs = mset ys \<Longrightarrow> distinct (map f ys)"
  using mset_eq_imp_distinct_iff [of "map f xs" "map f ys"] by simp

lemma same_row: "distinct (map key t) \<Longrightarrow> x \<in> set t \<Longrightarrow> y \<in> set t \<Longrightarrow> key x = key y \<Longrightarrow> x = y"
  by (auto simp: distinct_map dest: inj_onD)

lemma SortFunc_map_on:
  assumes "\<And>x y. x \<in> set xs \<Longrightarrow> y \<in> set xs \<Longrightarrow> cmp (f x) (f y) \<le> 0 \<longleftrightarrow> cmp' x y \<le> 0"
  shows "map f (SortFunc cmp' xs) = SortFunc cmp (map f xs)"
  using assms
proof (induction xs)
  case (Cons x xs)
  have "map f (insert_by cmp' x ys) = insert_by cmp (f x) (map f ys)" if "set ys \<subseteq> set xs" for ys
    using that Cons.prems by (induction ys) auto
  from this [of "SortFunc cmp' xs"] show ?case using Cons by simp
qed simp

section \<open>Claiming\<close>

text \<open>Marking entry after entry is marking the rows that were picked.\<close>

lemma claim_each_rows:
  assumes "distinct (map key t)" "set ks \<subseteq> key ` set t" "distinct ks"
    and f: "\<And>row. key (f row) = key row" "\<And>row. val (f row) = mark (val row)"
  shows "claim_each mark ks (as_map key val t) =
    (as_map key val (fst (update_where (\<lambda>row. key row \<in> set ks) f t)),
     map (\<lambda>k. mark (the (map_of (as_map key val t) k))) ks)"
  using assms(1-3)
proof (induction ks arbitrary: t)
  case Nil
  then show ?case by (simp add: update_where_def)
next
  case (Cons k ks)
  let ?m = "as_map key val" and ?t = "fst (update_where (\<lambda>row. key row = k) f t)"
  obtain row where row: "row \<in> set t" "key row = k" using Cons.prems(2) by auto
  have at: "map_of (?m t) k = Some (val row)"
    using find_key [of key t k row] row Cons.prems(1) by (simp add: map_of_as_map)
  have step: "AList.update k (mark (the (map_of (?m t) k))) (?m t) = ?m ?t"
  proof (rule as_map_update [OF Cons.prems(1)])
    fix x assume "key x = k" "x \<in> set t"
    then have "x = row" using row same_row [OF Cons.prems(1)] by blast
    then show "key (f x) = k \<and> val (f x) = mark (the (map_of (?m t) k))" by (simp add: at f row(2))
  qed (use row in auto)
  have names: "map key ?t = map key t" by (rule update_where_map) (rule f(1))
  then have toks: "key ` set ?t = key ` set t" by (metis list.set_map)
  have IH: "claim_each mark ks (?m ?t) =
      (?m (fst (update_where (\<lambda>row. key row \<in> set ks) f ?t)), map (\<lambda>k. mark (the (map_of (?m ?t) k))) ks)"
    using Cons.IH [of ?t] Cons.prems names toks by simp
  have others: "map_of (?m ?t) j = map_of (?m t) j" if "j \<noteq> k" for j
    unfolding step [symmetric] using that by (simp del: map_of_eq_Some_iff)
  have "map (\<lambda>j. mark (the (map_of (?m ?t) j))) ks = map (\<lambda>j. mark (the (map_of (?m t) j))) ks"
  proof (intro map_cong refl)
    fix j assume "j \<in> set ks"
    then have "j \<noteq> k" using Cons.prems(3) by auto
    then show "mark (the (map_of (?m ?t) j)) = mark (the (map_of (?m t) j))"
      unfolding others [OF \<open>j \<noteq> k\<close>] by simp
  qed
  moreover have "fst (update_where (\<lambda>row. key row \<in> set ks) f ?t) = fst (update_where (\<lambda>row. key row \<in> set (k # ks)) f t)"
    using Cons.prems(3) by (auto simp: update_where_def f(1))
  ultimately show ?case unfolding claim_each_Cons Let_def step IH by simp
qed

text \<open>
  Both queues are claimed from by one statement: the rows that are wanted, in order, as many as the limit says, are
  marked, and come back in any order. In memory the same entries are claimed one after the other, as long as the two
  orders agree or there is room for everything that is wanted.
\<close>

lemma claim_rows:
  assumes t: "distinct (map key t)" "distinct (map tag t)" and limit: "0 < limit"
    and ready: "\<And>row. row \<in> set t \<Longrightarrow> ready (val row) \<longleftrightarrow> want row"
    and order: "int (length (filter want t)) \<le> limit \<or>
      (\<forall>x \<in> set (filter want t). \<forall>y \<in> set (filter want t).
        stamp_cmp stamp (as_map key val t) (key x) (key y) \<le> 0 \<longleftrightarrow> cmp x y \<le> 0)"
    and f: "\<And>row. key (f row) = key row" "\<And>row. val (f row) = mark (val row)"
  defines "line \<equiv> take (nat limit) (SortFunc cmp (filter want t))"
  defines "picked \<equiv> \<lambda>row. tag row \<in> tag ` set line"
  shows "\<exists>xs. claim ready stamp mark limit (as_map key val t) = (as_map key val (fst (update_where picked f t)), xs) \<and>
    mset xs = mset (map val (map f (filter picked t)))"
proof -
  let ?m = "as_map key val" and ?rows = "SortFunc cmp (filter want t)"
  let ?all = "SortFunc (stamp_cmp stamp (as_map key val t)) (map key (filter want t))"
  let ?ks = "cut_limit limit ?all"
  have keys_ready: "map fst (filter (\<lambda>(k, v). ready v) (?m t)) = map key (filter want t)"
    by (simp add: as_map_def filter_map comp_def ready cong: filter_cong)
  have line: "set line \<subseteq> set t" using set_take_subset [of "nat limit" ?rows] by (auto simp: line_def)
  have all: "distinct ?all" by (rule distinct_map_mset [of id, simplified, of "map key (filter want t)"]) (simp_all add: t(1) distinct_map_filter)
  then have dist: "distinct ?ks" by (rule distinct_cut_limit)
  have "distinct (map key ?rows)"
    by (rule distinct_map_mset [of key "filter want t"]) (simp_all add: t(1) distinct_map_filter)
  then have dline: "distinct (map key line)" by (simp add: line_def take_map [symmetric])
  have names: "set ?ks = key ` set line"
    using order
  proof
    assume room: "int (length (filter want t)) \<le> limit"
    then have "?ks = ?all" "line = ?rows" by (simp_all add: cut_limit_def line_def)
    then show ?thesis by simp
  next
    assume ord: "\<forall>x \<in> set (filter want t). \<forall>y \<in> set (filter want t).
        stamp_cmp stamp (?m t) (key x) (key y) \<le> 0 \<longleftrightarrow> cmp x y \<le> 0"
    have "map key ?rows = ?all" by (rule SortFunc_map_on) (use ord in blast)
    then have "?ks = map key line" using limit by (simp add: cut_limit_def line_def take_map [symmetric] not_less)
    then show ?thesis by simp
  qed
  have pick: "picked row \<longleftrightarrow> row \<in> set line" "key row \<in> set ?ks \<longleftrightarrow> row \<in> set line" if "row \<in> set t" for row
    using that line same_row [OF t(1) that] same_row [OF t(2) that] unfolding names by (auto simp: picked_def)
  have "claim ready stamp mark limit (?m t) =
      (?m (fst (update_where (\<lambda>row. key row \<in> set ?ks) f t)), map (\<lambda>k. mark (the (map_of (?m t) k))) ?ks)"
    unfolding claim_def keys_ready by (rule claim_each_rows [of key t ?ks f val mark]) (use t(1) dist f line names in auto)
  moreover have "fst (update_where (\<lambda>row. key row \<in> set ?ks) f t) = fst (update_where picked f t)"
    by (simp add: update_where_def pick cong: map_cong)
  moreover have "mset (map (\<lambda>k. mark (the (map_of (?m t) k))) ?ks) = mset (map val (map f (filter picked t)))"
  proof -
    have "set (filter picked t) = set line" using line pick(1) by auto
    moreover have "distinct t" "distinct line" using t(1) dline by (auto simp: distinct_map)
    ultimately have same: "mset (filter picked t) = mset line"
      by (intro set_eq_iff_mset_eq_distinct [THEN iffD1]) auto
    have "mset ?ks = mset (map key line)"
      using dist dline names by (intro set_eq_iff_mset_eq_distinct [THEN iffD1]) simp_all
    then have "mset (map (\<lambda>k. mark (the (map_of (?m t) k))) ?ks) = mset (map (\<lambda>k. mark (the (map_of (?m t) k))) (map key line))"
      by (simp only: mset_map)
    also have "map (\<lambda>k. mark (the (map_of (?m t) k))) (map key line) = map (val \<circ> f) line"
      unfolding map_map
    proof (intro map_cong refl)
      fix row assume "row \<in> set line"
      then have "find (\<lambda>x. key x = key row) t = Some row" using line find_key [OF t(1)] by blast
      then show "((\<lambda>k. mark (the (map_of (?m t) k))) \<circ> key) row = (val \<circ> f) row" by (simp add: map_of_as_map f(2))
    qed
    also have "mset (map (val \<circ> f) line) = mset (map (val \<circ> f) (filter picked t))" unfolding mset_map same by (rule refl)
    finally show ?thesis by (simp only: map_map)
  qed
  ultimately show ?thesis by auto
qed

end
