(* ===== verification/Account_Table.thy ===== *)
theory Account_Table
  imports Account_Stores Seat_Table Row_Maps
begin

text \<open>
  Accounts in Postgres: users (\<open>postgres_user_repository.go\<close>), revoked session tokens
  (\<open>postgres_token_repository.go\<close>) and verification links (\<open>postgres_verification_repository.go\<close>) over their tables
  (\<open>migrations/00003_users.sql\<close>, \<open>00005_user_roles.sql\<close>, \<open>00006_revoked_tokens.sql\<close>, \<open>00012_email_verification.sql\<close>).
  The database keeps the instants it is given, and fails only by its constraints.
\<close>

section \<open>Users\<close>

record userRow =
  ur_id :: string
  ur_email :: string
  ur_password_hash :: string
  ur_role :: string
  ur_email_verified_at :: "time option"
  ur_created_at :: time

type_synonym UserTable = "userRow list"

definition user_checks :: "userRow \<Rightarrow> bool" where
  "user_checks row \<longleftrightarrow> ur_role row \<in> {''customer'', ''admin''}"

definition inserted_user :: "User \<Rightarrow> userRow" where
  "inserted_user user =
     \<lparr>ur_id = User_ID user, ur_email = User_Email user, ur_password_hash = PasswordHash user, ur_role = User_Role user,
      ur_email_verified_at = None, ur_created_at = User_CreatedAt user\<rparr>"

definition insertUserSQL :: "User \<Rightarrow> UserTable \<Rightarrow> (UserTable \<times> nat) result" where
  "insertUserSQL user t =
     (if \<not> user_checks (inserted_user user) then Inl (Opaque ''constraint violation'')
      else if list_ex (\<lambda>row. ur_email row = User_Email user) t then Inr (t, 0)
      else if list_ex (\<lambda>row. ur_id row = User_ID user) t then Inl (Opaque ''duplicate key'')
      else Inr (t @ [inserted_user user], 1))"

definition Postgres_CreateUser :: "User \<Rightarrow> UserTable \<Rightarrow> UserTable \<times> unit result" where
  "Postgres_CreateUser user t =
     (case insertUserSQL user t of
        Inl err \<Rightarrow> (t, Inl (Wrapf ''creating a user'' [err]))
      | Inr (t', affected) \<Rightarrow> if affected = 0 then (t', Inl (Repository ErrEmailTaken)) else (t', Inr ()))"

text \<open>The role goes through the parser of the domain.\<close>

definition scanUser :: "userRow option \<Rightarrow> User result" where
  "scanUser found =
     (case found of
        None \<Rightarrow> Inl (Repository ErrUserNotFound)
      | Some row \<Rightarrow>
          (case ParseRole (ur_role row) of
             Inl err \<Rightarrow> Inl (Wrapf ''reading the user'' [err])
           | Inr role \<Rightarrow>
               Inr \<lparr>User_ID = ur_id row, User_Email = ur_email row, PasswordHash = ur_password_hash row, User_Role = role,
                    EmailVerifiedAt = instant (ur_email_verified_at row), User_CreatedAt = ur_created_at row\<rparr>))"

definition Postgres_GetUserByEmail :: "string \<Rightarrow> UserTable \<Rightarrow> User result" where
  "Postgres_GetUserByEmail email t = scanUser (find (\<lambda>row. ur_email row = email) t)"

definition Postgres_GetUserByID :: "string \<Rightarrow> UserTable \<Rightarrow> User result" where
  "Postgres_GetUserByID userID t = scanUser (find (\<lambda>row. ur_id row = userID) t)"

text \<open>An update that touched no row answers that there is no such user.\<close>

definition touched :: "UserTable \<times> nat \<Rightarrow> UserTable \<times> unit result" where
  "touched tag = (case tag of (t, affected) \<Rightarrow>
     if affected = 0 then (t, Inl (Repository ErrUserNotFound)) else (t, Inr ()))"

definition Postgres_SetRole :: "string \<Rightarrow> Role \<Rightarrow> UserTable \<Rightarrow> UserTable \<times> unit result" where
  "Postgres_SetRole email role t =
     (if \<not> role \<in> {''customer'', ''admin''} \<and> list_ex (\<lambda>row. ur_email row = email) t
      then (t, Inl (Wrapf ''setting the role'' [Opaque ''constraint violation'']))
      else touched (update_where (\<lambda>row. ur_email row = email) (\<lambda>row. row\<lparr>ur_role := role\<rparr>) t))"

definition Postgres_MarkEmailVerified :: "string \<Rightarrow> string \<Rightarrow> time \<Rightarrow> UserTable \<Rightarrow> UserTable \<times> unit result" where
  "Postgres_MarkEmailVerified userID email now t =
     touched (update_where (\<lambda>row. ur_id row = userID \<and> ur_email row = email)
       (\<lambda>row. row\<lparr>ur_email_verified_at := Some now\<rparr>) t)"

definition Postgres_UpdatePasswordHash :: "string \<Rightarrow> string \<Rightarrow> UserTable \<Rightarrow> UserTable \<times> unit result" where
  "Postgres_UpdatePasswordHash userID hash t =
     touched (update_where (\<lambda>row. ur_id row = userID) (\<lambda>row. row\<lparr>ur_password_hash := hash\<rparr>) t)"

section \<open>Revoked tokens\<close>

text \<open>The primary key of the table is the token.\<close>

type_synonym TokenTable = "(string \<times> time) list"

definition Postgres_Revoke :: "string \<Rightarrow> time \<Rightarrow> TokenTable \<Rightarrow> TokenTable" where
  "Postgres_Revoke tokenID expiresAt t =
     (if list_ex (\<lambda>(i, _). i = tokenID) t then t else t @ [(tokenID, expiresAt)])"

definition Postgres_IsRevoked :: "string \<Rightarrow> TokenTable \<Rightarrow> bool" where
  "Postgres_IsRevoked tokenID t \<longleftrightarrow> list_ex (\<lambda>(i, _). i = tokenID) t"

definition Postgres_Token_DeleteExpired :: "time \<Rightarrow> TokenTable \<Rightarrow> TokenTable \<times> nat" where
  "Postgres_Token_DeleteExpired now t = delete_where (\<lambda>(_, expires_at). expires_at \<le> now) t"

section \<open>Verification links\<close>

record verificationRow =
  vr_token :: string
  vr_user_id :: string
  vr_email :: string
  vr_created_at :: time
  vr_expires_at :: time
  vr_sent_at :: "time option"

type_synonym VerificationTable = "verificationRow list"

definition scanVerification :: "verificationRow \<Rightarrow> EmailVerification" where
  "scanVerification row =
     \<lparr>Token = vr_token row, Verification_UserID = vr_user_id row, Verification_Email = vr_email row,
      Verification_CreatedAt = vr_created_at row, Verification_ExpiresAt = vr_expires_at row,
      Verification_SentAt = instant (vr_sent_at row)\<rparr>"

definition Postgres_Verification_Create :: "EmailVerification \<Rightarrow> VerificationTable \<Rightarrow> VerificationTable \<times> unit result" where
  "Postgres_Verification_Create verification t =
     (if list_ex (\<lambda>row. vr_token row = Token verification) t
      then (t, Inl (Wrapf ''storing a verification'' [Opaque ''duplicate key'']))
      else (t @ [\<lparr>vr_token = Token verification, vr_user_id = Verification_UserID verification,
                  vr_email = Verification_Email verification, vr_created_at = Verification_CreatedAt verification,
                  vr_expires_at = Verification_ExpiresAt verification, vr_sent_at = None\<rparr>], Inr ()))"

text \<open>Rows created in the same instant come in the order the table happens to have, and so do the rows that come back;
  a limit below zero is refused.\<close>

definition unsent_order :: "verificationRow \<Rightarrow> verificationRow \<Rightarrow> int" where
  "unsent_order a b = time_Compare (vr_created_at a) (vr_created_at b)"

definition claimUnsentVerificationsSQL :: "time \<Rightarrow> int \<Rightarrow> VerificationTable \<Rightarrow> VerificationTable \<times> verificationRow list" where
  "claimUnsentVerificationsSQL now limit t =
     (let unsent = take (nat limit) (SortFunc unsent_order
            (filter (\<lambda>row. vr_sent_at row = None \<and> now < vr_expires_at row) t));
          claimed = (\<lambda>row. vr_token row \<in> vr_token ` set unsent);
          sent = (\<lambda>row. row\<lparr>vr_sent_at := Some now\<rparr>)
      in (fst (update_where claimed sent t), map sent (filter claimed t)))"

definition Postgres_ClaimUnsent ::
  "time \<Rightarrow> int \<Rightarrow> VerificationTable \<Rightarrow> VerificationTable \<times> EmailVerification list result" where
  "Postgres_ClaimUnsent now limit t =
     (if limit < 0 then (t, Inl (Wrapf ''claiming verifications'' [Opaque ''LIMIT must not be negative'']))
      else case claimUnsentVerificationsSQL now limit t of
        (t', rows) \<Rightarrow> (t', Inr (map scanVerification rows)))"

definition Postgres_Verification_Release :: "string \<Rightarrow> VerificationTable \<Rightarrow> VerificationTable" where
  "Postgres_Verification_Release token t =
     fst (update_where (\<lambda>row. vr_token row = token) (\<lambda>row. row\<lparr>vr_sent_at := None\<rparr>) t)"

definition Postgres_Consume :: "string \<Rightarrow> time \<Rightarrow> VerificationTable \<Rightarrow> VerificationTable \<times> EmailVerification result" where
  "Postgres_Consume token now t =
     (case find (\<lambda>row. vr_token row = token \<and> now < vr_expires_at row) t of
        None \<Rightarrow> (t, Inl (Domain ErrVerificationNotUsable))
      | Some row \<Rightarrow> (fst (delete_where (\<lambda>row. vr_token row = token \<and> now < vr_expires_at row) t), Inr (scanVerification row)))"

definition Postgres_Verification_DeleteExpired :: "time \<Rightarrow> VerificationTable \<Rightarrow> VerificationTable \<times> nat" where
  "Postgres_Verification_DeleteExpired now t = delete_where (\<lambda>row. vr_expires_at row \<le> now) t"

section \<open>Users: rows and accounts\<close>

definition user_of :: "userRow \<Rightarrow> User" where
  "user_of row =
     \<lparr>User_ID = ur_id row, User_Email = ur_email row, PasswordHash = ur_password_hash row, User_Role = ur_role row,
      EmailVerifiedAt = instant (ur_email_verified_at row), User_CreatedAt = ur_created_at row\<rparr>"

definition user_rows_inv :: "UserTable \<Rightarrow> bool" where
  "user_rows_inv t \<longleftrightarrow> distinct (map ur_id t) \<and> distinct (map ur_email t) \<and> list_all user_checks t"

definition same_users :: "UserStore \<Rightarrow> UserTable \<Rightarrow> bool" where
  "same_users r t \<longleftrightarrow> users_inv r \<and> user_rows_inv t \<and>
     (\<forall>e. map_of r e = map_option user_of (find (\<lambda>row. ur_email row = e) t))"

lemma same_usersD:
  "same_users r t \<Longrightarrow> users_inv r" "same_users r t \<Longrightarrow> user_rows_inv t"
  "same_users r t \<Longrightarrow> map_of r e = map_option user_of (find (\<lambda>row. ur_email row = e) t)"
  unfolding same_users_def by blast+

lemma user_of_simps [simp]: "User_ID (user_of row) = ur_id row" "User_Email (user_of row) = ur_email row"
  by (simp_all add: user_of_def)

lemma scanUser_checked: "user_checks row \<Longrightarrow> scanUser (Some row) = Inr (user_of row)"
  by (auto simp: scanUser_def user_of_def user_checks_def ParseRole_def)

lemma found_row: "find P xs = Some row \<Longrightarrow> row \<in> set xs \<and> P row"
  by (rule find_SomeD)

lemma user_row_checked: "user_rows_inv t \<Longrightarrow> row \<in> set t \<Longrightarrow> user_checks row"
  by (simp add: user_rows_inv_def list_all_iff)

lemma user_by_id:
  assumes "same_users r t"
  shows "find_user i r = map_option (\<lambda>row. (ur_email row, user_of row)) (find (\<lambda>row. ur_id row = i) t)"
proof (cases "find (\<lambda>row. ur_id row = i) t")
  case (Some row)
  then have row: "row \<in> set t" "ur_id row = i" using found_row [OF Some] by simp_all
  then have "find (\<lambda>x. ur_email x = ur_email row) t = Some row"
    using same_usersD(2) [OF assms] find_key [of ur_email t] unfolding user_rows_inv_def by blast
  then have "map_of r (ur_email row) = Some (user_of row)" using same_usersD(3) [OF assms, of "ur_email row"] by simp
  from find_user_unique [OF same_usersD(1) [OF assms] this] show ?thesis using Some row(2) by simp
next
  case None
  have "User_ID u \<noteq> i" if u: "map_of r k = Some u" for k u
  proof -
    obtain row where "find (\<lambda>row. ur_email row = k) t = Some row" "u = user_of row"
      using u unfolding same_usersD(3) [OF assms] by auto
    then show ?thesis using None found_row [of "\<lambda>row. ur_email row = k" t row] by (auto simp: find_None_iff)
  qed
  then have "user_id_new r i" unfolding user_id_new_def by blast
  then show ?thesis using None find_user_None [OF users_invD(1) [OF same_usersD(1) [OF assms]]] by simp
qed

text \<open>An update of rows that leaves ids and addresses alone is an update of the accounts.\<close>

lemma same_users_update:
  assumes "same_users r t" "users_inv r'"
    and keeps: "\<And>row. P row \<Longrightarrow> ur_id (f row) = ur_id row \<and> ur_email (f row) = ur_email row \<and> (user_checks row \<longrightarrow> user_checks (f row))"
    and moves: "\<And>e row. find (\<lambda>row. ur_email row = e) t = Some row \<Longrightarrow>
      map_of r' e = Some (user_of (if P row then f row else row))"
    and stays: "\<And>e. map_of r e = None \<Longrightarrow> map_of r' e = None"
  shows "same_users r' (fst (update_where P f t))"
proof -
  have "map_of r' e = map_option user_of (find (\<lambda>row. ur_email row = e) (fst (update_where P f t)))" for e
  proof (cases "find (\<lambda>row. ur_email row = e) t")
    case None
    then show ?thesis using stays [of e] same_usersD(3) [OF assms(1), of e] keeps by (simp add: find_update_where)
  next
    case (Some row)
    then show ?thesis using moves [OF Some] keeps by (simp add: find_update_where)
  qed
  moreover have "user_rows_inv (fst (update_where P f t))"
    using same_usersD(2) [OF assms(1)] keeps
    unfolding user_rows_inv_def by (simp add: update_where_map) (auto simp: update_where_def list_all_iff)
  ultimately show ?thesis using assms(2) by (simp add: same_users_def)
qed

lemma touched_some: "find P t = Some row \<Longrightarrow> touched (update_where P f t) = (fst (update_where P f t), Inr ())"
  using touched_none [of P f t] by (simp add: touched_def case_prod_unfold)

lemma touched_nothing: "find P t = None \<Longrightarrow> touched (update_where P f t) = (t, Inl (Repository ErrUserNotFound))"
proof -
  assume none: "find P t = None"
  then have "map (\<lambda>row. if P row then f row else row) t = t" by (auto simp: find_None_iff intro!: map_idI)
  then show ?thesis using none touched_none [of P f t] by (simp add: touched_def update_where_def)
qed

lemma create_user_alike:
  assumes "same_users r t" "\<not> EmailVerified u" "user_checks (inserted_user u)" "user_id_new r (User_ID u)"
  shows "case CreateUser u r of
      Inl err \<Rightarrow> Postgres_CreateUser u t = (t, Inl err)
    | Inr r' \<Rightarrow> \<exists>t'. Postgres_CreateUser u t = (t', Inr ()) \<and> same_users r' t'"
proof (cases "find (\<lambda>row. ur_email row = User_Email u) t")
  case (Some row)
  have "list_ex (\<lambda>row. ur_email row = User_Email u) t" using found_row [OF Some] by (auto simp: list_ex_iff)
  then show ?thesis
    using Some same_usersD(3) [OF assms(1), of "User_Email u"] assms(3)
    by (simp add: CreateUser_def Postgres_CreateUser_def insertUserSQL_def del: map_of_eq_Some_iff)
next
  case None
  have none: "map_of r (User_Email u) = None" using None same_usersD(3) [OF assms(1), of "User_Email u"] by simp
  have new: "\<not> list_ex (\<lambda>row. ur_email row = User_Email u) t" "User_Email u \<notin> ur_email ` set t"
    using None by (auto simp: find_None_iff list_ex_iff)
  have "find_user (User_ID u) r = None"
    using find_user_None [OF users_invD(1) [OF same_usersD(1) [OF assms(1)]]] assms(4) by simp
  then have "find (\<lambda>row. ur_id row = User_ID u) t = None" using user_by_id [OF assms(1)] by simp
  then have fresh: "\<not> list_ex (\<lambda>row. ur_id row = User_ID u) t" "User_ID u \<notin> ur_id ` set t"
    by (auto simp: find_None_iff list_ex_iff)
  let ?r = "AList.update (User_Email u) u r" and ?row = "inserted_user u"
  have row: "ur_email ?row = User_Email u" "ur_id ?row = User_ID u" "user_of ?row = u"
    using assms(2) by (cases u, simp add: inserted_user_def user_of_def instant_def EmailVerified_def IsZero_def)+
  have "find (\<lambda>row. ur_email row = e) (t @ [?row]) =
      (case find (\<lambda>row. ur_email row = e) t of None \<Rightarrow> if e = User_Email u then Some ?row else None | Some row \<Rightarrow> Some row)" for e
    by (induction t) (auto simp: row(1))
  then have "map_of ?r e = map_option user_of (find (\<lambda>row. ur_email row = e) (t @ [?row]))" for e
    using same_usersD(3) [OF assms(1), of e] None row(3) by (auto split: option.splits)
  moreover have "users_inv ?r" using users_inv_update [OF same_usersD(1) [OF assms(1)]] assms(4) by simp
  moreover have "user_rows_inv (t @ [?row])"
    using same_usersD(2) [OF assms(1)] new(2) fresh(2) assms(3) by (simp add: user_rows_inv_def row)
  ultimately have "same_users ?r (t @ [?row])" by (simp add: same_users_def)
  then show ?thesis
    using none new(1) fresh(1) assms(3) by (simp add: CreateUser_def Postgres_CreateUser_def insertUserSQL_def)
qed

lemma set_role_alike:
  assumes "same_users r t" "role \<in> {''customer'', ''admin''}"
  shows "case SetRole e role r of
      Inl err \<Rightarrow> Postgres_SetRole e role t = (t, Inl err)
    | Inr r' \<Rightarrow> \<exists>t'. Postgres_SetRole e role t = (t', Inr ()) \<and> same_users r' t'"
proof (cases "find (\<lambda>row. ur_email row = e) t")
  case None
  then show ?thesis
    using same_usersD(3) [OF assms(1), of e] assms(2)
    by (auto simp: SetRole_def Postgres_SetRole_def touched_nothing simp del: map_of_eq_Some_iff)
next
  case (Some row)
  have r: "SetRole e role r = Inr (AList.update e ((user_of row)\<lparr>User_Role := role\<rparr>) r)"
    using Some same_usersD(3) [OF assms(1), of e] by (simp add: SetRole_def del: map_of_eq_Some_iff)
  have "same_users (AList.update e ((user_of row)\<lparr>User_Role := role\<rparr>) r)
      (fst (update_where (\<lambda>row. ur_email row = e) (\<lambda>row. row\<lparr>ur_role := role\<rparr>) t))"
  proof (rule same_users_update [OF assms(1) SetRole_inv [OF same_usersD(1) [OF assms(1)] r]], goal_cases)
    case (2 e' row')
    then show ?case
      using Some found_row [OF 2] same_usersD(3) [OF assms(1), of e'] by (auto simp: user_of_def simp del: map_of_eq_Some_iff)
  next
    case (3 e')
    then show ?case using Some same_usersD(3) [OF assms(1), of e] by (auto simp del: map_of_eq_Some_iff)
  qed (use assms(2) in \<open>simp add: user_checks_def\<close>)
  then show ?thesis using r touched_some [OF Some] assms(2) by (simp add: Postgres_SetRole_def)
qed

lemma mark_alike:
  assumes "same_users r t"
  shows "case MarkEmailVerified i e now r of
      Inl err \<Rightarrow> Postgres_MarkEmailVerified i e now t = (t, Inl err)
    | Inr r' \<Rightarrow> \<exists>t'. Postgres_MarkEmailVerified i e now t = (t', Inr ()) \<and> same_users r' t'"
proof -
  let ?P = "\<lambda>row. ur_id row = i \<and> ur_email row = e"
  have both: "find ?P t = (case find (\<lambda>row. ur_email row = e) t of None \<Rightarrow> None | Some row \<Rightarrow> if ur_id row = i then Some row else None)"
    using same_usersD(2) [OF assms] unfolding user_rows_inv_def by (intro find_key_and) blast
  show ?thesis
  proof (cases "find ?P t")
    case None
    have "MarkEmailVerified i e now r = Inl (Repository ErrUserNotFound)"
      using None both same_usersD(3) [OF assms, of e]
      by (auto simp: MarkEmailVerified_def simp del: map_of_eq_Some_iff split: option.splits if_splits)
    then show ?thesis using touched_nothing [OF None] by (simp add: Postgres_MarkEmailVerified_def)
  next
    case (Some row)
    then have f: "find (\<lambda>row. ur_email row = e) t = Some row" "ur_id row = i"
      using both by (auto split: option.splits if_splits)
    let ?r = "AList.update e ((user_of row)\<lparr>EmailVerifiedAt := now\<rparr>) r"
    have r: "MarkEmailVerified i e now r = Inr ?r"
      using f same_usersD(3) [OF assms, of e] by (simp add: MarkEmailVerified_def del: map_of_eq_Some_iff)
    have "same_users ?r (fst (update_where ?P (\<lambda>row. row\<lparr>ur_email_verified_at := Some now\<rparr>) t))"
    proof (rule same_users_update [OF assms MarkEmailVerified_inv [OF same_usersD(1) [OF assms] r]], goal_cases)
      case (2 e' row')
      have e': "ur_email row' = e'" using found_row [OF 2] by simp
      show ?case
      proof (cases "e' = e")
        case True
        then have "row' = row" using 2 f(1) by simp
        then show ?thesis using True e' f(2) by (simp add: user_of_def instant_def)
      next
        case False
        then show ?thesis using e' 2 same_usersD(3) [OF assms, of e'] by (simp del: map_of_eq_Some_iff)
      qed
    next
      case (3 e')
      then show ?case using f same_usersD(3) [OF assms, of e] by (auto simp del: map_of_eq_Some_iff)
    qed (simp add: user_checks_def)
    then show ?thesis using r touched_some [OF Some] by (simp add: Postgres_MarkEmailVerified_def)
  qed
qed

lemma new_hash_alike:
  assumes "same_users r t"
  shows "case UpdatePasswordHash i h r of
      Inl err \<Rightarrow> Postgres_UpdatePasswordHash i h t = (t, Inl err)
    | Inr r' \<Rightarrow> \<exists>t'. Postgres_UpdatePasswordHash i h t = (t', Inr ()) \<and> same_users r' t'"
proof (cases "find (\<lambda>row. ur_id row = i) t")
  case None
  then show ?thesis
    using user_by_id [OF assms, of i] touched_nothing [OF None] by (simp add: UpdatePasswordHash_def Postgres_UpdatePasswordHash_def)
next
  case (Some row)
  let ?e = "ur_email row"
  let ?r = "AList.update ?e ((user_of row)\<lparr>PasswordHash := h\<rparr>) r"
  have r: "UpdatePasswordHash i h r = Inr ?r" using user_by_id [OF assms, of i] Some by (simp add: UpdatePasswordHash_def)
  have row: "row \<in> set t" "ur_id row = i" using found_row [OF Some] by simp_all
  have f: "find (\<lambda>x. ur_email x = ?e) t = Some row"
    using row same_usersD(2) [OF assms] find_key [of ur_email t] unfolding user_rows_inv_def by blast
  have "same_users ?r (fst (update_where (\<lambda>row. ur_id row = i) (\<lambda>row. row\<lparr>ur_password_hash := h\<rparr>) t))"
  proof (rule same_users_update [OF assms UpdatePasswordHash_inv [OF same_usersD(1) [OF assms] r]], goal_cases)
    case (2 e' row')
    have row': "row' \<in> set t" "ur_email row' = e'" using found_row [OF 2] by simp_all
    have "row' = row" if "ur_id row' = i"
      using Some row'(1) that same_usersD(2) [OF assms] find_key [of ur_id t i row'] unfolding user_rows_inv_def by simp
    moreover have "row' = row" if "e' = ?e" using 2 f that by simp
    ultimately have eq: "ur_id row' = i \<longleftrightarrow> e' = ?e" "e' = ?e \<Longrightarrow> row' = row" using row(2) row'(2) by auto
    show ?case
    proof (cases "e' = ?e")
      case True
      then show ?thesis using eq by (simp add: user_of_def)
    next
      case False
      then show ?thesis using eq(1) 2 same_usersD(3) [OF assms, of e'] by (simp del: map_of_eq_Some_iff)
    qed
  next
    case (3 e')
    then show ?case using f same_usersD(3) [OF assms, of ?e] by (auto simp del: map_of_eq_Some_iff)
  qed (simp add: user_checks_def)
  then show ?thesis using r touched_some [OF Some] by (simp add: Postgres_UpdatePasswordHash_def)
qed

lemma scan_found:
  assumes "same_users r t"
  shows "scanUser (find P t) = (case find P t of None \<Rightarrow> Inl (Repository ErrUserNotFound) | Some row \<Rightarrow> Inr (user_of row))"
proof (cases "find P t")
  case None
  then show ?thesis by (simp add: scanUser_def)
next
  case (Some row)
  have "user_checks row" using user_row_checked [OF same_usersD(2) [OF assms]] found_row [OF Some] by blast
  then show ?thesis unfolding Some by (simp add: scanUser_checked)
qed

lemma by_email_alike: "same_users r t \<Longrightarrow> Postgres_GetUserByEmail e t = GetUserByEmail e r"
  by (simp add: Postgres_GetUserByEmail_def GetUserByEmail_def scan_found same_usersD(3) split: option.split)

lemma by_id_alike: "same_users r t \<Longrightarrow> Postgres_GetUserByID i t = GetUserByID i r"
  by (simp add: Postgres_GetUserByID_def GetUserByID_def scan_found user_by_id split: option.split)

datatype user_call =
    AddUser User | UserByEmail string | UserByID string | GiveRole string Role | ConfirmEmail string string time
  | ReplaceHash string string

datatype user_answer = UserDone "unit result" | UserRead "User result"

primrec memory_users :: "user_call \<Rightarrow> UserStore \<Rightarrow> UserStore \<times> user_answer" where
  "memory_users (AddUser u) r = (case CreateUser u r of Inl err \<Rightarrow> (r, UserDone (Inl err)) | Inr r' \<Rightarrow> (r', UserDone (Inr ())))"
| "memory_users (UserByEmail e) r = (r, UserRead (GetUserByEmail e r))"
| "memory_users (UserByID i) r = (r, UserRead (GetUserByID i r))"
| "memory_users (GiveRole e role) r =
     (case SetRole e role r of Inl err \<Rightarrow> (r, UserDone (Inl err)) | Inr r' \<Rightarrow> (r', UserDone (Inr ())))"
| "memory_users (ConfirmEmail i e now) r =
     (case MarkEmailVerified i e now r of Inl err \<Rightarrow> (r, UserDone (Inl err)) | Inr r' \<Rightarrow> (r', UserDone (Inr ())))"
| "memory_users (ReplaceHash i h) r =
     (case UpdatePasswordHash i h r of Inl err \<Rightarrow> (r, UserDone (Inl err)) | Inr r' \<Rightarrow> (r', UserDone (Inr ())))"

primrec table_users :: "user_call \<Rightarrow> UserTable \<Rightarrow> UserTable \<times> user_answer" where
  "table_users (AddUser u) t = (case Postgres_CreateUser u t of (t', res) \<Rightarrow> (t', UserDone res))"
| "table_users (UserByEmail e) t = (t, UserRead (Postgres_GetUserByEmail e t))"
| "table_users (UserByID i) t = (t, UserRead (Postgres_GetUserByID i t))"
| "table_users (GiveRole e role) t = (case Postgres_SetRole e role t of (t', res) \<Rightarrow> (t', UserDone res))"
| "table_users (ConfirmEmail i e now) t = (case Postgres_MarkEmailVerified i e now t of (t', res) \<Rightarrow> (t', UserDone res))"
| "table_users (ReplaceHash i h) t = (case Postgres_UpdatePasswordHash i h t of (t', res) \<Rightarrow> (t', UserDone res))"

primrec permitted_user :: "UserStore \<Rightarrow> user_call \<Rightarrow> bool" where
  "permitted_user r (AddUser u) \<longleftrightarrow> \<not> EmailVerified u \<and> User_Role u \<in> {''customer'', ''admin''} \<and> user_id_new r (User_ID u)"
| "permitted_user r (GiveRole e role) \<longleftrightarrow> role \<in> {''customer'', ''admin''}"
| "permitted_user r (UserByEmail _) \<longleftrightarrow> True"
| "permitted_user r (UserByID _) \<longleftrightarrow> True"
| "permitted_user r (ConfirmEmail _ _ _) \<longleftrightarrow> True"
| "permitted_user r (ReplaceHash _ _) \<longleftrightarrow> True"

interpretation directories: equal_store same_users permitted_user memory_users table_users
proof (unfold_locales, goal_cases)
  case (1 r t c r' a t' b)
  note same = 1(1)
  show ?case
  proof (cases c)
    case (AddUser u)
    have u: "\<not> EmailVerified u" "user_checks (inserted_user u)" "user_id_new r (User_ID u)"
      using 1(2) by (simp_all add: AddUser user_checks_def inserted_user_def)
    from create_user_alike [OF same u] show ?thesis using 1 by (cases "CreateUser u r") (auto simp: AddUser)
  next
    case (GiveRole e role)
    have "role \<in> {''customer'', ''admin''}" using 1(2) by (simp add: GiveRole)
    from set_role_alike [OF same this, of e] show ?thesis using 1 by (cases "SetRole e role r") (auto simp: GiveRole)
  next
    case (ConfirmEmail i e now)
    then show ?thesis using 1 mark_alike [OF same, of i e now] by (cases "MarkEmailVerified i e now r") auto
  next
    case (ReplaceHash i h)
    then show ?thesis using 1 new_hash_alike [OF same, of i h] by (cases "UpdatePasswordHash i h r") auto
  qed (use 1 by_email_alike [OF same] by_id_alike [OF same] in auto)
qed

section \<open>Tokens: the same rows\<close>

datatype token_call = RevokeToken string time | AskToken string | SweepTokens time

datatype token_answer = TokenDone | TokenRevoked bool | TokensSwept nat

primrec memory_tokens :: "token_call \<Rightarrow> TokenStore \<Rightarrow> TokenStore \<times> token_answer" where
  "memory_tokens (RevokeToken i t) r = (Revoke i t r, TokenDone)"
| "memory_tokens (AskToken i) r = (r, TokenRevoked (IsRevoked i r))"
| "memory_tokens (SweepTokens now) r = (case Token_DeleteExpired now r of (r', n) \<Rightarrow> (r', TokensSwept n))"

primrec table_tokens :: "token_call \<Rightarrow> TokenTable \<Rightarrow> TokenTable \<times> token_answer" where
  "table_tokens (RevokeToken i t) rows = (Postgres_Revoke i t rows, TokenDone)"
| "table_tokens (AskToken i) rows = (rows, TokenRevoked (Postgres_IsRevoked i rows))"
| "table_tokens (SweepTokens now) rows = (case Postgres_Token_DeleteExpired now rows of (rows', n) \<Rightarrow> (rows', TokensSwept n))"

text \<open>A token expires when it was issued to, whoever revokes it.\<close>

definition same_expiry :: "TokenStore \<Rightarrow> token_call \<Rightarrow> bool" where
  "same_expiry r c \<longleftrightarrow> (case c of RevokeToken i t \<Rightarrow> \<forall>t'. map_of r i = Some t' \<longrightarrow> t' = t | _ \<Rightarrow> True)"

interpretation revocations: equal_store "\<lambda>r rows. rows = r \<and> gomap_ok r" same_expiry memory_tokens table_tokens
proof (unfold_locales, goal_cases)
  case (1 r rows c r' a rows' b)
  then have rows: "rows = r" "gomap_ok r" by simp_all
  show ?case
  proof (cases c)
    case (RevokeToken i t)
    have "Postgres_Revoke i t r = Revoke i t r"
    proof (cases "map_of r i")
      case None
      then show ?thesis unfolding Postgres_Revoke_def Revoke_def in_keys by (simp add: update_new)
    next
      case (Some t')
      then have "t' = t" using 1(2) RevokeToken by (simp add: same_expiry_def)
      then show ?thesis using Some update_triv [of r i t] unfolding Postgres_Revoke_def Revoke_def in_keys by simp
    qed
    moreover have "gomap_ok (Revoke i t r)" using rows(2) by (simp add: Revoke_def)
    ultimately show ?thesis using 1(3,4) rows(1) by (auto simp: RevokeToken)
  next
    case (AskToken i)
    then show ?thesis using 1(3,4) rows by (auto simp: IsRevoked_def Postgres_IsRevoked_def in_keys)
  next
    case (SweepTokens now)
    have "Postgres_Token_DeleteExpired now r = Token_DeleteExpired now r"
      unfolding Postgres_Token_DeleteExpired_def Token_DeleteExpired_eq delete_where_def
      by (simp add: case_prod_unfold Before_def not_less not_le)
    moreover have "gomap_ok (fst (Token_DeleteExpired now r))"
      using rows(2) by (simp add: Token_DeleteExpired_eq distinct_map_filter)
    ultimately show ?thesis using 1(3,4) rows by (auto simp: SweepTokens split: prod.splits)
  qed
qed

section \<open>Verification links: the same rows\<close>

text \<open>The map lists what the table lists.\<close>

abbreviation links_of :: "VerificationTable \<Rightarrow> VerificationStore" where
  "links_of t \<equiv> as_map vr_token scanVerification t"

definition link_rows_inv :: "VerificationTable \<Rightarrow> bool" where
  "link_rows_inv t \<longleftrightarrow> distinct (map vr_token t) \<and> (\<forall>row \<in> set t. vr_sent_at row \<noteq> Some zero_time)"

definition same_links :: "VerificationStore \<Rightarrow> VerificationTable \<Rightarrow> bool" where
  "same_links r t \<longleftrightarrow> r = links_of t \<and> link_rows_inv t"

lemma link_rows_inv_update:
  "link_rows_inv t \<Longrightarrow> (\<And>row. vr_token (f row) = vr_token row) \<Longrightarrow> (\<And>row. vr_sent_at (f row) \<noteq> Some zero_time) \<Longrightarrow>
     link_rows_inv (fst (update_where P f t))"
  by (auto simp: link_rows_inv_def update_where_map) (auto simp: update_where_def split: if_splits)

datatype link_call = AddLink EmailVerification | ClaimLinks time int | ReturnLink string | FollowLink string time | SweepLinks time

datatype link_answer =
    LinkAdded "unit result" | LinksClaimed "EmailVerification list result" | LinkReturned
  | LinkFollowed "EmailVerification result" | LinksSwept nat

primrec memory_links :: "link_call \<Rightarrow> VerificationStore \<Rightarrow> VerificationStore \<times> link_answer" where
  "memory_links (AddLink v) r = (Verification_Create v r, LinkAdded (Inr ()))"
| "memory_links (ClaimLinks now limit) r = (case ClaimUnsent now limit r of (r', vs) \<Rightarrow> (r', LinksClaimed (Inr vs)))"
| "memory_links (ReturnLink token) r = (Verification_Release token r, LinkReturned)"
| "memory_links (FollowLink token now) r = (case Consume token now r of (r', res) \<Rightarrow> (r', LinkFollowed res))"
| "memory_links (SweepLinks now) r = (case Verification_DeleteExpired now r of (r', n) \<Rightarrow> (r', LinksSwept n))"

primrec table_links :: "link_call \<Rightarrow> VerificationTable \<Rightarrow> VerificationTable \<times> link_answer" where
  "table_links (AddLink v) t = (case Postgres_Verification_Create v t of (t', res) \<Rightarrow> (t', LinkAdded res))"
| "table_links (ClaimLinks now limit) t = (case Postgres_ClaimUnsent now limit t of (t', res) \<Rightarrow> (t', LinksClaimed res))"
| "table_links (ReturnLink token) t = (Postgres_Verification_Release token t, LinkReturned)"
| "table_links (FollowLink token now) t = (case Postgres_Consume token now t of (t', res) \<Rightarrow> (t', LinkFollowed res))"
| "table_links (SweepLinks now) t = (case Postgres_Verification_DeleteExpired now t of (t', n) \<Rightarrow> (t', LinksSwept n))"

text \<open>New links have a token of their own and are unsent; a claim has room for every unsent link, or none of them is as old as another.\<close>

definition unsent_link :: "time \<Rightarrow> EmailVerification \<Rightarrow> bool" where
  "unsent_link now v \<longleftrightarrow> \<not> (\<not> IsZero (Verification_SentAt v) \<or> \<not> Before now (Verification_ExpiresAt v))"

definition permitted_link :: "VerificationStore \<Rightarrow> link_call \<Rightarrow> bool" where
  "permitted_link r c \<longleftrightarrow>
     (case c of
        AddLink v \<Rightarrow> map_of r (Token v) = None \<and> IsZero (Verification_SentAt v)
      | ClaimLinks now limit \<Rightarrow> 0 < limit \<and> now \<noteq> zero_time \<and>
          (int (length (filter (unsent_link now) (vals r))) \<le> limit \<or>
           distinct (map Verification_CreatedAt (filter (unsent_link now) (vals r))))
      | _ \<Rightarrow> True)"

text \<open>The rows of a claim come back in any order.\<close>

definition same_link_answer :: "link_answer \<Rightarrow> link_answer \<Rightarrow> bool" where
  "same_link_answer a b \<longleftrightarrow>
     (case (a, b) of (LinksClaimed (Inr xs), LinksClaimed (Inr ys)) \<Rightarrow> mset xs = mset ys | _ \<Rightarrow> a = b)"

lemma same_link_answer_refl [simp]: "same_link_answer a a"
  by (simp add: same_link_answer_def split: link_answer.split sum.split)

lemma unsent_row: "link_rows_inv t \<Longrightarrow> row \<in> set t \<Longrightarrow> unsent_link now (scanVerification row) \<longleftrightarrow> vr_sent_at row = None \<and> now < vr_expires_at row"
  by (cases "vr_sent_at row") (auto simp: unsent_link_def scanVerification_def instant_def IsZero_def Before_def link_rows_inv_def)

lemma claim_links_alike:
  assumes "link_rows_inv t" "permitted_link (links_of t) (ClaimLinks now limit)"
  obtains t' xs ys where "ClaimUnsent now limit (links_of t) = (links_of t', xs)"
    "Postgres_ClaimUnsent now limit t = (t', Inr ys)" "mset xs = mset ys" "link_rows_inv t'"
proof -
  let ?mark = "\<lambda>v. v\<lparr>Verification_SentAt := now\<rparr>" and ?sent = "\<lambda>row. row\<lparr>vr_sent_at := Some now\<rparr>"
  let ?want = "\<lambda>row. vr_sent_at row = None \<and> now < vr_expires_at row"
  let ?picked = "\<lambda>row. vr_token row \<in> vr_token ` set (take (nat limit) (SortFunc unsent_order (filter ?want t)))"
  have lim: "0 < limit" "now \<noteq> zero_time" and room: "int (length (filter (unsent_link now) (vals (links_of t)))) \<le> limit \<or>
      distinct (map Verification_CreatedAt (filter (unsent_link now) (vals (links_of t))))"
    using assms(2) by (simp_all add: permitted_link_def)
  have unsent: "filter (unsent_link now) (vals (links_of t)) = map scanVerification (filter ?want t)"
    by (simp add: filter_map comp_def unsent_row [OF assms(1)] cong: filter_cong)
  have toks: "distinct (map vr_token t)" using assms(1) by (simp add: link_rows_inv_def)
  have at: "map_of (links_of t) (vr_token row) = Some (scanVerification row)" if "row \<in> set t" for row
    using find_key [OF toks, of "vr_token row" row] that by (simp add: map_of_as_map)
  have "\<exists>xs. claim (unsent_link now) Verification_CreatedAt ?mark limit (links_of t) =
      (links_of (fst (update_where ?picked ?sent t)), xs) \<and>
      mset xs = mset (map scanVerification (map ?sent (filter ?picked t)))"
  proof (rule claim_rows [OF toks toks lim(1)])
    show "int (length (filter ?want t)) \<le> limit \<or> (\<forall>x \<in> set (filter ?want t). \<forall>y \<in> set (filter ?want t).
        (stamp_cmp Verification_CreatedAt (links_of t) (vr_token x) (vr_token y) \<le> 0) = (unsent_order x y \<le> 0))"
      using room
    proof
      assume "distinct (map Verification_CreatedAt (filter (unsent_link now) (vals (links_of t))))"
      then have created: "distinct (map vr_created_at (filter ?want t))" unfolding unsent by (simp add: scanVerification_def comp_def)
      have "(stamp_cmp Verification_CreatedAt (links_of t) (vr_token x) (vr_token y) \<le> 0) = (unsent_order x y \<le> 0)"
        if xy: "x \<in> set (filter ?want t)" "y \<in> set (filter ?want t)" for x y
      proof -
        have "x = y" if "vr_created_at x = vr_created_at y" using same_row [OF created xy that] .
        then show ?thesis
          using xy by (auto simp: stamp_cmp_def at unsent_order_def Let_def scanVerification_def time_Compare_def cmpString_def)
      qed
      then show ?thesis by blast
    next
      assume "int (length (filter (unsent_link now) (vals (links_of t)))) \<le> limit"
      then show ?thesis unfolding unsent length_map by (rule disjI1)
    qed
  next
    fix row assume "row \<in> set t"
    then show "unsent_link now (scanVerification row) \<longleftrightarrow> ?want row" by (rule unsent_row [OF assms(1)])
  qed (simp_all add: scanVerification_def instant_def)
  then obtain xs where xs: "claim (unsent_link now) Verification_CreatedAt ?mark limit (links_of t) =
      (links_of (fst (update_where ?picked ?sent t)), xs)"
    "mset xs = mset (map scanVerification (map ?sent (filter ?picked t)))" by blast
  have "ClaimUnsent now limit (links_of t) = (links_of (fst (update_where ?picked ?sent t)), xs)"
    using xs(1) by (simp only: ClaimUnsent_def claim_def unsent_link_def [abs_def] Let_def)
  moreover have "Postgres_ClaimUnsent now limit t =
      (fst (update_where ?picked ?sent t), Inr (map scanVerification (map ?sent (filter ?picked t))))"
    using lim(1) by (simp add: Postgres_ClaimUnsent_def claimUnsentVerificationsSQL_def Let_def)
  moreover have "link_rows_inv (fst (update_where ?picked ?sent t))"
    by (rule link_rows_inv_update [OF assms(1)]) (simp_all add: lim(2))
  ultimately show ?thesis using that xs(2) by blast
qed

lemma add_link_alike:
  assumes "same_links r t" "map_of r (Token v) = None" "IsZero (Verification_SentAt v)"
  obtains t' where "Postgres_Verification_Create v t = (t', Inr ())" "same_links (Verification_Create v r) t'"
proof -
  let ?row = "\<lparr>vr_token = Token v, vr_user_id = Verification_UserID v, vr_email = Verification_Email v,
    vr_created_at = Verification_CreatedAt v, vr_expires_at = Verification_ExpiresAt v, vr_sent_at = None\<rparr>"
  have r: "r = links_of t" "link_rows_inv t" using assms(1) by (simp_all add: same_links_def)
  have new: "\<not> list_ex (\<lambda>row. vr_token row = Token v) t" "Token v \<notin> vr_token ` set t"
    using assms(2) unfolding r(1) map_of_as_map by (auto simp: list_ex_iff find_None_iff)
  have "scanVerification ?row = v"
    using assms(3) by (cases v) (simp add: scanVerification_def instant_def IsZero_def)
  then have "Verification_Create v r = links_of (t @ [?row])"
    using assms(2) by (simp add: Verification_Create_def update_new r(1))
  moreover have "link_rows_inv (t @ [?row])" using r(2) new(2) by (auto simp: link_rows_inv_def)
  moreover have "Postgres_Verification_Create v t = (t @ [?row], Inr ())"
    using new(1) by (simp add: Postgres_Verification_Create_def)
  ultimately show ?thesis using that by (simp add: same_links_def)
qed

lemma return_link_alike: "same_links r t \<Longrightarrow> same_links (Verification_Release k r) (Postgres_Verification_Release k t)"
proof -
  assume same: "same_links r t"
  then have r: "r = links_of t" "link_rows_inv t" by (simp_all add: same_links_def)
  let ?f = "\<lambda>row. row\<lparr>vr_sent_at := None\<rparr>"
  have inv: "link_rows_inv (Postgres_Verification_Release k t)"
    unfolding Postgres_Verification_Release_def by (rule link_rows_inv_update [OF r(2)]) simp_all
  show ?thesis
  proof (cases "find (\<lambda>row. vr_token row = k) t")
    case None
    then have "map (\<lambda>row. if vr_token row = k then ?f row else row) t = t" by (auto simp: find_None_iff intro!: map_idI)
    then show ?thesis
      using None inv r by (simp add: same_links_def Verification_Release_def map_of_as_map Postgres_Verification_Release_def update_where_def)
  next
    case (Some row)
    have row: "row \<in> set t" "vr_token row = k" using find_found [OF Some] by simp_all
    have "AList.update k ((scanVerification row)\<lparr>Verification_SentAt := zero_time\<rparr>) (links_of t) =
        links_of (fst (update_where (\<lambda>row. vr_token row = k) ?f t))"
    proof (rule as_map_update)
      fix x assume "vr_token x = k" "x \<in> set t"
      then have "x = row" using row r(2) by (auto simp: link_rows_inv_def distinct_map dest: inj_onD)
      then show "vr_token (?f x) = k \<and> scanVerification (?f x) = (scanVerification row)\<lparr>Verification_SentAt := zero_time\<rparr>"
        by (simp add: scanVerification_def instant_def row(2))
    qed (use row r(2) in \<open>auto simp: link_rows_inv_def\<close>)
    then show ?thesis
      using inv Some
      by (simp add: same_links_def Verification_Release_def r(1) map_of_as_map Postgres_Verification_Release_def
          del: map_of_eq_Some_iff)
  qed
qed

lemma follow_link_alike:
  assumes "same_links r t" "Consume k now r = (r', res)"
  obtains t' where "Postgres_Consume k now t = (t', res)" "same_links r' t'"
proof -
  have r: "r = links_of t" "distinct (map vr_token t)" "link_rows_inv t"
    using assms(1) by (simp_all add: same_links_def link_rows_inv_def)
  let ?P = "\<lambda>row. now < vr_expires_at row \<and> vr_token row = k"
  have usable: "IsUsable now (scanVerification row) \<longleftrightarrow> now < vr_expires_at row" for row
    by (simp add: IsUsable_def scanVerification_def Before_def)
  have found: "find (\<lambda>row. vr_token row = k \<and> now < vr_expires_at row) t = find ?P t" by (simp add: conj_commute)
  show ?thesis
  proof (cases "find ?P t")
    case None
    then have "Consume k now r = (r, Inl (Domain ErrVerificationNotUsable))"
      using find_key_and [OF r(2), of "\<lambda>row. now < vr_expires_at row" k]
      by (auto simp: Consume_def r(1) map_of_as_map usable split: option.splits if_splits)
    then show ?thesis using that [of t] None assms found by (simp add: Postgres_Consume_def)
  next
    case (Some row)
    have row: "find (\<lambda>row. vr_token row = k) t = Some row" "now < vr_expires_at row"
      using Some find_key_and [OF r(2), of "\<lambda>row. now < vr_expires_at row" k] by (auto split: option.splits if_splits)
    have here: "row \<in> set t" "vr_token row = k" using find_found [OF row(1)] by simp_all
    have only: "x = row" if "x \<in> set t" "vr_token x = k" for x
      using that here r(2) by (auto simp: distinct_map dest: inj_onD)
    let ?t = "filter (\<lambda>row. \<not> (vr_token row = k \<and> now < vr_expires_at row)) t"
    have "?t = filter (\<lambda>row. vr_token row \<noteq> k) t" using only row(2) by (auto intro!: filter_cong)
    then have "AList.delete k (links_of t) = links_of ?t" by (simp add: as_map_delete)
    moreover have "Consume k now r = (AList.delete k (links_of t), Inr (scanVerification row))"
      using row by (simp add: Consume_def r(1) map_of_as_map usable del: map_of_eq_Some_iff)
    moreover have "Postgres_Consume k now t = (?t, Inr (scanVerification row))"
      using Some found by (simp add: Postgres_Consume_def delete_where_def)
    moreover have "link_rows_inv ?t" using r(3) by (simp add: link_rows_inv_def distinct_map_filter)
    ultimately show ?thesis using that [of ?t] assms(2) by (simp add: same_links_def)
  qed
qed

lemma sweep_links_alike:
  assumes "same_links r t" "Verification_DeleteExpired now r = (r', n)"
  shows "\<exists>t'. Postgres_Verification_DeleteExpired now t = (t', n) \<and> same_links r' t'"
proof -
  have r: "r = links_of t" "link_rows_inv t" using assms(1) by (simp_all add: same_links_def)
  have "Verification_DeleteExpired now (links_of t) =
      (links_of (filter (\<lambda>row. now < vr_expires_at row) t), length (filter (\<lambda>row. vr_expires_at row \<le> now) t))"
    by (induction t) (auto simp: as_map_def Let_def Before_def scanVerification_def)
  then show ?thesis
    using assms(2) r by (auto simp: Postgres_Verification_DeleteExpired_def delete_where_def same_links_def not_le
        link_rows_inv_def distinct_map_filter)
qed

interpretation link_stores: same_store same_links permitted_link memory_links table_links same_link_answer
proof (unfold_locales, goal_cases)
  case (1 r t c r' a t' b)
  have r: "r = links_of t" "link_rows_inv t" using 1(1) by (simp_all add: same_links_def)
  show ?case
  proof (cases c)
    case (AddLink v)
    have v: "map_of r (Token v) = None" "IsZero (Verification_SentAt v)" using 1(2) by (simp_all add: AddLink permitted_link_def)
    obtain t1 where "Postgres_Verification_Create v t = (t1, Inr ())" "same_links (Verification_Create v r) t1"
      using add_link_alike [OF 1(1) v] .
    then show ?thesis using 1(3,4) by (auto simp: AddLink)
  next
    case (ClaimLinks now limit)
    have ok: "permitted_link (links_of t) (ClaimLinks now limit)" using 1(2) r(1) by (simp add: ClaimLinks)
    obtain t1 xs ys where "ClaimUnsent now limit (links_of t) = (links_of t1, xs)"
      "Postgres_ClaimUnsent now limit t = (t1, Inr ys)" "mset xs = mset ys" "link_rows_inv t1"
      using claim_links_alike [OF r(2) ok] .
    then show ?thesis using 1(3,4) r(1) by (auto simp: ClaimLinks same_links_def same_link_answer_def)
  next
    case (ReturnLink k)
    then show ?thesis using 1 return_link_alike [OF 1(1), of k] by auto
  next
    case (FollowLink k now)
    obtain r1 res where m: "Consume k now r = (r1, res)" by (meson surj_pair)
    obtain t1 where "Postgres_Consume k now t = (t1, res)" "same_links r1 t1" using follow_link_alike [OF 1(1) m] .
    then show ?thesis using 1(3,4) by (auto simp: FollowLink m)
  next
    case (SweepLinks now)
    obtain r1 n where m: "Verification_DeleteExpired now r = (r1, n)" by (meson surj_pair)
    show ?thesis using sweep_links_alike [OF 1(1) m] 1(3,4) by (auto simp: SweepLinks m)
  qed
qed

section \<open>What callers see\<close>


definition table_ann :: User where
  "table_ann = \<lparr>User_ID = ''u1'', User_Email = ''ann@x'', PasswordHash = ''h'', User_Role = ''customer'',
     EmailVerifiedAt = zero_time, User_CreatedAt = 3\<rparr>"

definition table_link :: EmailVerification where
  "table_link = \<lparr>Token = ''v'', Verification_UserID = ''u1'', Verification_Email = ''ann@x'',
     Verification_CreatedAt = 3, Verification_ExpiresAt = 30, Verification_SentAt = zero_time\<rparr>"


end
