(* ===== verification/Notice_Table.thy ===== *)
theory Notice_Table
  imports Notice_Stores Seat_Table Row_Maps
begin

text \<open>
  What people are told, in Postgres: the outbox (\<open>postgres_delivery_repository.go\<close>), the inbox
  (\<open>postgres_notification_repository.go\<close>) and the browsers to push to (\<open>postgres_push_repository.go\<close>) over their tables
  (\<open>migrations/00009_notifications.sql\<close>, \<open>00010_notification_deliveries.sql\<close>, \<open>00011_push_subscriptions.sql\<close>). The database
  keeps the instants it is given, and fails only by its constraints; \<open>collate\<close> is its order of texts. A batch is one
  transaction.
\<close>

section \<open>The inbox\<close>

record noticeRow =
  nr_id :: string
  nr_user_id :: string
  nr_kind :: string
  nr_event_id :: string
  nr_event_name :: string
  nr_seat_id :: string
  nr_created_at :: time
  nr_read_at :: "time option"

type_synonym NoticeTable = "noticeRow list"

definition notice_checks :: "noticeRow \<Rightarrow> bool" where
  "notice_checks row \<longleftrightarrow> nr_kind row \<in> {''event_cancelled''}"

definition inserted_notice :: "Notification \<Rightarrow> noticeRow" where
  "inserted_notice n =
     \<lparr>nr_id = Notification_ID n, nr_user_id = Notification_UserID n, nr_kind = Notification_Kind n,
      nr_event_id = Notification_EventID n, nr_event_name = Notification_EventName n, nr_seat_id = Notification_SeatID n,
      nr_created_at = Notification_CreatedAt n, nr_read_at = None\<rparr>"

definition insertNotificationSQL :: "Notification \<Rightarrow> NoticeTable \<Rightarrow> NoticeTable result" where
  "insertNotificationSQL n t =
     (if \<not> notice_checks (inserted_notice n) then Inl (Opaque ''constraint violation'')
      else if list_ex (\<lambda>row. nr_id row = Notification_ID n) t then Inr t
      else Inr (t @ [inserted_notice n]))"

fun notify_each :: "Notification list \<Rightarrow> NoticeTable \<Rightarrow> NoticeTable result" where
  "notify_each [] t = Inr t"
| "notify_each (n # ns) t = (case insertNotificationSQL n t of Inl err \<Rightarrow> Inl err | Inr t' \<Rightarrow> notify_each ns t')"

definition Postgres_Notify :: "Notification list \<Rightarrow> NoticeTable \<Rightarrow> NoticeTable \<times> unit result" where
  "Postgres_Notify ns t =
     (if length ns = 0 then (t, Inr ())
      else case notify_each ns t of
        Inl err \<Rightarrow> (t, Inl (Wrapf ''storing notifications'' [err]))
      | Inr t' \<Rightarrow> (t', Inr ()))"

definition scanNotification :: "noticeRow \<Rightarrow> Notification result" where
  "scanNotification row =
     (case ParseNotificationKind (nr_kind row) of
        Inl err \<Rightarrow> Inl err
      | Inr kind \<Rightarrow>
          Inr \<lparr>Notification_ID = nr_id row, Notification_UserID = nr_user_id row, Notification_Kind = kind,
               Notification_EventID = nr_event_id row, Notification_EventName = nr_event_name row,
               Notification_SeatID = nr_seat_id row, Notification_CreatedAt = nr_created_at row,
               ReadAt = instant (nr_read_at row)\<rparr>)"

definition Postgres_Notification_Get :: "string \<Rightarrow> NoticeTable \<Rightarrow> Notification result" where
  "Postgres_Notification_Get notificationID t =
     (case find (\<lambda>row. nr_id row = notificationID) t of
        None \<Rightarrow> Inl (Repository ErrNotificationNotFound)
      | Some row \<Rightarrow>
          (case scanNotification row of
             Inl err \<Rightarrow> Inl (Wrapf ''reading notification'' [err])
           | Inr n \<Rightarrow> Inr n))"

definition inbox_order :: "(string \<Rightarrow> string \<Rightarrow> int) \<Rightarrow> noticeRow \<Rightarrow> noticeRow \<Rightarrow> int" where
  "inbox_order collate a b =
     (let newer = time_Compare (nr_created_at b) (nr_created_at a) in
      if newer \<noteq> 0 then newer else collate (nr_id a) (nr_id b))"

fun scan_notices :: "noticeRow list \<Rightarrow> Notification list result" where
  "scan_notices [] = Inr []"
| "scan_notices (row # rows) =
     (case scanNotification row of
        Inl err \<Rightarrow> Inl (Wrapf ''listing notifications'' [err])
      | Inr n \<Rightarrow> (case scan_notices rows of Inl err \<Rightarrow> Inl err | Inr ns \<Rightarrow> Inr (n # ns)))"

definition Postgres_Notification_ListForUser ::
  "(string \<Rightarrow> string \<Rightarrow> int) \<Rightarrow> string \<Rightarrow> NoticeTable \<Rightarrow> Notification list result" where
  "Postgres_Notification_ListForUser collate userID t =
     scan_notices (SortFunc (inbox_order collate) (filter (\<lambda>row. nr_user_id row = userID) t))"

definition Postgres_MarkAllRead :: "string \<Rightarrow> time \<Rightarrow> NoticeTable \<Rightarrow> NoticeTable \<times> nat" where
  "Postgres_MarkAllRead userID now t =
     update_where (\<lambda>row. nr_user_id row = userID \<and> nr_read_at row = None) (\<lambda>row. row\<lparr>nr_read_at := Some now\<rparr>) t"

section \<open>The outbox\<close>

text \<open>The text of the last error is kept as the error it is the text of.\<close>

record deliveryRow =
  dr_id :: string
  dr_notification_id :: string
  dr_user_id :: string
  dr_channel :: string
  dr_attempts :: int
  dr_last_error :: "goerror option"
  dr_created_at :: time
  dr_due_at :: time
  dr_sent_at :: "time option"
  dr_gave_up_at :: "time option"

type_synonym DeliveryTable = "deliveryRow list"

definition delivery_checks :: "deliveryRow \<Rightarrow> bool" where
  "delivery_checks row \<longleftrightarrow> dr_channel row \<in> {''email'', ''push''}"

definition inserted_delivery :: "Delivery \<Rightarrow> deliveryRow" where
  "inserted_delivery d =
     \<lparr>dr_id = Delivery_ID d, dr_notification_id = Delivery_NotificationID d, dr_user_id = Delivery_UserID d,
      dr_channel = Channel d, dr_attempts = 0, dr_last_error = None, dr_created_at = Delivery_CreatedAt d,
      dr_due_at = DueAt d, dr_sent_at = None, dr_gave_up_at = None\<rparr>"

definition enqueueDeliverySQL :: "NoticeTable \<Rightarrow> Delivery \<Rightarrow> DeliveryTable \<Rightarrow> DeliveryTable result" where
  "enqueueDeliverySQL notices d t =
     (if \<not> delivery_checks (inserted_delivery d) then Inl (Opaque ''constraint violation'')
      else if list_ex (\<lambda>row. dr_notification_id row = Delivery_NotificationID d \<and> dr_channel row = Channel d) t then Inr t
      else if list_ex (\<lambda>row. dr_id row = Delivery_ID d) t then Inl (Opaque ''duplicate key'')
      else if \<not> list_ex (\<lambda>notice. nr_id notice = Delivery_NotificationID d) notices then Inl (Opaque ''foreign key violation'')
      else Inr (t @ [inserted_delivery d]))"

fun enqueue_each :: "NoticeTable \<Rightarrow> Delivery list \<Rightarrow> DeliveryTable \<Rightarrow> DeliveryTable result" where
  "enqueue_each notices [] t = Inr t"
| "enqueue_each notices (d # ds) t =
     (case enqueueDeliverySQL notices d t of Inl err \<Rightarrow> Inl err | Inr t' \<Rightarrow> enqueue_each notices ds t')"

definition Postgres_Enqueue :: "NoticeTable \<Rightarrow> Delivery list \<Rightarrow> DeliveryTable \<Rightarrow> DeliveryTable \<times> unit result" where
  "Postgres_Enqueue notices ds t =
     (if length ds = 0 then (t, Inr ())
      else case enqueue_each notices ds t of
        Inl err \<Rightarrow> (t, Inl (Wrapf ''queueing deliveries'' [err]))
      | Inr t' \<Rightarrow> (t', Inr ()))"

definition scanDelivery :: "deliveryRow \<Rightarrow> Delivery result" where
  "scanDelivery row =
     (case ParseDeliveryChannel (dr_channel row) of
        Inl err \<Rightarrow> Inl err
      | Inr channel \<Rightarrow>
          Inr \<lparr>Delivery_ID = dr_id row, Delivery_NotificationID = dr_notification_id row, Delivery_UserID = dr_user_id row,
               Channel = channel, Attempts = dr_attempts row, LastError = dr_last_error row,
               Delivery_CreatedAt = dr_created_at row, DueAt = dr_due_at row, SentAt = instant (dr_sent_at row),
               GaveUpAt = instant (dr_gave_up_at row)\<rparr>)"

fun scan_deliveries :: "deliveryRow list \<Rightarrow> Delivery list result" where
  "scan_deliveries [] = Inr []"
| "scan_deliveries (row # rows) =
     (case scanDelivery row of
        Inl err \<Rightarrow> Inl (Wrapf ''claiming deliveries'' [err])
      | Inr d \<Rightarrow> (case scan_deliveries rows of Inl err \<Rightarrow> Inl err | Inr ds \<Rightarrow> Inr (d # ds)))"

definition due_order :: "(string \<Rightarrow> string \<Rightarrow> int) \<Rightarrow> deliveryRow \<Rightarrow> deliveryRow \<Rightarrow> int" where
  "due_order collate a b =
     (let due = time_Compare (dr_due_at a) (dr_due_at b) in if due \<noteq> 0 then due else collate (dr_id a) (dr_id b))"

text \<open>What was claimed comes back in any order; a limit below zero is refused.\<close>

definition takeDueDeliveriesSQL ::
  "(string \<Rightarrow> string \<Rightarrow> int) \<Rightarrow> time \<Rightarrow> time \<Rightarrow> int \<Rightarrow> DeliveryTable \<Rightarrow> DeliveryTable \<times> deliveryRow list" where
  "takeDueDeliveriesSQL collate now leased limit t =
     (let due = take (nat limit) (SortFunc (due_order collate)
            (filter (\<lambda>row. dr_sent_at row = None \<and> dr_gave_up_at row = None \<and> dr_due_at row \<le> now) t));
          claimed = (\<lambda>row. dr_id row \<in> dr_id ` set due);
          lease = (\<lambda>row. row\<lparr>dr_due_at := leased\<rparr>)
      in (fst (update_where claimed lease t), map lease (filter claimed t)))"

definition Postgres_TakeDue ::
  "(string \<Rightarrow> string \<Rightarrow> int) \<Rightarrow> time \<Rightarrow> int \<Rightarrow> DeliveryTable \<Rightarrow> DeliveryTable \<times> Delivery list result" where
  "Postgres_TakeDue collate now limit t =
     (if limit < 0 then (t, Inl (Wrapf ''claiming deliveries'' [Opaque ''LIMIT must not be negative'']))
      else case takeDueDeliveriesSQL collate now (time_Add now DeliveryLease) limit t of
        (t', rows) \<Rightarrow> (t', scan_deliveries rows))"

definition Postgres_Delivery_Save :: "Delivery \<Rightarrow> DeliveryTable \<Rightarrow> DeliveryTable \<times> unit result" where
  "Postgres_Delivery_Save d t =
     (case update_where (\<lambda>row. dr_id row = Delivery_ID d)
        (\<lambda>row. row\<lparr>dr_attempts := Attempts d, dr_last_error := LastError d, dr_due_at := DueAt d,
                    dr_sent_at := nullInstant (SentAt d), dr_gave_up_at := nullInstant (GaveUpAt d)\<rparr>) t of
        (t', affected) \<Rightarrow> if affected = 0 then (t', Inl (Repository ErrDeliveryNotFound)) else (t', Inr ()))"

definition Postgres_Pending :: "DeliveryTable \<Rightarrow> nat" where
  "Postgres_Pending t = length (filter (\<lambda>row. dr_sent_at row = None \<and> dr_gave_up_at row = None) t)"

section \<open>Push subscriptions\<close>

text \<open>The columns are the fields of a subscription. A browser that comes back keeps its row and the id in it.\<close>

type_synonym PushTable = "PushSubscription list"

definition subscribePushSQL :: "PushSubscription \<Rightarrow> PushTable \<Rightarrow> PushTable result" where
  "subscribePushSQL s t =
     (if list_ex (\<lambda>row. Endpoint row = Endpoint s) t then
        Inr (fst (update_where (\<lambda>row. Endpoint row = Endpoint s)
          (\<lambda>row. row\<lparr>Subscription_UserID := Subscription_UserID s, P256dh := P256dh s,
                      Subscription_Auth := Subscription_Auth s\<rparr>) t))
      else if list_ex (\<lambda>row. Subscription_ID row = Subscription_ID s) t then Inl (Opaque ''duplicate key'')
      else Inr (t @ [s]))"

definition Postgres_Subscribe :: "PushSubscription \<Rightarrow> PushTable \<Rightarrow> PushTable \<times> unit result" where
  "Postgres_Subscribe s t =
     (case subscribePushSQL s t of
        Inl err \<Rightarrow> (t, Inl (Wrapf ''storing a push subscription'' [err]))
      | Inr t' \<Rightarrow> (t', Inr ()))"

definition Postgres_Push_ListForUser ::
  "(string \<Rightarrow> string \<Rightarrow> int) \<Rightarrow> string \<Rightarrow> PushTable \<Rightarrow> PushSubscription list" where
  "Postgres_Push_ListForUser collate userID t =
     SortFunc (\<lambda>a b. collate (Endpoint a) (Endpoint b)) (filter (\<lambda>row. Subscription_UserID row = userID) t)"

definition Postgres_Push_Unsubscribe :: "string \<Rightarrow> PushTable \<Rightarrow> PushTable" where
  "Postgres_Push_Unsubscribe endpoint t = fst (delete_where (\<lambda>row. Endpoint row = endpoint) t)"

section \<open>The inbox: the same notices\<close>

definition notice_of :: "noticeRow \<Rightarrow> Notification" where
  "notice_of row =
     \<lparr>Notification_ID = nr_id row, Notification_UserID = nr_user_id row, Notification_Kind = nr_kind row,
      Notification_EventID = nr_event_id row, Notification_EventName = nr_event_name row,
      Notification_SeatID = nr_seat_id row, Notification_CreatedAt = nr_created_at row, ReadAt = instant (nr_read_at row)\<rparr>"

definition notice_rows_inv :: "NoticeTable \<Rightarrow> bool" where
  "notice_rows_inv t \<longleftrightarrow> distinct (map nr_id t) \<and>
     (\<forall>row \<in> set t. notice_checks row \<and> nr_read_at row \<noteq> Some zero_time)"

definition same_inbox :: "NotificationStore \<Rightarrow> NoticeTable \<Rightarrow> bool" where
  "same_inbox r t \<longleftrightarrow> gomap_ok r \<and> notice_rows_inv t \<and>
     (\<forall>u. notices_of r u = map notice_of (filter (\<lambda>row. nr_user_id row = u) t))"

lemma same_inboxD:
  "same_inbox r t \<Longrightarrow> gomap_ok r" "same_inbox r t \<Longrightarrow> notice_rows_inv t"
  "same_inbox r t \<Longrightarrow> notices_of r u = map notice_of (filter (\<lambda>row. nr_user_id row = u) t)"
  unfolding same_inbox_def by blast+

lemma notice_of_simps [simp]:
  "Notification_ID (notice_of row) = nr_id row" "Notification_UserID (notice_of row) = nr_user_id row"
  "Notification_CreatedAt (notice_of row) = nr_created_at row"
  by (simp_all add: notice_of_def)

lemma scanNotification_checked: "notice_checks row \<Longrightarrow> scanNotification row = Inr (notice_of row)"
  by (simp add: scanNotification_def notice_of_def notice_checks_def ParseNotificationKind_def)

lemma scan_notices_checked: "list_all notice_checks rows \<Longrightarrow> scan_notices rows = Inr (map notice_of rows)"
  by (induction rows) (simp_all add: scanNotification_checked)

text \<open>A notice to be filed: unread, of a kind there is, under an id nobody has.\<close>

definition new_notice :: "Notification \<Rightarrow> bool" where
  "new_notice n \<longleftrightarrow> Notification_Kind n = ''event_cancelled'' \<and> \<not> IsRead n"

definition ids_in :: "NotificationStore \<Rightarrow> string set" where
  "ids_in r = {i. \<exists>u. i \<in> Notification_ID ` set (notices_of r u)}"

lemma ids_in_rows: "same_inbox r t \<Longrightarrow> ids_in r = nr_id ` set t"
  unfolding ids_in_def same_inboxD(3) by (auto simp: image_image)

lemma notify_each_alike:
  "same_inbox r t \<Longrightarrow> list_all new_notice ns \<Longrightarrow> distinct (map Notification_ID ns) \<Longrightarrow>
     Notification_ID ` set ns \<inter> nr_id ` set t = {} \<Longrightarrow> \<exists>t'. notify_each ns t = Inr t' \<and> same_inbox (Notify ns r) t'"
proof (induction ns arbitrary: r t)
  case (Cons n ns)
  let ?row = "inserted_notice n" and ?r = "AList.update (Notification_UserID n) (notices_of r (Notification_UserID n) @ [n]) r"
  have n: "notice_checks ?row" "notice_of ?row = n" "nr_id ?row = Notification_ID n" "nr_user_id ?row = Notification_UserID n"
    "nr_read_at ?row = None"
    using Cons.prems(2)
    by (auto simp: inserted_notice_def notice_checks_def new_notice_def notice_of_def instant_def IsRead_def IsZero_def)
  have new: "Notification_ID n \<notin> nr_id ` set t" using Cons.prems(4) by auto
  have "same_inbox ?r (t @ [?row])"
    using Cons.prems(1) new by (auto simp: same_inbox_def notice_rows_inv_def n)
  moreover have "Notification_ID ` set ns \<inter> nr_id ` set (t @ [?row]) = {}" using Cons.prems(3,4) by (auto simp: n)
  ultimately have "\<exists>t'. notify_each ns (t @ [?row]) = Inr t' \<and> same_inbox (Notify ns ?r) t'"
    using Cons.IH [of ?r "t @ [?row]"] Cons.prems(2,3) by simp
  moreover have "\<not> list_ex (\<lambda>row. nr_id row = Notification_ID n) t" unfolding list_ex_iff using new by (metis imageI)
  ultimately show ?case by (simp add: insertNotificationSQL_def n(1))
qed simp

lemma find_notice_iff: "find_notice i ns = find (\<lambda>n. Notification_ID n = i) ns"
  by (induction i ns rule: find_notice.induct) simp_all

lemma Notification_Get_cases:
  "Notification_Get i r = (case find (\<lambda>n. Notification_ID n = i) (concat (vals r)) of
     None \<Rightarrow> Inl (Repository ErrNotificationNotFound) | Some n \<Rightarrow> Inr n)"
proof (induction i r rule: Notification_Get.induct)
  case (2 i u ns r)
  have "find P (xs @ ys) = (case find P xs of None \<Rightarrow> find P ys | Some x \<Rightarrow> Some x)" for P :: "Notification \<Rightarrow> bool" and xs ys
    by (induction xs) simp_all
  with 2 show ?case by (simp add: find_notice_iff split: option.split)
qed simp

lemma all_notices:
  assumes "same_inbox r t"
  shows "set (concat (vals r)) = notice_of ` set t"
proof -
  have "n \<in> set (concat (vals r)) \<longleftrightarrow> (\<exists>u. n \<in> set (notices_of r u))" for n
  proof
    assume "n \<in> set (concat (vals r))"
    then obtain u ns where "(u, ns) \<in> set r" "n \<in> set ns" by auto
    then have "notices_of r u = ns" using in_gomap_iff [OF same_inboxD(1) [OF assms], of u ns] by (simp add: notices_of_def)
    then show "\<exists>u. n \<in> set (notices_of r u)" using \<open>n \<in> set ns\<close> by blast
  next
    assume "\<exists>u. n \<in> set (notices_of r u)"
    then obtain u where u: "n \<in> set (notices_of r u)" by blast
    then obtain ns where "map_of r u = Some ns" "n \<in> set ns" by (cases "map_of r u") (simp_all add: notices_of_def)
    then show "n \<in> set (concat (vals r))" using map_of_SomeD by force
  qed
  moreover have "(\<exists>u. n \<in> set (notices_of r u)) \<longleftrightarrow> n \<in> notice_of ` set t" for n
    unfolding same_inboxD(3) [OF assms] by (auto simp: image_iff)
  ultimately show ?thesis by blast
qed

lemma get_notice_alike:
  assumes "same_inbox r t"
  shows "Postgres_Notification_Get i t = Notification_Get i r"
proof (cases "find (\<lambda>row. nr_id row = i) t")
  case None
  then have "\<forall>n \<in> set (concat (vals r)). Notification_ID n \<noteq> i" unfolding all_notices [OF assms] by (auto simp: find_None_iff)
  then have "find (\<lambda>n. Notification_ID n = i) (concat (vals r)) = None" by (auto simp: find_None_iff)
  then show ?thesis using None by (simp add: Postgres_Notification_Get_def Notification_Get_cases)
next
  case (Some row)
  have row: "row \<in> set t" "nr_id row = i" using find_found [OF Some] by simp_all
  have inv: "distinct (map nr_id t)" "notice_checks row"
    using same_inboxD(2) [OF assms] row(1) by (auto simp: notice_rows_inv_def)
  have "find (\<lambda>n. Notification_ID n = i) (concat (vals r)) = Some (notice_of row)"
  proof (rule find_unique)
    show "notice_of row \<in> set (concat (vals r))" unfolding all_notices [OF assms] using row(1) by simp
    fix n assume "n \<in> set (concat (vals r))" "Notification_ID n = i"
    then obtain x where x: "x \<in> set t" "n = notice_of x" unfolding all_notices [OF assms] by blast
    then have "nr_id x = nr_id row" using \<open>Notification_ID n = i\<close> row(2) by simp
    then show "n = notice_of row" using same_row [OF inv(1) x(1) row(1)] x(2) by simp
  qed (simp add: row(2))
  then show ?thesis using Some inv(2) by (simp add: Postgres_Notification_Get_def Notification_Get_cases scanNotification_checked)
qed

lemma list_notices_alike:
  assumes "same_inbox r t"
  shows "Postgres_Notification_ListForUser strings_Compare u t = Inr (Notification_ListForUser u r)"
proof -
  let ?rows = "filter (\<lambda>row. nr_user_id row = u) t"
  have "list_all notice_checks (SortFunc (inbox_order strings_Compare) ?rows)"
    using same_inboxD(2) [OF assms] by (auto simp: list_all_iff notice_rows_inv_def)
  moreover have "map notice_of (SortFunc (inbox_order strings_Compare) ?rows) = SortFunc newest_first (map notice_of ?rows)"
    by (rule SortFunc_map_on)
      (auto simp: newest_first_def inbox_order_def Let_def time_Compare_def cmpString_eq After_def)
  ultimately show ?thesis
    by (simp add: Postgres_Notification_ListForUser_def scan_notices_checked Notification_ListForUser_def same_inboxD(3) [OF assms])
qed

lemma unread_row: "notice_rows_inv t \<Longrightarrow> row \<in> set t \<Longrightarrow> IsRead (notice_of row) \<longleftrightarrow> nr_read_at row \<noteq> None"
  by (cases "nr_read_at row") (auto simp: IsRead_def notice_of_def instant_def IsZero_def notice_rows_inv_def)

lemma mark_read_alike:
  assumes "same_inbox r t" "now \<noteq> zero_time" "MarkAllRead u now r = (r', n)"
  shows "\<exists>t'. Postgres_MarkAllRead u now t = (t', n) \<and> same_inbox r' t'"
proof -
  let ?P = "\<lambda>row. nr_user_id row = u \<and> nr_read_at row = None" and ?f = "\<lambda>row. row\<lparr>nr_read_at := Some now\<rparr>"
  let ?t = "map (\<lambda>row. if ?P row then ?f row else row) t"
  note unread = unread_row [OF same_inboxD(2) [OF assms(1)]]
  have "n = length (filter (\<lambda>n. \<not> IsRead n) (notices_of r u))" using MarkAllRead_count [of u now r] assms(3) by simp
  then have n: "n = length (filter ?P t)"
    unfolding same_inboxD(3) [OF assms(1)]
    by (simp add: filter_map comp_def unread conj_commute cong: filter_cong)
  have marked: "notice_of (if ?P row then ?f row else row) = (if nr_user_id row = u then mark_read now (notice_of row) else notice_of row)"
    if "row \<in> set t" for row
    using unread [OF that] by (auto simp: mark_read_def notice_of_def instant_def)
  have user: "nr_user_id (if ?P row then ?f row else row) = nr_user_id row" for row by simp
  have "notices_of r' v = map notice_of (filter (\<lambda>row. nr_user_id row = v) ?t)" for v
  proof -
    have "map notice_of (filter (\<lambda>row. nr_user_id row = v) ?t) =
        map (\<lambda>row. notice_of (if ?P row then ?f row else row)) (filter (\<lambda>row. nr_user_id row = v) t)"
      by (simp only: filter_map comp_def user map_map)
    also have "\<dots> = map (\<lambda>row. if v = u then mark_read now (notice_of row) else notice_of row) (filter (\<lambda>row. nr_user_id row = v) t)"
    proof (intro map_cong refl)
      fix row assume "row \<in> set (filter (\<lambda>row. nr_user_id row = v) t)"
      then show "notice_of (if ?P row then ?f row else row) = (if v = u then mark_read now (notice_of row) else notice_of row)"
        using marked [of row] by (simp only: set_filter mem_Collect_eq)
    qed
    also have "\<dots> = notices_of r' v"
      using notices_of_MarkAllRead [of u now r v] assms(3) same_inboxD(3) [OF assms(1)] by (auto simp: comp_def)
    finally show ?thesis by simp
  qed
  moreover have "gomap_ok r'"
    using assms(3) same_inboxD(1) [OF assms(1)] by (auto simp: MarkAllRead_def split: option.splits)
  moreover have "notice_rows_inv ?t"
    unfolding notice_rows_inv_def
  proof
    have "map nr_id ?t = map nr_id t" by simp
    then show "distinct (map nr_id ?t)" using same_inboxD(2) [OF assms(1)] by (simp only: notice_rows_inv_def)
    show "\<forall>row \<in> set ?t. notice_checks row \<and> nr_read_at row \<noteq> Some zero_time"
      using same_inboxD(2) [OF assms(1)] assms(2) by (auto simp: notice_checks_def notice_rows_inv_def)
  qed
  ultimately show ?thesis using n by (simp add: Postgres_MarkAllRead_def update_where_def same_inbox_def)
qed

section \<open>The outbox: the same deliveries\<close>

definition delivery_of :: "deliveryRow \<Rightarrow> Delivery" where
  "delivery_of row =
     \<lparr>Delivery_ID = dr_id row, Delivery_NotificationID = dr_notification_id row, Delivery_UserID = dr_user_id row,
      Channel = dr_channel row, Attempts = dr_attempts row, LastError = dr_last_error row,
      Delivery_CreatedAt = dr_created_at row, DueAt = dr_due_at row, SentAt = instant (dr_sent_at row),
      GaveUpAt = instant (dr_gave_up_at row)\<rparr>"

abbreviation row_key :: "deliveryRow \<Rightarrow> string" where
  "row_key row \<equiv> deliveryKey (dr_notification_id row) (dr_channel row)"

abbreviation outbox_of :: "DeliveryTable \<Rightarrow> DeliveryStore" where
  "outbox_of t \<equiv> as_map row_key delivery_of t"

definition delivery_rows_inv :: "DeliveryTable \<Rightarrow> bool" where
  "delivery_rows_inv t \<longleftrightarrow> distinct (map dr_id t) \<and> distinct (map row_key t) \<and>
     (\<forall>row \<in> set t. delivery_checks row \<and> dr_sent_at row \<noteq> Some zero_time \<and> dr_gave_up_at row \<noteq> Some zero_time)"

definition same_outbox :: "DeliveryStore \<Rightarrow> DeliveryTable \<Rightarrow> bool" where
  "same_outbox r t \<longleftrightarrow> r = outbox_of t \<and> delivery_rows_inv t"

lemma deliveryKey_inj:
  assumes "c \<in> {''email'', ''push''}" "c' \<in> {''email'', ''push''}" "deliveryKey n c = deliveryKey n' c'"
  shows "n = n' \<and> c = c'"
proof -
  have "last (deliveryKey n c) = last (deliveryKey n' c')" using assms(3) by simp
  then have "c = c'" using assms(1,2) by (auto simp: deliveryKey_def)
  then show ?thesis using assms(3) by (simp add: deliveryKey_def)
qed

lemma scanDelivery_checked: "delivery_checks row \<Longrightarrow> scanDelivery row = Inr (delivery_of row)"
  by (auto simp: scanDelivery_def delivery_of_def delivery_checks_def ParseDeliveryChannel_def)

lemma scan_deliveries_checked: "list_all delivery_checks rows \<Longrightarrow> scan_deliveries rows = Inr (map delivery_of rows)"
  by (induction rows) (simp_all add: scanDelivery_checked)

definition new_delivery :: "Delivery \<Rightarrow> bool" where
  "new_delivery d \<longleftrightarrow> Channel d \<in> {''email'', ''push''} \<and> Attempts d = 0 \<and> LastError d = None \<and> \<not> IsDone d"

lemma inserted_delivery_simps:
  "new_delivery d \<Longrightarrow> delivery_of (inserted_delivery d) = d" "row_key (inserted_delivery d) = delivery_key d"
  "dr_id (inserted_delivery d) = Delivery_ID d" "new_delivery d \<Longrightarrow> delivery_checks (inserted_delivery d)"
  "dr_sent_at (inserted_delivery d) = None" "dr_gave_up_at (inserted_delivery d) = None"
  by (auto simp: inserted_delivery_def delivery_of_def new_delivery_def IsDone_def IsZero_def instant_def delivery_checks_def)

lemma enqueue_each_alike:
  "same_outbox r t \<Longrightarrow> list_all new_delivery ds \<Longrightarrow> distinct (map Delivery_ID ds) \<Longrightarrow>
     Delivery_ID ` set ds \<inter> dr_id ` set t = {} \<Longrightarrow> Delivery_NotificationID ` set ds \<subseteq> nr_id ` set notices \<Longrightarrow>
     \<exists>t'. enqueue_each notices ds t = Inr t' \<and> same_outbox (Enqueue ds r) t'"
proof (induction ds arbitrary: r t)
  case (Cons d ds)
  have r: "r = outbox_of t" "delivery_rows_inv t" using Cons.prems(1) by (simp_all add: same_outbox_def)
  have d: "new_delivery d" using Cons.prems(2) by simp
  note row = inserted_delivery_simps(1,4) [OF d] inserted_delivery_simps(2,3,5,6)
  have match: "dr_notification_id x = Delivery_NotificationID d \<and> dr_channel x = Channel d \<longleftrightarrow> row_key x = delivery_key d"
    if "x \<in> set t" for x
  proof
    assume "row_key x = delivery_key d"
    moreover have "dr_channel x \<in> {''email'', ''push''}" "Channel d \<in> {''email'', ''push''}"
      using r(2) that d unfolding delivery_rows_inv_def delivery_checks_def new_delivery_def by blast+
    ultimately show "dr_notification_id x = Delivery_NotificationID d \<and> dr_channel x = Channel d"
      using deliveryKey_inj by blast
  qed simp
  then have queued: "list_ex (\<lambda>x. dr_notification_id x = Delivery_NotificationID d \<and> dr_channel x = Channel d) t \<longleftrightarrow>
      map_of r (delivery_key d) \<noteq> None"
    unfolding r(1) no_row by (auto simp: list_ex_iff)
  show ?case
  proof (cases "map_of r (delivery_key d) = None")
    case False
    then have "enqueueDeliverySQL notices d t = Inr t" using queued row(2) by (simp add: enqueueDeliverySQL_def)
    moreover have "Enqueue (d # ds) r = Enqueue ds r" using False by (simp add: Let_def del: map_of_eq_Some_iff)
    ultimately show ?thesis using Cons.IH [OF Cons.prems(1)] Cons.prems(2-5) by simp
  next
    case True
    let ?t = "t @ [inserted_delivery d]" and ?r = "AList.update (delivery_key d) d r"
    have fresh: "Delivery_ID d \<notin> dr_id ` set t" "delivery_key d \<notin> row_key ` set t"
      using Cons.prems(4) True unfolding r(1) no_row by (auto simp: list_ex_iff)
    have "same_outbox ?r ?t"
      using r(2) fresh True
      by (simp add: same_outbox_def update_new delivery_rows_inv_def row) (simp add: r(1))
    moreover have "Delivery_ID ` set ds \<inter> dr_id ` set ?t = {}" using Cons.prems(3,4) by (auto simp: row)
    ultimately have "\<exists>t'. enqueue_each notices ds ?t = Inr t' \<and> same_outbox (Enqueue ds ?r) t'"
      using Cons.IH [of ?r ?t] Cons.prems(2,3,5) by simp
    moreover have "enqueueDeliverySQL notices d t = Inr ?t"
    proof -
      have "\<not> list_ex (\<lambda>x. dr_id x = Delivery_ID d) t" unfolding list_ex_iff using fresh(1) by (metis imageI)
      moreover have "list_ex (\<lambda>notice. nr_id notice = Delivery_NotificationID d) notices"
        using Cons.prems(5) by (auto simp: list_ex_iff)
      ultimately show ?thesis using queued True row(2) by (simp add: enqueueDeliverySQL_def)
    qed
    moreover have "Enqueue (d # ds) r = Enqueue ds ?r" using True by (simp add: Let_def)
    ultimately show ?thesis by simp
  qed
qed simp

definition due_now :: "time \<Rightarrow> Delivery \<Rightarrow> bool" where
  "due_now now d \<longleftrightarrow> \<not> (IsDone d \<or> Before now (DueAt d))"

lemma due_row:
  "delivery_rows_inv t \<Longrightarrow> row \<in> set t \<Longrightarrow>
     due_now now (delivery_of row) \<longleftrightarrow> dr_sent_at row = None \<and> dr_gave_up_at row = None \<and> dr_due_at row \<le> now"
  by (cases "dr_sent_at row"; cases "dr_gave_up_at row")
    (auto simp: due_now_def delivery_of_def IsDone_def instant_def IsZero_def Before_def delivery_rows_inv_def)

lemma take_due_alike:
  assumes "delivery_rows_inv t" "0 < limit"
    and room: "int (length (filter (due_now now) (vals (outbox_of t)))) \<le> limit \<or>
      distinct (map DueAt (filter (due_now now) (vals (outbox_of t))))"
  obtains t' xs ys where "TakeDue now limit (outbox_of t) = (outbox_of t', xs)"
    "Postgres_TakeDue strings_Compare now limit t = (t', Inr ys)" "mset xs = mset ys" "delivery_rows_inv t'"
proof -
  let ?leased = "time_Add now DeliveryLease"
  let ?lease = "\<lambda>row. row\<lparr>dr_due_at := ?leased\<rparr>" and ?mark = "\<lambda>d. d\<lparr>DueAt := ?leased\<rparr>"
  let ?want = "\<lambda>row. dr_sent_at row = None \<and> dr_gave_up_at row = None \<and> dr_due_at row \<le> now"
  let ?picked = "\<lambda>row. dr_id row \<in> dr_id ` set (take (nat limit) (SortFunc (due_order strings_Compare) (filter ?want t)))"
  let ?t = "fst (update_where ?picked ?lease t)" and ?rows = "map ?lease (filter ?picked t)"
  have keys: "distinct (map row_key t)" "distinct (map dr_id t)" using assms(1) by (simp_all add: delivery_rows_inv_def)
  have at: "map_of (outbox_of t) (row_key row) = Some (delivery_of row)" if "row \<in> set t" for row
    using find_key [OF keys(1), of "row_key row" row] that by (simp add: map_of_as_map)
  have due: "filter (due_now now) (vals (outbox_of t)) = map delivery_of (filter ?want t)"
    by (simp add: filter_map comp_def due_row [OF assms(1)] cong: filter_cong)
  have "\<exists>xs. claim (due_now now) DueAt ?mark limit (outbox_of t) = (outbox_of ?t, xs) \<and> mset xs = mset (map delivery_of ?rows)"
  proof (rule claim_rows [OF keys assms(2)])
    show "int (length (filter ?want t)) \<le> limit \<or> (\<forall>x \<in> set (filter ?want t). \<forall>y \<in> set (filter ?want t).
        (stamp_cmp DueAt (outbox_of t) (row_key x) (row_key y) \<le> 0) = (due_order strings_Compare x y \<le> 0))"
      using room
    proof
      assume "distinct (map DueAt (filter (due_now now) (vals (outbox_of t))))"
      then have dates: "distinct (map dr_due_at (filter ?want t))" unfolding due by (simp add: delivery_of_def comp_def)
      have "(stamp_cmp DueAt (outbox_of t) (row_key x) (row_key y) \<le> 0) = (due_order strings_Compare x y \<le> 0)"
        if xy: "x \<in> set (filter ?want t)" "y \<in> set (filter ?want t)" for x y
      proof -
        have "x = y" if "dr_due_at x = dr_due_at y" using same_row [OF dates xy that] .
        then show ?thesis
          using xy by (auto simp: stamp_cmp_def at due_order_def Let_def delivery_of_def time_Compare_def cmpString_eq strings_Compare_le)
      qed
      then show ?thesis by blast
    next
      assume "int (length (filter (due_now now) (vals (outbox_of t)))) \<le> limit"
      then show ?thesis unfolding due length_map by (rule disjI1)
    qed
  next
    fix row assume "row \<in> set t"
    then show "due_now now (delivery_of row) \<longleftrightarrow> ?want row" by (rule due_row [OF assms(1)])
  qed (simp_all add: delivery_of_def)
  then obtain xs where xs: "claim (due_now now) DueAt ?mark limit (outbox_of t) = (outbox_of ?t, xs)"
    "mset xs = mset (map delivery_of ?rows)" by blast
  have "TakeDue now limit (outbox_of t) = (outbox_of ?t, xs)"
    using xs(1) by (simp only: TakeDue_def claim_def due_now_def [abs_def] Let_def)
  moreover have "list_all delivery_checks ?rows"
    using assms(1) by (auto simp: list_all_iff delivery_rows_inv_def delivery_checks_def)
  then have "Postgres_TakeDue strings_Compare now limit t = (?t, Inr (map delivery_of ?rows))"
    using assms(2) by (simp add: Postgres_TakeDue_def takeDueDeliveriesSQL_def Let_def scan_deliveries_checked)
  moreover have "delivery_rows_inv ?t"
  proof -
    have names: "map dr_id ?t = map dr_id t" "map row_key ?t = map row_key t" by (rule update_where_map, simp)+
    show ?thesis
      using assms(1) unfolding delivery_rows_inv_def names by (auto simp: update_where_def delivery_checks_def)
  qed
  ultimately show ?thesis using that xs(2) by blast
qed

text \<open>What a worker saves is a delivery it was given, with the fields a worker changes.\<close>

definition same_delivery :: "Delivery \<Rightarrow> Delivery \<Rightarrow> bool" where
  "same_delivery old d \<longleftrightarrow> Delivery_ID old = Delivery_ID d \<and> Delivery_NotificationID old = Delivery_NotificationID d \<and>
     Delivery_UserID old = Delivery_UserID d \<and> Channel old = Channel d \<and> Delivery_CreatedAt old = Delivery_CreatedAt d"

definition savable :: "DeliveryStore \<Rightarrow> Delivery \<Rightarrow> bool" where
  "savable r d \<longleftrightarrow>
     (case map_of r (delivery_key d) of
        None \<Rightarrow> Delivery_ID d \<notin> Delivery_ID ` set (vals r)
      | Some old \<Rightarrow> same_delivery old d)"

lemma save_alike:
  assumes "same_outbox r t" "savable r d"
  shows "case Delivery_Save d r of
      Inl err \<Rightarrow> Postgres_Delivery_Save d t = (t, Inl err)
    | Inr r' \<Rightarrow> \<exists>t'. Postgres_Delivery_Save d t = (t', Inr ()) \<and> same_outbox r' t'"
proof -
  have r: "r = outbox_of t" "delivery_rows_inv t" using assms(1) by (simp_all add: same_outbox_def)
  have keys: "distinct (map row_key t)" "distinct (map dr_id t)" using r(2) by (simp_all add: delivery_rows_inv_def)
  let ?P = "\<lambda>row. dr_id row = Delivery_ID d"
  let ?f = "\<lambda>row. row\<lparr>dr_attempts := Attempts d, dr_last_error := LastError d, dr_due_at := DueAt d,
      dr_sent_at := nullInstant (SentAt d), dr_gave_up_at := nullInstant (GaveUpAt d)\<rparr>"
  let ?t = "fst (update_where ?P ?f t)"
  show ?thesis
  proof (cases "map_of r (delivery_key d)")
    case None
    have "Delivery_ID d \<notin> dr_id ` set t"
      using assms(2) None by (simp add: savable_def r(1) image_image delivery_of_def)
    then have none: "find ?P t = None" by (auto simp: find_None_iff image_iff)
    then have "map (\<lambda>row. if ?P row then ?f row else row) t = t" by (intro map_idI) (auto simp: find_None_iff)
    then have "Postgres_Delivery_Save d t = (t, Inl (Repository ErrDeliveryNotFound))"
      using none touched_none [of ?P ?f t] by (simp add: Postgres_Delivery_Save_def update_where_def)
    then show ?thesis using None by (simp add: Delivery_Save_def)
  next
    case (Some old)
    obtain row where row: "row \<in> set t" "row_key row = delivery_key d" "old = delivery_of row"
      using Some unfolding r(1) map_of_as_map by (auto dest: find_found)
    have same: "same_delivery (delivery_of row) d" using assms(2) Some row(3) by (simp add: savable_def del: map_of_eq_Some_iff)
    then have id: "dr_id row = Delivery_ID d" by (simp add: same_delivery_def delivery_of_def)
    have "AList.update (delivery_key d) d (outbox_of t) = outbox_of ?t"
    proof (rule as_map_update [OF keys(1)])
      fix x assume x: "x \<in> set t"
      show "?P x \<longleftrightarrow> row_key x = delivery_key d"
        using same_row [OF keys(1) x row(1)] same_row [OF keys(2) x row(1)] row(2) id by metis
      assume "row_key x = delivery_key d"
      then have "x = row" using same_row [OF keys(1) x row(1)] row(2) by simp
      then show "row_key (?f x) = delivery_key d \<and> delivery_of (?f x) = d"
        using same row(2) by (cases d) (auto simp: same_delivery_def delivery_of_def instant_def nullInstant_def IsZero_def)
    qed (use row in force)
    moreover have "delivery_rows_inv ?t"
    proof -
      have names: "map dr_id ?t = map dr_id t" "map row_key ?t = map row_key t" by (rule update_where_map, simp)+
      show ?thesis
        using r(2) unfolding delivery_rows_inv_def names
        by (auto simp: update_where_def delivery_checks_def nullInstant_def IsZero_def)
    qed
    moreover have "Postgres_Delivery_Save d t = (?t, Inr ())"
    proof -
      have "find ?P t \<noteq> None" using row(1) id by (auto simp: find_None_iff)
      then show ?thesis using touched_none [of ?P ?f t] by (simp add: Postgres_Delivery_Save_def case_prod_unfold)
    qed
    ultimately show ?thesis
      using Some by (simp add: Delivery_Save_def r(1) same_outbox_def Let_def del: map_of_eq_Some_iff)
  qed
qed

lemma pending_alike:
  assumes "same_outbox r t"
  shows "Postgres_Pending t = Pending r"
proof -
  have r: "r = outbox_of t" "delivery_rows_inv t" using assms by (simp_all add: same_outbox_def)
  have "IsDone (delivery_of row) \<longleftrightarrow> \<not> (dr_sent_at row = None \<and> dr_gave_up_at row = None)" if "row \<in> set t" for row
    using that r(2) by (cases "dr_sent_at row"; cases "dr_gave_up_at row")
      (auto simp: delivery_of_def IsDone_def instant_def IsZero_def delivery_rows_inv_def)
  then show ?thesis by (simp add: Postgres_Pending_def Pending_def r(1) filter_map comp_def cong: filter_cong)
qed

section \<open>Browsers: the same subscriptions\<close>

text \<open>All but the id and the date, which the table keeps from the first time the browser subscribed.\<close>

definition browser :: "PushSubscription \<Rightarrow> PushSubscription" where
  "browser s = s\<lparr>Subscription_ID := '''', Subscription_CreatedAt := 0\<rparr>"

definition same_browsers :: "(string \<Rightarrow> string) \<Rightarrow> PushStore \<Rightarrow> PushTable \<Rightarrow> bool" where
  "same_browsers owner r t \<longleftrightarrow> as_map Endpoint browser t = map (\<lambda>(k, s). (k, browser s)) r \<and>
     distinct (map Endpoint t) \<and> (\<forall>s \<in> set t. owner (Subscription_ID s) = Endpoint s)"

lemma browser_simps [simp]:
  "Endpoint (browser s) = Endpoint s" "Subscription_UserID (browser s) = Subscription_UserID s"
  by (simp_all add: browser_def)

lemma update_mapped: "AList.update k (f v) (map (\<lambda>(k, v). (k, f v)) r) = map (\<lambda>(k, v). (k, f v)) (AList.update k v r)"
  by (induction r) auto

lemma delete_mapped: "AList.delete k (map (\<lambda>(k, v). (k, f v)) r) = map (\<lambda>(k, v). (k, f v)) (AList.delete k r)"
  by (induction r) auto

lemma subscribe_alike:
  assumes "same_browsers owner r t" "owner (Subscription_ID s) = Endpoint s"
  shows "\<exists>t'. Postgres_Subscribe s t = (t', Inr ()) \<and> same_browsers owner (Push_Subscribe s r) t'"
proof -
  let ?f = "\<lambda>row. row\<lparr>Subscription_UserID := Subscription_UserID s, P256dh := P256dh s, Subscription_Auth := Subscription_Auth s\<rparr>"
  let ?P = "\<lambda>row. Endpoint row = Endpoint s" and ?r = "map (\<lambda>(k, s). (k, browser s)) (Push_Subscribe s r)"
  have t: "as_map Endpoint browser t = map (\<lambda>(k, s). (k, browser s)) r" "distinct (map Endpoint t)"
    "\<forall>x \<in> set t. owner (Subscription_ID x) = Endpoint x" using assms(1) by (auto simp: same_browsers_def)
  have r: "?r = AList.update (Endpoint s) (browser s) (as_map Endpoint browser t)"
    unfolding t(1) update_mapped Push_Subscribe_def ..
  show ?thesis
  proof (cases "list_ex ?P t")
    case True
    let ?t = "fst (update_where ?P ?f t)"
    have there: "Endpoint s \<in> Endpoint ` set t" using True unfolding list_ex_iff by (metis imageI)
    have "AList.update (Endpoint s) (browser s) (as_map Endpoint browser t) = as_map Endpoint browser ?t"
      by (rule as_map_update [OF t(2) there]) (simp_all add: browser_def)
    moreover have "map Endpoint ?t = map Endpoint t" by (rule update_where_map) simp
    then have "distinct (map Endpoint ?t)" using t(2) by (simp only:)
    moreover have "\<forall>x \<in> set ?t. owner (Subscription_ID x) = Endpoint x" using t(3) by (auto simp: update_where_def)
    ultimately show ?thesis using True r by (simp add: Postgres_Subscribe_def subscribePushSQL_def same_browsers_def)
  next
    case False
    then have new: "Endpoint s \<notin> Endpoint ` set t" unfolding list_ex_iff by (metis imageE)
    then have "\<not> list_ex (\<lambda>row. Subscription_ID row = Subscription_ID s) t"
      using t(3) assms(2) unfolding list_ex_iff by (metis imageI)
    moreover have "map_of (as_map Endpoint browser t) (Endpoint s) = None" unfolding no_row using False .
    then have "?r = as_map Endpoint browser (t @ [s])" unfolding r by (simp add: update_new)
    ultimately show ?thesis
      using False new t assms(2) by (simp add: Postgres_Subscribe_def subscribePushSQL_def same_browsers_def)
  qed
qed

lemma unsubscribe_alike:
  "same_browsers owner r t \<Longrightarrow> same_browsers owner (Push_Unsubscribe e r) (Postgres_Push_Unsubscribe e t)"
  by (auto simp: same_browsers_def Push_Unsubscribe_def Postgres_Push_Unsubscribe_def delete_where_def
      as_map_delete [symmetric] delete_mapped [symmetric] distinct_map_filter)

lemma browsers_alike:
  assumes "same_browsers owner r t"
  shows "map browser (Postgres_Push_ListForUser strings_Compare u t) = map browser (Push_ListForUser u r)"
proof -
  have "map snd (as_map Endpoint browser t) = map snd (map (\<lambda>(k, s). (k, browser s)) r)"
    using assms by (simp only: same_browsers_def)
  then have same: "map browser t = map browser (vals r)" by (simp add: case_prod_unfold comp_def)
  have sort: "map browser (SortFunc (\<lambda>a b. strings_Compare (Endpoint a) (Endpoint b)) xs) =
      SortFunc (\<lambda>a b. strings_Compare (Endpoint a) (Endpoint b)) (map browser xs)" for xs
    by (rule SortFunc_map_on) simp
  have pick: "map browser (filter (\<lambda>s. Subscription_UserID s = u) xs) = filter (\<lambda>s. Subscription_UserID s = u) (map browser xs)" for xs
    by (simp add: filter_map comp_def)
  show ?thesis unfolding Postgres_Push_ListForUser_def Push_ListForUser_def cmpString_eq not_not sort pick same ..
qed

section \<open>What callers see\<close>

text \<open>The inbox and the outbox stand in one database, since a delivery refers to its notice.\<close>

datatype notice_call =
    TellAll "Notification list" | ReadNotice string | ReadInbox string | MarkInbox string time
  | QueueAll "Delivery list" | ClaimDue time int | SaveDelivery Delivery | CountPending

datatype notice_answer =
    NoticesDone "unit result" | NoticeRead "Notification result" | InboxRead "Notification list result" | Marked nat
  | DueClaimed "Delivery list result" | PendingCount nat

primrec memory_notices ::
  "notice_call \<Rightarrow> NotificationStore \<times> DeliveryStore \<Rightarrow> (NotificationStore \<times> DeliveryStore) \<times> notice_answer" where
  "memory_notices (TellAll ns) m = ((Notify ns (fst m), snd m), NoticesDone (Inr ()))"
| "memory_notices (ReadNotice i) m = (m, NoticeRead (Notification_Get i (fst m)))"
| "memory_notices (ReadInbox u) m = (m, InboxRead (Inr (Notification_ListForUser u (fst m))))"
| "memory_notices (MarkInbox u now) m = (case MarkAllRead u now (fst m) of (r', n) \<Rightarrow> ((r', snd m), Marked n))"
| "memory_notices (QueueAll ds) m = ((fst m, Enqueue ds (snd m)), NoticesDone (Inr ()))"
| "memory_notices (ClaimDue now limit) m =
     (case TakeDue now limit (snd m) of (r', ds) \<Rightarrow> ((fst m, r'), DueClaimed (Inr ds)))"
| "memory_notices (SaveDelivery d) m =
     (case Delivery_Save d (snd m) of
        Inl err \<Rightarrow> (m, NoticesDone (Inl err)) | Inr r' \<Rightarrow> ((fst m, r'), NoticesDone (Inr ())))"
| "memory_notices CountPending m = (m, PendingCount (Pending (snd m)))"

primrec table_notices :: "(string \<Rightarrow> string \<Rightarrow> int) \<Rightarrow> notice_call \<Rightarrow>
    NoticeTable \<times> DeliveryTable \<Rightarrow> (NoticeTable \<times> DeliveryTable) \<times> notice_answer" where
  "table_notices collate (TellAll ns) db = (case Postgres_Notify ns (fst db) of (t', res) \<Rightarrow> ((t', snd db), NoticesDone res))"
| "table_notices collate (ReadNotice i) db = (db, NoticeRead (Postgres_Notification_Get i (fst db)))"
| "table_notices collate (ReadInbox u) db = (db, InboxRead (Postgres_Notification_ListForUser collate u (fst db)))"
| "table_notices collate (MarkInbox u now) db = (case Postgres_MarkAllRead u now (fst db) of (t', n) \<Rightarrow> ((t', snd db), Marked n))"
| "table_notices collate (QueueAll ds) db =
     (case Postgres_Enqueue (fst db) ds (snd db) of (t', res) \<Rightarrow> ((fst db, t'), NoticesDone res))"
| "table_notices collate (ClaimDue now limit) db =
     (case Postgres_TakeDue collate now limit (snd db) of (t', res) \<Rightarrow> ((fst db, t'), DueClaimed res))"
| "table_notices collate (SaveDelivery d) db =
     (case Postgres_Delivery_Save d (snd db) of (t', res) \<Rightarrow> ((fst db, t'), NoticesDone res))"
| "table_notices collate CountPending db = (db, PendingCount (Postgres_Pending (snd db)))"

primrec permitted_notice :: "NotificationStore \<times> DeliveryStore \<Rightarrow> notice_call \<Rightarrow> bool" where
  "permitted_notice m (TellAll ns) \<longleftrightarrow> list_all new_notice ns \<and> distinct (map Notification_ID ns) \<and>
     Notification_ID ` set ns \<inter> ids_in (fst m) = {}"
| "permitted_notice m (MarkInbox u now) \<longleftrightarrow> now \<noteq> zero_time"
| "permitted_notice m (QueueAll ds) \<longleftrightarrow> list_all new_delivery ds \<and> distinct (map Delivery_ID ds) \<and>
     Delivery_ID ` set ds \<inter> Delivery_ID ` set (vals (snd m)) = {} \<and> Delivery_NotificationID ` set ds \<subseteq> ids_in (fst m)"
| "permitted_notice m (ClaimDue now limit) \<longleftrightarrow> 0 < limit \<and>
     (int (length (filter (due_now now) (vals (snd m)))) \<le> limit \<or> distinct (map DueAt (filter (due_now now) (vals (snd m)))))"
| "permitted_notice m (SaveDelivery d) \<longleftrightarrow> savable (snd m) d"
| "permitted_notice m (ReadNotice _) \<longleftrightarrow> True"
| "permitted_notice m (ReadInbox _) \<longleftrightarrow> True"
| "permitted_notice m CountPending \<longleftrightarrow> True"

definition same_notice_answer :: "notice_answer \<Rightarrow> notice_answer \<Rightarrow> bool" where
  "same_notice_answer a b \<longleftrightarrow>
     (case (a, b) of (DueClaimed (Inr xs), DueClaimed (Inr ys)) \<Rightarrow> mset xs = mset ys | _ \<Rightarrow> a = b)"

lemma same_notice_answer_refl [simp]: "same_notice_answer a a"
  by (simp add: same_notice_answer_def split: notice_answer.split sum.split)

interpretation notice_stores: same_store "\<lambda>m db. same_inbox (fst m) (fst db) \<and> same_outbox (snd m) (snd db)"
  permitted_notice memory_notices "table_notices strings_Compare" same_notice_answer
proof (unfold_locales, goal_cases)
  case (1 m db c m' a db' b)
  have inbox: "same_inbox (fst m) (fst db)" and outbox: "same_outbox (snd m) (snd db)" using 1(1) by simp_all
  have r: "snd m = outbox_of (snd db)" "delivery_rows_inv (snd db)" using outbox by (simp_all add: same_outbox_def)
  show ?case
  proof (cases c)
    case (TellAll ns)
    have "\<exists>t'. notify_each ns (fst db) = Inr t' \<and> same_inbox (Notify ns (fst m)) t'"
      using 1(2) by (intro notify_each_alike [OF inbox]) (simp_all add: TellAll ids_in_rows [OF inbox])
    then obtain t1 where t1: "notify_each ns (fst db) = Inr t1" "same_inbox (Notify ns (fst m)) t1" by blast
    have "Postgres_Notify ns (fst db) = (t1, Inr ())" using t1(1) by (cases ns) (simp_all add: Postgres_Notify_def)
    then show ?thesis using 1(3,4) t1(2) outbox by (auto simp: TellAll)
  next
    case (MarkInbox u now)
    obtain r1 n where m: "MarkAllRead u now (fst m) = (r1, n)" by (meson surj_pair)
    have "now \<noteq> zero_time" using 1(2) by (simp add: MarkInbox)
    from mark_read_alike [OF inbox this m] show ?thesis using 1(3,4) outbox by (auto simp: MarkInbox m)
  next
    case (QueueAll ds)
    have "\<exists>t'. enqueue_each (fst db) ds (snd db) = Inr t' \<and> same_outbox (Enqueue ds (snd m)) t'"
      using 1(2) by (intro enqueue_each_alike [OF outbox])
        (simp_all add: QueueAll ids_in_rows [OF inbox] r(1) image_image delivery_of_def)
    then obtain t1 where t1: "enqueue_each (fst db) ds (snd db) = Inr t1" "same_outbox (Enqueue ds (snd m)) t1" by blast
    have "Postgres_Enqueue (fst db) ds (snd db) = (t1, Inr ())" using t1(1) by (cases ds) (simp_all add: Postgres_Enqueue_def)
    then show ?thesis using 1(3,4) t1(2) inbox by (auto simp: QueueAll)
  next
    case (ClaimDue now limit)
    have "0 < limit" "int (length (filter (due_now now) (vals (outbox_of (snd db))))) \<le> limit \<or>
        distinct (map DueAt (filter (due_now now) (vals (outbox_of (snd db)))))"
      using 1(2) unfolding ClaimDue permitted_notice.simps r(1) by blast+
    then obtain t1 xs ys where "TakeDue now limit (outbox_of (snd db)) = (outbox_of t1, xs)"
      "Postgres_TakeDue strings_Compare now limit (snd db) = (t1, Inr ys)" "mset xs = mset ys" "delivery_rows_inv t1"
      using take_due_alike [OF r(2)] by blast
    then show ?thesis using 1(3,4) inbox by (auto simp: ClaimDue r(1) same_outbox_def same_notice_answer_def)
  next
    case (SaveDelivery d)
    have "savable (snd m) d" using 1(2) by (simp add: SaveDelivery)
    from save_alike [OF outbox this] show ?thesis
      using 1(3,4) inbox outbox by (cases "Delivery_Save d (snd m)") (auto simp: SaveDelivery)
  qed (use 1 get_notice_alike [OF inbox] list_notices_alike [OF inbox] pending_alike [OF outbox] in auto)
qed

datatype push_call = SubscribePush PushSubscription | UnsubscribePush string | ReadBrowsers string

datatype push_answer = PushDone "unit result" | Browsers "PushSubscription list"

primrec memory_browsers :: "push_call \<Rightarrow> PushStore \<Rightarrow> PushStore \<times> push_answer" where
  "memory_browsers (SubscribePush s) r = (Push_Subscribe s r, PushDone (Inr ()))"
| "memory_browsers (UnsubscribePush e) r = (Push_Unsubscribe e r, PushDone (Inr ()))"
| "memory_browsers (ReadBrowsers u) r = (r, Browsers (Push_ListForUser u r))"

primrec table_browsers :: "(string \<Rightarrow> string \<Rightarrow> int) \<Rightarrow> push_call \<Rightarrow> PushTable \<Rightarrow> PushTable \<times> push_answer" where
  "table_browsers collate (SubscribePush s) t = (case Postgres_Subscribe s t of (t', res) \<Rightarrow> (t', PushDone res))"
| "table_browsers collate (UnsubscribePush e) t = (Postgres_Push_Unsubscribe e t, PushDone (Inr ()))"
| "table_browsers collate (ReadBrowsers u) t = (t, Browsers (Postgres_Push_ListForUser collate u t))"

primrec own_id :: "(string \<Rightarrow> string) \<Rightarrow> push_call \<Rightarrow> bool" where
  "own_id owner (SubscribePush s) \<longleftrightarrow> owner (Subscription_ID s) = Endpoint s"
| "own_id owner (UnsubscribePush _) \<longleftrightarrow> True"
| "own_id owner (ReadBrowsers _) \<longleftrightarrow> True"

definition same_push_answer :: "push_answer \<Rightarrow> push_answer \<Rightarrow> bool" where
  "same_push_answer a b \<longleftrightarrow>
     (case (a, b) of (Browsers xs, Browsers ys) \<Rightarrow> map browser xs = map browser ys | _ \<Rightarrow> a = b)"

interpretation browser_stores: same_store "same_browsers owner" "\<lambda>_. own_id owner" memory_browsers
  "table_browsers strings_Compare" same_push_answer for owner
proof (unfold_locales, goal_cases)
  case (1 r t c r' a t' b)
  show ?case
  proof (cases c)
    case (SubscribePush s)
    then show ?thesis using 1 subscribe_alike [of owner r t s] by (auto simp: same_push_answer_def)
  next
    case (UnsubscribePush e)
    then show ?thesis using 1 unsubscribe_alike [of owner r t e] by (auto simp: same_push_answer_def)
  next
    case (ReadBrowsers u)
    then show ?thesis using 1 browsers_alike [of owner r t u] by (auto simp: same_push_answer_def)
  qed
qed


definition table_delivery :: Delivery where
  "table_delivery = \<lparr>Delivery_ID = ''d1'', Delivery_NotificationID = ''n1'', Delivery_UserID = ''alice'', Channel = ''email'',
     Attempts = 0, LastError = None, Delivery_CreatedAt = 5, DueAt = 5, SentAt = zero_time, GaveUpAt = zero_time\<rparr>"

definition table_browser :: PushSubscription where
  "table_browser = \<lparr>Subscription_ID = ''s1'', Subscription_UserID = ''alice'', Endpoint = ''https://push/1'', P256dh = ''k'',
     Subscription_Auth = ''a'', Subscription_CreatedAt = 5\<rparr>"


end
