(* ===== verification/Live_Stream.thy ===== *)
theory Live_Stream
  imports Broker Http_Answers
begin

text \<open>
  The event stream of \<open>internal/handler/stream.go\<close> on top of the broker. The loop of the handler is driven by a list:
  each entry holds what other goroutines did with the broker since the last turn, and the branch the select then took,
  with whether the write to the connection went through. The JSON encoder is a parameter. Flushing is left out: it
  moves bytes that are already written.
\<close>

section \<open>The handler\<close>

abbreviation newline :: char where "newline \<equiv> CHR 0x0A"

datatype stream_wake = Request_done | Heartbeat bool | Notice_ready bool

definition keep_alive :: string where
  "keep_alive = '': keep-alive'' @ [newline, newline]"

definition notice_frame :: "Notice \<Rightarrow> string \<Rightarrow> string" where
  "notice_frame notice payload =
     ''event: '' @ Notice_Kind notice @ [newline] @ ''data: '' @ payload @ [newline, newline]"

text \<open>One turn of the loop: the broker, what is written, and whether the loop goes on. A select cannot take the
  notice branch while the channel is open and empty; the turn is then without effect.\<close>

fun stream_turn ::
  "(Notice \<Rightarrow> string result) \<Rightarrow> nat \<Rightarrow> stream_wake \<Rightarrow> Broker \<Rightarrow> Broker \<times> answer_calls \<times> bool" where
  "stream_turn Marshal i Request_done b = (b, [], False)"
| "stream_turn Marshal i (Heartbeat written) b = (if \<not> written then (b, [], False) else (b, [Write keep_alive], True))"
| "stream_turn Marshal i (Notice_ready written) b =
     (case Receive i b of
        (b', None) \<Rightarrow> (b', [], \<not> Closed (All b ! i))
      | (b', Some notice) \<Rightarrow>
          (case Marshal notice of
             Inl err \<Rightarrow> (b', [], True)
           | Inr payload \<Rightarrow> if \<not> written then (b', [], False) else (b', [Write (notice_frame notice payload)], True)))"

fun stream_loop ::
  "(Notice \<Rightarrow> string result) \<Rightarrow> nat \<Rightarrow> (broker_call list \<times> stream_wake) list \<Rightarrow> Broker \<Rightarrow> (Broker \<times> answer_calls \<times> bool) result" where
  "stream_loop Marshal i [] b = Inr (b, [], True)"
| "stream_loop Marshal i ((others, wake) # turns) b =
     (case broker_run others b of
        Inl err \<Rightarrow> Inl err
      | Inr b1 \<Rightarrow>
          (case stream_turn Marshal i wake b1 of
             (b2, calls, False) \<Rightarrow> (case Unsubscribe i b2 of Inl err \<Rightarrow> Inl err | Inr b3 \<Rightarrow> Inr (b3, calls, False))
           | (b2, calls, True) \<Rightarrow>
               (case stream_loop Marshal i turns b2 of
                  Inl err \<Rightarrow> Inl err
                | Inr (b3, later, running) \<Rightarrow> Inr (b3, calls @ later, running))))"

definition stream_headers :: answer_calls where
  "stream_headers =
     [SetHeader ''Content-Type'' ''text/event-stream'', SetHeader ''Cache-Control'' ''no-cache'',
      SetHeader ''Connection'' ''keep-alive'', SetHeader ''X-Accel-Buffering'' ''no'', WriteHeader 200]"

text \<open>\<open>can_flush\<close> says whether the writer is an \<open>http.Flusher\<close>; without a broker the argument is \<open>None\<close>.\<close>

definition stream ::
  "(string \<Rightarrow> string \<Rightarrow> string) \<Rightarrow> (goerror \<Rightarrow> string) \<Rightarrow> (Notice \<Rightarrow> string result) \<Rightarrow> bool \<Rightarrow> string \<Rightarrow> string \<Rightarrow>
   (broker_call list \<times> stream_wake) list \<Rightarrow> Broker option \<Rightarrow> (Broker option \<times> answer_calls \<times> bool) result" where
  "stream Encode Error Marshal can_flush eventID userID turns broker =
     (case broker of
        None \<Rightarrow> Inr (None, writeAPIError Encode Error (Handler errStreamUnavailable), False)
      | Some b \<Rightarrow>
          if \<not> can_flush then Inr (Some b, writeAPIError Encode Error (Handler errStreamUnavailable), False)
          else
            let (b1, subscriber) = Subscribe eventID userID b in
            case stream_loop Marshal subscriber turns b1 of
              Inl err \<Rightarrow> Inl err
            | Inr (b2, calls, running) \<Rightarrow> Inr (Some b2, stream_headers @ calls, running))"

section \<open>What others do to a reader's channel\<close>

text \<open>The notices a run of calls puts into the channel of reader \<open>i\<close>, in order.\<close>

fun accepted :: "nat \<Rightarrow> broker_call list \<Rightarrow> Broker \<Rightarrow> Notice list" where
  "accepted i [] b = []"
| "accepted i (Call_Publish n # cs) b =
     (if i \<in> set (subscribers b) \<and> takes n b i then [n] else []) @
     (case Publish n b of Inl _ \<Rightarrow> [] | Inr (b', _) \<Rightarrow> accepted i cs b')"
| "accepted i (c # cs) b = (case broker_run [c] b of Inl _ \<Rightarrow> [] | Inr b' \<Rightarrow> accepted i cs b')"

text \<open>Nobody else reads from the channel.\<close>

definition leaves_alone :: "nat \<Rightarrow> broker_call list \<Rightarrow> bool" where
  "leaves_alone i cs \<longleftrightarrow> Call_Receive i \<notin> set cs"

text \<open>The owner of a channel never changes, and neither does anything but its contents and its being closed.\<close>

definition same_reader :: "nat \<Rightarrow> Broker \<Rightarrow> Broker \<Rightarrow> bool" where
  "same_reader i b b' \<longleftrightarrow> i < length (All b') \<and>
     Sub_eventID (All b' ! i) = Sub_eventID (All b ! i) \<and> Sub_userID (All b' ! i) = Sub_userID (All b ! i)"

lemma close_channel_reader:
  assumes "close_channel j (b\<lparr>subscribers := ss\<rparr>) = Inr b'" "i < length (All b)"
  shows "same_reader i b b' \<and> Events (All b' ! i) = Events (All b ! i)"
  using assms by (cases "i = j") (auto simp: close_channel_def same_reader_def split: if_splits)

lemma same_reader_trans: "same_reader i a b \<Longrightarrow> same_reader i b c \<Longrightarrow> same_reader i a c"
  by (simp add: same_reader_def)

lemma same_reader_refl: "i < length (All b) \<Longrightarrow> same_reader i b b"
  by (simp add: same_reader_def)

lemma Unsubscribe_reader:
  "Unsubscribe j b = Inr b' \<Longrightarrow> i < length (All b) \<Longrightarrow> same_reader i b b' \<and> Events (All b' ! i) = Events (All b ! i)"
  using close_channel_reader [of j "removeAll j (subscribers b)" b b' i]
  by (auto simp: Unsubscribe_def same_reader_refl split: if_splits)

lemma close_loop_reader:
  "close_loop is b = Inr b' \<Longrightarrow> i < length (All b) \<Longrightarrow> same_reader i b b' \<and> Events (All b' ! i) = Events (All b ! i)"
proof (induction "is" arbitrary: b)
  case Nil
  then show ?case by (simp add: same_reader_refl)
next
  case (Cons j js)
  then obtain b1 where b1: "close_channel j (b\<lparr>subscribers := removeAll j (subscribers b)\<rparr>) = Inr b1"
    "close_loop js b1 = Inr b'"
    by (auto split: sum.splits)
  from close_channel_reader [OF b1(1) Cons.prems(2)]
  have "same_reader i b b1" "Events (All b1 ! i) = Events (All b ! i)" by auto
  moreover from this have "same_reader i b1 b' \<and> Events (All b' ! i) = Events (All b1 ! i)"
    using Cons.IH [OF b1(2)] by (simp add: same_reader_def)
  ultimately show ?case by (auto intro: same_reader_trans)
qed

lemma Receive_reader:
  "i < length (All b) \<Longrightarrow> same_reader i b (fst (Receive j b)) \<and>
     (j \<noteq> i \<longrightarrow> Events (All (fst (Receive j b)) ! i) = Events (All b ! i))"
  by (cases "i = j") (auto simp: Receive_def same_reader_def split: list.split)

lemma Publish_reader:
  assumes "broker_inv b" "i < length (All b)" "Publish n b = Inr (b', k)"
  shows "broker_inv b' \<and> same_reader i b b' \<and>
    Events (All b' ! i) = Events (All b ! i) @ (if i \<in> set (subscribers b) \<and> takes n b i then [n] else [])"
  using Publish_inv [OF assms(1), of n] assms(2,3)
  by (auto simp: published_def got_def takes_def same_reader_def)

lemma run_reader:
  "broker_inv b \<Longrightarrow> i < length (All b) \<Longrightarrow> broker_run cs b = Inr b' \<Longrightarrow>
     broker_inv b' \<and> same_reader i b b' \<and>
     (leaves_alone i cs \<longrightarrow> Events (All b' ! i) = Events (All b ! i) @ accepted i cs b)"
proof (induction cs arbitrary: b)
  case Nil
  then show ?case by (simp add: same_reader_refl)
next
  case (Cons c cs)
  note inv = Cons.prems(1) and i = Cons.prems(2) and run = Cons.prems(3)
  have step: ?case
    if "broker_inv b1" "same_reader i b b1" "broker_run cs b1 = Inr b'"
      and "leaves_alone i (c # cs) \<Longrightarrow> Events (All b1 ! i) = Events (All b ! i) @ new"
      and "accepted i (c # cs) b = new @ accepted i cs b1" for b1 new
  proof -
    have "i < length (All b1)" using that(2) by (simp add: same_reader_def)
    from Cons.IH [OF that(1) this that(3)] show ?thesis
      using that by (auto simp: leaves_alone_def intro: same_reader_trans)
  qed
  show ?case
  proof (cases c)
    case (Call_Subscribe e u)
    show ?thesis
      using run i Subscribe_inv [OF inv, of e u] by (intro step [of "fst (Subscribe e u b)" "[]"])
        (auto simp: Call_Subscribe same_reader_def Subscribe_def Let_def nth_append)
  next
    case (Call_Unsubscribe j)
    show ?thesis
    proof (cases "j < length (All b)")
      case True
      with run Call_Unsubscribe obtain b1 where b1: "Unsubscribe j b = Inr b1" "broker_run cs b1 = Inr b'"
        by (auto split: sum.splits)
      show ?thesis
        using b1 Unsubscribe_inv [OF inv, of j] Unsubscribe_reader [OF b1(1) i] True
        by (intro step [of b1 "[]"]) (auto simp: Call_Unsubscribe)
    next
      case False
      then show ?thesis
        using run i inv by (intro step [of b "[]"]) (auto simp: Call_Unsubscribe same_reader_refl)
    qed
  next
    case (Call_Publish n)
    with run obtain b1 k where b1: "Publish n b = Inr (b1, k)" "broker_run cs b1 = Inr b'"
      by (auto split: sum.splits)
    show ?thesis
      using b1 Publish_reader [OF inv i b1(1)]
      by (intro step [of b1 "if i \<in> set (subscribers b) \<and> takes n b i then [n] else []"]) (auto simp: Call_Publish)
  next
    case (Call_Receive j)
    show ?thesis
    proof (cases "j < length (All b)")
      case True
      then show ?thesis
        using run i Receive_reader [OF i, of j] Receive_inv [OF inv True]
        by (intro step [of "fst (Receive j b)" "[]"]) (auto simp: Call_Receive leaves_alone_def)
    next
      case False
      then show ?thesis
        using run i inv by (intro step [of b "[]"]) (auto simp: Call_Receive same_reader_refl)
    qed
  next
    case Call_Close
    with run obtain b1 where b1: "Broker_Close b = Inr b1" "broker_run cs b1 = Inr b'"
      by (auto split: sum.splits)
    show ?thesis
      using b1 Broker_Close_inv [OF inv] close_loop_reader [OF b1(1) [unfolded Broker_Close_def] i]
      by (intro step [of b1 "[]"]) (auto simp: Call_Close)
  qed
qed


section \<open>What a stream tells its reader\<close>

text \<open>The notices put into the channel while the loop runs.\<close>

fun loop_accepts :: "(Notice \<Rightarrow> string result) \<Rightarrow> nat \<Rightarrow> (broker_call list \<times> stream_wake) list \<Rightarrow> Broker \<Rightarrow> Notice list" where
  "loop_accepts Marshal i [] b = []"
| "loop_accepts Marshal i ((others, wake) # turns) b =
     accepted i others b @
     (case broker_run others b of
        Inl _ \<Rightarrow> []
      | Inr b1 \<Rightarrow> (case stream_turn Marshal i wake b1 of (b2, _, again) \<Rightarrow> if again then loop_accepts Marshal i turns b2 else []))"

definition frames :: "(Notice \<Rightarrow> string result) \<Rightarrow> Notice \<Rightarrow> answer_calls" where
  "frames Marshal n = (case Marshal n of Inl _ \<Rightarrow> [] | Inr payload \<Rightarrow> [Write (notice_frame n payload)])"

definition not_beats :: "answer_calls \<Rightarrow> answer_calls" where
  "not_beats = filter (\<lambda>c. c \<noteq> Write keep_alive)"

lemma not_beats_append [simp]: "not_beats (xs @ ys) = not_beats xs @ not_beats ys"
  by (simp add: not_beats_def)

lemma not_beats_frames [simp]: "not_beats (frames Marshal n) = frames Marshal n"
  by (simp add: not_beats_def frames_def notice_frame_def keep_alive_def split: sum.split)

lemma turn_reader:
  assumes "broker_inv b" "i < length (All b)" "stream_turn Marshal i wake b = (b', calls, again)"
  obtains told lost where "broker_inv b'" "same_reader i b b'" "Events (All b ! i) = told @ lost @ Events (All b' ! i)"
    "length lost \<le> 1" "again \<Longrightarrow> lost = []" "not_beats calls = concat (map (frames Marshal) told)"
proof -
  note result = that
  have quiet: thesis if "b' = b" "not_beats calls = []"
    using that assms(1,2) by (intro result [of "[]" "[]"]) (auto simp: same_reader_refl)
  show thesis
  proof (cases wake)
    case (Notice_ready written)
    show thesis
    proof (cases "Events (All b ! i)")
      case Nil
      then show thesis using assms(3) Notice_ready by (intro quiet) (auto simp: Receive_def not_beats_def)
    next
      case (Cons n ns)
      note inv = Receive_inv [OF assms(1,2)] and reader = Receive_reader [OF assms(2), of i]
      have got: "Receive i b = (b', Some n)" "Events (All b' ! i) = ns"
        using assms(2,3) Cons Notice_ready by (auto simp: Receive_def split: sum.splits if_splits)
      show thesis
      proof (cases "Marshal n")
        case (Inl err)
        then show thesis
          using inv reader got assms(3) Notice_ready Cons
          by (intro result [of "[n]" "[]"]) (auto simp: frames_def not_beats_def)
      next
        case (Inr payload)
        show thesis
        proof (cases written)
          case True
          have "calls = frames Marshal n" using Inr got assms(3) Notice_ready True by (simp add: frames_def)
          then show thesis
            using inv reader got Cons by (intro result [of "[n]" "[]"]) auto
        next
          case False
          then show thesis
            using inv reader got assms(3) Notice_ready Cons Inr
            by (intro result [of "[]" "[n]"]) (auto simp: not_beats_def)
        qed
      qed
    qed
  qed (use assms(3) in \<open>auto intro!: quiet simp: not_beats_def split: if_splits\<close>)
qed

text \<open>The story of a loop from broker \<open>b\<close> on.\<close>

definition story :: "(Notice \<Rightarrow> string result) \<Rightarrow> nat \<Rightarrow> Broker \<Rightarrow> Notice list \<Rightarrow> Broker \<Rightarrow> answer_calls \<Rightarrow> bool \<Rightarrow> Notice list \<Rightarrow> bool" where
  "story Marshal i b arrived b' calls running told \<longleftrightarrow>
     broker_inv b' \<and> same_reader i b b' \<and> not_beats calls = concat (map (frames Marshal) told) \<and>
     (\<exists>lost. Events (All b ! i) @ arrived = told @ lost @ Events (All b' ! i) \<and> length lost \<le> 1 \<and> (running \<longrightarrow> lost = [])) \<and>
     (\<forall>n \<in> set told. wants (All b ! i) n) \<and> (\<not> running \<longrightarrow> i \<notin> set (subscribers b'))"

lemma same_reader_wants: "same_reader i b b' \<Longrightarrow> wants (All b' ! i) n = wants (All b ! i) n"
  by (simp add: same_reader_def wants_def)

lemma buffered_wanted: "broker_inv b \<Longrightarrow> i < length (All b) \<Longrightarrow> n \<in> set (Events (All b ! i)) \<Longrightarrow> wants (All b ! i) n"
  using broker_invD(3) by (auto simp: sub_wf_def)

lemma Unsubscribe_removes:
  assumes "broker_inv b" "Unsubscribe i b = Inr b'"
  shows "broker_inv b' \<and> i \<notin> set (subscribers b')"
  using assms Unsubscribe_inv [OF assms(1), of i] close_channel_inv [OF assms(1), of i]
  by (auto simp: Unsubscribe_def split: if_splits)

lemma stream_loop_story:
  "broker_inv b \<Longrightarrow> i < length (All b) \<Longrightarrow> \<forall>(others, wake) \<in> set turns. leaves_alone i others \<Longrightarrow>
   \<exists>b' calls running told. stream_loop Marshal i turns b = Inr (b', calls, running) \<and>
     story Marshal i b (loop_accepts Marshal i turns b) b' calls running told"
proof (induction turns arbitrary: b)
  case Nil
  then show ?case by (auto simp: story_def same_reader_refl not_beats_def intro!: exI [of _ "[] :: Notice list"])
next
  case (Cons turn turns)
  obtain others wake where turn: "turn = (others, wake)" by (cases turn)
  with Cons.prems(3) have alone: "leaves_alone i others" "\<forall>(others, wake) \<in> set turns. leaves_alone i others" by auto
  obtain b1 where b1: "broker_run others b = Inr b1" using broker_run_inv [OF Cons.prems(1)] by blast
  note run = run_reader [OF Cons.prems(1,2) b1]
  have at: "broker_inv b1" "i < length (All b1)" and same: "same_reader i b b1"
    and events: "Events (All b1 ! i) = Events (All b ! i) @ accepted i others b"
    using run alone(1) by (auto simp: same_reader_def)
  obtain b2 calls again where wakes: "stream_turn Marshal i wake b1 = (b2, calls, again)" by (cases "stream_turn Marshal i wake b1")
  from turn_reader [OF at this] obtain told lost where
    two: "broker_inv b2" "same_reader i b1 b2" "Events (All b1 ! i) = told @ lost @ Events (All b2 ! i)"
      "length lost \<le> 1" "again \<Longrightarrow> lost = []" "not_beats calls = concat (map (frames Marshal) told)" by metis
  have i2: "i < length (All b2)" using two(2) by (simp add: same_reader_def)
  have meant: "\<forall>n \<in> set told. wants (All b ! i) n"
    using buffered_wanted [OF at] two(3) same_reader_wants [OF same] by auto
  show ?case
  proof (cases again)
    case True
    from Cons.IH [OF two(1) i2 alone(2)] obtain b3 later running told' where
      rest: "stream_loop Marshal i turns b2 = Inr (b3, later, running)"
        "story Marshal i b2 (loop_accepts Marshal i turns b2) b3 later running told'" by blast
    have "stream_loop Marshal i (turn # turns) b = Inr (b3, calls @ later, running)"
      using b1 wakes rest(1) True by (simp add: turn)
    moreover have "story Marshal i b (loop_accepts Marshal i (turn # turns) b) b3 (calls @ later) running (told @ told')"
    proof -
      have whole: "loop_accepts Marshal i (turn # turns) b = accepted i others b @ loop_accepts Marshal i turns b2"
        using b1 wakes True by (simp add: turn)
      from rest(2) obtain lost' where lost': "length lost' \<le> 1" "running \<longrightarrow> lost' = []"
        "Events (All b2 ! i) @ loop_accepts Marshal i turns b2 = told' @ lost' @ Events (All b3 ! i)"
        by (auto simp: story_def)
      have "Events (All b ! i) @ loop_accepts Marshal i (turn # turns) b = (told @ told') @ lost' @ Events (All b3 ! i)"
        using two(3,5) lost'(3) True unfolding whole append_assoc [symmetric] events [symmetric] by simp
      moreover have "\<forall>n \<in> set told'. wants (All b ! i) n"
        using rest(2) same_reader_wants [OF same_reader_trans [OF same two(2)]] by (simp add: story_def)
      ultimately show ?thesis
        using rest(2) lost' two(6) meant same_reader_trans [OF same_reader_trans [OF same two(2)]]
        unfolding story_def by auto
    qed
    ultimately show ?thesis by blast
  next
    case False
    obtain b3 where b3: "Unsubscribe i b2 = Inr b3" using Unsubscribe_inv [OF two(1)] by blast
    have "stream_loop Marshal i (turn # turns) b = Inr (b3, calls, False)"
      using b1 wakes b3 False by (simp add: turn)
    moreover have "story Marshal i b (loop_accepts Marshal i (turn # turns) b) b3 calls False told"
      using Unsubscribe_reader [OF b3 i2] Unsubscribe_removes [OF two(1) b3] two events b1 wakes False meant
        same_reader_trans [OF same_reader_trans [OF same two(2)]]
      by (auto simp: story_def turn)
    ultimately show ?thesis by blast
  qed
qed

text \<open>C15. A stream tells its reader what was published for them and nothing else. Whatever the other goroutines do with
  the broker meanwhile, and in whatever order the select takes its branches, the loop does not panic. The frames written,
  heartbeats aside, are those of the notices that found room in the reader's channel, each once, in the order they were
  published and with none skipped: what is missing at any moment is what still waits in the channel, and after a write
  that failed the one notice it was for. Every notice told is about the reader's event and is public or their own. When
  the loop has ended, by a lost connection, a failed write or a closed broker, the reader is no longer registered.\<close>

theorem stream_tells_its_reader:
  assumes "broker_inv b" and "\<forall>(others, wake) \<in> set turns. leaves_alone (length (All b)) others"
  shows "\<exists>b' calls running told lost.
      stream Encode Error Marshal True eventID userID turns (Some b) = Inr (Some b', stream_headers @ calls, running)
    \<and> broker_inv b'
    \<and> not_beats calls = concat (map (frames Marshal) told)
    \<and> loop_accepts Marshal (length (All b)) turns (fst (Subscribe eventID userID b))
        = told @ lost @ Events (All b' ! length (All b))
    \<and> length lost \<le> 1 \<and> (running \<longrightarrow> lost = [])
    \<and> (\<forall>n \<in> set told. Notice_EventID n = eventID \<and> (IsForEveryone n \<or> Notice_UserID n = userID))
    \<and> (\<not> running \<longrightarrow> length (All b) \<notin> set (subscribers b'))"
proof -
  let ?i = "length (All b)" and ?b = "fst (Subscribe eventID userID b)"
  have new: "snd (Subscribe eventID userID b) = ?i" "?i < length (All ?b)" "Events (All ?b ! ?i) = []"
    "Sub_eventID (All ?b ! ?i) = eventID" "Sub_userID (All ?b ! ?i) = userID"
    by (simp_all add: Subscribe_def Let_def)
  from stream_loop_story [OF Subscribe_inv [OF assms(1)] new(2) assms(2)]
  obtain b' calls running told where
    loop: "stream_loop Marshal ?i turns ?b = Inr (b', calls, running)"
    and story: "story Marshal ?i ?b (loop_accepts Marshal ?i turns ?b) b' calls running told" by blast
  have "stream Encode Error Marshal True eventID userID turns (Some b) = Inr (Some b', stream_headers @ calls, running)"
    using loop new(1) by (simp add: stream_def split_beta)
  moreover from story obtain lost where "length lost \<le> 1" "running \<longrightarrow> lost = []"
    "loop_accepts Marshal ?i turns ?b = told @ lost @ Events (All b' ! ?i)"
    by (auto simp: story_def new(3))
  moreover have "\<forall>n \<in> set told. Notice_EventID n = eventID \<and> (IsForEveryone n \<or> Notice_UserID n = userID)"
    using story by (auto simp: story_def wants_def new(4,5) split: if_splits)
  ultimately show ?thesis using story unfolding story_def by blast
qed

definition small_turns :: "(broker_call list \<times> stream_wake) list" where
  "small_turns = [([], Heartbeat True), ([Call_Publish seat_news], Notice_ready True), ([], Request_done)]"

theorem stream_tells_its_reader_witness:
  "\<exists>b' calls told lost.
     stream (\<lambda>_ _. '''') (\<lambda>_. '''') (\<lambda>_. Inr ''{}'') True ''event-1'' ''alice'' small_turns (Some NewBroker)
       = Inr (Some b', stream_headers @ calls, False) \<and> told @ lost = [seat_news] \<and>
     length lost \<le> 1 \<and> 0 \<notin> set (subscribers b')"
proof -
  have alone: "\<forall>(others, wake) \<in> set small_turns. leaves_alone (length (All NewBroker)) others"
    by (simp add: small_turns_def leaves_alone_def)
  have run: "stream (\<lambda>_ _. '''') (\<lambda>_. '''') (\<lambda>_. Inr ''{}'') True ''event-1'' ''alice'' small_turns (Some NewBroker) =
      Inr (Some \<lparr>All = [\<lparr>Events = [], Closed = True, Sub_eventID = ''event-1'', Sub_userID = ''alice''\<rparr>],
             subscribers = [], dropped = 0\<rparr>,
        stream_headers @ [Write keep_alive, Write (notice_frame seat_news ''{}'')], False)"
    by (simp add: stream_def small_turns_def Subscribe_def NewBroker_def Let_def Publish_def wants_def seat_news_def
        IsForEveryone_def subscriberBuffer_def Receive_def Unsubscribe_def close_channel_def)
  have told: "loop_accepts (\<lambda>_. Inr ''{}'') 0 small_turns (fst (Subscribe ''event-1'' ''alice'' NewBroker)) = [seat_news]"
    by (simp add: small_turns_def Subscribe_def NewBroker_def Let_def Publish_def wants_def takes_def seat_news_def
        IsForEveryone_def subscriberBuffer_def Receive_def)
  have "length (All NewBroker) = 0" by (simp add: NewBroker_def)
  with stream_tells_its_reader [OF broker_inv_new alone, of "\<lambda>_ _. ''''" "\<lambda>_. ''''" "\<lambda>_. Inr ''{}''" "''event-1''" "''alice''"]
    run told show ?thesis by force
qed

end
