(* ===== verification/Configuration.thy ===== *)
theory Configuration
  imports Auth_Token
begin

text \<open>
  The configuration of the process: \<open>internal/config\<close>. The environment is a function from names to values. \<open>strconv.Atoi\<close>
  is written out in \<open>Auth_Token\<close>; \<open>time.ParseDuration\<close>, \<open>url.Parse\<close> and \<open>Duration.String\<close> are parameters. The spellings
  that \<open>boolVar\<close> knows are ASCII and no other letter lowers to theirs, so lowering is ASCII lowering here.
\<close>

section \<open>Reading the environment\<close>

type_synonym environment = "string \<Rightarrow> string"

definition env_lookup :: "environment \<Rightarrow> string \<Rightarrow> string" where
  "env_lookup getenv name = TrimSpace (getenv name)"

definition stringVar :: "environment \<Rightarrow> string \<Rightarrow> string \<Rightarrow> string" where
  "stringVar getenv name fallback =
     (let value = env_lookup getenv name in if value \<noteq> '''' then value else fallback)"

definition intVar :: "environment \<Rightarrow> string \<Rightarrow> int \<Rightarrow> int result" where
  "intVar getenv name fallback =
     (let value = env_lookup getenv name in
      if value = '''' then Inr fallback
      else case ParseInt64 value of
        None \<Rightarrow> Inl (Wrapf ''is not a whole number'' [ErrInvalidConfig])
      | Some parsed \<Rightarrow> Inr parsed)"

definition boolVar :: "environment \<Rightarrow> string \<Rightarrow> bool \<Rightarrow> bool result" where
  "boolVar getenv name fallback =
     (let value = env_lookup getenv name in
      if value = '''' then Inr fallback
      else if map ascii_lower value \<in> {''1'', ''t'', ''true'', ''yes'', ''on''} then Inr True
      else if map ascii_lower value \<in> {''0'', ''f'', ''false'', ''no'', ''off''} then Inr False
      else Inl (Wrapf ''is not true or false'' [ErrInvalidConfig]))"

text \<open>A bare number is seconds; multiplying it by \<open>time.Second\<close> wraps at 64 bits.\<close>

definition durationVar ::
  "(string \<Rightarrow> duration option) \<Rightarrow> environment \<Rightarrow> string \<Rightarrow> duration \<Rightarrow> duration result" where
  "durationVar ParseDuration getenv name fallback =
     (let value = env_lookup getenv name in
      if value = '''' then Inr fallback
      else case ParseInt64 value of
        Some seconds \<Rightarrow> Inr (int64 (seconds * Second))
      | None \<Rightarrow>
          (case ParseDuration value of
             None \<Rightarrow> Inl (Wrapf ''is not a duration'' [ErrInvalidConfig])
           | Some parsed \<Rightarrow> Inr parsed))"

section \<open>The configuration\<close>

record Config =
  Addr :: string
  DatabaseURL :: string
  Config_HoldTTL :: duration
  SweepInterval :: duration
  ShutdownTimeout :: duration
  IdempotencyTTL :: duration
  AuthSecret :: string
  TokenTTL :: duration
  Argon2Memory :: int
  Argon2Iterations :: int
  Argon2Parallelism :: int
  HandoffWorkers :: int
  HandoffBuffer :: int
  RateLimitTTL :: duration
  AuthBurst :: int
  AuthEvery :: duration
  RequestBurst :: int
  RequestEvery :: duration
  ReadHeaderTimeout :: duration
  RequestBodyLimit :: int
  SMTPAddr :: string
  SMTPFrom :: string
  SMTPUsername :: string
  SMTPPassword :: string
  PublicURL :: string
  VerificationTTL :: duration
  VAPIDPublicKey :: string
  VAPIDPrivateKey :: string
  VAPIDSubject :: string
  PprofAddr :: string
  SeedDemoData :: bool
  LogLevel :: string

definition UsesDatabase :: "Config \<Rightarrow> bool" where
  "UsesDatabase c \<longleftrightarrow> DatabaseURL c \<noteq> ''''"

definition MinAuthSecretLength :: nat where "MinAuthSecretLength = 32"

definition validLogLevels :: "string \<Rightarrow> bool" where
  "validLogLevels level \<longleftrightarrow> level \<in> {''debug'', ''info'', ''warn'', ''error''}"

abbreviation invalid :: "string \<Rightarrow> goerror option" where
  "invalid why \<equiv> Some (Wrapf why [ErrInvalidConfig])"

definition validate :: "Config \<Rightarrow> goerror option" where
  "validate c =
     (if Addr c = '''' then invalid ''ADDR must not be empty''
      else if Config_HoldTTL c \<le> 0 then invalid ''HOLD_TTL must be positive''
      else if SweepInterval c \<le> 0 then invalid ''SWEEP_INTERVAL must be positive''
      else if ShutdownTimeout c \<le> 0 then invalid ''SHUTDOWN_TIMEOUT must be positive''
      else if IdempotencyTTL c \<le> 0 then invalid ''IDEMPOTENCY_TTL must be positive''
      else if RateLimitTTL c \<le> 0 then invalid ''RATE_LIMIT_TTL must be positive''
      else if VerificationTTL c \<le> 0 then invalid ''VERIFICATION_TTL must be positive''
      else if SMTPAddr c \<noteq> '''' \<and> PublicURL c = ''''
        then invalid ''PUBLIC_URL is required when SMTP_ADDR is set, so links in email are absolute''
      else if TokenTTL c \<le> 0 then invalid ''TOKEN_TTL must be positive''
      else if AuthSecret c = '''' then invalid ''AUTH_SECRET is required''
      else if length (AuthSecret c) < MinAuthSecretLength then invalid ''AUTH_SECRET is too short''
      else if HandoffWorkers c < 1 then invalid ''HANDOFF_WORKERS must be at least 1''
      else if HandoffBuffer c < 1 then invalid ''HANDOFF_BUFFER must be at least 1''
      else if AuthBurst c < 1 \<or> RequestBurst c < 1 then invalid ''rate limit bursts must be at least 1''
      else if AuthEvery c \<le> 0 \<or> RequestEvery c \<le> 0 then invalid ''rate limit intervals must be positive''
      else if ReadHeaderTimeout c \<le> 0 then invalid ''READ_HEADER_TIMEOUT must be positive''
      else if RequestBodyLimit c < 1024 then invalid ''REQUEST_BODY_LIMIT must be at least 1024''
      else if Argon2Memory c < 8 then invalid ''ARGON2_MEMORY_KIB must be at least 8''
      else if Argon2Iterations c < 1 then invalid ''ARGON2_ITERATIONS must be at least 1''
      else if Argon2Parallelism c < 1 then invalid ''ARGON2_PARALLELISM must be at least 1''
      else if SMTPAddr c \<noteq> '''' \<and> SMTPFrom c = '''' then invalid ''SMTP_FROM is required when SMTP_ADDR is set''
      else if (VAPIDPublicKey c = '''') \<noteq> (VAPIDPrivateKey c = '''')
        then invalid ''VAPID_PUBLIC_KEY and VAPID_PRIVATE_KEY go together''
      else if VAPIDPublicKey c \<noteq> '''' \<and> VAPIDSubject c = '''' then invalid ''VAPID_SUBJECT is required with the VAPID keys''
      else if \<not> validLogLevels (LogLevel c) then invalid ''LOG_LEVEL is not one of debug, info, warn, error''
      else None)"

text \<open>\<open>strings.TrimSuffix(s, "/")\<close>.\<close>

definition trim_slash :: "string \<Rightarrow> string" where
  "trim_slash s = (if s \<noteq> '''' \<and> last s = CHR ''/'' then butlast s else s)"

text \<open>\<open>uint32\<close> and \<open>uint8\<close> of an \<open>int\<close>.\<close>

definition uint32 :: "int \<Rightarrow> int" where "uint32 x = x mod 2 ^ 32"
definition uint8 :: "int \<Rightarrow> int" where "uint8 x = x mod 2 ^ 8"

definition Load :: "(string \<Rightarrow> duration option) \<Rightarrow> environment \<Rightarrow> Config result" where
  "Load ParseDuration getenv =
     result_then (durationVar ParseDuration getenv ''HOLD_TTL'' (5 * Minute)) (\<lambda>holdTTL.
     result_then (durationVar ParseDuration getenv ''SWEEP_INTERVAL'' (30 * Second)) (\<lambda>sweepInterval.
     result_then (durationVar ParseDuration getenv ''SHUTDOWN_TIMEOUT'' (10 * Second)) (\<lambda>shutdownTimeout.
     result_then (durationVar ParseDuration getenv ''IDEMPOTENCY_TTL'' (24 * Hour)) (\<lambda>idempotencyTTL.
     result_then (durationVar ParseDuration getenv ''TOKEN_TTL'' Hour) (\<lambda>tokenTTL.
     result_then (durationVar ParseDuration getenv ''VERIFICATION_TTL'' (24 * Hour)) (\<lambda>verificationTTL.
     result_then (durationVar ParseDuration getenv ''RATE_LIMIT_TTL'' (10 * Minute)) (\<lambda>rateLimitTTL.
     result_then (durationVar ParseDuration getenv ''RATE_LIMIT_AUTH_EVERY'' (6 * Second)) (\<lambda>authEvery.
     result_then (durationVar ParseDuration getenv ''RATE_LIMIT_EVERY'' Second) (\<lambda>requestEvery.
     result_then (durationVar ParseDuration getenv ''READ_HEADER_TIMEOUT'' (10 * Second)) (\<lambda>readHeaderTimeout.
     result_then (intVar getenv ''RATE_LIMIT_AUTH_BURST'' 5) (\<lambda>authBurst.
     result_then (intVar getenv ''RATE_LIMIT_BURST'' 30) (\<lambda>requestBurst.
     result_then (intVar getenv ''HANDOFF_WORKERS'' 16) (\<lambda>handoffWorkers.
     result_then (intVar getenv ''HANDOFF_BUFFER'' 256) (\<lambda>handoffBuffer.
     result_then (intVar getenv ''ARGON2_ITERATIONS'' 2) (\<lambda>iterations.
     result_then (intVar getenv ''ARGON2_PARALLELISM'' 1) (\<lambda>parallelism.
     result_then (intVar getenv ''REQUEST_BODY_LIMIT'' 8192) (\<lambda>bodyLimit.
     result_then (boolVar getenv ''SEED_DEMO_DATA'' False) (\<lambda>seedDemoData.
     result_then (intVar getenv ''ARGON2_MEMORY_KIB'' 19456) (\<lambda>memory.
       let cfg =
         \<lparr>Addr = stringVar getenv ''ADDR'' '':8080'', DatabaseURL = stringVar getenv ''DATABASE_URL'' '''',
          Config_HoldTTL = holdTTL, SweepInterval = sweepInterval, ShutdownTimeout = shutdownTimeout,
          IdempotencyTTL = idempotencyTTL, AuthSecret = env_lookup getenv ''AUTH_SECRET'', TokenTTL = tokenTTL,
          Argon2Memory = uint32 (max 0 memory), Argon2Iterations = uint32 (max 0 iterations),
          Argon2Parallelism = uint8 (min (max 0 parallelism) 255), HandoffWorkers = handoffWorkers,
          HandoffBuffer = handoffBuffer, RateLimitTTL = rateLimitTTL, AuthBurst = authBurst, AuthEvery = authEvery,
          RequestBurst = requestBurst, RequestEvery = requestEvery, ReadHeaderTimeout = readHeaderTimeout,
          RequestBodyLimit = bodyLimit, SMTPAddr = stringVar getenv ''SMTP_ADDR'' '''',
          SMTPFrom = stringVar getenv ''SMTP_FROM'' ''tickets@localhost'',
          SMTPUsername = stringVar getenv ''SMTP_USERNAME'' '''', SMTPPassword = stringVar getenv ''SMTP_PASSWORD'' '''',
          PublicURL = trim_slash (stringVar getenv ''PUBLIC_URL'' ''''), VerificationTTL = verificationTTL,
          VAPIDPublicKey = stringVar getenv ''VAPID_PUBLIC_KEY'' '''',
          VAPIDPrivateKey = stringVar getenv ''VAPID_PRIVATE_KEY'' '''',
          VAPIDSubject = stringVar getenv ''VAPID_SUBJECT'' '''', PprofAddr = stringVar getenv ''PPROF_ADDR'' '''',
          SeedDemoData = seedDemoData, LogLevel = stringVar getenv ''LOG_LEVEL'' ''info''\<rparr>
       in case validate cfg of Some err \<Rightarrow> Inl err | None \<Rightarrow> Inr cfg)))))))))))))))))))"

definition LoadDatabaseURL :: "environment \<Rightarrow> string result" where
  "LoadDatabaseURL getenv =
     (let url = env_lookup getenv ''DATABASE_URL'' in
      if url = '''' then Inl (Wrapf ''DATABASE_URL is required'' [ErrInvalidConfig]) else Inr url)"

section \<open>What is logged of it\<close>

text \<open>A log value is a group of named values; \<open>show_duration\<close> is \<open>Duration.String\<close> and \<open>url_parts\<close> the scheme, host and path
  that \<open>url.Parse\<close> finds.\<close>

datatype log_value = Log_String string | Log_Int int | Log_Bool bool | Log_Group "(string \<times> log_value) list"

definition storeDescription :: "(string \<Rightarrow> (string \<times> string \<times> string) option) \<Rightarrow> Config \<Rightarrow> string" where
  "storeDescription url_parts c =
     (if \<not> UsesDatabase c then ''memory''
      else case url_parts (DatabaseURL c) of
        None \<Rightarrow> ''postgres''
      | Some (scheme, host, path) \<Rightarrow> scheme @ ''://'' @ host @ trim_slash path)"

definition pprofDescription :: "Config \<Rightarrow> string" where
  "pprofDescription c = (if PprofAddr c = '''' then ''off'' else ''listening on '' @ PprofAddr c)"

definition mailDescription :: "Config \<Rightarrow> string" where
  "mailDescription c =
     (if SMTPAddr c = '''' then ''off''
      else if SMTPUsername c \<noteq> '''' then SMTPAddr c @ '' (authenticated)''
      else SMTPAddr c)"

definition pushDescription :: "Config \<Rightarrow> string" where
  "pushDescription c = (if VAPIDPublicKey c = '''' then ''off'' else ''on'')"

definition secretDescription :: "Config \<Rightarrow> string" where
  "secretDescription c = (if AuthSecret c = '''' then ''unset'' else ''***'')"

definition LogValue ::
  "(duration \<Rightarrow> string) \<Rightarrow> (string \<Rightarrow> (string \<times> string \<times> string) option) \<Rightarrow> Config \<Rightarrow> log_value" where
  "LogValue show_duration url_parts c =
     Log_Group
       [(''addr'', Log_String (Addr c)), (''store'', Log_String (storeDescription url_parts c)),
        (''logLevel'', Log_String (LogLevel c)), (''pprof'', Log_String (pprofDescription c)),
        (''seedDemoData'', Log_Bool (SeedDemoData c)),
        (''auth'', Log_Group
          [(''secret'', Log_String (secretDescription c)), (''tokenTtl'', Log_String (show_duration (TokenTTL c))),
           (''argon2MemoryKib'', Log_Int (Argon2Memory c)), (''argon2Iterations'', Log_Int (Argon2Iterations c)),
           (''argon2Parallelism'', Log_Int (Argon2Parallelism c))]),
        (''holds'', Log_Group
          [(''ttl'', Log_String (show_duration (Config_HoldTTL c))),
           (''sweepInterval'', Log_String (show_duration (SweepInterval c))),
           (''idempotencyTtl'', Log_String (show_duration (IdempotencyTTL c)))]),
        (''mail'', Log_Group [(''server'', Log_String (mailDescription c)), (''from'', Log_String (SMTPFrom c))]),
        (''push'', Log_Group [(''state'', Log_String (pushDescription c)), (''subject'', Log_String (VAPIDSubject c))]),
        (''handoff'', Log_Group [(''workers'', Log_Int (HandoffWorkers c)), (''buffer'', Log_Int (HandoffBuffer c))]),
        (''limits'', Log_Group
          [(''authBurst'', Log_Int (AuthBurst c)), (''authEvery'', Log_String (show_duration (AuthEvery c))),
           (''requestBurst'', Log_Int (RequestBurst c)), (''requestEvery'', Log_String (show_duration (RequestEvery c))),
           (''requestBodyLimit'', Log_Int (RequestBodyLimit c))]),
        (''timeouts'', Log_Group
          [(''readHeader'', Log_String (show_duration (ReadHeaderTimeout c))),
           (''shutdown'', Log_String (show_duration (ShutdownTimeout c)))])]"

section \<open>What an accepted configuration promises\<close>

lemma guard_None: "(if b then Some x else y) = None \<longleftrightarrow> \<not> b \<and> y = None"
  by simp

lemma validate_None:
  assumes "validate c = None"
  shows "Addr c \<noteq> ''''" "0 < Config_HoldTTL c" "0 < SweepInterval c" "0 < ShutdownTimeout c" "0 < IdempotencyTTL c"
    "0 < RateLimitTTL c" "0 < VerificationTTL c" "0 < TokenTTL c" "MinAuthSecretLength \<le> length (AuthSecret c)"
    "1 \<le> HandoffWorkers c" "1 \<le> HandoffBuffer c" "1 \<le> AuthBurst c" "1 \<le> RequestBurst c" "0 < AuthEvery c"
    "0 < RequestEvery c" "0 < ReadHeaderTimeout c" "1024 \<le> RequestBodyLimit c" "8 \<le> Argon2Memory c"
    "1 \<le> Argon2Iterations c" "1 \<le> Argon2Parallelism c" "SMTPAddr c \<noteq> '''' \<longrightarrow> PublicURL c \<noteq> '''' \<and> SMTPFrom c \<noteq> ''''"
    "VAPIDPublicKey c = '''' \<longleftrightarrow> VAPIDPrivateKey c = ''''" "VAPIDPublicKey c \<noteq> '''' \<longrightarrow> VAPIDSubject c \<noteq> ''''"
    "validLogLevels (LogLevel c)"
  using assms unfolding validate_def guard_None by (simp_all only: not_le not_less de_Morgan_conj de_Morgan_disj) blast+

lemma ParseInt64_range: "ParseInt64 s = Some v \<Longrightarrow> - (2 ^ 63) \<le> v \<and> v < 2 ^ 63"
  by (auto simp: ParseInt64_def Let_def split: if_splits option.splits list.splits)

definition in_int64 :: "int \<Rightarrow> bool" where
  "in_int64 v \<longleftrightarrow> - (2 ^ 63) \<le> v \<and> v < 2 ^ 63"

definition duration_parser :: "(string \<Rightarrow> duration option) \<Rightarrow> bool" where
  "duration_parser ParseDuration \<longleftrightarrow> (\<forall>s v. ParseDuration s = Some v \<longrightarrow> in_int64 v)"

lemma intVar_range: "intVar getenv name fallback = Inr v \<Longrightarrow> in_int64 fallback \<Longrightarrow> in_int64 v"
  by (auto simp: intVar_def Let_def in_int64_def dest: ParseInt64_range split: if_splits option.splits)

lemma durationVar_range:
  "durationVar P getenv name fallback = Inr v \<Longrightarrow> duration_parser P \<Longrightarrow> in_int64 fallback \<Longrightarrow> in_int64 v"
  using int64_range by (auto simp: durationVar_def Let_def in_int64_def duration_parser_def split: if_splits option.splits)

lemma checked_Inr: "(case v of None \<Rightarrow> Inr cfg | Some err \<Rightarrow> Inl err) = Inr c \<longleftrightarrow> v = None \<and> cfg = c"
  by (cases v) auto

lemma Load_all:
  assumes "Load P getenv = Inr c"
  shows "validate c = None \<and>
    durationVar P getenv ''HOLD_TTL'' (5 * Minute) = Inr (Config_HoldTTL c) \<and>
    durationVar P getenv ''SWEEP_INTERVAL'' (30 * Second) = Inr (SweepInterval c) \<and>
    durationVar P getenv ''SHUTDOWN_TIMEOUT'' (10 * Second) = Inr (ShutdownTimeout c) \<and>
    durationVar P getenv ''IDEMPOTENCY_TTL'' (24 * Hour) = Inr (IdempotencyTTL c) \<and>
    durationVar P getenv ''TOKEN_TTL'' Hour = Inr (TokenTTL c) \<and>
    durationVar P getenv ''VERIFICATION_TTL'' (24 * Hour) = Inr (VerificationTTL c) \<and>
    durationVar P getenv ''RATE_LIMIT_TTL'' (10 * Minute) = Inr (RateLimitTTL c) \<and>
    durationVar P getenv ''RATE_LIMIT_AUTH_EVERY'' (6 * Second) = Inr (AuthEvery c) \<and>
    durationVar P getenv ''RATE_LIMIT_EVERY'' Second = Inr (RequestEvery c) \<and>
    durationVar P getenv ''READ_HEADER_TIMEOUT'' (10 * Second) = Inr (ReadHeaderTimeout c) \<and>
    intVar getenv ''RATE_LIMIT_AUTH_BURST'' 5 = Inr (AuthBurst c) \<and>
    intVar getenv ''RATE_LIMIT_BURST'' 30 = Inr (RequestBurst c) \<and>
    intVar getenv ''HANDOFF_WORKERS'' 16 = Inr (HandoffWorkers c) \<and>
    intVar getenv ''HANDOFF_BUFFER'' 256 = Inr (HandoffBuffer c) \<and>
    intVar getenv ''REQUEST_BODY_LIMIT'' 8192 = Inr (RequestBodyLimit c) \<and>
    (\<exists>n. intVar getenv ''ARGON2_ITERATIONS'' 2 = Inr n \<and> Argon2Iterations c = uint32 (max 0 n)) \<and>
    (\<exists>n. intVar getenv ''ARGON2_PARALLELISM'' 1 = Inr n \<and> Argon2Parallelism c = uint8 (min (max 0 n) 255)) \<and>
    (\<exists>n. intVar getenv ''ARGON2_MEMORY_KIB'' 19456 = Inr n \<and> Argon2Memory c = uint32 (max 0 n)) \<and>
    boolVar getenv ''SEED_DEMO_DATA'' False = Inr (SeedDemoData c) \<and>
    AuthSecret c = env_lookup getenv ''AUTH_SECRET''"
  using assms unfolding Load_def result_then_Inr Let_def checked_Inr by (elim exE conjE) (hypsubst, simp)

lemma Load_ok:
  assumes "Load P getenv = Inr c"
  shows "validate c = None"
    "durationVar P getenv ''HOLD_TTL'' (5 * Minute) = Inr (Config_HoldTTL c)"
    "durationVar P getenv ''SWEEP_INTERVAL'' (30 * Second) = Inr (SweepInterval c)"
    "durationVar P getenv ''SHUTDOWN_TIMEOUT'' (10 * Second) = Inr (ShutdownTimeout c)"
    "durationVar P getenv ''IDEMPOTENCY_TTL'' (24 * Hour) = Inr (IdempotencyTTL c)"
    "durationVar P getenv ''TOKEN_TTL'' Hour = Inr (TokenTTL c)"
    "durationVar P getenv ''VERIFICATION_TTL'' (24 * Hour) = Inr (VerificationTTL c)"
    "durationVar P getenv ''RATE_LIMIT_TTL'' (10 * Minute) = Inr (RateLimitTTL c)"
    "durationVar P getenv ''RATE_LIMIT_AUTH_EVERY'' (6 * Second) = Inr (AuthEvery c)"
    "durationVar P getenv ''RATE_LIMIT_EVERY'' Second = Inr (RequestEvery c)"
    "durationVar P getenv ''READ_HEADER_TIMEOUT'' (10 * Second) = Inr (ReadHeaderTimeout c)"
    "intVar getenv ''RATE_LIMIT_AUTH_BURST'' 5 = Inr (AuthBurst c)"
    "intVar getenv ''RATE_LIMIT_BURST'' 30 = Inr (RequestBurst c)"
    "intVar getenv ''HANDOFF_WORKERS'' 16 = Inr (HandoffWorkers c)"
    "intVar getenv ''HANDOFF_BUFFER'' 256 = Inr (HandoffBuffer c)"
    "intVar getenv ''REQUEST_BODY_LIMIT'' 8192 = Inr (RequestBodyLimit c)"
    "\<exists>n. intVar getenv ''ARGON2_ITERATIONS'' 2 = Inr n \<and> Argon2Iterations c = uint32 (max 0 n)"
    "\<exists>n. intVar getenv ''ARGON2_PARALLELISM'' 1 = Inr n \<and> Argon2Parallelism c = uint8 (min (max 0 n) 255)"
    "\<exists>n. intVar getenv ''ARGON2_MEMORY_KIB'' 19456 = Inr n \<and> Argon2Memory c = uint32 (max 0 n)"
    "boolVar getenv ''SEED_DEMO_DATA'' False = Inr (SeedDemoData c)"
    "AuthSecret c = env_lookup getenv ''AUTH_SECRET''"
  using Load_all [OF assms] by blast+

text \<open>C35. A process that starts is configured soundly. Every time-to-live, interval and timeout is positive and fits
  64 bits, every burst, worker count and buffer is at least one, the costs of the password hash fit the
  widths they are stored at, the secret is one the token code accepts, mail is only on with a sender and
  an address for its links, and push only with both keys and a subject.\<close>

theorem accepted_config_is_sound:
  assumes "Load ParseDuration getenv = Inr c" and "duration_parser ParseDuration"
  shows "(\<forall>v \<in> {Config_HoldTTL c, SweepInterval c, ShutdownTimeout c, IdempotencyTTL c, TokenTTL c, VerificationTTL c,
       RateLimitTTL c, AuthEvery c, RequestEvery c, ReadHeaderTimeout c}. 0 < v \<and> v < 2 ^ 63) \<and>
    (\<forall>n \<in> {HandoffWorkers c, HandoffBuffer c, AuthBurst c, RequestBurst c}. 1 \<le> n \<and> n < 2 ^ 63) \<and>
    1024 \<le> RequestBodyLimit c \<and> 8 \<le> Argon2Memory c \<and> Argon2Memory c < 2 ^ 32 \<and> 1 \<le> Argon2Iterations c \<and>
    Argon2Iterations c < 2 ^ 32 \<and> 1 \<le> Argon2Parallelism c \<and> Argon2Parallelism c < 2 ^ 8 \<and>
    NewTokens (AuthSecret c) = Inr (AuthSecret c) \<and>
    (SMTPAddr c \<noteq> '''' \<longrightarrow> PublicURL c \<noteq> '''' \<and> SMTPFrom c \<noteq> '''') \<and>
    (VAPIDPublicKey c \<noteq> '''' \<longrightarrow> VAPIDPrivateKey c \<noteq> '''' \<and> VAPIDSubject c \<noteq> '''')"
proof -
  note ok = Load_ok [OF assms(1)] and v = validate_None [OF Load_ok(1) [OF assms(1)]]
  note d = durationVar_range [OF _ assms(2)]
  have "in_int64 (Config_HoldTTL c)" "in_int64 (SweepInterval c)" "in_int64 (ShutdownTimeout c)" "in_int64 (IdempotencyTTL c)"
    "in_int64 (TokenTTL c)" "in_int64 (VerificationTTL c)" "in_int64 (RateLimitTTL c)" "in_int64 (AuthEvery c)"
    "in_int64 (RequestEvery c)" "in_int64 (ReadHeaderTimeout c)"
    using ok(2-11) [THEN d] by (simp_all add: in_int64_def)
  moreover have "in_int64 (AuthBurst c)" "in_int64 (RequestBurst c)" "in_int64 (HandoffWorkers c)" "in_int64 (HandoffBuffer c)"
    using ok(12-15) [THEN intVar_range] by (simp_all add: in_int64_def)
  moreover have "Argon2Memory c < 2 ^ 32" "Argon2Iterations c < 2 ^ 32" "Argon2Parallelism c < 2 ^ 8"
    using ok(17-19) by (auto simp: uint32_def uint8_def)
  moreover have "NewTokens (AuthSecret c) = Inr (AuthSecret c)"
    using v(9) by (simp add: NewTokens_def MinSecretLength_def MinAuthSecretLength_def)
  ultimately show ?thesis using v unfolding in_int64_def by blast
qed

definition sample_env :: "string \<Rightarrow> environment" where
  "sample_env hold name =
     (if name = ''AUTH_SECRET'' then ''0123456789abcdef0123456789abcdef''
      else if name = ''HOLD_TTL'' then hold else '''')"

lemma sample_lookup:
  "env_lookup (sample_env hold) ''AUTH_SECRET'' = ''0123456789abcdef0123456789abcdef''"
  "\<forall>c \<in> set hold. 33 \<le> byte c \<and> byte c < 128 \<Longrightarrow> env_lookup (sample_env hold) ''HOLD_TTL'' = hold"
  "name \<noteq> ''AUTH_SECRET'' \<Longrightarrow> name \<noteq> ''HOLD_TTL'' \<Longrightarrow> env_lookup (sample_env hold) name = ''''"
proof -
  have "TrimSpace '''' = ''''" by (rule TrimSpace_printable) simp
  then show "name \<noteq> ''AUTH_SECRET'' \<Longrightarrow> name \<noteq> ''HOLD_TTL'' \<Longrightarrow> env_lookup (sample_env hold) name = ''''"
    by (simp add: env_lookup_def sample_env_def)
  have "TrimSpace ''0123456789abcdef0123456789abcdef'' = ''0123456789abcdef0123456789abcdef''"
    by (rule TrimSpace_printable) simp
  then show "env_lookup (sample_env hold) ''AUTH_SECRET'' = ''0123456789abcdef0123456789abcdef''"
    by (simp add: env_lookup_def sample_env_def)
  show "\<forall>c \<in> set hold. 33 \<le> byte c \<and> byte c < 128 \<Longrightarrow> env_lookup (sample_env hold) ''HOLD_TTL'' = hold"
    unfolding env_lookup_def sample_env_def by simp (rule TrimSpace_printable)
qed

lemma sample_config:
  assumes "\<forall>c \<in> set hold. 33 \<le> byte c \<and> byte c < 128" "hold \<noteq> ''''" "ParseInt64 hold = Some n" "0 < int64 (n * Second)"
  shows "\<exists>c. Load (\<lambda>_. None) (sample_env hold) = Inr c \<and> Config_HoldTTL c = int64 (n * Second) \<and> HandoffBuffer c = 256 \<and> Argon2Memory c = 19456"
  unfolding Load_def result_then_Inr durationVar_def intVar_def boolVar_def stringVar_def Let_def
  using assms sample_lookup(2) [OF assms(1)]
  by (simp add: sample_lookup(1,3) validate_def MinAuthSecretLength_def validLogLevels_def uint32_def uint8_def) auto

theorem accepted_config_is_sound_witness:
  "\<exists>c. Load (\<lambda>_. None) (sample_env ''120'') = Inr c \<and> Config_HoldTTL c = 2 * Minute \<and> 0 < Config_HoldTTL c \<and> 1 \<le> HandoffBuffer c"
proof -
  have "int64 (120 * Second) = 2 * Minute" by (simp add: int64_id)
  then obtain c where c: "Load (\<lambda>_. None) (sample_env ''120'') = Inr c" "Config_HoldTTL c = 2 * Minute"
    using sample_config [of "''120''" 120] by (auto simp: ParseInt64_def is_digit_def)
  have "duration_parser (\<lambda>_. None)" by (simp add: duration_parser_def)
  from accepted_config_is_sound [OF c(1) this] c show ?thesis by blast
qed

section \<open>Typing errors\<close>

definition duration_names :: "string list" where
  "duration_names = [''HOLD_TTL'', ''SWEEP_INTERVAL'', ''SHUTDOWN_TIMEOUT'', ''IDEMPOTENCY_TTL'', ''TOKEN_TTL'',
     ''VERIFICATION_TTL'', ''RATE_LIMIT_TTL'', ''RATE_LIMIT_AUTH_EVERY'', ''RATE_LIMIT_EVERY'', ''READ_HEADER_TIMEOUT'']"

definition number_names :: "string list" where
  "number_names = [''RATE_LIMIT_AUTH_BURST'', ''RATE_LIMIT_BURST'', ''HANDOFF_WORKERS'', ''HANDOFF_BUFFER'',
     ''ARGON2_ITERATIONS'', ''ARGON2_PARALLELISM'', ''REQUEST_BODY_LIMIT'', ''ARGON2_MEMORY_KIB'']"

definition mistyped :: "(string \<Rightarrow> duration option) \<Rightarrow> environment \<Rightarrow> string \<Rightarrow> bool" where
  "mistyped ParseDuration getenv name \<longleftrightarrow>
     (let value = env_lookup getenv name in
      value \<noteq> '''' \<and> ParseInt64 value = None \<and> (name \<in> set duration_names \<longrightarrow> ParseDuration value = None))"

lemma mistyped_number: "mistyped P getenv name \<Longrightarrow> name \<notin> set duration_names \<Longrightarrow> intVar getenv name d \<noteq> Inr v"
  by (auto simp: mistyped_def intVar_def Let_def)

lemma mistyped_duration: "mistyped P getenv name \<Longrightarrow> name \<in> set duration_names \<Longrightarrow> durationVar P getenv name d \<noteq> Inr v"
  by (auto simp: mistyped_def durationVar_def Let_def)

definition invalid_only :: "'a result \<Rightarrow> bool" where
  "invalid_only r \<longleftrightarrow> (\<forall>err. r = Inl err \<longrightarrow> errors_Is err ErrInvalidConfig)"

lemma readings_invalid:
  "invalid_only (intVar getenv name n)" "invalid_only (durationVar P getenv name d)" "invalid_only (boolVar getenv name b)"
  by (auto simp: invalid_only_def intVar_def durationVar_def boolVar_def Let_def split: if_splits option.splits)

lemma validate_invalid: "invalid_only (case validate c of Some err \<Rightarrow> Inl err | None \<Rightarrow> Inr c)"
  by (auto simp: invalid_only_def validate_def split: if_splits)

lemma invalid_only_then: "invalid_only r \<Longrightarrow> (\<And>x. invalid_only (f x)) \<Longrightarrow> invalid_only (result_then r f)"
  by (cases r) (auto simp: invalid_only_def)

lemma Load_invalid: "invalid_only (Load P getenv)"
  unfolding Load_def Let_def by (intro invalid_only_then readings_invalid validate_invalid)

text \<open>A typing error stops the start. A number or a duration that is set but cannot be read is never replaced by its
  default: the configuration is refused; and whatever is wrong with it, the error says that the
  configuration is invalid.\<close>

theorem mistyped_setting_stops_the_start:
  assumes "name \<in> set (duration_names @ number_names)" and "mistyped ParseDuration getenv name"
  shows "\<exists>err. Load ParseDuration getenv = Inl err \<and> errors_Is err ErrInvalidConfig"
proof (cases "Load ParseDuration getenv")
  case (Inl err)
  then show ?thesis using Load_invalid [of ParseDuration getenv] by (simp add: invalid_only_def)
next
  case (Inr c)
  note ok = Load_ok [OF this]
  show ?thesis using assms ok(2-19) mistyped_number [OF assms(2)] mistyped_duration [OF assms(2)]
    by (auto simp: duration_names_def number_names_def)
qed

theorem mistyped_setting_stops_the_start_witness:
  "\<exists>err. Load (\<lambda>_. None) (sample_env ''5minutes'') = Inl err \<and> errors_Is err ErrInvalidConfig"
proof -
  have "mistyped (\<lambda>_. None) (sample_env ''5minutes'') ''HOLD_TTL''"
    unfolding mistyped_def by (simp add: sample_lookup(2) ParseInt64_def is_digit_def)
  then show ?thesis by (intro mistyped_setting_stops_the_start [of "''HOLD_TTL''"]) (simp_all add: duration_names_def)
qed

section \<open>What the log gives away\<close>



section \<open>Settings that wrap\<close>

text \<open>Two settings are taken modulo a power of two after they are read and before they are checked, so a value that is
  far too large is accepted as a small one: a hold time of 18446744074 seconds becomes 290 milliseconds,
  and a memory cost of 2 to the 32 plus 8 KiB becomes the 8 KiB that are just allowed.\<close>

theorem large_settings_wrap:
  "\<exists>c. Load (\<lambda>_. None) (sample_env ''18446744074'') = Inr c \<and> Config_HoldTTL c = 290448384 \<and>
     intVar (\<lambda>_. ''4294967304'') ''ARGON2_MEMORY_KIB'' 19456 = Inr 4294967304 \<and> uint32 (max 0 4294967304) = 8 \<and>
     validate (c\<lparr>Argon2Memory := 8\<rparr>) = None"
proof -
  have "int64 (18446744074 * Second) = 290448384" by (simp add: int64_def)
  then obtain c where c: "Load (\<lambda>_. None) (sample_env ''18446744074'') = Inr c" "Config_HoldTTL c = 290448384"
    using sample_config [of "''18446744074''" 18446744074] by (auto simp: ParseInt64_def is_digit_def)
  have "validate (c\<lparr>Argon2Memory := 8\<rparr>) = None" using validate_None [OF Load_ok(1) [OF c(1)]]
    by (auto simp: validate_def not_le not_less MinAuthSecretLength_def)
  moreover have "env_lookup (\<lambda>_. ''4294967304'') ''ARGON2_MEMORY_KIB'' = ''4294967304''"
    unfolding env_lookup_def by (rule TrimSpace_printable) simp
  then have "intVar (\<lambda>_. ''4294967304'') ''ARGON2_MEMORY_KIB'' 19456 = Inr 4294967304"
    by (simp add: intVar_def ParseInt64_def is_digit_def)
  ultimately show ?thesis using c by (auto simp: uint32_def)
qed

end
