(* ===== verification/Password.thy ===== *)
theory Password
  imports Accounts
begin

text \<open>
  Password hashes: \<open>internal/auth/password.go\<close>. The stored form (the PHC string format) is written out with the parts of
  \<open>fmt.Sscanf\<close>, \<open>strings.Split\<close> and \<open>base64.RawStdEncoding\<close> that read it. \<open>argon2.IDKey\<close> and bcrypt's comparison are
  parameters: any functions. The account service relies on a hasher through a locale, which the code's hasher
  interprets.
\<close>

section \<open>Base64, standard alphabet, no padding\<close>

text \<open>The standard alphabet has \<open>+\<close> and \<open>/\<close> where the URL alphabet has \<open>-\<close> and \<open>_\<close>.\<close>

definition to_std :: "char \<Rightarrow> char" where
  "to_std c = (if c = CHR ''-'' then CHR ''+'' else if c = CHR ''_'' then CHR ''/'' else c)"

definition of_std :: "char \<Rightarrow> char" where
  "of_std c = (if c = CHR ''+'' then CHR ''-'' else if c = CHR ''/'' then CHR ''_'' else c)"

definition std_encode :: "string \<Rightarrow> string" where
  "std_encode value = map to_std (encode value)"

definition std_decode :: "string \<Rightarrow> string option" where
  "std_decode value =
     (if CHR ''-'' \<in> set value \<or> CHR ''_'' \<in> set value then None else decode (map of_std value))"

section \<open>Scanning\<close>

text \<open>
  \<open>fmt.Sscanf\<close>, for literal text and \<open>%d\<close>: a number may follow white space, though not a new line, and what follows the
  last verb is not looked at. An unsigned number takes no sign and must fit its width.
\<close>

definition scan_runes :: "string list" where
  "scan_runes = filter (\<lambda>r. r \<noteq> [CHR 0x0A]) space_runes"

function scan_skip :: "string \<Rightarrow> string" where
  "scan_skip s =
     (case find (\<lambda>r. prefix r s) scan_runes of
        None \<Rightarrow> s
      | Some r \<Rightarrow> scan_skip (drop (length r) s))"
  by pat_completeness auto
termination
proof (relation "measure length", goal_cases)
  case (2 s r)
  then have "r \<in> set scan_runes" and "prefix r s"
    by (metis find_Some_iff nth_mem)+
  then have "r \<noteq> []" and "prefix r s" using space_runes_not_Nil by (auto simp: scan_runes_def)
  then show ?case by (auto simp: prefix_def)
qed simp

declare scan_skip.simps [simp del]

definition scan_text :: "string \<Rightarrow> string \<Rightarrow> string option" where
  "scan_text lit s = (if prefix lit s then Some (drop (length lit) s) else None)"

definition scan_digits :: "string \<Rightarrow> (nat \<times> string) option" where
  "scan_digits s =
     (case takeWhile is_digit s of
        [] \<Rightarrow> None
      | ds \<Rightarrow> map_option (\<lambda>n. (n, dropWhile is_digit s)) (digits_value 0 ds))"

definition scan_uint :: "nat \<Rightarrow> string \<Rightarrow> (int \<times> string) option" where
  "scan_uint bits s =
     (case scan_digits (scan_skip s) of
        None \<Rightarrow> None
      | Some (n, rest) \<Rightarrow> if int n < 2 ^ bits then Some (int n, rest) else None)"

definition scan_int :: "string \<Rightarrow> (int \<times> string) option" where
  "scan_int s =
     (let (neg, ds) = (case scan_skip s of
            [] \<Rightarrow> (False, [])
          | c # cs \<Rightarrow> if c = CHR ''-'' then (True, cs) else if c = CHR ''+'' then (False, cs) else (False, c # cs))
      in case scan_digits ds of
           None \<Rightarrow> None
         | Some (n, rest) \<Rightarrow>
             let v = (if neg then - int n else int n)
             in if - (2 ^ 63) \<le> v \<and> v < 2 ^ 63 then Some (v, rest) else None)"

section \<open>The hasher\<close>

record Argon2Params =
  Memory :: int
  Iterations :: int
  Parallelism :: int
  SaltLength :: int
  KeyLength :: int

definition DefaultArgon2Params :: Argon2Params where
  "DefaultArgon2Params = \<lparr>Memory = 19456, Iterations = 2, Parallelism = 1, SaltLength = 16, KeyLength = 32\<rparr>"

definition NewPasswordHasher :: "Argon2Params \<Rightarrow> Argon2Params" where
  "NewPasswordHasher params =
     (let defaults = DefaultArgon2Params in
      \<lparr>Memory = (if Memory params < 8 then Memory defaults else Memory params),
       Iterations = (if Iterations params < 1 then Iterations defaults else Iterations params),
       Parallelism = (if Parallelism params < 1 then Parallelism defaults else Parallelism params),
       SaltLength = (if SaltLength params < 8 then SaltLength defaults else SaltLength params),
       KeyLength = (if KeyLength params < 16 then KeyLength defaults else KeyLength params)\<rparr>)"

definition argon2idPrefix :: string where "argon2idPrefix = ''$argon2id$''"

text \<open>\<open>argon2.Version\<close>.\<close>

definition argon2_Version :: int where "argon2_Version = 19"

definition encodeArgon2id :: "Argon2Params \<Rightarrow> string \<Rightarrow> string \<Rightarrow> string" where
  "encodeArgon2id params salt key =
     argon2idPrefix @ ''v='' @ Itoa argon2_Version @
     ''$m='' @ Itoa (Memory params) @ '',t='' @ Itoa (Iterations params) @ '',p='' @ Itoa (Parallelism params) @
     ''$'' @ std_encode salt @ ''$'' @ std_encode key"

definition scan_settings :: "string \<Rightarrow> (int \<times> int \<times> int) option" where
  "scan_settings s =
     (case scan_text ''m='' s of None \<Rightarrow> None | Some s \<Rightarrow>
     (case scan_uint 32 s of None \<Rightarrow> None | Some (memory, s) \<Rightarrow>
     (case scan_text '',t='' s of None \<Rightarrow> None | Some s \<Rightarrow>
     (case scan_uint 32 s of None \<Rightarrow> None | Some (iterations, s) \<Rightarrow>
     (case scan_text '',p='' s of None \<Rightarrow> None | Some s \<Rightarrow>
     (case scan_uint 8 s of None \<Rightarrow> None | Some (parallelism, s) \<Rightarrow>
        Some (memory, iterations, parallelism)))))))"

definition scan_version :: "string \<Rightarrow> int option" where
  "scan_version s = (case scan_text ''v='' s of None \<Rightarrow> None | Some s \<Rightarrow> map_option fst (scan_int s))"

definition decodeArgon2id :: "string \<Rightarrow> (Argon2Params \<times> string \<times> string) result" where
  "decodeArgon2id hash =
     (let parts = Split (CHR ''$'') hash in
      if length parts \<noteq> 6 \<or> parts ! 1 \<noteq> ''argon2id'' then Inl (Wrapf ''not an argon2id hash'' [Auth ErrMalformedHash])
      else case scan_version (parts ! 2) of
        None \<Rightarrow> Inl (Wrapf ''unreadable version'' [Auth ErrMalformedHash])
      | Some version \<Rightarrow>
          if version \<noteq> argon2_Version then Inl (Wrapf ''version is not supported'' [Auth ErrMalformedHash])
          else case scan_settings (parts ! 3) of
            None \<Rightarrow> Inl (Wrapf ''unreadable settings'' [Auth ErrMalformedHash])
          | Some (memory, iterations, parallelism) \<Rightarrow>
              (case std_decode (parts ! 4) of
                 None \<Rightarrow> Inl (Wrapf ''unreadable salt'' [Auth ErrMalformedHash])
               | Some salt \<Rightarrow>
                   (case std_decode (parts ! 5) of
                      None \<Rightarrow> Inl (Wrapf ''unreadable digest'' [Auth ErrMalformedHash])
                    | Some key \<Rightarrow>
                        Inr (\<lparr>Memory = memory, Iterations = iterations, Parallelism = parallelism,
                              SaltLength = int (length salt), KeyLength = int (length key)\<rparr>, salt, key))))"

text \<open>\<open>IDKey password salt iterations memory parallelism keyLength\<close>.\<close>

type_synonym id_key = "string \<Rightarrow> string \<Rightarrow> int \<Rightarrow> int \<Rightarrow> int \<Rightarrow> int \<Rightarrow> string"

definition Hasher_Hash :: "id_key \<Rightarrow> Argon2Params \<Rightarrow> string result \<Rightarrow> string \<Rightarrow> string result" where
  "Hasher_Hash IDKey h rand_Read password =
     (case rand_Read of
        Inl err \<Rightarrow> Inl (Wrapf ''generating a salt'' [err])
      | Inr salt \<Rightarrow>
          let key = IDKey password salt (Iterations h) (Memory h) (Parallelism h) (KeyLength h)
          in Inr (encodeArgon2id h salt key))"

definition Hasher_Compare :: "id_key \<Rightarrow> (string \<Rightarrow> string \<Rightarrow> unit result) \<Rightarrow> string \<Rightarrow> string \<Rightarrow> unit result" where
  "Hasher_Compare IDKey bcrypt_Compare hash password =
     (if \<not> prefix argon2idPrefix hash
        then (case bcrypt_Compare hash password of
                Inl err \<Rightarrow> Inl (Wrapf '': '' [Auth ErrPasswordMismatch, err])
              | Inr _ \<Rightarrow> Inr ())
      else case decodeArgon2id hash of
        Inl err \<Rightarrow> Inl err
      | Inr (params, salt, want) \<Rightarrow>
          let got = IDKey password salt (Iterations params) (Memory params) (Parallelism params) (int (length want))
          in if got \<noteq> want then Inl (Auth ErrPasswordMismatch) else Inr ())"

definition Hasher_NeedsRehash :: "Argon2Params \<Rightarrow> string \<Rightarrow> bool" where
  "Hasher_NeedsRehash h hash =
     (if \<not> prefix argon2idPrefix hash then True
      else case decodeArgon2id hash of
        Inl _ \<Rightarrow> True
      | Inr (params, salt, want) \<Rightarrow>
          Memory params < Memory h \<or> Iterations params < Iterations h \<or> Parallelism params < Parallelism h)"

section \<open>The stored form reads back\<close>

lemma of_to_std: "c \<noteq> CHR ''+'' \<Longrightarrow> c \<noteq> CHR ''/'' \<Longrightarrow> of_std (to_std c) = c"
  by (simp add: of_std_def to_std_def)

lemma encode_chars: "c \<in> set (encode s) \<Longrightarrow> c \<in> set b64_alphabet"
proof -
  have "\<forall>v \<in> set (b64_groups (map of_char s)). v < 64"
    by (rule b64_groups_small) (auto simp: nat_of_char_less_256)
  then show "c \<in> set (encode s) \<Longrightarrow> c \<in> set b64_alphabet" using b64_char_in by (auto simp: encode_def)
qed

lemma plus_slash_not_url: "CHR ''+'' \<notin> set b64_alphabet" "CHR ''/'' \<notin> set b64_alphabet"
  by (simp_all add: b64_alphabet_def)

lemma std_decode_encode: "std_decode (std_encode s) = Some s"
proof -
  have id: "map (of_std \<circ> to_std) (encode s) = encode s"
    by (rule map_idI) (metis comp_apply encode_chars of_to_std plus_slash_not_url)
  have "CHR ''-'' \<notin> set (std_encode s)" "CHR ''_'' \<notin> set (std_encode s)"
    by (auto simp: std_encode_def to_std_def split: if_splits)
  then show ?thesis using decode_encode [of s] id by (simp add: std_decode_def std_encode_def)
qed

lemma dollar_not_encoded: "CHR ''$'' \<notin> set (std_encode s)"
  using encode_chars [of _ s] by (auto simp: std_encode_def to_std_def b64_alphabet_def split: if_splits)

lemma space_rune_first: "r \<in> set space_runes \<Longrightarrow> byte (hd r) < 33 \<or> 128 \<le> byte (hd r)"
  by (auto simp: space_runes_def)

lemma scan_skip_id: "33 \<le> byte c \<Longrightarrow> byte c < 128 \<Longrightarrow> scan_skip (c # s) = c # s"
proof -
  assume "33 \<le> byte c" "byte c < 128"
  then have "\<not> prefix r (c # s)" if "r \<in> set scan_runes" for r
    using that space_rune_first [of r] space_runes_not_Nil [of r] by (cases r) (auto simp: scan_runes_def)
  then have "find (\<lambda>r. prefix r (c # s)) scan_runes = None" by (simp add: find_None_iff)
  then show ?thesis by (subst scan_skip.simps) simp
qed

lemma scan_skip_digits: "scan_skip (nat_digits n @ s) = nat_digits n @ s"
proof -
  obtain c cs where c: "nat_digits n = c # cs" by (cases "nat_digits n") auto
  then have "is_digit c" using nat_digits_all_digits [of c n] by simp
  then show ?thesis by (simp add: c scan_skip_id is_digit_def)
qed

definition ends_number :: "string \<Rightarrow> bool" where
  "ends_number s \<longleftrightarrow> (case s of [] \<Rightarrow> True | c # cs \<Rightarrow> \<not> is_digit c)"

lemma scan_digits_nat: "ends_number s \<Longrightarrow> scan_digits (nat_digits n @ s) = Some (n, s)"
proof -
  assume "ends_number s"
  then have "takeWhile is_digit s = []" "dropWhile is_digit s = s"
    by (auto simp: ends_number_def split: list.splits)
  then have tw: "takeWhile is_digit (nat_digits n @ s) = nat_digits n" "dropWhile is_digit (nat_digits n @ s) = s"
    using nat_digits_all_digits by (simp_all add: takeWhile_append dropWhile_append)
  obtain c cs where "nat_digits n = c # cs" by (cases "nat_digits n") auto
  with tw digits_value_nat_digits [of n] show ?thesis by (simp add: scan_digits_def)
qed

lemma scan_uint_Itoa:
  "0 \<le> i \<Longrightarrow> i < 2 ^ bits \<Longrightarrow> ends_number s \<Longrightarrow> scan_uint bits (Itoa i @ s) = Some (i, s)"
  by (simp add: scan_uint_def Itoa_def scan_skip_digits scan_digits_nat)

lemma scan_int_19: "scan_int ''19'' = Some (19, [])"
  using scan_skip_id [of "CHR ''1''" "''9''"] by (simp add: scan_int_def scan_digits_def is_digit_def)

lemma scan_text_append [simp]: "scan_text lit (lit @ s) = Some s"
  by (simp add: scan_text_def)

definition argon2_widths :: "Argon2Params \<Rightarrow> bool" where
  "argon2_widths h \<longleftrightarrow> 0 \<le> Memory h \<and> Memory h < 2 ^ 32 \<and> 0 \<le> Iterations h \<and> Iterations h < 2 ^ 32 \<and>
     0 \<le> Parallelism h \<and> Parallelism h < 2 ^ 8"

lemma scan_settings_Itoa:
  assumes "argon2_widths h"
  shows "scan_settings (''m='' @ Itoa (Memory h) @ '',t='' @ Itoa (Iterations h) @ '',p='' @ Itoa (Parallelism h)) =
    Some (Memory h, Iterations h, Parallelism h)"
proof -
  have m: "scan_uint 32 (Itoa (Memory h) @ '',t='' @ x) = Some (Memory h, '',t='' @ x)" for x
    using assms by (intro scan_uint_Itoa) (auto simp: argon2_widths_def ends_number_def is_digit_def)
  have t: "scan_uint 32 (Itoa (Iterations h) @ '',p='' @ x) = Some (Iterations h, '',p='' @ x)" for x
    using assms by (intro scan_uint_Itoa) (auto simp: argon2_widths_def ends_number_def is_digit_def)
  have p: "scan_uint 8 (Itoa (Parallelism h)) = Some (Parallelism h, [])"
    using assms scan_uint_Itoa [of "Parallelism h" 8 "[]"] by (simp add: argon2_widths_def ends_number_def)
  show ?thesis by (simp only: scan_settings_def scan_text_append option.case m t p prod.case)
qed

lemma dollar_not_digits: "CHR ''$'' \<notin> set (Itoa i)"
  using nat_digits_all_digits [of "CHR ''$''"] by (auto simp: Itoa_def is_digit_def)

lemma stored_hash_parts:
  "Split (CHR ''$'') (encodeArgon2id h salt key) =
     [[], ''argon2id'', ''v='' @ Itoa argon2_Version,
      ''m='' @ Itoa (Memory h) @ '',t='' @ Itoa (Iterations h) @ '',p='' @ Itoa (Parallelism h),
      std_encode salt, std_encode key]"
proof -
  have step: "Split (CHR ''$'') (a @ ''$'' @ b) = a # Split (CHR ''$'') b" if "CHR ''$'' \<notin> set a" for a b
    using Split_append [OF that, of b] by simp
  let ?m = "''m='' @ Itoa (Memory h) @ '',t='' @ Itoa (Iterations h) @ '',p='' @ Itoa (Parallelism h)"
  let ?v = "''v='' @ Itoa argon2_Version"
  have form: "encodeArgon2id h salt key =
      [] @ ''$'' @ ''argon2id'' @ ''$'' @ ?v @ ''$'' @ ?m @ ''$'' @ std_encode salt @ ''$'' @ std_encode key"
    by (simp add: encodeArgon2id_def argon2idPrefix_def)
  have plain: "CHR ''$'' \<notin> set ?m" "CHR ''$'' \<notin> set ?v" "CHR ''$'' \<notin> set []" "CHR ''$'' \<notin> set ''argon2id''"
    using dollar_not_digits by simp_all
  show ?thesis
    unfolding form step [OF plain(1)] step [OF plain(2)] step [OF plain(3)] step [OF plain(4)]
      step [OF dollar_not_encoded] Split_none [OF dollar_not_encoded] by (rule refl)
qed

lemma stored_hash_prefix: "prefix argon2idPrefix (encodeArgon2id h salt key)"
  by (simp add: encodeArgon2id_def)

lemma stored_hash_reads:
  assumes "argon2_widths h"
  shows "decodeArgon2id (encodeArgon2id h salt key) =
    Inr (h\<lparr>SaltLength := int (length salt), KeyLength := int (length key)\<rparr>, salt, key)"
proof -
  have "scan_version (''v='' @ Itoa argon2_Version) = Some argon2_Version"
    using scan_int_19 by (simp add: scan_version_def argon2_Version_def Itoa_def nat_digits.simps scan_text_def)
  then show ?thesis
    using scan_settings_Itoa [OF assms]
    by (simp add: decodeArgon2id_def stored_hash_parts std_decode_encode Let_def del: append.simps append_assoc)
qed

text \<open>A stored hash reads back: the settings it was made with, the salt and the digest, whatever bytes they hold.\<close>

theorem stored_hash_roundtrip:
  assumes "argon2_widths h"
  shows "decodeArgon2id (encodeArgon2id h salt key) =
    Inr (h\<lparr>SaltLength := int (length salt), KeyLength := int (length key)\<rparr>, salt, key)"
  using assms by (rule stored_hash_reads)

theorem stored_hash_roundtrip_witness:
  "decodeArgon2id (encodeArgon2id (NewPasswordHasher DefaultArgon2Params) ''$$,m=1'' ''abc'') =
     Inr (DefaultArgon2Params\<lparr>SaltLength := 6, KeyLength := 3\<rparr>, ''$$,m=1'', ''abc'')"
  using stored_hash_roundtrip [of "NewPasswordHasher DefaultArgon2Params" "''$$,m=1''" "''abc''"]
  by (simp add: argon2_widths_def NewPasswordHasher_def DefaultArgon2Params_def Let_def)

section \<open>What the account service relies on\<close>

text \<open>
  A hasher, at settings \<open>c\<close> that are usable: what it makes, it accepts, and what it has just made needs no rehash.
\<close>

locale password_hasher =
  fixes usable :: "'c \<Rightarrow> bool"
    and hash_with :: "'c \<Rightarrow> string result \<Rightarrow> string \<Rightarrow> string result"
    and compare_with :: "'c \<Rightarrow> string \<Rightarrow> string \<Rightarrow> unit result"
    and weak_under :: "'c \<Rightarrow> string \<Rightarrow> bool"
  assumes own_accepted: "usable c \<Longrightarrow> hash_with c salt password = Inr stored \<Longrightarrow> compare_with c stored password = Inr ()"
    and own_strong: "usable c \<Longrightarrow> hash_with c salt password = Inr stored \<Longrightarrow> \<not> weak_under c stored"
begin

lemma login_replaces_weak_hash:
  assumes "usable c" and "users_inv (A_users a)" and "hash_with c salt password = Inr stored"
    and user: "GetUserByEmail (NormalizeEmail lower email) (A_users a) = Inr user"
    and "Login lower (compare_with c) (weak_under c) sign ttl (hash_with c salt password) rid now email password a = (a', Inr s)"
  shows "A_users a' = (if weak_under c (PasswordHash user)
       then AList.update (NormalizeEmail lower email) (user\<lparr>PasswordHash := stored\<rparr>) (A_users a) else A_users a)"
    and "\<exists>user'. GetUserByEmail (NormalizeEmail lower email) (A_users a') = Inr user' \<and>
       compare_with c (PasswordHash user') password = Inr () \<and> \<not> weak_under c (PasswordHash user')"
proof -
  let ?e = "NormalizeEmail lower email"
  have at: "map_of (A_users a) ?e = Some user" using user by (simp add: GetUserByEmail_def split: option.splits)
  have ok: "compare_with c (PasswordHash user) password = Inr ()"
    using assms(5) user by (auto simp: Login_def Let_def split: sum.splits)
  have a': "a' = upgradeHash (weak_under c) (hash_with c salt password) user a"
    using assms(5) user ok by (auto simp: Login_def Let_def split: sum.splits)
  have "find_user (User_ID user) (A_users a) = Some (?e, user)" by (rule find_user_unique [OF assms(2) at refl])
  then show eq: "A_users a' = (if weak_under c (PasswordHash user)
       then AList.update ?e (user\<lparr>PasswordHash := stored\<rparr>) (A_users a) else A_users a)"
    unfolding a' by (simp add: upgradeHash_def assms(3) UpdatePasswordHash_def)
  have "compare_with c stored password = Inr ()" "\<not> weak_under c stored"
    using own_accepted own_strong assms(1,3) by blast+
  then show "\<exists>user'. GetUserByEmail ?e (A_users a') = Inr user' \<and>
       compare_with c (PasswordHash user') password = Inr () \<and> \<not> weak_under c (PasswordHash user')"
    using ok user at by (simp add: eq GetUserByEmail_def del: map_of_eq_Some_iff)
qed

end

section \<open>The hasher keeps that promise\<close>

text \<open>\<open>IDKey\<close> gives a digest of the length asked for.\<close>

definition usable_hasher :: "id_key \<times> Argon2Params \<Rightarrow> bool" where
  "usable_hasher c \<longleftrightarrow> argon2_widths (snd c) \<and> 0 \<le> KeyLength (snd c) \<and>
     (\<forall>password salt t m p n. 0 \<le> n \<longrightarrow> length (fst c password salt t m p n) = nat n)"

lemma own_hash_read:
  assumes "usable_hasher (IDKey, h)" and "Hasher_Hash IDKey h (Inr salt) password = Inr stored"
  shows "prefix argon2idPrefix stored" and "decodeArgon2id stored =
    Inr (h\<lparr>SaltLength := int (length salt)\<rparr>, salt,
      IDKey password salt (Iterations h) (Memory h) (Parallelism h) (KeyLength h))"
proof -
  let ?k = "IDKey password salt (Iterations h) (Memory h) (Parallelism h) (KeyLength h)"
  have s: "stored = encodeArgon2id h salt ?k" using assms(2) by (simp add: Hasher_Hash_def Let_def)
  have "argon2_widths h" "int (length ?k) = KeyLength h" using assms(1) by (simp_all add: usable_hasher_def)
  moreover have "h\<lparr>SaltLength := x, KeyLength := KeyLength h\<rparr> = h\<lparr>SaltLength := x\<rparr>" for x by simp
  moreover have "decodeArgon2id (encodeArgon2id h salt ?k) =
    Inr (h\<lparr>SaltLength := int (length salt), KeyLength := int (length ?k)\<rparr>, salt, ?k)"
    using stored_hash_reads [OF \<open>argon2_widths h\<close>] .
  ultimately show "decodeArgon2id stored = Inr (h\<lparr>SaltLength := int (length salt)\<rparr>, salt, ?k)" by (simp add: s)
  show "prefix argon2idPrefix stored" unfolding s by (rule stored_hash_prefix)
qed

interpretation argon2: password_hasher usable_hasher "\<lambda>c. Hasher_Hash (fst c) (snd c)"
  "\<lambda>c. Hasher_Compare (fst c) bcrypt_Compare" "\<lambda>c. Hasher_NeedsRehash (snd c)"
proof
  fix c salt password stored
  assume c: "usable_hasher c" and h: "Hasher_Hash (fst c) (snd c) salt password = Inr stored"
  then obtain bytes where b: "salt = Inr bytes" by (cases salt) (auto simp: Hasher_Hash_def)
  note read = own_hash_read [of "fst c" "snd c" bytes password stored]
  have len: "int (length (fst c password bytes (Iterations (snd c)) (Memory (snd c)) (Parallelism (snd c)) (KeyLength (snd c)))) =
      KeyLength (snd c)"
    using c by (simp add: usable_hasher_def)
  show "Hasher_Compare (fst c) bcrypt_Compare stored password = Inr ()"
    using read c h b len by (simp add: Hasher_Compare_def Let_def)
  show "\<not> Hasher_NeedsRehash (snd c) stored" using read c h b by (simp add: Hasher_NeedsRehash_def)
qed

text \<open>C34. A password opens its own hash and another opens it only where Argon2 gives both the same digest; a fresh hash
  needs no rehash, and needs one exactly when the settings in force have grown past those it was made with.\<close>

theorem hash_opens_to_its_password:
  assumes "usable_hasher (IDKey, h)" and "Hasher_Hash IDKey h (Inr salt) password = Inr stored"
  shows "Hasher_Compare IDKey bcrypt_Compare stored attempt =
      (if IDKey attempt salt (Iterations h) (Memory h) (Parallelism h) (KeyLength h) =
          IDKey password salt (Iterations h) (Memory h) (Parallelism h) (KeyLength h)
       then Inr () else Inl (Auth ErrPasswordMismatch)) \<and>
    (Hasher_NeedsRehash now_in_force stored \<longleftrightarrow>
       Memory h < Memory now_in_force \<or> Iterations h < Iterations now_in_force \<or>
       Parallelism h < Parallelism now_in_force)"
proof -
  have "int (length (IDKey password salt (Iterations h) (Memory h) (Parallelism h) (KeyLength h))) = KeyLength h"
    using assms(1) by (simp add: usable_hasher_def)
  then show ?thesis
    using own_hash_read [OF assms] by (simp add: Hasher_Compare_def Hasher_NeedsRehash_def Let_def)
qed

definition toy_key :: id_key where
  "toy_key password salt t m p n = take (nat n) (password @ replicate (nat n) (CHR ''.''))"

lemma toy_usable: "usable_hasher (toy_key, NewPasswordHasher \<lparr>Memory = 0, Iterations = 0, Parallelism = 0, SaltLength = 0, KeyLength = 0\<rparr>)"
  by (simp add: usable_hasher_def toy_key_def NewPasswordHasher_def DefaultArgon2Params_def Let_def argon2_widths_def)
    (simp add: min_def)

theorem hash_opens_to_its_password_witness:
  "\<exists>stored. Hasher_Hash toy_key DefaultArgon2Params (Inr ''0123456789abcdef'') ''secret77'' = Inr stored \<and>
     Hasher_Compare toy_key (\<lambda>_ _. Inr ()) stored ''secret77'' = Inr () \<and>
     Hasher_Compare toy_key (\<lambda>_ _. Inr ()) stored ''guess'' = Inl (Auth ErrPasswordMismatch) \<and>
     Hasher_NeedsRehash (DefaultArgon2Params\<lparr>Iterations := 3\<rparr>) stored"
proof -
  obtain stored where s: "Hasher_Hash toy_key DefaultArgon2Params (Inr ''0123456789abcdef'') ''secret77'' = Inr stored"
    by (simp add: Hasher_Hash_def Let_def)
  have u: "usable_hasher (toy_key, DefaultArgon2Params)"
    using toy_usable by (simp add: NewPasswordHasher_def DefaultArgon2Params_def Let_def)
  have "toy_key ''guess'' salt t m p 32 \<noteq> toy_key ''secret77'' salt t m p 32" for salt t m p
    by (simp add: toy_key_def)
  with s show ?thesis
    using hash_opens_to_its_password [OF u s, where bcrypt_Compare = "\<lambda>_ _. Inr ()"
        and now_in_force = "DefaultArgon2Params\<lparr>Iterations := 3\<rparr>"]
    by (auto simp: DefaultArgon2Params_def)
qed

text \<open>Signing in raises a stored hash to the settings in force: after a login that succeeds the account's hash still
  opens to the password and is no longer weak; it was replaced only where it was weak (another scheme, unreadable, or
  cheaper settings), and no other account is touched.\<close>

theorem login_raises_weak_hash:
  assumes "usable_hasher (IDKey, h)" and "users_inv (A_users a)" and "Hasher_Hash IDKey h salt password = Inr stored"
    and "GetUserByEmail (NormalizeEmail lower email) (A_users a) = Inr user"
    and "Login lower (Hasher_Compare IDKey bcrypt_Compare) (Hasher_NeedsRehash h) sign ttl (Hasher_Hash IDKey h salt password)
      rid now email password a = (a', Inr s)"
  shows "A_users a' = (if Hasher_NeedsRehash h (PasswordHash user)
       then AList.update (NormalizeEmail lower email) (user\<lparr>PasswordHash := stored\<rparr>) (A_users a) else A_users a) \<and>
    (\<exists>user'. GetUserByEmail (NormalizeEmail lower email) (A_users a') = Inr user' \<and>
       Hasher_Compare IDKey bcrypt_Compare (PasswordHash user') password = Inr () \<and>
       \<not> Hasher_NeedsRehash h (PasswordHash user'))"
proof -
  have h: "Hasher_Hash (fst (IDKey, h)) (snd (IDKey, h)) salt password = Inr stored" using assms(3) by simp
  have l: "Login lower (Hasher_Compare (fst (IDKey, h)) bcrypt_Compare) (Hasher_NeedsRehash (snd (IDKey, h))) sign ttl
      (Hasher_Hash (fst (IDKey, h)) (snd (IDKey, h)) salt password) rid now email password a = (a', Inr s)"
    using assms(5) by simp
  show ?thesis
    using argon2.login_replaces_weak_hash [OF assms(1,2) h assms(4) l] by simp
qed

text \<open>A bcrypt hash of another age, replaced when its owner signs in.\<close>

definition old_user :: User where
  "old_user = (NewUser ''u1'' ''ann@b.c'' ''$2a$10$old'' 5)"

theorem login_raises_weak_hash_witness:
  "\<exists>a' s u. Login (\<lambda>s. s) (Hasher_Compare toy_key (\<lambda>_ _. Inr ())) (Hasher_NeedsRehash DefaultArgon2Params) (\<lambda>_. ''sig'') 60
      (Hasher_Hash toy_key DefaultArgon2Params (Inr ''salt'') ''secret77'') ''t1'' 9 ''ann@b.c'' ''secret77''
      (empty_accounts\<lparr>A_users := [(''ann@b.c'', old_user)]\<rparr>) = (a', Inr s) \<and>
    GetUserByEmail ''ann@b.c'' (A_users a') = Inr u \<and> PasswordHash u \<noteq> ''$2a$10$old'' \<and>
    \<not> Hasher_NeedsRehash DefaultArgon2Params (PasswordHash u)"
proof -
  let ?a = "empty_accounts\<lparr>A_users := [(''ann@b.c'', old_user)]\<rparr>"
  have u: "usable_hasher (toy_key, DefaultArgon2Params)"
    using toy_usable by (simp add: NewPasswordHasher_def DefaultArgon2Params_def Let_def)
  have inv: "users_inv (A_users ?a)" by (auto simp: users_inv_def old_user_def NewUser_def split: if_splits)
  obtain stored where h: "Hasher_Hash toy_key DefaultArgon2Params (Inr ''salt'') ''secret77'' = Inr stored"
    by (simp add: Hasher_Hash_def Let_def)
  have g: "GetUserByEmail (NormalizeEmail (\<lambda>s. s) ''ann@b.c'') (A_users ?a) = Inr old_user"
    by (simp add: lower_ann GetUserByEmail_def)
  have old: "\<not> prefix argon2idPrefix ''$2a$10$old''" by (simp add: argon2idPrefix_def)
  have c: "Hasher_Compare toy_key (\<lambda>_ _. Inr ()) (PasswordHash old_user) ''secret77'' = Inr ()"
    using old by (simp add: Hasher_Compare_def old_user_def NewUser_def)
  have w: "Hasher_NeedsRehash DefaultArgon2Params (PasswordHash old_user)"
    using old by (simp add: Hasher_NeedsRehash_def old_user_def NewUser_def)
  obtain token where t: "Tokens_Issue (\<lambda>_. ''sig'') ''t1'' ''u1'' (time_Add 9 60) = Inr token"
    by (simp add: Tokens_Issue_def Let_def)
  obtain a' s where l: "Login (\<lambda>s. s) (Hasher_Compare toy_key (\<lambda>_ _. Inr ())) (Hasher_NeedsRehash DefaultArgon2Params) (\<lambda>_. ''sig'') 60
      (Hasher_Hash toy_key DefaultArgon2Params (Inr ''salt'') ''secret77'') ''t1'' 9 ''ann@b.c'' ''secret77'' ?a = (a', Inr s)"
    using g c t by (auto simp: Login_def Let_def old_user_def NewUser_def)
  have "PasswordHash u' \<noteq> ''$2a$10$old''" if "\<not> Hasher_NeedsRehash DefaultArgon2Params (PasswordHash u')" for u'
    using that w by (auto simp: old_user_def NewUser_def)
  then show ?thesis using login_raises_weak_hash [OF u inv h g l] l unfolding lower_ann by blast
qed

end
