(* ===== verification/Mail.thy ===== *)
theory Mail
  imports Deliveries Go_Strings
begin

text \<open>
  Sending a notice by email: \<open>internal/notify/header.go\<close> and \<open>smtp.go\<close>. Of the standard library the model
  has the Q encoding of package \<open>mime\<close>, the layout \<open>time.RFC1123Z\<close> and the check of lines of
  \<open>smtp.SendMail\<close>. The parser of addresses, \<open>net.SplitHostPort\<close> and the mail server are parameters, and so is
  the offset of the machine's time zone.
\<close>

abbreviation CR :: char where "CR \<equiv> CHR 0x0D"
abbreviation LF :: char where "LF \<equiv> CHR 0x0A"
abbreviation CRLF :: string where "CRLF \<equiv> [CR, LF]"

section \<open>mime.QEncoding\<close>

definition upperhex :: "nat \<Rightarrow> char" where
  "upperhex n = (if n < 10 then char_of (48 + n) else char_of (55 + n))"

text \<open>A byte that stands for itself in an encoded word; the blank becomes an underscore.\<close>

definition q_plain :: "char \<Rightarrow> bool" where
  "q_plain b \<longleftrightarrow> 32 \<le> byte b \<and> byte b \<le> 126 \<and> b \<noteq> CHR ''='' \<and> b \<noteq> CHR ''?'' \<and> b \<noteq> CHR ''_''"

definition q_byte :: "char \<Rightarrow> string" where
  "q_byte b =
     (if b = CHR '' '' then ''_''
      else if q_plain b then [b]
      else [CHR ''='', upperhex (byte b div 16), upperhex (byte b mod 16)])"

definition writeQString :: "string \<Rightarrow> string" where
  "writeQString s = concat (map q_byte s)"

definition openWord :: string where "openWord = ''=?utf-8?q?''"
definition closeWord :: string where "closeWord = ''?=''"

text \<open>An encoded word has at most 75 bytes, ten of them in front of its text and two behind.\<close>

definition maxContentLen :: nat where "maxContentLen = 63"

definition q_rune :: "char \<Rightarrow> string \<Rightarrow> nat" where
  "q_rune b rest = (if q_plain b then 1 else rune_size b rest)"

lemma q_rune_bounds: "1 \<le> q_rune b rest \<and> q_rune b rest \<le> Suc (length rest)"
  using rune_size_bounds [of b rest] by (simp add: q_rune_def)

function q_encode :: "nat \<Rightarrow> string \<Rightarrow> string" where
  "q_encode currentLen [] = []"
| "q_encode currentLen (b # rest) =
     (let runeLen = q_rune b rest;
          encLen = (if q_plain b then 1 else 3 * runeLen);
          word = writeQString (take runeLen (b # rest));
          later = drop (runeLen - 1) rest
      in if maxContentLen < currentLen + encLen
         then closeWord @ '' '' @ openWord @ word @ q_encode encLen later
         else word @ q_encode (currentLen + encLen) later)"
  by pat_completeness auto
termination by (relation "measure (length \<circ> snd)") auto

definition needsEncoding :: "string \<Rightarrow> bool" where
  "needsEncoding s \<longleftrightarrow> list_ex (\<lambda>b. (byte b < 32 \<or> 126 < byte b) \<and> b \<noteq> CHR 0x09) s"

definition QEncoding_Encode :: "string \<Rightarrow> string" where
  "QEncoding_Encode s = (if \<not> needsEncoding s then s else openWord @ q_encode 0 s @ closeWord)"

section \<open>encodeHeader\<close>

definition without_breaks :: "string \<Rightarrow> string" where
  "without_breaks = map (\<lambda>c. if c = CR \<or> c = LF then CHR '' '' else c)"

definition encodeHeader :: "string \<Rightarrow> string" where
  "encodeHeader v = (let cleaned = without_breaks v in QEncoding_Encode cleaned)"

section \<open>time.RFC1123Z\<close>

definition zero_padded :: "nat \<Rightarrow> int \<Rightarrow> string" where
  "zero_padded width i = (let digits = Itoa i in replicate (width - length digits) (CHR ''0'') @ digits)"

text \<open>Days since 1 January of year 1, a Monday; the year counts from 1, the day of the year from 0.\<close>

definition year_of_day :: "int \<Rightarrow> int \<times> int" where
  "year_of_day d =
     (let r = d mod 146097; n100 = min 3 (r div 36524); r2 = r - n100 * 36524;
          r3 = r2 mod 1461; n1 = min 3 (r3 div 365)
      in (400 * (d div 146097) + 100 * n100 + 4 * (r2 div 1461) + n1 + 1, r3 - n1 * 365))"

definition leap :: "int \<Rightarrow> bool" where
  "leap y \<longleftrightarrow> y mod 4 = 0 \<and> (y mod 100 \<noteq> 0 \<or> y mod 400 = 0)"

fun month_of_day :: "(string \<times> int) list \<Rightarrow> int \<Rightarrow> string \<times> int" where
  "month_of_day [] d = ('''', d + 1)"
| "month_of_day ((name, n) # months) d = (if d < n then (name, d + 1) else month_of_day months (d - n))"

definition month_lengths :: "int \<Rightarrow> (string \<times> int) list" where
  "month_lengths y =
     [(''Jan'', 31), (''Feb'', if leap y then 29 else 28), (''Mar'', 31), (''Apr'', 30), (''May'', 31), (''Jun'', 30),
      (''Jul'', 31), (''Aug'', 31), (''Sep'', 30), (''Oct'', 31), (''Nov'', 30), (''Dec'', 31)]"

definition weekday_name :: "int \<Rightarrow> string" where
  "weekday_name d = [''Mon'', ''Tue'', ''Wed'', ''Thu'', ''Fri'', ''Sat'', ''Sun''] ! nat (d mod 7)"

text \<open>\<open>zone\<close> is the offset from UTC in minutes.\<close>

definition Format_RFC1123Z :: "int \<Rightarrow> time \<Rightarrow> string" where
  "Format_RFC1123Z zone t =
     (let seconds = t div Second + 60 * zone; day = seconds div 86400; s = seconds mod 86400;
          (year, yday) = year_of_day day; (month, mday) = month_of_day (month_lengths year) yday
      in weekday_name day @ '', '' @ zero_padded 2 mday @ '' '' @ month @ '' '' @ zero_padded 4 year @ '' '' @
         zero_padded 2 (s div 3600) @ '':'' @ zero_padded 2 (s div 60 mod 60) @ '':'' @ zero_padded 2 (s mod 60) @ '' '' @
         (if zone < 0 then ''-'' else ''+'') @ zero_padded 2 (\<bar>zone\<bar> div 60) @ zero_padded 2 (\<bar>zone\<bar> mod 60))"

section \<open>The mailer\<close>

text \<open>\<open>smtp.PlainAuth\<close>: user name, password and the host they are meant for.\<close>

type_synonym PlainAuth = "string \<times> string \<times> string"

record Mailer_cfg =
  MC_Addr :: string
  MC_From :: string
  MC_Username :: string
  MC_Password :: string

record SmtpMailer =
  SM_addr :: string
  SM_from :: string
  SM_auth :: "PlainAuth option"

text \<open>\<open>None\<close> is the nil mailer, with which mail is turned off.\<close>

definition NewMailer ::
  "(string \<Rightarrow> unit result) \<Rightarrow> (string \<Rightarrow> (string \<times> string) result) \<Rightarrow> Mailer_cfg \<Rightarrow> SmtpMailer option result" where
  "NewMailer ParseAddress SplitHostPort cfg =
     (if MC_Addr cfg = '''' then Inr None
      else case ParseAddress (MC_From cfg) of
        Inl err \<Rightarrow> Inl (Wrapf ''the from address is not valid'' [err])
      | Inr _ \<Rightarrow>
          (case SplitHostPort (MC_Addr cfg) of
             Inl err \<Rightarrow> Inl (Wrapf ''the mail server address is not host:port'' [err])
           | Inr (host, _) \<Rightarrow>
               Inr (Some \<lparr>SM_addr = MC_Addr cfg, SM_from = MC_From cfg,
                 SM_auth = (if MC_Username cfg \<noteq> '''' then Some (MC_Username cfg, MC_Password cfg, host) else None)\<rparr>)))"

definition write_line :: "string \<Rightarrow> string" where
  "write_line text = text @ CRLF"

definition compose :: "int \<Rightarrow> time \<Rightarrow> SmtpMailer \<Rightarrow> string \<Rightarrow> Message \<Rightarrow> string" where
  "compose zone now m address notice =
     write_line (''From: '' @ SM_from m) @
     write_line (''To: '' @ address) @
     write_line (''Subject: '' @ encodeHeader (Subject notice)) @
     write_line (''Date: '' @ Format_RFC1123Z zone now) @
     write_line ''MIME-Version: 1.0'' @
     write_line ''Content-Type: text/plain; charset=utf-8'' @
     write_line '''' @
     write_line (Body notice)"

text \<open>
  \<open>smtp.SendMail\<close> refuses an envelope with a line break before it dials. What it hands to the server is listed,
  because it may arrive even where the answer is an error.
\<close>

record Post =
  Post_addr :: string
  Post_auth :: "PlainAuth option"
  Post_from :: string
  Post_to :: "string list"
  Post_message :: string

definition validateLine :: "string \<Rightarrow> unit result" where
  "validateLine line =
     (if LF \<in> set line \<or> CR \<in> set line then Inl (Opaque ''smtp: A line must not contain CR or LF'') else Inr ())"

fun validateLines :: "string list \<Rightarrow> unit result" where
  "validateLines [] = Inr ()"
| "validateLines (line # lines) =
     (case validateLine line of Inl err \<Rightarrow> Inl err | Inr _ \<Rightarrow> validateLines lines)"

definition SendMail :: "(Post \<Rightarrow> unit result) \<Rightarrow> Post \<Rightarrow> Post list \<times> unit result" where
  "SendMail server post =
     (case validateLines (Post_from post # Post_to post) of
        Inl err \<Rightarrow> ([], Inl err)
      | Inr _ \<Rightarrow> ([post], server post))"

text \<open>\<open>in_time\<close> says which of the two channels the select takes: the answer, or the end of the context.\<close>

definition SendEmail ::
  "(string \<Rightarrow> unit result) \<Rightarrow> (Post \<Rightarrow> unit result) \<Rightarrow> int \<Rightarrow> time \<Rightarrow> bool \<Rightarrow> SmtpMailer option \<Rightarrow> string \<Rightarrow> Message \<Rightarrow>
   Post list \<times> unit result" where
  "SendEmail ParseAddress server zone now in_time mailer address notice =
     (case mailer of
        None \<Rightarrow> ([], Inl ErrMailNotConfigured)
      | Some m \<Rightarrow>
          (case ParseAddress address of
             Inl err \<Rightarrow> ([], Inl (Wrapf ''not an address to send to'' [err]))
           | Inr _ \<Rightarrow>
               let message = compose zone now m address notice;
                   (posts, answer) = SendMail server
                     \<lparr>Post_addr = SM_addr m, Post_auth = SM_auth m, Post_from = SM_from m, Post_to = [address],
                      Post_message = message\<rparr>
               in if in_time
                  then (case answer of
                          Inl err \<Rightarrow> (posts, Inl (Wrapf ''sending mail'' [err]))
                        | Inr _ \<Rightarrow> (posts, Inr ()))
                  else (posts, Inl (Wrapf ''sending mail'' [ContextCanceled]))))"

section \<open>Reading a message back\<close>

text \<open>
  A reader as RFC 5322 has it, and as generous about line ends as the ones in use: a line ends at a line feed, a
  carriage return does not count, and the head ends at the first empty line.
\<close>

function read_mail :: "string \<Rightarrow> string list \<times> string" where
  "read_mail s =
     (let line = filter (\<lambda>c. c \<noteq> CR) (takeWhile (\<lambda>c. c \<noteq> LF) s); rest = dropWhile (\<lambda>c. c \<noteq> LF) s in
      if rest = [] then ([line], [])
      else if line = [] then ([], tl rest)
      else let (lines, body) = read_mail (tl rest) in (line # lines, body))"
  by pat_completeness auto
termination
proof (relation "measure length", goal_cases)
  case (2 s line rest)
  then have "length rest \<le> length s" by (simp add: length_dropWhile_le)
  moreover have "0 < length rest" using 2 by simp
  ultimately show ?case unfolding in_measure length_tl by linarith
qed simp

declare read_mail.simps [simp del]

definition unhex :: "char \<Rightarrow> nat" where
  "unhex c = (if byte c < 58 then byte c - 48 else byte c - 55)"

text \<open>RFC 2047: what a header written in Q-encoded words says; the white space between two words is dropped.\<close>

function q_decode :: "string \<Rightarrow> string" where
  "q_decode [] = []"
| "q_decode (c # cs) =
     (if c = CHR ''_'' then CHR '' '' # q_decode cs
      else if c = CHR ''='' then
        (case cs of h # l # rest \<Rightarrow> char_of (16 * unhex h + unhex l) # q_decode rest | _ \<Rightarrow> [])
      else if c = CHR ''?'' then
        (if prefix (''= '' @ openWord) cs then q_decode (drop 12 cs) else [])
      else c # q_decode cs)"
  by pat_completeness auto
termination by (relation "measure length") auto

definition decode_header :: "string \<Rightarrow> string" where
  "decode_header s = (if prefix openWord s then q_decode (drop 10 s) else s)"

section \<open>Lemmas\<close>

lemma byte_upperhex: "n < 16 \<Longrightarrow> byte (upperhex n) = (if n < 10 then 48 + n else 55 + n)"
  by (simp add: upperhex_def)

lemma unhex_upperhex [simp]: "n < 16 \<Longrightarrow> unhex (upperhex n) = n"
  by (simp add: unhex_def byte_upperhex)

text \<open>A byte that may stand in the value of a header: printable, or a tab.\<close>

definition header_char :: "char \<Rightarrow> bool" where
  "header_char c \<longleftrightarrow> 32 \<le> byte c \<and> byte c \<le> 126 \<or> c = CHR 0x09"

lemma header_char_breaks: "header_char c \<Longrightarrow> c \<noteq> CR \<and> c \<noteq> LF"
  by (auto simp: header_char_def)

lemma byte_less [simp]: "byte c < 256"
  using nat_of_char_less_256 .

lemma header_char_hex: "n < 16 \<Longrightarrow> header_char (upperhex n)"
  by (simp add: header_char_def byte_upperhex)

lemma header_char_q_byte: "list_all header_char (q_byte b)"
proof -
  have "byte b div 16 < 16" using byte_less [of b] by linarith
  then have "header_char (upperhex (byte b div 16))" "header_char (upperhex (byte b mod 16))"
    by (simp_all add: header_char_hex)
  moreover have "q_plain b \<Longrightarrow> header_char b" by (simp add: q_plain_def header_char_def)
  moreover have "header_char (CHR ''_'')" "header_char (CHR ''='')" by (simp_all add: header_char_def)
  ultimately show ?thesis by (simp add: q_byte_def)
qed

lemma header_char_writeQString: "list_all header_char (writeQString s)"
  using header_char_q_byte by (induction s) (auto simp: writeQString_def)

lemma header_char_words: "list_all header_char openWord" "list_all header_char closeWord"
  by (simp_all add: openWord_def closeWord_def header_char_def)

lemma header_char_q_encode: "list_all header_char (q_encode n s)"
proof (induction n s rule: q_encode.induct)
  case (2 n b rest)
  then show ?case
    by (simp add: Let_def header_char_writeQString header_char_words) (simp add: header_char_def)
qed simp

lemma header_char_QEncoding: "list_all header_char (QEncoding_Encode s)"
proof (cases "needsEncoding s")
  case True
  then show ?thesis by (simp add: QEncoding_Encode_def header_char_q_encode header_char_words)
next
  case False
  then show ?thesis by (auto simp: QEncoding_Encode_def needsEncoding_def header_char_def list_all_iff list_ex_iff not_less)
qed

lemma header_char_digits: "list_all header_char (nat_digits n)"
proof (induction n rule: nat_digits.induct)
  case (1 n)
  have digit: "header_char (digit_char d)" if "d < 10" for d
    using that by (simp add: header_char_def)
  show ?case
    using 1 digit by (subst nat_digits.simps) auto
qed

lemma header_char_padded: "list_all header_char (zero_padded w i)"
  using header_char_digits by (auto simp: zero_padded_def Itoa_def Let_def list_all_iff header_char_def)

lemma header_char_month: "list_all header_char (fst (month_of_day ms d))" if "\<forall>(m, n) \<in> set ms. list_all header_char m"
  using that by (induction ms d rule: month_of_day.induct) auto

lemma header_char_weekday: "list_all header_char (weekday_name d)"
proof -
  have "d mod 7 \<in> {0, 1, 2, 3, 4, 5, 6}"
    using pos_mod_bound [of 7 d] pos_mod_sign [of 7 d] by (simp, linarith)
  then show ?thesis by (auto simp: weekday_name_def header_char_def)
qed

lemma header_char_date: "list_all header_char (Format_RFC1123Z zone t)"
proof -
  have "\<forall>(m, n) \<in> set (month_lengths y). list_all header_char m" for y
    by (simp add: month_lengths_def header_char_def)
  note months = header_char_month [OF this]
  show ?thesis
    by (simp add: Format_RFC1123Z_def Let_def case_prod_unfold header_char_padded header_char_weekday months)
      (simp add: header_char_def)
qed

lemma no_breaks: "list_all header_char s \<Longrightarrow> CR \<notin> set s \<and> LF \<notin> set s"
  by (auto simp: list_all_iff dest: header_char_breaks)

lemma validateLines_ok: "validateLines lines = Inr u \<longleftrightarrow> (\<forall>line \<in> set lines. CR \<notin> set line \<and> LF \<notin> set line)"
  by (induction lines) (auto simp: validateLine_def)

lemma read_mail_line:
  assumes "CR \<notin> set line" "LF \<notin> set line" "line \<noteq> []"
  shows "read_mail (write_line line @ rest) = (line # fst (read_mail rest), snd (read_mail rest))"
proof -
  have "takeWhile (\<lambda>c. c \<noteq> LF) (write_line line @ rest) = line @ [CR]"
    and "dropWhile (\<lambda>c. c \<noteq> LF) (write_line line @ rest) = LF # rest"
    using assms(2) by (induction line) (auto simp: write_line_def)
  moreover have "filter (\<lambda>c. c \<noteq> CR) line = line" using assms(1) by (auto simp: filter_id_conv)
  ultimately show ?thesis
    using assms(3) by (subst read_mail.simps) (simp add: Let_def case_prod_unfold)
qed

lemma read_mail_empty_line: "read_mail (write_line '''' @ rest) = ([], rest)"
  by (subst read_mail.simps) (simp add: write_line_def Let_def)

section \<open>Decoding gives back what was encoded\<close>

lemma q_decode_byte: "q_decode (q_byte b @ rest) = b # q_decode rest"
proof -
  have "byte b div 16 < 16" and "byte b mod 16 < 16" using byte_less [of b] by linarith+
  then show ?thesis by (auto simp: q_byte_def q_plain_def mult.commute)
qed

lemma q_decode_text: "q_decode (writeQString s @ rest) = s @ q_decode rest"
  by (induction s) (simp_all add: writeQString_def q_decode_byte)

lemma q_decode_split: "q_decode (closeWord @ '' '' @ openWord @ rest) = q_decode rest"
  by (simp add: closeWord_def openWord_def)

lemma q_decode_encode: "q_decode (q_encode n s @ closeWord) = s"
proof (induction n s rule: q_encode.induct)
  case (1 n)
  then show ?case by (simp add: closeWord_def openWord_def)
next
  case (2 n b rest)
  have split: "take (q_rune b rest) (b # rest) @ drop (q_rune b rest - 1) rest = b # rest"
    using q_rune_bounds [of b rest] by (cases "q_rune b rest") auto
  show ?case
  proof (cases "maxContentLen < n + (if q_plain b then 1 else 3 * q_rune b rest)")
    case True
    then show ?thesis
      using 2(1) [OF refl refl refl refl True] split
      by (simp only: q_encode.simps Let_def if_True append_assoc q_decode_split q_decode_text)
  next
    case False
    then show ?thesis
      using 2(2) [OF refl refl refl refl False] split
      by (simp only: q_encode.simps Let_def if_False append_assoc q_decode_text)
  qed
qed

lemma decode_encodeHeader:
  "\<not> prefix openWord (without_breaks v) \<Longrightarrow> decode_header (encodeHeader v) = without_breaks v"
proof -
  have "length openWord = 10" by (simp add: openWord_def)
  then show "\<not> prefix openWord (without_breaks v) \<Longrightarrow> ?thesis"
    by (simp add: encodeHeader_def Let_def QEncoding_Encode_def decode_header_def q_decode_encode)
qed

section \<open>The head of a mail\<close>

abbreviation head_lines :: "int \<Rightarrow> time \<Rightarrow> SmtpMailer \<Rightarrow> string \<Rightarrow> Message \<Rightarrow> string list" where
  "head_lines zone now m address notice \<equiv>
     [''From: '' @ SM_from m, ''To: '' @ address, ''Subject: '' @ encodeHeader (Subject notice),
      ''Date: '' @ Format_RFC1123Z zone now, ''MIME-Version: 1.0'', ''Content-Type: text/plain; charset=utf-8'']"

lemma header_char_encodeHeader: "list_all header_char (encodeHeader v)"
  by (simp add: encodeHeader_def Let_def header_char_QEncoding)

lemma read_compose:
  assumes from_ok: "CR \<notin> set (SM_from m)" "LF \<notin> set (SM_from m)"
    and address_ok: "CR \<notin> set address" "LF \<notin> set address"
  shows "read_mail (compose zone now m address notice) = (head_lines zone now m address notice, Body notice @ CRLF)"
proof -
  have "CR \<notin> set (encodeHeader (Subject notice))" "LF \<notin> set (encodeHeader (Subject notice))"
    and "CR \<notin> set (Format_RFC1123Z zone now)" "LF \<notin> set (Format_RFC1123Z zone now)"
    using no_breaks header_char_encodeHeader header_char_date by blast+
  then show ?thesis
    using assms unfolding compose_def
    by (simp add: read_mail_line read_mail_empty_line) (simp add: write_line_def)
qed

lemma SendEmail_posts:
  assumes "post \<in> set (fst (SendEmail ParseAddress server zone now in_time (Some m) address notice))"
  shows "post = \<lparr>Post_addr = SM_addr m, Post_auth = SM_auth m, Post_from = SM_from m, Post_to = [address],
      Post_message = compose zone now m address notice\<rparr>"
    and "CR \<notin> set (SM_from m) \<and> LF \<notin> set (SM_from m)" and "CR \<notin> set address \<and> LF \<notin> set address"
  using assms
  by (auto simp: SendEmail_def SendMail_def Let_def validateLine_def split: sum.splits if_splits)

lemma SendEmail_ok:
  assumes "SendEmail ParseAddress server zone now in_time mailer address notice = (posts, Inr u)"
  obtains m post where "mailer = Some m" "posts = [post]" "server post = Inr ()" "Post_to post = [address]" "in_time"
    "ParseAddress address = Inr ()"
  using assms
  by (auto simp: SendEmail_def SendMail_def Let_def split: option.splits sum.splits if_splits prod.splits)

text \<open>C16. Whatever the subject, the body and the two addresses are, a message that leaves for the mail server has
  exactly the six header lines the program wrote: read back by a reader that ends a line at any line feed, its head is
  From, To, Subject, Date, MIME-Version and Content-Type with their own values, none of the lines holds a line break,
  and everything of the notice's body is behind the head. So a name of an event cannot add a receiver or cut the head
  short. An address with a line break is refused before the server is dialled. The subject decodes to the notice's own,
  its line breaks made blanks, unless it is written like an encoded word to begin with.\<close>

theorem mail_head_is_fixed:
  assumes "post \<in> set (fst (SendEmail ParseAddress server zone now in_time (Some m) address notice))"
  shows "read_mail (Post_message post) =
           ([''From: '' @ SM_from m, ''To: '' @ address, ''Subject: '' @ encodeHeader (Subject notice),
             ''Date: '' @ Format_RFC1123Z zone now, ''MIME-Version: 1.0'', ''Content-Type: text/plain; charset=utf-8''],
            Body notice @ CRLF)
       \<and> (\<forall>line \<in> set (fst (read_mail (Post_message post))). CR \<notin> set line \<and> LF \<notin> set line)
       \<and> Post_from post = SM_from m \<and> Post_to post = [address]
       \<and> (\<not> prefix openWord (without_breaks (Subject notice)) \<longrightarrow>
            decode_header (encodeHeader (Subject notice)) = without_breaks (Subject notice))"
proof -
  note post = SendEmail_posts [OF assms]
  have read: "read_mail (Post_message post) = (head_lines zone now m address notice, Body notice @ CRLF)"
    using post by (simp add: read_compose)
  moreover have "\<forall>line \<in> set (head_lines zone now m address notice). CR \<notin> set line \<and> LF \<notin> set line"
    using post(2,3) no_breaks [OF header_char_encodeHeader] no_breaks [OF header_char_date] by simp
  ultimately show ?thesis using post(1) decode_encodeHeader by simp
qed

definition local_mailer :: SmtpMailer where
  "local_mailer = \<lparr>SM_addr = ''localhost:1025'', SM_from = ''tickets@example.com'', SM_auth = None\<rparr>"

definition sly_notice :: Message where
  "sly_notice = \<lparr>Subject = ''Off'' @ CRLF @ ''Bcc: x'', Body = ''Sorry'', Message_Link = ''/''\<rparr>"

theorem mail_head_is_fixed_witness:
  "\<exists>post. fst (SendEmail (\<lambda>_. Inr ()) (\<lambda>_. Inr ()) 0 0 True (Some local_mailer) ''a@b.c'' sly_notice) = [post]
     \<and> fst (read_mail (Post_message post)) ! 2 = ''Subject: Off  Bcc: x''
     \<and> decode_header (encodeHeader (Subject sly_notice)) = ''Off  Bcc: x''"
proof -
  let ?posts = "fst (SendEmail (\<lambda>_. Inr ()) (\<lambda>_. Inr ()) 0 0 True (Some local_mailer) ''a@b.c'' sly_notice)"
  have one: "?posts = [hd ?posts]"
    by (simp add: SendEmail_def SendMail_def Let_def validateLine_def local_mailer_def)
  then have "hd ?posts \<in> set ?posts" by (metis list.set_intros(1))
  from mail_head_is_fixed [OF this] one show ?thesis
    by (intro exI [of _ "hd ?posts"])
      (simp add: sly_notice_def encodeHeader_def QEncoding_Encode_def needsEncoding_def without_breaks_def openWord_def)
qed

section \<open>What the worker mails\<close>

text \<open>C17. When a delivery by email comes out of the worker as sent, the mail server has accepted one message for it: the
  message went to the address of the account the delivery is for, that address was verified, its head is the six lines
  of the program and its text is the words for the stored notice. The worker touches no store by it, and the outbox
  entry it writes down is done.\<close>

theorem mailed_delivery_reached_the_owner:
  assumes "attempt senders delivery d = (d', Inr ())"
    and "Channel delivery = ChannelEmail"
    and "Mailer senders = Some (\<lambda>address notice. snd (SendEmail ParseAddress server zone now in_time mailer address notice))"
    and "written \<noteq> zero_time"
  shows "\<exists>m user notification post. mailer = Some m
      \<and> Notification_Get (Delivery_NotificationID delivery) (D_inbox d) = Inr notification
      \<and> GetUserByID (Delivery_UserID delivery) (D_users d) = Inr user \<and> EmailVerified user
      \<and> fst (SendEmail ParseAddress server zone now in_time mailer (User_Email user) (Render notification)) = [post]
      \<and> server post = Inr () \<and> Post_to post = [User_Email user]
      \<and> read_mail (Post_message post) = (head_lines zone now m (User_Email user) (Render notification), Body (Render notification) @ CRLF)
      \<and> d' = d \<and> IsDone (recorded (Inr ()) written delivery)"
proof -
  from assms(1-3) obtain notification user where
    stored: "Notification_Get (Delivery_NotificationID delivery) (D_inbox d) = Inr notification"
      "GetUserByID (Delivery_UserID delivery) (D_users d) = Inr user" "EmailVerified user" "d' = d"
    and ok: "snd (SendEmail ParseAddress server zone now in_time mailer (User_Email user) (Render notification)) = Inr ()"
    by (auto simp: attempt_def Let_def split: sum.splits if_splits)
  then obtain m post where sent: "mailer = Some m" "server post = Inr ()" "Post_to post = [User_Email user]"
    and posts: "fst (SendEmail ParseAddress server zone now in_time mailer (User_Email user) (Render notification)) = [post]"
    by (metis SendEmail_ok prod.collapse fst_conv)
  then have "post \<in> set (fst (SendEmail ParseAddress server zone now in_time (Some m) (User_Email user) (Render notification)))"
    by simp
  from SendEmail_posts [OF this]
  have "read_mail (Post_message post) =
      (head_lines zone now m (User_Email user) (Render notification), Body (Render notification) @ CRLF)"
    by (simp add: read_compose)
  moreover have "IsDone (recorded (Inr ()) written delivery)"
    using assms(4) by (simp add: recorded_def IsDone_def Delivery_Sent_def go_time)
  ultimately show ?thesis using stored sent posts by blast
qed

definition mail_owner :: User where
  "mail_owner = \<lparr>User_ID = ''alice'', User_Email = ''alice@example.com'', PasswordHash = ''hash'', User_Role = RoleCustomer,
     EmailVerifiedAt = 5, User_CreatedAt = 1\<rparr>"

definition mail_state :: DeliveryState where
  "mail_state = \<lparr>D_outbox = [(''n1/email'', owed)], D_inbox = Notify [notice_1] [],
     D_users = [(''alice@example.com'', mail_owner)], D_push = []\<rparr>"

abbreviation mail_senders :: Senders where
  "mail_senders \<equiv> \<lparr>Mailer = Some (\<lambda>address notice.
     snd (SendEmail (\<lambda>_. Inr ()) (\<lambda>_. Inr ()) 0 70 True (Some local_mailer) address notice)), Push_answers = None\<rparr>"

theorem mailed_delivery_reached_the_owner_witness:
  "\<exists>post :: Post. Post_to post = [''alice@example.com''] \<and>
     fst (read_mail (Post_message post)) ! 2 = ''Subject: Gala has been cancelled'' \<and>
     IsDone (recorded (Inr ()) 80 owed)"
proof -
  let ?sent = "snd (SendEmail (\<lambda>_. Inr ()) (\<lambda>_. Inr ()) 0 70 True (Some local_mailer) ''alice@example.com'' (Render notice_1))"
  have inbox: "Notification_Get ''n1'' (D_inbox mail_state) = Inr notice_1"
    by (simp add: mail_state_def notice_1_def notices_of_def)
  have user: "GetUserByID ''alice'' (D_users mail_state) = Inr mail_owner"
    by (simp add: mail_state_def GetUserByID_def mail_owner_def)
  have ok: "?sent = Inr ()"
    by (simp add: SendEmail_def SendMail_def Let_def validateLine_def local_mailer_def)
  have sent: "attempt mail_senders owed mail_state = (mail_state, Inr ())"
    using inbox user ok
    by (simp add: attempt_def Let_def owed_def) (simp add: mail_owner_def EmailVerified_def go_time)
  have email: "Channel owed = ChannelEmail" by (simp add: owed_def)
  have who: "Delivery_NotificationID owed = ''n1''" "Delivery_UserID owed = ''alice''" by (simp_all add: owed_def)
  have mailer: "Mailer mail_senders = Some (\<lambda>address notice.
      snd (SendEmail (\<lambda>_. Inr ()) (\<lambda>_. Inr ()) 0 70 True (Some local_mailer) address notice))"
    and written: "(80 :: time) \<noteq> zero_time" by simp_all
  have "\<exists>post :: Post. Post_to post = [User_Email mail_owner] \<and> IsDone (recorded (Inr ()) 80 owed) \<and>
      fst (read_mail (Post_message post)) = head_lines 0 70 local_mailer (User_Email mail_owner) (Render notice_1)"
    using mailed_delivery_reached_the_owner [OF sent email mailer written]
    unfolding who inbox user sum.inject option.inject
    by (elim exE conjE, hypsubst) (intro exI conjI, assumption, assumption, simp only: fst_conv)
  then obtain post :: Post where post: "Post_to post = [User_Email mail_owner]" "IsDone (recorded (Inr ()) 80 owed)"
    "fst (read_mail (Post_message post)) = head_lines 0 70 local_mailer (User_Email mail_owner) (Render notice_1)"
    by blast
  have "encodeHeader (Subject (Render notice_1)) = ''Gala has been cancelled''"
    by (simp add: Render_def notice_1_def cancelledNotice_def encodeHeader_def QEncoding_Encode_def needsEncoding_def
        without_breaks_def)
  then show ?thesis using post by (intro exI [of _ post]) (simp add: mail_owner_def)
qed

end
