(* ===== verification/Web_Pages.thy ===== *)
theory Web_Pages
  imports Http_Answers Go_Strings
begin

text \<open>
  The browser interface, \<open>internal/web/web.go\<close>, with \<open>path.Clean\<close> and \<open>path.Ext\<close> of the standard library. The embedded
  page, whether a file of a name exists, and the answer of the file server are parameters.
\<close>

section \<open>path.Clean and path.Ext\<close>

fun elements :: "string \<Rightarrow> string list" where
  "elements [] = [[]]"
| "elements (c # cs) =
     (if c = CHR ''/'' then [] # elements cs
      else case elements cs of e # es \<Rightarrow> (c # e) # es | [] \<Rightarrow> [[c]])"

text \<open>The elements kept so far, the last one first.\<close>

definition clean_step :: "bool \<Rightarrow> string list \<Rightarrow> string \<Rightarrow> string list" where
  "clean_step rooted kept e =
     (if e = '''' \<or> e = ''.'' then kept
      else if e = ''..'' then
        (case kept of
           [] \<Rightarrow> if rooted then [] else [e]
         | e' # rest \<Rightarrow> if e' = ''..'' then e # kept else rest)
      else e # kept)"

definition path_Clean :: "string \<Rightarrow> string" where
  "path_Clean path =
     (if path = '''' then ''.''
      else
        let rooted = (hd path = CHR ''/'');
            out = Join (rev (foldl (clean_step rooted) [] (elements path))) ''/''
        in if rooted then ''/'' @ out else if out = '''' then ''.'' else out)"

definition path_Ext :: "string \<Rightarrow> string" where
  "path_Ext path =
     (let base = takeWhile (\<lambda>c. c \<noteq> CHR ''/'') (rev path) in
      if CHR ''.'' \<in> set base then CHR ''.'' # rev (takeWhile (\<lambda>c. c \<noteq> CHR ''.'') base) else '''')"

section \<open>The handler\<close>

definition writePage :: "string \<Rightarrow> answer_calls" where
  "writePage page =
     [SetHeader ''Content-Type'' ''text/html; charset=utf-8'', SetHeader ''Cache-Control'' ''no-store'', Write page]"

definition NotFound :: answer_calls where
  "NotFound =
     [SetHeader ''Content-Type'' ''text/plain; charset=utf-8'', SetHeader ''X-Content-Type-Options'' ''nosniff'',
      WriteHeader 404, Write (''404 page not found'' @ [CHR 0x0A])]"

definition asset_name :: "string \<Rightarrow> string" where
  "asset_name url_path = (let cleaned = path_Clean url_path in if prefix ''/'' cleaned then drop 1 cleaned else cleaned)"

definition Web_Handler :: "string \<Rightarrow> (string \<Rightarrow> bool) \<Rightarrow> (string \<Rightarrow> answer_calls) \<Rightarrow> string \<Rightarrow> answer_calls" where
  "Web_Handler page exists serve url_path =
     (let name = asset_name url_path in
      if name = '''' \<or> name = ''index.html'' then writePage page
      else if exists name then serve url_path
      else if path_Ext name \<noteq> '''' then NotFound
      else writePage page)"

section \<open>What the handler asks for\<close>

definition plain_element :: "string \<Rightarrow> bool" where
  "plain_element e \<longleftrightarrow> e \<notin> {'''', ''.'', ''..''} \<and> CHR ''/'' \<notin> set e"

lemma elements_slash_free: "e \<in> set (elements path) \<Longrightarrow> CHR ''/'' \<notin> set e"
  by (induction path arbitrary: e) (auto split: list.splits if_splits)

lemma clean_rooted_plain:
  "\<forall>e \<in> set es. CHR ''/'' \<notin> set e \<Longrightarrow> \<forall>e \<in> set kept. plain_element e \<Longrightarrow>
     \<forall>e \<in> set (foldl (clean_step True) kept es). plain_element e"
proof (induction es arbitrary: kept)
  case (Cons e es)
  have "\<forall>x \<in> set (clean_step True kept e). plain_element x"
    using Cons.prems by (auto simp: clean_step_def plain_element_def split: list.splits)
  then show ?case using Cons by simp
qed simp

text \<open>The interface never asks for a file outside its own: however a request spells its path, the name looked up is
  made of plain elements, none of them empty, a dot or two dots. A path that names no file is answered with the page,
  since the page routes itself, unless it has an extension: a missing asset is a 404.\<close>

theorem web_stays_inside:
  assumes "prefix ''/'' url_path"
  shows "(\<exists>es. asset_name url_path = Join es ''/'' \<and> (\<forall>e \<in> set es. plain_element e))
    \<and> (\<not> exists (asset_name url_path) \<longrightarrow>
         Web_Handler page exists serve url_path =
           (if path_Ext (asset_name url_path) \<noteq> '''' \<and> asset_name url_path \<noteq> ''index.html'' then NotFound
            else writePage page))"
proof
  let ?es = "rev (foldl (clean_step True) [] (elements url_path))"
  have "url_path \<noteq> ''''" "hd url_path = CHR ''/''" using assms by (auto simp: prefix_def)
  then have "asset_name url_path = Join ?es ''/''" by (simp add: asset_name_def path_Clean_def Let_def)
  moreover have "\<forall>e \<in> set ?es. plain_element e"
    using clean_rooted_plain [of "elements url_path" "[]"] elements_slash_free by simp
  ultimately show "\<exists>es. asset_name url_path = Join es ''/'' \<and> (\<forall>e \<in> set es. plain_element e)" by blast
  show "\<not> exists (asset_name url_path) \<longrightarrow>
      Web_Handler page exists serve url_path =
        (if path_Ext (asset_name url_path) \<noteq> '''' \<and> asset_name url_path \<noteq> ''index.html'' then NotFound
         else writePage page)"
    by (simp add: Web_Handler_def Let_def path_Ext_def)
qed

theorem web_stays_inside_witness:
  "Web_Handler ''<html>'' (\<lambda>_. False) (\<lambda>_. []) ''/../secret/./key.pem'' = NotFound \<and>
   Web_Handler ''<html>'' (\<lambda>_. False) (\<lambda>_. []) ''//verify/'' = writePage ''<html>'' \<and>
   asset_name ''/../secret/./key.pem'' = ''secret/key.pem''"
proof -
  have names: "asset_name ''/../secret/./key.pem'' = ''secret/key.pem''" "asset_name ''//verify/'' = ''verify''"
    by code_simp+
  have exts: "path_Ext ''secret/key.pem'' = ''.pem''" "path_Ext ''verify'' = ''''" by code_simp+
  have "prefix ''/'' ''/../secret/./key.pem''" "prefix ''/'' ''//verify/''" by simp_all
  then show ?thesis
    using web_stays_inside [of "''/../secret/./key.pem''" "\<lambda>_. False" "''<html>''" "\<lambda>_. []"]
      web_stays_inside [of "''//verify/''" "\<lambda>_. False" "''<html>''" "\<lambda>_. []"]
    by (simp add: names exts)
qed

end
