(* ===== verification/Startup.thy ===== *)
theory Startup
  imports Site Configuration Password Mail Web_Pages Event_Table Seat_Table
begin

text \<open>
  The command \<open>cmd/server/main.go\<close>: the demo data, the choice of the stores, the services and the handler as they are
  wired together from the configuration, and the life of the process from its start to the last deferred clean-up. The
  constructors it calls (\<open>NewReservationService\<close>, \<open>NewHandoff\<close>, \<open>NewPusher\<close>, \<open>handler.New\<close> and its options) are
  here too. What the outside answers while the process starts and stops is a parameter.
\<close>

section \<open>Demo data\<close>

definition demoEvent :: "time \<Rightarrow> Event" where
  "demoEvent now =
     \<lparr>Event_ID = ''event-1'', Event_Name = ''Radiohead'', Event_Venue = ''Volkswagen Arena'',
      Event_StartsAt = Truncate_Second (time_Add now (72 * Hour)),
      Event_Details =
        \<lparr>City = ''Istanbul'', Details_Category = ''concert'', ImageURL = '''',
         Description = ''Touring In Rainbows, with a string section for the second half.'',
         Rules = ''Doors at 19:00. Under 16s must come with an adult. No professional cameras.''\<rparr>,
      Event_CancelledAt = zero_time\<rparr>"

definition demoSeats :: "string \<Rightarrow> Seat list" where
  "demoSeats eventID =
     concat (map (\<lambda>row. map (\<lambda>number. NewSeat eventID (row @ Itoa number) row number) [1..5]) [''A'', ''B''])"

text \<open>The event store reads the seats of the seat store it is given; in the model a \<open>World\<close> holds both.\<close>

definition seedMemoryStores :: "time \<Rightarrow> EventStore \<times> SeatStore" where
  "seedMemoryStores now =
     (let event = demoEvent now; seats = NewMemorySeatRepository (demoSeats (Event_ID event)) []
      in (NewMemoryEventRepository [event] [], seats))"

definition Postgres_InsertSeats :: "Seat list \<Rightarrow> SeatTable \<Rightarrow> SeatTable \<times> unit result" where
  "Postgres_InsertSeats seats t =
     (case insertSeats seats t of (t', Inl err) \<Rightarrow> (t', Inl err) | (t', Inr _) \<Rightarrow> (t', Inr ()))"

definition seedPostgresStores :: "time \<Rightarrow> EventTable \<times> SeatTable \<Rightarrow> (EventTable \<times> SeatTable) \<times> unit result" where
  "seedPostgresStores now db =
     (let (events, seats) = db; event = demoEvent now in
      case Postgres_InsertEvents [event] events of
        (events', Inl err) \<Rightarrow> ((events', seats), Inl (Wrapf ''seeding events'' [err]))
      | (events', Inr _) \<Rightarrow>
          (case Postgres_InsertSeats (demoSeats (Event_ID event)) seats of
             (seats', Inl err) \<Rightarrow> ((events', seats'), Inl (Wrapf ''seeding seats'' [err]))
           | (seats', Inr _) \<Rightarrow> ((events', seats'), Inr ())))"

section \<open>The stores\<close>

datatype opened = Memory_stores EventStore SeatStore | Postgres_stores

text \<open>The database afterwards, how many pools are left open, and the stores. \<open>pool\<close> and \<open>ping\<close> are what making the pool and
  reaching the database came to.\<close>

definition openStores ::
  "unit result \<Rightarrow> unit result \<Rightarrow> Config \<Rightarrow> time \<Rightarrow> EventTable \<times> SeatTable \<Rightarrow>
   (EventTable \<times> SeatTable) \<times> nat \<times> opened result" where
  "openStores pool ping cfg now db =
     (if \<not> UsesDatabase cfg then
        let (events, seats) = seedMemoryStores now in (db, 0, Inr (Memory_stores events seats))
      else case pool of
        Inl err \<Rightarrow> (db, 0, Inl (Wrapf ''configuring the connection pool'' [err]))
      | Inr _ \<Rightarrow>
          (case ping of
             Inl err \<Rightarrow> (db, 0, Inl (Wrapf ''reaching the database'' [err]))
           | Inr _ \<Rightarrow>
               if SeedDemoData cfg then
                 (case seedPostgresStores now db of
                    (db', Inl err) \<Rightarrow> (db', 0, Inl err)
                  | (db', Inr _) \<Rightarrow> (db', 1, Inr Postgres_stores))
               else (db, 1, Inr Postgres_stores)))"

definition argon2Params :: "Config \<Rightarrow> Argon2Params" where
  "argon2Params cfg =
     DefaultArgon2Params\<lparr>Memory := Argon2Memory cfg, Iterations := Argon2Iterations cfg, Parallelism := Argon2Parallelism cfg\<rparr>"

definition rateLimitPolicies :: "Config \<Rightarrow> Policies" where
  "rateLimitPolicies cfg =
     \<lparr>Policies_Auth = \<lparr>Policy_Name = ''auth'', Every = AuthEvery cfg, Burst = AuthBurst cfg\<rparr>,
      Policies_Default = \<lparr>Policy_Name = ''default'', Every = RequestEvery cfg, Burst = RequestBurst cfg\<rparr>\<rparr>"

section \<open>Constructors\<close>

definition NewReservationService :: "SeatGate option \<Rightarrow> duration \<Rightarrow> ServiceConfig" where
  "NewReservationService gate ttl =
     \<lparr>HoldTTL = ttl, Gate = (case gate of None \<Rightarrow> AllowEveryone | Some g \<Rightarrow> g), Buffer = None\<rparr>"

definition DefaultHandoffWorkers :: int where "DefaultHandoffWorkers = 16"
definition DefaultHandoffBuffer :: int where "DefaultHandoffBuffer = 256"

text \<open>The number of workers and the size of the channel.\<close>

definition NewHandoff :: "int \<Rightarrow> int \<Rightarrow> int \<times> nat" where
  "NewHandoff workers buffer =
     (if workers < 1 then DefaultHandoffWorkers else workers,
      nat (if buffer < 1 then DefaultHandoffBuffer else buffer))"

definition Reservation_WithOfferer :: "int \<times> nat \<Rightarrow> ServiceConfig \<Rightarrow> ServiceConfig" where
  "Reservation_WithOfferer handoff s = s\<lparr>Buffer := Some (snd handoff)\<rparr>"

abbreviation ErrPushNotConfigured :: goerror where
  "ErrPushNotConfigured \<equiv> Opaque ''push notifications are not configured''"

text \<open>A pusher is its public key here; \<open>None\<close> is the nil pusher.\<close>

definition NewPusher :: "string \<Rightarrow> string \<Rightarrow> string \<Rightarrow> string option result" where
  "NewPusher publicKey privateKey subject =
     (if publicKey = '''' \<and> privateKey = '''' then Inr None
      else if publicKey = '''' \<or> privateKey = ''''
        then Inl (Wrapf ''both VAPID keys are needed, not one'' [ErrPushNotConfigured])
      else if subject = '''' then Inl (Wrapf ''a VAPID subject is needed'' [ErrPushNotConfigured])
      else Inr (Some publicKey))"

text \<open>\<open>handler.New\<close>: the services, and none of the options. \<open>outside\<close> supplies the encoders, decoders and texts.\<close>

definition New :: "Handler \<Rightarrow> ServiceConfig \<Rightarrow> Handler" where
  "New outside service =
     outside\<lparr>H_service := service, H_verifier := None, H_waiting := False, H_inventory := None, H_notifier := False,
       H_push := None, H_prober := None, H_web := None, H_metrics := None,
       H_stream := (\<lambda>_ _. writeError outside (Handler errStreamUnavailable)), H_bodyLimit := 0\<rparr>"

definition WithBodyLimit :: "int \<Rightarrow> Handler \<Rightarrow> Handler" where
  "WithBodyLimit limit h = h\<lparr>H_bodyLimit := limit\<rparr>"

definition WithWaitingList :: "Handler \<Rightarrow> Handler" where
  "WithWaitingList h = h\<lparr>H_waiting := True\<rparr>"

definition WithNotifications :: "Handler \<Rightarrow> Handler" where
  "WithNotifications h = h\<lparr>H_notifier := True\<rparr>"

definition WithVerification :: "duration \<Rightarrow> Handler \<Rightarrow> Handler" where
  "WithVerification ttl h = h\<lparr>H_verifier := Some ttl\<rparr>"

definition WithPush :: "string \<Rightarrow> Handler \<Rightarrow> Handler" where
  "WithPush publicKey h = h\<lparr>H_push := Some publicKey\<rparr>"

definition WithAdmin :: "InventoryConfig \<Rightarrow> Handler \<Rightarrow> Handler" where
  "WithAdmin inventory h = h\<lparr>H_inventory := Some inventory\<rparr>"

definition WithProber :: "unit result option \<Rightarrow> Handler \<Rightarrow> Handler" where
  "WithProber prober h = h\<lparr>H_prober := prober\<rparr>"

definition WithMetrics :: "answer_calls \<Rightarrow> Handler \<Rightarrow> Handler" where
  "WithMetrics page h = h\<lparr>H_metrics := Some page\<rparr>"

definition WithBroker :: "(string \<Rightarrow> string \<Rightarrow> answer_calls) \<Rightarrow> Handler \<Rightarrow> Handler" where
  "WithBroker streams h = h\<lparr>H_stream := streams\<rparr>"

definition WithWeb :: "(string \<Rightarrow> answer_calls) \<Rightarrow> Handler \<Rightarrow> Handler" where
  "WithWeb web h = h\<lparr>H_web := Some web\<rparr>"

section \<open>The wiring\<close>

text \<open>
  What the libraries and the embedded files supply: the fields of \<open>Handler\<close> that no constructor sets, the signer and
  Argon2 over the secret and the settings, the checker of bcrypt, the parser of addresses, the limiter's package, the embedded
  page and files, the page of the metrics, the stream and the answer of the database to a ping.
\<close>

record ('l, 'r) Libraries =
  Lib_handler :: Handler
  Lib_hmac :: "string \<Rightarrow> string \<Rightarrow> string"
  Lib_IDKey :: id_key
  Lib_bcrypt :: "string \<Rightarrow> string \<Rightarrow> unit result"
  Lib_ParseAddress :: "string \<Rightarrow> unit result"
  Lib_SplitHostPort :: "string \<Rightarrow> (string \<times> string) result"
  Lib_package :: "('l, 'r) rate_package"
  Lib_page :: string
  Lib_exists :: "string \<Rightarrow> bool"
  Lib_files :: "string \<Rightarrow> answer_calls"
  Lib_metrics :: answer_calls
  Lib_stream :: "string \<Rightarrow> string \<Rightarrow> answer_calls"
  Lib_ping :: "unit result"

definition mailer_of :: "('l, 'r) Libraries \<Rightarrow> Config \<Rightarrow> SmtpMailer option result" where
  "mailer_of lib cfg = NewMailer (Lib_ParseAddress lib) (Lib_SplitHostPort lib)
     \<lparr>MC_Addr = SMTPAddr cfg, MC_From = SMTPFrom cfg, MC_Username = SMTPUsername cfg, MC_Password = SMTPPassword cfg\<rparr>"

definition pusher_of :: "Config \<Rightarrow> string option result" where
  "pusher_of cfg = NewPusher (VAPIDPublicKey cfg) (VAPIDPrivateKey cfg) (VAPIDSubject cfg)"

definition delivery_channels :: "SmtpMailer option \<Rightarrow> string option \<Rightarrow> DeliveryChannel list" where
  "delivery_channels mailer pusher =
     (if mailer \<noteq> None then [ChannelEmail] else []) @ (if pusher \<noteq> None then [ChannelPush] else [])"

definition reservations_of :: "Config \<Rightarrow> ServiceConfig" where
  "reservations_of cfg =
     Reservation_WithOfferer (NewHandoff (HandoffWorkers cfg) (HandoffBuffer cfg))
       (NewReservationService (Some VerifiedOnly) (Config_HoldTTL cfg))"

definition inventory_of :: "SmtpMailer option \<Rightarrow> string option \<Rightarrow> InventoryConfig" where
  "inventory_of mailer pusher =
     \<lparr>HasWaiting = True, HasNotifications = True, HasDeliveries = True, Channels = delivery_channels mailer pusher\<rparr>"

text \<open>The account service and the verification service that answer the handler: their hasher, signer and lifetimes.\<close>

definition with_accounts_of :: "('l, 'r) Libraries \<Rightarrow> Config \<Rightarrow> string \<Rightarrow> Handler \<Rightarrow> Handler" where
  "with_accounts_of lib cfg tokens h =
     (let hasher = NewPasswordHasher (argon2Params cfg) in
      h\<lparr>H_Compare := Hasher_Compare (Lib_IDKey lib) (Lib_bcrypt lib), H_NeedsRehash := Hasher_NeedsRehash hasher,
        H_sign := Lib_hmac lib tokens, H_tokenTTL := token_ttl (TokenTTL cfg)\<rparr>)"

definition api_of ::
  "('l, 'r) Libraries \<Rightarrow> Config \<Rightarrow> string \<Rightarrow> SmtpMailer option \<Rightarrow> string option \<Rightarrow> Handler" where
  "api_of lib cfg tokens mailer pusher =
     (let prober = (if UsesDatabase cfg then Some (Lib_ping lib) else None);
          h = New (with_accounts_of lib cfg tokens (Lib_handler lib)) (reservations_of cfg);
          h = WithWeb (Web_Handler (Lib_page lib) (Lib_exists lib) (Lib_files lib)) h;
          h = WithWaitingList h;
          h = WithMetrics (Lib_metrics lib) h;
          h = WithProber prober h;
          h = WithAdmin (inventory_of mailer pusher) h;
          h = WithNotifications h;
          h = WithVerification (verification_ttl (VerificationTTL cfg)) h;
          h = WithBroker (Lib_stream lib) h;
          h = WithBodyLimit (RequestBodyLimit cfg) h
      in case pusher of None \<Rightarrow> h | Some publicKey \<Rightarrow> WithPush publicKey h)"

definition wiring_of :: "('l, 'r) Libraries \<Rightarrow> Config \<Rightarrow> string \<Rightarrow> SmtpMailer option \<Rightarrow> string option \<Rightarrow> ('l, 'r) Wiring" where
  "wiring_of lib cfg tokens mailer pusher =
     \<lparr>Wi_api = api_of lib cfg tokens mailer pusher, Wi_package = Lib_package lib, Wi_policies = rateLimitPolicies cfg,
      Wi_SplitHostPort = (\<lambda>addr. case Lib_SplitHostPort lib addr of Inl _ \<Rightarrow> None | Inr (host, _) \<Rightarrow> Some host),
      Wi_idempotencyTTL = IdempotencyTTL cfg\<rparr>"

text \<open>The process over memory stores that were just opened.\<close>

definition fresh_process :: "Config \<Rightarrow> EventStore \<Rightarrow> SeatStore \<Rightarrow> 'l Process" where
  "fresh_process cfg events seats =
     \<lparr>P_server =
        \<lparr>S_world =
           \<lparr>W_seats = seats, W_events = events, W_users = [], W_waiting = NewMemoryWaitingListRepository,
            W_published = [], W_freed = [], W_not_offered = 0, W_inbox = [], W_outbox = [], W_push = []\<rparr>,
         S_revoked = Some [], S_links = []\<rparr>,
      P_keys = [], P_limiter = NewRateLimiter (RateLimitTTL cfg), P_log = [], P_requests = [], P_failures = [], P_inFlight = 0\<rparr>"

section \<open>The loops in the background\<close>

text \<open>
  The workers are one loop over a ticker. It is driven by the list of what its select saw: a tick, or the end of the
  context. The answer says whether the loop has returned. \<open>time.NewTicker\<close> panics at an interval that is not positive.
\<close>

datatype wake = Tick | Context_done

fun ticker_loop :: "(nat \<Rightarrow> 's \<Rightarrow> 's) \<Rightarrow> nat \<Rightarrow> wake list \<Rightarrow> 's \<Rightarrow> 's \<times> bool" where
  "ticker_loop pass n [] s = (s, False)"
| "ticker_loop pass n (Context_done # wakes) s = (s, True)"
| "ticker_loop pass n (Tick # wakes) s = ticker_loop pass (Suc n) wakes (pass n s)"

definition run_every :: "duration \<Rightarrow> (nat \<Rightarrow> 's \<Rightarrow> 's) \<Rightarrow> wake list \<Rightarrow> 's \<Rightarrow> ('s \<times> bool) result" where
  "run_every interval pass wakes s =
     (if interval \<le> 0 then Inl (Opaque ''panic: non-positive interval for NewTicker'')
      else Inr (ticker_loop pass 0 wakes s))"

definition DefaultDeliveryInterval :: duration where "DefaultDeliveryInterval = 5 * Second"
definition DefaultDeliveryBatch :: int where "DefaultDeliveryBatch = 20"
definition DefaultVerificationInterval :: duration where "DefaultVerificationInterval = 2 * Second"
definition DefaultVerificationBatch :: int where "DefaultVerificationBatch = 20"
definition DefaultRevocationSweepInterval :: duration where "DefaultRevocationSweepInterval = 5 * Minute"

text \<open>Interval and batch of a worker, as its constructor settles them.\<close>

definition NewDeliveryWorker :: "duration \<Rightarrow> int \<Rightarrow> duration \<times> int" where
  "NewDeliveryWorker interval batch =
     (if interval \<le> 0 then DefaultDeliveryInterval else interval, if batch \<le> 0 then DefaultDeliveryBatch else batch)"

definition NewVerificationSender :: "duration \<Rightarrow> int \<Rightarrow> duration \<times> int" where
  "NewVerificationSender interval batch =
     (if interval \<le> 0 then DefaultVerificationInterval else interval,
      if batch \<le> 0 then DefaultVerificationBatch else batch)"

definition NewTokenSweeper :: "duration \<Rightarrow> duration" where
  "NewTokenSweeper interval = (if interval \<le> 0 then DefaultRevocationSweepInterval else interval)"

text \<open>\<open>now n\<close> is the reading of the clock at the pass of the \<open>n\<close>th tick.\<close>

definition HoldSweeper_Run :: "ServiceConfig \<Rightarrow> duration \<Rightarrow> (nat \<Rightarrow> time) \<Rightarrow> wake list \<Rightarrow> World \<Rightarrow> (World \<times> bool) result" where
  "HoldSweeper_Run service interval now = run_every interval (\<lambda>n w. fst (Sweep service (now n) w))"

definition TokenSweeper_Run :: "duration \<Rightarrow> (nat \<Rightarrow> time) \<Rightarrow> wake list \<Rightarrow> AccountState \<Rightarrow> (AccountState \<times> bool) result" where
  "TokenSweeper_Run interval now = run_every interval (\<lambda>n a. fst (TokenSweeper_Sweep (now n) a))"

definition DeliveryWorker_Run ::
  "Senders \<Rightarrow> duration \<times> int \<Rightarrow> (nat \<Rightarrow> nat \<Rightarrow> time) \<Rightarrow> wake list \<Rightarrow> DeliveryState \<Rightarrow> (DeliveryState \<times> bool) result" where
  "DeliveryWorker_Run senders worker now =
     run_every (fst worker) (\<lambda>n d. fst (Worker_Drain senders (snd worker) (now n 0) (\<lambda>k. now n (Suc k)) d))"

definition VerificationSender_Run ::
  "(EmailVerification \<Rightarrow> bool) option \<Rightarrow> duration \<times> int \<Rightarrow> (nat \<Rightarrow> time) \<Rightarrow> wake list \<Rightarrow> VerificationStore \<Rightarrow>
   (VerificationStore \<times> bool) result" where
  "VerificationSender_Run mailer sender now = run_every (fst sender) (\<lambda>n r. fst (Sender_Send mailer (snd sender) (now n) r))"

definition RateLimiter_Run :: "duration \<Rightarrow> (nat \<Rightarrow> time) \<Rightarrow> wake list \<Rightarrow> 'l RateLimiter \<Rightarrow> ('l RateLimiter \<times> bool) result" where
  "RateLimiter_Run interval now = run_every interval (\<lambda>n l. fst (Cleanup (now n) l))"

section \<open>The life of the process\<close>

datatype loop = Handoff_loop | Delivery_loop | Verification_loop | Revocation_loop | Hold_loop | Limiter_loop

datatype life =
    Stores_opened | Loop_started loop | Serving | Server_stopped | Loop_done loop
  | Broker_closed | Stores_closed | Profiler_stopped | Context_cancelled

datatype ending = Signal | Server_failed goerror

text \<open>What the outside answers on the way: the pool, the database, the metrics registry, the random bytes of the decoy
  hash and its id, the embedded page, how serving ended and how the shutdown went.\<close>

record Outcomes =
  O_pool :: "unit result"
  O_ping :: "unit result"
  O_streams :: "unit result"
  O_salt :: "string result"
  O_decoy :: string
  O_handoff :: "unit result"
  O_ui :: "unit result"
  O_ending :: ending
  O_shutdown :: "unit result"

definition deferred :: "life list" where
  "deferred = [Broker_closed, Stores_closed, Profiler_stopped, Context_cancelled]"

definition run :: "('l, 'r) Libraries \<Rightarrow> Config \<Rightarrow> Outcomes \<Rightarrow> time \<Rightarrow> EventTable \<times> SeatTable \<Rightarrow> life list \<times> unit result" where
  "run lib cfg out now db =
     (case NewTokens (AuthSecret cfg) of
        Inl err \<Rightarrow> ([Profiler_stopped, Context_cancelled], Inl err)
      | Inr tokens \<Rightarrow>
     (case openStores (O_pool out) (O_ping out) cfg now db of
        (_, _, Inl err) \<Rightarrow> ([Profiler_stopped, Context_cancelled], Inl err)
      | (_, _, Inr _) \<Rightarrow>
     let steps = [Stores_opened] in
     (case O_streams out of
        Inl err \<Rightarrow> (steps @ deferred, Inl (Wrapf ''registering the stream metrics'' [err]))
      | Inr _ \<Rightarrow>
     (case Hasher_Hash (Lib_IDKey lib) (NewPasswordHasher (argon2Params cfg)) (O_salt out) (O_decoy out) of
        Inl err \<Rightarrow> (steps @ deferred, Inl (Wrapf ''preparing the account service'' [err]))
      | Inr _ \<Rightarrow>
     (case mailer_of lib cfg of
        Inl err \<Rightarrow> (steps @ deferred, Inl (Wrapf ''configuring mail'' [err]))
      | Inr mailer \<Rightarrow>
     (case pusher_of cfg of
        Inl err \<Rightarrow> (steps @ deferred, Inl (Wrapf ''configuring push'' [err]))
      | Inr pusher \<Rightarrow>
     (case O_handoff out of
        Inl err \<Rightarrow> (steps @ deferred, Inl (Wrapf ''registering the handoff metrics'' [err]))
      | Inr _ \<Rightarrow>
     let steps = steps @ map Loop_started [Handoff_loop, Delivery_loop, Verification_loop, Revocation_loop, Hold_loop] in
     (case O_ui out of
        Inl err \<Rightarrow> (steps @ deferred, Inl (Wrapf ''preparing the web interface'' [err]))
      | Inr _ \<Rightarrow>
     let steps = steps @ [Loop_started Limiter_loop, Serving] in
     (case O_ending out of
        Server_failed err \<Rightarrow> (steps @ deferred, Inl err)
      | Signal \<Rightarrow>
     (case O_shutdown out of
        Inl err \<Rightarrow> (steps @ deferred, Inl err)
      | Inr _ \<Rightarrow>
          (steps @ [Server_stopped] @
             map Loop_done [Hold_loop, Limiter_loop, Handoff_loop, Revocation_loop, Delivery_loop, Verification_loop] @ deferred,
           Inr ())))))))))))"

section \<open>The stores a new process begins with\<close>

lemma demoSeats_eq:
  "demoSeats e = [NewSeat e ''A1'' ''A'' 1, NewSeat e ''A2'' ''A'' 2, NewSeat e ''A3'' ''A'' 3, NewSeat e ''A4'' ''A'' 4,
     NewSeat e ''A5'' ''A'' 5, NewSeat e ''B1'' ''B'' 1, NewSeat e ''B2'' ''B'' 2, NewSeat e ''B3'' ''B'' 3,
     NewSeat e ''B4'' ''B'' 4, NewSeat e ''B5'' ''B'' 5]"
proof -
  have "[1..5] = [1, 2, 3, 4, 5::int]" by (simp add: upto.simps)
  moreover have "char_of (49::nat) = CHR ''1''" "char_of (50::nat) = CHR ''2''" "char_of (51::nat) = CHR ''3''"
    "char_of (52::nat) = CHR ''4''" "char_of (53::nat) = CHR ''5''" by code_simp+
  ultimately show ?thesis by (simp add: demoSeats_def Itoa_def nat_digits.simps digit_char_def)
qed

lemma seed_seats:
  "map_of (snd (seedMemoryStores now)) k = Some s \<Longrightarrow>
     s \<in> set (demoSeats ''event-1'') \<and> k = seatKey (Seat_EventID s) (Seat_ID s)"
  by (auto simp: seedMemoryStores_def Let_def demoEvent_def demoSeats_eq NewSeat_def seatKey_def update_conv' split: if_splits)

lemma NewMemorySeats_ok: "gomap_ok r \<Longrightarrow> gomap_ok (NewMemorySeatRepository seats r)"
  by (induction seats arbitrary: r) (auto simp: distinct_update)

lemma fresh_world_inv:
  assumes "seedMemoryStores now = (events, seats)"
  shows "service_inv (world_of (fresh_process cfg events seats))" and "owners_verified (world_of (fresh_process cfg events seats))"
proof -
  have seats: "seats = snd (seedMemoryStores now)" and events: "events = [(''event-1'', demoEvent now)]"
    using assms by (auto simp: seedMemoryStores_def Let_def storable_def WithDefaults_def demoEvent_def)
  have seat: "s \<in> set (demoSeats ''event-1'') \<and> k = seatKey (Seat_EventID s) (Seat_ID s)" if "map_of seats k = Some s" for k s
    using seed_seats that unfolding seats by blast
  have "gomap_ok seats"
    unfolding seats seedMemoryStores_def Let_def by (simp add: NewMemorySeats_ok)
  moreover have plain: "seat_filed k s \<and> HoldID s = '''' \<and> Seat_Status s = StatusAvailable" if "map_of seats k = Some s" for k s
  proof -
    from seat [OF that] obtain i r n where s: "s = NewSeat ''event-1'' i r n" "i \<noteq> ''''" "k = seatKey ''event-1'' i"
      by (auto simp: demoSeats_eq NewSeat_def)
    then show ?thesis by (simp add: seat_filed_def) (simp add: NewSeat_def)
  qed
  ultimately have "seats_inv seats" unfolding seats_inv_def by blast
  moreover have "events_inv events"
    by (simp add: events events_inv_def demoEvent_def storable_def WithDefaults_def)
  moreover have "users_inv []" by (simp add: users_inv_def)
  ultimately show "service_inv (world_of (fresh_process cfg events seats))"
    by (simp add: service_inv_def world_inv_def fresh_process_def event_ids_ok_def events slash_free_def)
  show "owners_verified (world_of (fresh_process cfg events seats))"
    using plain by (auto simp: owners_verified_def fresh_process_def ledger_def)
qed

lemma wired_gate [simp]: "Gate (H_service (Wi_api (wiring_of lib cfg tokens mailer pusher))) = VerifiedOnly"
  by (simp add: wiring_of_def api_of_def Let_def New_def reservations_of_def Reservation_WithOfferer_def
      NewReservationService_def WithBodyLimit_def WithBroker_def WithVerification_def WithNotifications_def WithAdmin_def
      WithProber_def WithMetrics_def WithWaitingList_def WithWeb_def WithPush_def split: option.split)

text \<open>C14. The program as its main function wires it sells every seat once, from the moment it starts: over the memory stores
  it opens, with whatever configuration, channels and libraries, after any requests and any work in the background, a
  seat that is sold stays sold under its ticket to its account, and that account's address is confirmed. Nothing is
  assumed of the state: the demo data the process seeds satisfies the invariants of every component.\<close>

theorem started_server_sells_once:
  fixes lib :: "('l, 'r) Libraries"
  assumes "openStores pool ping cfg now db = (db', open, Inr (Memory_stores events seats))"
    and "site_steps (wiring_of lib cfg tokens mailer pusher) (fresh_process cfg events seats) p1"
    and "site_steps (wiring_of lib cfg tokens mailer pusher) p1 p2"
    and "ledger (W_seats (world_of p1)) k = Some (Sold u c)"
  shows "service_inv (world_of p2) \<and> ledger (W_seats (world_of p2)) k = Some (Sold u c) \<and>
    verified_account (W_users (world_of p2)) u"
proof -
  have "seedMemoryStores now = (events, seats)"
    using assms(1) by (auto simp: openStores_def Let_def split: if_splits prod.splits sum.splits)
  from fresh_world_inv [OF this] have "service_inv (world_of (fresh_process cfg events seats :: 'l Process))"
    "owners_verified (world_of (fresh_process cfg events seats :: 'l Process))" by auto
  with sales_are_final [OF _ site_steps_services [OF assms(2)] site_steps_services [OF assms(3)] assms(4)]
  show ?thesis by simp
qed

definition demo_config :: Config where
  "demo_config = \<lparr>Addr = '':8080'', DatabaseURL = '''', Config_HoldTTL = 5 * Minute, SweepInterval = 30 * Second,
     ShutdownTimeout = 10 * Second, IdempotencyTTL = 24 * Hour, AuthSecret = ''0123456789abcdef0123456789abcdef'',
     TokenTTL = Hour, Argon2Memory = 19456, Argon2Iterations = 2, Argon2Parallelism = 1, HandoffWorkers = 16,
     HandoffBuffer = 256, RateLimitTTL = 10 * Minute, AuthBurst = 5, AuthEvery = Second, RequestBurst = 60,
     RequestEvery = Second, ReadHeaderTimeout = 5 * Second, RequestBodyLimit = 8192, SMTPAddr = '''', SMTPFrom = '''',
     SMTPUsername = '''', SMTPPassword = '''', PublicURL = '''', VerificationTTL = 24 * Hour, VAPIDPublicKey = '''',
     VAPIDPrivateKey = '''', VAPIDSubject = '''', PprofAddr = '''', SeedDemoData = False, LogLevel = ''info''\<rparr>"

definition demo_libraries :: "(exact_bucket, int) Libraries" where
  "demo_libraries = \<lparr>Lib_handler = small_handler, Lib_hmac = (\<lambda>k s. s), Lib_IDKey = (\<lambda>_ _ _ _ _ n. replicate (nat n) (CHR ''k'')),
     Lib_bcrypt = (\<lambda>_ _. Inl (Opaque ''bcrypt'')), Lib_ParseAddress = (\<lambda>_. Inr ()), Lib_SplitHostPort = (\<lambda>a. Inr (a, '''')),
     Lib_package = exact_package, Lib_page = '''', Lib_exists = (\<lambda>_. False), Lib_files = (\<lambda>_. []), Lib_metrics = [], Lib_stream = (\<lambda>_ _. []), Lib_ping = Inr ()\<rparr>"

abbreviation demo_wiring :: "(exact_bucket, int) Wiring" where
  "demo_wiring \<equiv> wiring_of demo_libraries demo_config ''secret'' None None"

definition demo_process :: "exact_bucket Process" where
  "demo_process = (case seedMemoryStores 0 of (events, seats) \<Rightarrow> fresh_process demo_config events seats)"

definition demo_bought :: World where
  "demo_bought =
     (let w = (world_of demo_process)\<lparr>W_users := [(''alice@example.com'', mail_owner)]\<rparr>;
          w = fst (HoldSeat (reservations_of demo_config) 10 10 ''h1'' ''event-1'' ''A1'' ''alice'' w)
      in fst (ConfirmReservation (reservations_of demo_config) 20 20 ''ABCDEFGHJ'' ''h1'' ''alice'' w))"


lemma demo_bought_sale: "ledger (W_seats demo_bought) (seatKey ''event-1'' ''A1'') = Some (Sold ''alice'' ''SH-ABCD-EFGH'')"
  by code_simp

lemma wired_service [simp]:
  "H_service (Wi_api (wiring_of lib cfg tokens mailer pusher)) = reservations_of cfg"
  by (simp add: wiring_of_def api_of_def Let_def New_def WithBodyLimit_def WithBroker_def WithVerification_def
      WithNotifications_def WithAdmin_def WithProber_def WithMetrics_def WithWaitingList_def WithWeb_def WithPush_def
      split: option.split)

theorem started_server_sells_once_witness:
  "verified_account (W_users demo_bought) ''alice''"
proof -
  let ?w1 = "(world_of demo_process)\<lparr>W_users := [(''alice@example.com'', mail_owner)]\<rparr>"
  let ?w2 = "fst (HoldSeat (reservations_of demo_config) 10 10 ''h1'' ''event-1'' ''A1'' ''alice'' ?w1)"
  let ?p1 = "demo_process\<lparr>P_server := (P_server demo_process)\<lparr>S_world := ?w1\<rparr>\<rparr>"
  let ?p2 = "?p1\<lparr>P_server := (P_server ?p1)\<lparr>S_world := ?w2\<rparr>\<rparr>"
  let ?p3 = "?p2\<lparr>P_server := (P_server ?p2)\<lparr>S_world := demo_bought\<rparr>\<rparr>"
  obtain events seats where seeds: "seedMemoryStores 0 = (events, seats)" by (cases "seedMemoryStores 0")
  have opened: "openStores (Inr ()) (Inr ()) demo_config 0 ([], []) = (([], []), 0, Inr (Memory_stores events seats))"
    by (simp add: openStores_def demo_config_def UsesDatabase_def seeds)
  have start: "demo_process = fresh_process demo_config events seats" by (simp add: demo_process_def seeds)
  have no_users: "W_users (world_of demo_process) = []" by (simp add: start fresh_process_def)
  have "hold_is_new (W_seats ?w1) ''h1''"
    using seed_seats [of 0] by (fastforce simp: hold_is_new_def start fresh_process_def seeds demoSeats_eq NewSeat_def)
  then have s2: "site_step demo_wiring ?p1 ?p2" by (intro site_background) (simp add: does_hold)
  have "CreateUser mail_owner (W_users (world_of demo_process)) = Inr [(''alice@example.com'', mail_owner)]"
    by (simp add: no_users CreateUser_def mail_owner_def)
  then have s1: "site_step demo_wiring demo_process ?p1"
    by (intro site_background does_register [of _ mail_owner]) (simp_all add: no_users user_id_new_def)
  have bought: "demo_bought = fst (ConfirmReservation (reservations_of demo_config) 20 20 ''ABCDEFGHJ'' ''h1'' ''alice'' ?w2)"
    by (simp add: demo_bought_def Let_def)
  have "service_step (reservations_of demo_config) icfg p ?w2 demo_bought" for icfg p
    unfolding bought by (rule does_confirm)
  then have s3: "site_step demo_wiring ?p2 ?p3" by (intro site_background) simp
  have steps: "site_steps demo_wiring demo_process ?p3"
    using s1 s2 s3 by (meson rtranclp.rtrancl_refl rtranclp.rtrancl_into_rtrancl)
  have "ledger (W_seats (world_of ?p3)) (seatKey ''event-1'' ''A1'') = Some (Sold ''alice'' ''SH-ABCD-EFGH'')"
    by (simp add: demo_bought_sale)
  from started_server_sells_once [OF opened steps [unfolded start] rtranclp.rtrancl_refl this [unfolded start]]
  show ?thesis by simp
qed

section \<open>Seeding again\<close>

lemma new_row_checks: "Seat_Status s = StatusAvailable \<Longrightarrow> row_checks (new_row s)"
  by (simp add: row_checks_def new_row_def)

lemma insert_loop_known:
  "\<forall>s \<in> set seats. map_of t (Seat_EventID s, Seat_ID s) \<noteq> None \<Longrightarrow> insert_loop seats n t = Inr (t, n)"
  by (induction seats arbitrary: n) auto

lemma insert_loop_keeps:
  "insert_loop seats n t = Inr (t', m) \<Longrightarrow> map_of t k = Some row \<Longrightarrow> map_of t' k = Some row"
proof (induction seats arbitrary: n t)
  case (Cons s seats)
  show ?case
  proof (cases "map_of t (Seat_EventID s, Seat_ID s)")
    case None
    then have "map_of (AList.update (Seat_EventID s, Seat_ID s) (new_row s) t) k = Some row"
      using Cons.prems(2) by (auto simp: update_conv' simp del: map_of_eq_Some_iff)
    moreover have "insert_loop seats (n + 1) (AList.update (Seat_EventID s, Seat_ID s) (new_row s) t) = Inr (t', m)"
      using Cons.prems(1) None by (simp split: if_splits)
    ultimately show ?thesis using Cons.IH by blast
  next
    case (Some r)
    then show ?thesis using Cons by simp
  qed
qed simp

lemma insert_loop_ok:
  "\<forall>s \<in> set seats. Seat_Status s = StatusAvailable \<Longrightarrow> \<exists>t' m. insert_loop seats n t = Inr (t', m)"
  by (induction seats arbitrary: n t) (auto simp: new_row_checks)

lemma insert_loop_has:
  "insert_loop seats n t = Inr (t', m) \<Longrightarrow> s \<in> set seats \<Longrightarrow> map_of t' (Seat_EventID s, Seat_ID s) \<noteq> None"
proof (induction seats arbitrary: n t)
  case (Cons a seats)
  show ?case
  proof (cases "s = a")
    case True
    obtain t1 k row where "insert_loop seats k t1 = Inr (t', m)" "map_of t1 (Seat_EventID s, Seat_ID s) = Some row"
      using Cons.prems True
      by (cases "map_of t (Seat_EventID a, Seat_ID a)")
        (auto simp: update_conv' simp del: map_of_eq_Some_iff split: if_splits)
    then show ?thesis using insert_loop_keeps by fastforce
  next
    case False
    then show ?thesis using Cons by (auto split: if_splits)
  qed
qed simp

lemma demo_event_inserted:
  "insertEventSQL (demoEvent now) t =
     Inr (if map_of t ''event-1'' \<noteq> None then (t, 0) else (AList.update ''event-1'' (eventValues (demoEvent now)) t, 1))"
proof -
  have "event_checks (eventValues (demoEvent now))" "Event_ID (demoEvent now) = ''event-1''"
    by (simp_all add: event_checks_def eventValues_def demoEvent_def WithDefaults_def Let_def)
  then show ?thesis by (simp add: insertEventSQL_def)
qed

lemma insert_events_demo:
  "Postgres_InsertEvents [demoEvent now] t =
     (if map_of t ''event-1'' \<noteq> None then t else AList.update ''event-1'' (eventValues (demoEvent now)) t, Inr ())"
  by (simp add: Postgres_InsertEvents_def demo_event_inserted)

lemma demoEvent_ID [simp]: "Event_ID (demoEvent now) = ''event-1''"
  by (simp add: demoEvent_def)

lemma insert_seats_demo:
  "Postgres_InsertSeats (demoSeats e) t =
     (case insert_loop (demoSeats e) 0 t of Inl err \<Rightarrow> (t, Inl err) | Inr (t', _) \<Rightarrow> (t', Inr ()))"
proof -
  have "demoSeats e \<noteq> []" by (simp add: demoSeats_eq)
  then show ?thesis by (auto simp: Postgres_InsertSeats_def insertSeats_def split: sum.split prod.split)
qed

text \<open>C20. Restarting a server that seeds demo data disturbs nothing: the first seeding leaves every row that was there as it
  was and puts every demo row in, and seeding again, at any later time and whatever has been done to the rows since,
  succeeds and changes neither table, as long as the rows are still there. Held and sold seats stay held and sold.\<close>

theorem seeding_again_changes_nothing:
  assumes "seedPostgresStores now (events, seats) = ((events1, seats1), Inr ())"
    and "dom (map_of events1) \<subseteq> dom (map_of events2)" and "dom (map_of seats1) \<subseteq> dom (map_of seats2)"
  shows "map_of events \<subseteq>\<^sub>m map_of events1 \<and> map_of seats \<subseteq>\<^sub>m map_of seats1 \<and>
    map_of events1 ''event-1'' \<noteq> None \<and>
    (\<forall>s \<in> set (demoSeats ''event-1''). map_of seats1 (''event-1'', Seat_ID s) \<noteq> None) \<and>
    seedPostgresStores later (events2, seats2) = ((events2, seats2), Inr ())"
proof -
  obtain n where loop: "insert_loop (demoSeats ''event-1'') 0 seats = Inr (seats1, n)"
    and events1: "events1 = (if map_of events ''event-1'' \<noteq> None then events
      else AList.update ''event-1'' (eventValues (demoEvent now)) events)"
    using assms(1) by (auto simp: seedPostgresStores_def insert_events_demo insert_seats_demo split: sum.splits prod.splits)
  have event: "Seat_EventID s = ''event-1''" if "s \<in> set (demoSeats ''event-1'')" for s
    using that by (auto simp: demoSeats_def NewSeat_def)
  have has: "map_of seats1 (''event-1'', Seat_ID s) \<noteq> None" if "s \<in> set (demoSeats ''event-1'')" for s
    using insert_loop_has [OF loop that] event [OF that] by simp
  have there: "map_of events1 ''event-1'' \<noteq> None" by (simp add: events1 update_conv')
  have "map_of events \<subseteq>\<^sub>m map_of events1" by (auto simp: map_le_def events1 update_conv')
  moreover have "map_of seats \<subseteq>\<^sub>m map_of seats1"
    using insert_loop_keeps [OF loop] by (fastforce simp: map_le_def)
  moreover have "seedPostgresStores later (events2, seats2) = ((events2, seats2), Inr ())"
  proof -
    have "map_of events2 ''event-1'' \<noteq> None" using there assms(2) by blast
    moreover have "insert_loop (demoSeats ''event-1'') 0 seats2 = Inr (seats2, 0)"
    proof (rule insert_loop_known, rule ballI)
      fix s
      assume s: "s \<in> set (demoSeats ''event-1'')"
      have "(''event-1'', Seat_ID s) \<in> dom (map_of seats1)" using has [OF s] unfolding domIff .
      then have "(''event-1'', Seat_ID s) \<in> dom (map_of seats2)" using assms(3) by (rule rev_subsetD)
      then show "map_of seats2 (Seat_EventID s, Seat_ID s) \<noteq> None" unfolding event [OF s] domIff .
    qed
    ultimately show ?thesis by (simp add: seedPostgresStores_def insert_events_demo insert_seats_demo)
  qed
  ultimately show ?thesis using has there by blast
qed

lemma seed_empty: "snd (seedPostgresStores now ([], [])) = Inr ()"
proof -
  have "\<forall>s \<in> set (demoSeats ''event-1''). Seat_Status s = StatusAvailable"
    by (simp add: demoSeats_eq NewSeat_def)
  then obtain t' m where "insert_loop (demoSeats ''event-1'') 0 [] = Inr (t', m)" using insert_loop_ok by blast
  then show ?thesis by (simp add: seedPostgresStores_def insert_events_demo insert_seats_demo)
qed

theorem seeding_again_changes_nothing_witness:
  "\<exists>events seats. seedPostgresStores 0 ([], []) = ((events, seats), Inr ()) \<and>
     seedPostgresStores 500 (events, map (\<lambda>(k, row). (k, row\<lparr>row_status := ''held''\<rparr>)) seats) =
       ((events, map (\<lambda>(k, row). (k, row\<lparr>row_status := ''held''\<rparr>)) seats), Inr ())"
proof -
  obtain events seats where first: "seedPostgresStores 0 ([], []) = ((events, seats), Inr ())"
    using seed_empty [of 0] by (metis prod.collapse)
  have "dom (map_of seats) \<subseteq> dom (map_of (map (\<lambda>(k, row). (k, row\<lparr>row_status := ''held''\<rparr>)) seats))"
    by (simp add: dom_map_of_conv_image_fst image_image case_prod_unfold)
  with seeding_again_changes_nothing [OF first subset_refl] first show ?thesis by blast
qed

section \<open>Starting and stopping\<close>

definition happens_before :: "life list \<Rightarrow> life \<Rightarrow> life \<Rightarrow> bool" where
  "happens_before steps a b \<longleftrightarrow> b \<in> set (tl (dropWhile (\<lambda>s. s \<noteq> a) steps))"

definition all_loops :: "loop list" where
  "all_loops = [Handoff_loop, Delivery_loop, Verification_loop, Revocation_loop, Hold_loop, Limiter_loop]"

text \<open>The ways \<open>run\<close> can go: what it did, where it did not end well, and the one way it ends well.\<close>

definition life_of :: "nat \<Rightarrow> life list" where
  "life_of n =
     [[Profiler_stopped, Context_cancelled],
      Stores_opened # deferred,
      Stores_opened # map Loop_started (butlast all_loops) @ deferred,
      Stores_opened # map Loop_started all_loops @ Serving # deferred,
      Stores_opened # map Loop_started all_loops @ Serving # Server_stopped #
        map Loop_done [Hold_loop, Limiter_loop, Handoff_loop, Revocation_loop, Delivery_loop, Verification_loop] @ deferred] ! n"

lemmas life_simps = life_of_def all_loops_def deferred_def

lemma run_shape:
  "\<exists>n < 5. fst (run lib cfg out now db) = life_of n \<and> (snd (run lib cfg out now db) = Inr () \<longleftrightarrow> n = 4)"
proof -
  have "(\<exists>err. run lib cfg out now db = (life_of 0, Inl err)) \<or> (\<exists>err. run lib cfg out now db = (life_of 1, Inl err))
      \<or> (\<exists>err. run lib cfg out now db = (life_of 2, Inl err)) \<or> (\<exists>err. run lib cfg out now db = (life_of 3, Inl err))
      \<or> run lib cfg out now db = (life_of 4, Inr ())"
    by (simp add: run_def Let_def life_simps split: sum.split prod.split ending.split)
  then show ?thesis by (elim disjE exE) (auto intro: exI [of _ 0] exI [of _ 1] exI [of _ 2] exI [of _ 3] exI [of _ 4])
qed


definition good_outcomes :: Outcomes where
  "good_outcomes = \<lparr>O_pool = Inr (), O_ping = Inr (), O_streams = Inr (), O_salt = Inr ''0123456789abcdef'', O_decoy = ''decoy'',
     O_handoff = Inr (), O_ui = Inr (), O_ending = Signal, O_shutdown = Inr ()\<rparr>"


section \<open>A configuration that was accepted starts\<close>



end
