(* ===== verification/Spec2Isabelle.thy ===== *)
theory Spec2Isabelle
  imports Site Event_Table Idempotency_Table Account_Table Notice_Table Live_Stream Startup
begin

text \<open>
  A verification of the ticket reservation server under \<open>src/\<close>.

  \<^bold>\<open>The program.\<close> A server sells the seats of events. An account may hold a seat for some minutes and confirm
  the hold into a ticket, or queue for an event that is full; a seat that falls free is handed to the front of
  the queue. Administrators create, stock, change and withdraw events; a withdrawal is announced to everybody
  it concerns, in the application and by mail and push. The packages are \<open>domain\<close> (rules without state),
  \<open>repository\<close> (stores behind interfaces, in memory and in Postgres), \<open>service\<close> (the operations),
  \<open>event\<close> (live notices), \<open>auth\<close>, \<open>notify\<close>, \<open>config\<close> and \<open>handler\<close> (HTTP).

  \<^bold>\<open>The theories.\<close>
  \<^item> \<open>Prelude\<close>, \<open>Errors\<close>, \<open>Go_Strings\<close>: the Go that the program uses (64-bit integers, instants, byte strings, maps
    as association lists without repeated keys, \<open>slices.SortFunc\<close>), the sentinel errors and \<open>errors.Is\<close>.
  \<^item> \<open>Seat_Domain\<close>, \<open>Event_Domain\<close>, \<open>User_Domain\<close>, \<open>Notice_Domain\<close>: \<open>internal/domain\<close>, one record per struct and one
    function per method; a method that changes its receiver gives the new receiver, or an error and no change.
  \<^item> \<open>Seat_Store\<close>, \<open>Event_Store\<close>, \<open>Waiting_Store\<close>, \<open>Claim_Queue\<close>, \<open>Notice_Stores\<close>, \<open>Account_Stores\<close>: the in-memory stores of
    \<open>internal/repository\<close>. The interfaces the services rely on are locales (\<open>seat_repository\<close>, \<open>event_repository\<close>,
    \<open>waiting_list\<close>, \<open>claim_queue\<close>) with the contract as laws, and every store interprets its locale.
  \<^item> \<open>Same_Store\<close>, \<open>Row_Maps\<close>: when two stores answer alike, as locales over a relation of their states, and what rows of a
    table say as a map.
  \<^item> \<open>Seat_Table\<close>, \<open>Event_Table\<close>, \<open>Waiting_Table\<close>, \<open>Idempotency_Table\<close>, \<open>Account_Table\<close>, \<open>Notice_Table\<close>: the Postgres stores
    over the rows of their tables. Every SQL statement is a function of the rows, with the check constraints and unique
    indexes of the migrations; each operation of a store runs its statements as the code does.
  \<^item> \<open>Seat_Machine\<close>: the seat store as a state machine under every interleaving of its calls, and its refinement
    of an abstract ledger of places that are free, taken or sold.
  \<^item> \<open>Broker\<close>, \<open>Live_Stream\<close>: \<open>internal/event\<close>, the subscribers and their buffered channels, and the event stream of
    \<open>internal/handler/stream.go\<close> that reads from one.
  \<^item> \<open>Reservation\<close>, \<open>Inventory\<close>, \<open>Accounts\<close>, \<open>Deliveries\<close>: \<open>internal/service\<close>, \<open>internal/notify\<close> and the bearer-token middleware.
    The stores the services share are fields of one record that the operations thread.
  \<^item> \<open>Mail\<close>: \<open>smtp.go\<close> and \<open>header.go\<close> of \<open>internal/notify\<close>, byte for byte, with a reader of messages as the other end.
  \<^item> \<open>Auth_Token\<close>, \<open>Password\<close>: \<open>internal/auth\<close> down to base64url, decimal numbers and the text of a stored hash.
  \<^item> \<open>Configuration\<close>: \<open>internal/config\<close>, what is read from the environment, refused, and written to the log.
  \<^item> \<open>Http_Answers\<close>, \<open>Idempotency\<close>: the error table, the recording writer and the retry middleware of
    \<open>internal/handler\<close>, the latter also as interleaved halves.
  \<^item> \<open>Service_Machine\<close>: runs of the whole server, as a step relation over every operation.
  \<^item> \<open>Http_Shapes\<close>, \<open>Handlers\<close>, \<open>Http_Server\<close>, \<open>Purchase\<close>: the JSON shapes, the handlers and their routes, what they
    promise together, and a purchase as a sequence of requests with everybody else's in between.
  \<^item> \<open>Rate_Limit\<close>, \<open>Middleware\<close>, \<open>Site\<close>: the limiter, the chain of middleware, and the process that answers any sequence of
    requests through it with the workers in between.
  \<^item> \<open>Web_Pages\<close>: \<open>internal/web\<close>, which path is answered with the page, with a file and with a 404.
  \<^item> \<open>Startup\<close>: \<open>cmd/server/main.go\<close>, from the configuration to the wiring of everything above, and the order in which the
    process starts and stops.

  \<^bold>\<open>What is shown.\<close> Seats: no interleaving sells a seat twice, a hold can be confirmed exactly until its
  deadline and retaken exactly from it on, a withdrawn event takes no more holds; the same from the moment the process
  starts, for the wiring of \<open>main\<close>. Queues: first come first served, a failed offer costs nobody their place. Notices:
  everybody concerned by a withdrawal is told once per claim, two workers never claim the same message within its lease,
  every message is sent, retried with a growing delay or given up, a mail that counts as sent reached the confirmed
  address with the head the program wrote, and a stream tells its reader what was published for them, in order.
  Accounts: registration and login agree, a signed-out session stays out, a link works once, tokens and password hashes
  round-trip and nothing unsigned is believed. Requests: a retried request is answered with the first answer and run once,
  a panic is contained and counted, every answer carries its headers, a limited caller is told how long to wait. Stores:
  each Postgres store answers every run of calls as the memory store does, except where stated (an answer without a body
  is not kept). The process: an accepted configuration starts, and what was opened is closed in the reverse order.

  \<^bold>\<open>Time, ids, randomness, failure.\<close> Readings of the clock and generated ids are arguments, so every statement holds for
  all of them; where the code relies on fresh ids the hypothesis says so. The calls on a store are atomic, as its mutex or
  its transaction makes them. The in-memory stores never fail; a statement of a Postgres store fails only by a
  constraint, so a connection that breaks is not in the model, and the collation of the database is an argument.
  Loops over slices and maps are structural recursions and loops over a select run along the list of what the select
  saw, so nothing needs fuel; the loop of the retrying seat store counts down the attempts it was configured with.

  \<^bold>\<open>Not modelled.\<close> Argon2 and bcrypt themselves, the MAC, the token bucket of the rate package, \<open>encoding/json\<close>, the QR
  encoder, the mail server, the push service, the parsers of URLs and mail addresses and the case tables of Unicode are
  parameters. Logging is left out, and so are the registry of metrics behind the middleware that feeds it, the
  embedded files, the migration runner, the profiler, the load generator and the other commands, which are
  flags and printing around operations that are modelled.
\<close>

end
